(* ===== verification/Prelude.thy ===== *)
theory Prelude
  imports Main "HOL-Library.Word" "HOL-Library.Multiset"
begin

unbundle bit_operations_syntax

text \<open>
  What every component shares. The machine types of the Rust code are named here (a signed or
  unsigned 64-bit integer and the bit pattern of an \<open>f64\<close> are all \<open>64 word\<close>), a Rust
  \<open>Result\<close> is the sum type \<open>fault + 'a\<close> whose left side is either an error value or a
  panic, and the theory collects list lemmas about slices, in-place writes and joined lists
  that the codec, the column builders and the SQL renderers all use.
\<close>

section \<open>Machine types\<close>

type_synonym u8 = "8 word"
type_synonym u16 = "16 word"
type_synonym u32 = "32 word"
type_synonym u64 = "64 word"
type_synonym i64 = "64 word"
type_synonym f64 = "64 word"
type_synonym bytes = "u8 list"

section \<open>Errors, panics and results\<close>

text \<open>The error type of \<open>error.rs\<close>: one constructor per variant, each with its message.\<close>

datatype error =
    Database string
  | InvalidUrl string
  | Codec string
  | TypeError string string
  | Unsupported string
  | Join string
  | OrmError string

text \<open>A Rust function that returns a \<open>Result\<close> may also panic (an index out of range).\<close>

datatype fault = Failure error | Panic

type_synonym 'a result = "fault + 'a"

abbreviation Ok :: "'a \<Rightarrow> 'a result" where
  "Ok x \<equiv> Inr x"

abbreviation Err :: "error \<Rightarrow> 'a result" where
  "Err e \<equiv> Inl (Failure e)"

abbreviation Panicked :: "'a result" where
  "Panicked \<equiv> Inl Panic"

text \<open>The question-mark operator: the first fault stops the computation.\<close>

definition bind_r :: "'e + 'a \<Rightarrow> ('a \<Rightarrow> 'e + 'b) \<Rightarrow> 'e + 'b" where
  "bind_r r f = (case r of Inl e \<Rightarrow> Inl e | Inr x \<Rightarrow> f x)"

definition is_ok :: "'e + 'a \<Rightarrow> bool" where
  "is_ok r = (case r of Inl _ \<Rightarrow> False | Inr _ \<Rightarrow> True)"

text \<open>\<open>ok_or\<close>: an absent value is the given error.\<close>

definition ok_or :: "'a option \<Rightarrow> error \<Rightarrow> 'a result" where
  "ok_or x e = (case x of None \<Rightarrow> Err e | Some v \<Rightarrow> Ok v)"

text \<open>A loop over a list that stops at the first fault, collecting the results.\<close>

fun map_r :: "('a \<Rightarrow> 'e + 'b) \<Rightarrow> 'a list \<Rightarrow> 'e + 'b list" where
  "map_r f [] = Inr []"
| "map_r f (x # xs) = bind_r (f x) (\<lambda>y. bind_r (map_r f xs) (\<lambda>ys. Inr (y # ys)))"

text \<open>A loop that threads a state through a list and stops at the first fault.\<close>

fun fold_r :: "('a \<Rightarrow> 's \<Rightarrow> 'e + 's) \<Rightarrow> 'a list \<Rightarrow> 's \<Rightarrow> 'e + 's" where
  "fold_r f [] s = Inr s"
| "fold_r f (x # xs) s = bind_r (f x s) (fold_r f xs)"

section \<open>Slices and in-place writes\<close>

text \<open>\<open>slice_at p n xs\<close> is \<open>xs[p..p+n]\<close>; \<open>copy_at p src xs\<close> is
  \<open>xs[p..p+src.len()].copy_from_slice(src)\<close>.\<close>

definition slice_at :: "nat \<Rightarrow> nat \<Rightarrow> 'a list \<Rightarrow> 'a list" where
  "slice_at p n xs = take n (drop p xs)"

definition copy_at :: "nat \<Rightarrow> 'a list \<Rightarrow> 'a list \<Rightarrow> 'a list" where
  "copy_at p src xs = take p xs @ src @ drop (p + length src) xs"

text \<open>\<open>intercalate sep xs\<close> is Rust's \<open>xs.join(sep)\<close>.\<close>

fun intercalate :: "'a list \<Rightarrow> 'a list list \<Rightarrow> 'a list" where
  "intercalate sep [] = []"
| "intercalate sep [x] = x"
| "intercalate sep (x # y # ys) = x @ sep @ intercalate sep (y # ys)"

text \<open>\<open>chunks n xs\<close> is \<open>xs.chunks(n)\<close> for a positive \<open>n\<close>.\<close>

function chunks :: "nat \<Rightarrow> 'a list \<Rightarrow> 'a list list" where
  "chunks n xs = (if n = 0 \<or> xs = [] then [] else take n xs # chunks n (drop n xs))"
  by pat_completeness auto
termination
  by (relation "measure (\<lambda>(n, xs). length xs)") auto

declare chunks.simps [simp del]

text \<open>The index of the first element that satisfies a predicate.\<close>

fun position :: "('a \<Rightarrow> bool) \<Rightarrow> 'a list \<Rightarrow> nat option" where
  "position p [] = None"
| "position p (x # xs) = (if p x then Some 0 else map_option Suc (position p xs))"

section \<open>Lemma collections\<close>

named_theorems slice_simps "reading a slice of a buffer that was written to"
named_theorems result_simps "the result type and its combinators"

section \<open>Results\<close>

lemma bind_r_simps [simp]:
  "bind_r (Inl e) f = Inl e"
  "bind_r (Inr x) f = f x"
  by (simp_all add: bind_r_def)

lemma bind_r_assoc: "bind_r (bind_r r f) g = bind_r r (\<lambda>x. bind_r (f x) g)"
  by (cases r) simp_all

lemma bind_r_eq_Inr [result_simps]:
  "(bind_r r f = Inr y) = (\<exists>x. r = Inr x \<and> f x = Inr y)"
  by (cases r) simp_all

lemma bind_r_eq_Inl:
  "(bind_r r f = Inl e) = (r = Inl e \<or> (\<exists>x. r = Inr x \<and> f x = Inl e))"
  by (cases r) simp_all

lemma bind_r_cong [fundef_cong]:
  "r = r' \<Longrightarrow> (\<And>x. r' = Inr x \<Longrightarrow> f x = f' x) \<Longrightarrow> bind_r r f = bind_r r' f'"
  by (cases r') simp_all

lemma is_ok_simps [simp]: "is_ok (Inl e) = False" "is_ok (Inr x) = True"
  by (simp_all add: is_ok_def)

lemma is_ok_iff: "is_ok r \<longleftrightarrow> (\<exists>x. r = Inr x)"
  by (cases r) simp_all

lemma ok_or_simps [simp]: "ok_or None e = Err e" "ok_or (Some v) e = Ok v"
  by (simp_all add: ok_or_def)

lemma ok_or_eq_Ok [result_simps]: "(ok_or x e = Inr v) = (x = Some v)"
  by (cases x) simp_all

lemma map_r_cong [fundef_cong]:
  "xs = ys \<Longrightarrow> (\<And>x. x \<in> set ys \<Longrightarrow> f x = g x) \<Longrightarrow> map_r f xs = map_r g ys"
  by (induction ys arbitrary: xs) auto

lemma map_r_eq_Inr:
  "(map_r f xs = Inr ys) = list_all2 (\<lambda>x y. f x = Inr y) xs ys"
proof (induction xs arbitrary: ys)
  case Nil
  then show ?case by (cases ys) simp_all
next
  case (Cons x xs)
  show ?case
    by (cases ys) (auto simp: bind_r_eq_Inr Cons.IH)
qed

lemma map_r_all_ok: "(\<And>x. x \<in> set xs \<Longrightarrow> f x = Inr (g x)) \<Longrightarrow> map_r f xs = Inr (map g xs)"
  by (induction xs) simp_all

lemma map_r_length: "map_r f xs = Inr ys \<Longrightarrow> length ys = length xs"
  by (auto simp: map_r_eq_Inr dest: list_all2_lengthD)

lemma fold_r_append: "fold_r f (xs @ ys) s = bind_r (fold_r f xs s) (fold_r f ys)"
  by (induction xs arbitrary: s) (simp_all add: bind_r_assoc cong: bind_r_cong)

lemma bind_r_return [simp]: "bind_r r Inr = r"
  by (cases r) simp_all

lemma fold_r_snoc: "fold_r f (xs @ [x]) s = bind_r (fold_r f xs s) (f x)"
  by (induction xs arbitrary: s) (simp_all add: bind_r_assoc cong: bind_r_cong)

lemma fold_r_invariant:
  assumes "fold_r f xs s = Inr t" and "P s"
    and "\<And>x s t. x \<in> set xs \<Longrightarrow> P s \<Longrightarrow> f x s = Inr t \<Longrightarrow> P t"
  shows "P t"
  using assms
proof (induction xs arbitrary: s)
  case Nil
  then show ?case by simp
next
  case (Cons x xs)
  from Cons.prems(1) obtain u where u: "f x s = Inr u" "fold_r f xs u = Inr t"
    by (auto simp: bind_r_eq_Inr)
  have "P u" using Cons.prems(2,3) u(1) by auto
  from Cons.IH [OF u(2) this] Cons.prems(3) show ?case by auto
qed

section \<open>Slices\<close>

lemma length_slice_at [simp]: "length (slice_at p n xs) = min n (length xs - p)"
  by (simp add: slice_at_def)

lemma slice_at_0 [simp]: "slice_at p 0 xs = []"
  by (simp add: slice_at_def)

lemma slice_at_append1 [slice_simps]:
  "p + n \<le> length xs \<Longrightarrow> slice_at p n (xs @ ys) = slice_at p n xs"
  by (simp add: slice_at_def)

lemma slice_at_exact [slice_simps]:
  "length xs = p \<Longrightarrow> length ys = n \<Longrightarrow> slice_at p n (xs @ ys @ zs) = ys"
  by (simp add: slice_at_def)

lemma slice_at_exact_end [slice_simps]:
  "length xs = p \<Longrightarrow> length ys = n \<Longrightarrow> slice_at p n (xs @ ys) = ys"
  by (simp add: slice_at_def)

lemma slice_at_slice_at:
  "q + m \<le> n \<Longrightarrow> slice_at q m (slice_at p n xs) = slice_at (p + q) m xs"
  by (simp add: slice_at_def drop_take ac_simps)

lemma slice_at_prefix: "slice_at 0 n (take n xs) = slice_at 0 n xs"
  by (simp add: slice_at_def)

lemma nth_slice_at: "i < n \<Longrightarrow> p + i < length xs \<Longrightarrow> slice_at p n xs ! i = xs ! (p + i)"
  by (simp add: slice_at_def)

lemma slice_at_eqI:
  assumes "p + n \<le> length xs" "length ys = length xs"
    and "\<And>i. p \<le> i \<Longrightarrow> i < p + n \<Longrightarrow> xs ! i = ys ! i"
  shows "slice_at p n xs = slice_at p n ys"
  using assms by (intro nth_equalityI) (auto simp: nth_slice_at)

lemma length_copy_at [simp]:
  "p + length src \<le> length xs \<Longrightarrow> length (copy_at p src xs) = length xs"
  by (simp add: copy_at_def)

lemma nth_copy_at:
  "p + length src \<le> length xs \<Longrightarrow> i < length xs \<Longrightarrow>
    copy_at p src xs ! i = (if p \<le> i \<and> i < p + length src then src ! (i - p) else xs ! i)"
  by (auto simp: copy_at_def nth_append min_def)

lemma slice_copy_same [slice_simps]:
  "p + length src \<le> length xs \<Longrightarrow> n = length src \<Longrightarrow> slice_at p n (copy_at p src xs) = src"
  by (simp add: slice_at_def copy_at_def)

lemma slice_copy_other [slice_simps]:
  "p + length src \<le> length xs \<Longrightarrow> q + n \<le> length xs \<Longrightarrow> q + n \<le> p \<or> p + length src \<le> q \<Longrightarrow>
    slice_at q n (copy_at p src xs) = slice_at q n xs"
  by (intro slice_at_eqI) (auto simp: nth_copy_at)

lemma slice_copy_within [slice_simps]:
  "p + length src \<le> length xs \<Longrightarrow> p \<le> q \<Longrightarrow> q + n \<le> p + length src \<Longrightarrow>
    slice_at q n (copy_at p src xs) = slice_at (q - p) n src"
  by (intro nth_equalityI) (auto simp: nth_slice_at nth_copy_at)

lemma copy_at_append:
  "p + length src \<le> length xs \<Longrightarrow> copy_at p src (xs @ ys) = copy_at p src xs @ ys"
  by (simp add: copy_at_def)

lemma drop_copy_at:
  "p + length src \<le> n \<Longrightarrow> n \<le> length xs \<Longrightarrow> drop n (copy_at p src xs) = drop n xs"
  by (simp add: copy_at_def)

lemma copy_at_comm:
  assumes "p + length a \<le> length xs" "q + length b \<le> length xs"
    and "p + length a \<le> q \<or> q + length b \<le> p"
  shows "copy_at p a (copy_at q b xs) = copy_at q b (copy_at p a xs)"
  using assms by (intro nth_equalityI) (auto simp: nth_copy_at)

section \<open>Joined lists, chunks, positions\<close>

lemma set_intercalate: "set (intercalate sep xs) \<subseteq> set sep \<union> (\<Union>x \<in> set xs. set x)"
  by (induction sep xs rule: intercalate.induct) auto

lemma intercalate_Cons:
  "intercalate sep (x # xs) = (if xs = [] then x else x @ sep @ intercalate sep xs)"
  by (cases xs) simp_all

lemma intercalate_append:
  "xs \<noteq> [] \<Longrightarrow> ys \<noteq> [] \<Longrightarrow> intercalate sep (xs @ ys) = intercalate sep xs @ sep @ intercalate sep ys"
  by (induction xs) (auto simp: intercalate_Cons)

lemma intercalate_eq_Nil:
  "sep \<noteq> [] \<Longrightarrow> (intercalate sep xs = []) = (xs = [] \<or> xs = [[]])"
  by (cases xs) (auto simp: intercalate_Cons)

lemma concat_chunks [simp]: "0 < n \<Longrightarrow> concat (chunks n xs) = xs"
proof (induction n xs rule: chunks.induct)
  case (1 n xs)
  then show ?case by (subst chunks.simps) auto
qed

lemma chunks_length: "0 < n \<Longrightarrow> c \<in> set (chunks n xs) \<Longrightarrow> 0 < length c \<and> length c \<le> n"
proof (induction n xs rule: chunks.induct)
  case (1 n xs)
  then show ?case
    by (subst (asm) (2) chunks.simps) (auto split: if_splits)
qed

lemma chunks_Nil [simp]: "chunks n [] = []"
  by (subst chunks.simps) simp

lemma position_Some:
  "position p xs = Some i \<Longrightarrow> i < length xs \<and> p (xs ! i) \<and> (\<forall>j < i. \<not> p (xs ! j))"
  by (induction xs arbitrary: i) (auto split: if_splits simp: nth_Cons split: nat.splits)

lemma position_None: "position p xs = None \<longleftrightarrow> (\<forall>x \<in> set xs. \<not> p x)"
  by (induction xs) auto

lemma find_Some_set: "List.find p xs = Some x \<Longrightarrow> x \<in> set xs \<and> p x"
  by (auto simp: find_Some_iff)

end
