(* ===== verification/RustStd.thy ===== *)
theory RustStd
  imports Prelude
begin

text \<open>
  The part of the Rust language and standard library the modelled code uses. A \<open>String\<close> is an
  Isabelle \<open>string\<close> read as its UTF-8 bytes (an Isabelle \<open>char\<close> is one byte), \<open>as_bytes\<close> and
  \<open>from_utf8\<close> move between strings and byte vectors, an \<open>f64\<close> is its bit pattern. The theory has
  the ASCII predicates, whitespace trimming with the Unicode white-space set, decimal printing,
  little-endian bytes, UTF-8 validation with lossy repair, and the \<open>f64\<close> conversions, order and
  shortest decimal rendering.
\<close>

section \<open>Bytes and strings\<close>

abbreviation code :: "char \<Rightarrow> nat" where
  "code c \<equiv> of_char c"

definition as_bytes :: "string \<Rightarrow> bytes" where
  "as_bytes s = map (\<lambda>c. word_of_nat (code c)) s"

definition of_bytes :: "bytes \<Rightarrow> string" where
  "of_bytes bs = map (\<lambda>b. char_of (unat b)) bs"

definition is_ascii_byte :: "u8 \<Rightarrow> bool" where
  "is_ascii_byte b \<longleftrightarrow> unat b < 128"

definition bytes_is_ascii :: "bytes \<Rightarrow> bool" where
  "bytes_is_ascii bs = list_all is_ascii_byte bs"

section \<open>ASCII characters\<close>

definition is_ascii_alphabetic :: "char \<Rightarrow> bool" where
  "is_ascii_alphabetic c \<longleftrightarrow> 65 \<le> code c \<and> code c \<le> 90 \<or> 97 \<le> code c \<and> code c \<le> 122"

definition is_ascii_digit :: "char \<Rightarrow> bool" where
  "is_ascii_digit c \<longleftrightarrow> 48 \<le> code c \<and> code c \<le> 57"

definition is_ascii_alphanumeric :: "char \<Rightarrow> bool" where
  "is_ascii_alphanumeric c \<longleftrightarrow> is_ascii_alphabetic c \<or> is_ascii_digit c"

text \<open>\<open>u8::is_ascii_whitespace\<close>: space, tab, line feed, form feed, carriage return.\<close>

definition is_ascii_whitespace :: "char \<Rightarrow> bool" where
  "is_ascii_whitespace c \<longleftrightarrow> code c \<in> {9, 10, 12, 13, 32}"

definition to_ascii_lower :: "char \<Rightarrow> char" where
  "to_ascii_lower c = (if 65 \<le> code c \<and> code c \<le> 90 then char_of (code c + 32) else c)"

definition to_ascii_upper :: "char \<Rightarrow> char" where
  "to_ascii_upper c = (if 97 \<le> code c \<and> code c \<le> 122 then char_of (code c - 32) else c)"

definition eq_ignore_ascii_case :: "string \<Rightarrow> string \<Rightarrow> bool" where
  "eq_ignore_ascii_case a b \<longleftrightarrow> map to_ascii_lower a = map to_ascii_lower b"

definition starts_with :: "string \<Rightarrow> string \<Rightarrow> bool" where
  "starts_with s p \<longleftrightarrow> take (length p) s = p"

definition strip_prefix :: "string \<Rightarrow> string \<Rightarrow> string option" where
  "strip_prefix s p = (if starts_with s p then Some (drop (length p) s) else None)"

definition strip_suffix :: "string \<Rightarrow> string \<Rightarrow> string option" where
  "strip_suffix s p =
     (if length p \<le> length s \<and> drop (length s - length p) s = p
      then Some (take (length s - length p) s) else None)"

definition option_or :: "'a option \<Rightarrow> 'a \<Rightarrow> 'a" where
  "option_or x d = (case x of None \<Rightarrow> d | Some v \<Rightarrow> v)"

section \<open>White space (the Unicode property, on UTF-8 bytes)\<close>

text \<open>
  The number of bytes of the white-space character at the front of the list, 0 when there is
  none: U+0009 to U+000D, U+0020, U+0085, U+00A0, U+1680, U+2000 to U+200A, U+2028, U+2029,
  U+202F, U+205F and U+3000.
\<close>

definition ws_front :: "nat list \<Rightarrow> nat" where
  "ws_front s =
     (case s of
        [] \<Rightarrow> 0
      | a # s1 \<Rightarrow>
          if 9 \<le> a \<and> a \<le> 13 \<or> a = 32 then 1
          else (case s1 of
             [] \<Rightarrow> 0
           | b # s2 \<Rightarrow>
               if a = 194 \<and> (b = 133 \<or> b = 160) then 2
               else (case s2 of
                  [] \<Rightarrow> 0
                | c # _ \<Rightarrow>
                    if a = 225 \<and> b = 154 \<and> c = 128
                      \<or> a = 226 \<and> b = 128 \<and> (128 \<le> c \<and> c \<le> 138 \<or> c = 168 \<or> c = 169 \<or> c = 175)
                      \<or> a = 226 \<and> b = 129 \<and> c = 159
                      \<or> a = 227 \<and> b = 128 \<and> c = 128
                    then 3 else 0)))"

text \<open>The same at the end of a string: the longest of the three shapes that matches.\<close>

definition ws_back :: "string \<Rightarrow> nat" where
  "ws_back s =
     (let n = length s; at = (\<lambda>k. if k \<le> n \<and> ws_front (map code (drop (n - k) s)) = k then k else 0)
      in if at 1 = 1 then 1 else if at 2 = 2 then 2 else if at 3 = 3 then 3 else 0)"

function trim_start :: "string \<Rightarrow> string" where
  "trim_start s = (let k = ws_front (map code s) in if s = [] \<or> k = 0 then s else trim_start (drop k s))"
  by pat_completeness auto
termination
  by (relation "measure length") auto

function trim_end :: "string \<Rightarrow> string" where
  "trim_end s = (let k = ws_back s in if s = [] \<or> k = 0 then s else trim_end (take (length s - k) s))"
  by pat_completeness auto
termination
  by (relation "measure length") auto

declare trim_start.simps [simp del] trim_end.simps [simp del]

definition trim :: "string \<Rightarrow> string" where
  "trim s = trim_end (trim_start s)"

text \<open>\<open>s.rfind(char::is_whitespace)\<close>: the byte index where the last white-space character starts.\<close>

definition rfind_ws :: "string \<Rightarrow> nat option" where
  "rfind_ws s = List.find (\<lambda>i. 0 < ws_front (map code (drop i s))) (rev [0..<length s])"

section \<open>Decimal printing\<close>

fun nat_to_string :: "nat \<Rightarrow> string" where
  "nat_to_string n =
     (if n < 10 then [char_of (48 + n)] else nat_to_string (n div 10) @ [char_of (48 + n mod 10)])"

declare nat_to_string.simps [simp del]

definition int_to_string :: "int \<Rightarrow> string" where
  "int_to_string i = (if i < 0 then ''-'' @ nat_to_string (nat (- i)) else nat_to_string (nat i))"

definition i64_to_string :: "i64 \<Rightarrow> string" where
  "i64_to_string i = int_to_string (sint i)"

section \<open>Little-endian bytes\<close>

fun nat_le :: "nat \<Rightarrow> nat \<Rightarrow> bytes" where
  "nat_le 0 x = []"
| "nat_le (Suc k) x = word_of_nat x # nat_le k (x div 256)"

fun of_le :: "bytes \<Rightarrow> nat" where
  "of_le [] = 0"
| "of_le (b # bs) = unat b + 256 * of_le bs"

definition u16_to_le :: "u16 \<Rightarrow> bytes" where
  "u16_to_le w = nat_le 2 (unat w)"

definition u32_to_le :: "u32 \<Rightarrow> bytes" where
  "u32_to_le w = nat_le 4 (unat w)"

definition u64_to_le :: "u64 \<Rightarrow> bytes" where
  "u64_to_le w = nat_le 8 (unat w)"

definition u16_of_le :: "bytes \<Rightarrow> u16" where
  "u16_of_le bs = word_of_nat (of_le bs)"

definition u32_of_le :: "bytes \<Rightarrow> u32" where
  "u32_of_le bs = word_of_nat (of_le bs)"

definition u64_of_le :: "bytes \<Rightarrow> u64" where
  "u64_of_le bs = word_of_nat (of_le bs)"

section \<open>UTF-8\<close>

datatype utf8_step = Scalar nat | Invalid nat | Truncated

text \<open>
  The first character of a byte list: a scalar value of so many bytes, an invalid sequence of
  so many bytes (the maximal prefix that could have started a character), or a character cut off
  by the end of the input.
\<close>

definition cont_in :: "bytes \<Rightarrow> nat \<Rightarrow> nat \<Rightarrow> nat \<Rightarrow> bool" where
  "cont_in bs i lo hi \<longleftrightarrow> i < length bs \<and> lo \<le> unat (bs ! i) \<and> unat (bs ! i) \<le> hi"

definition utf8_tail :: "bytes \<Rightarrow> nat \<Rightarrow> nat \<Rightarrow> nat \<Rightarrow> utf8_step" where
  "utf8_tail bs n lo hi =
     (if length bs \<le> 1 then Truncated
      else if \<not> cont_in bs 1 lo hi then Invalid 1
      else if n = 2 then Scalar 2
      else if length bs \<le> 2 then Truncated
      else if \<not> cont_in bs 2 128 191 then Invalid 2
      else if n = 3 then Scalar 3
      else if length bs \<le> 3 then Truncated
      else if \<not> cont_in bs 3 128 191 then Invalid 3
      else Scalar 4)"

definition utf8_first :: "bytes \<Rightarrow> utf8_step" where
  "utf8_first bs =
     (let x = unat (hd bs) in
      if x < 128 then Scalar 1
      else if 194 \<le> x \<and> x \<le> 223 then utf8_tail bs 2 128 191
      else if x = 224 then utf8_tail bs 3 160 191
      else if x = 237 then utf8_tail bs 3 128 159
      else if 225 \<le> x \<and> x \<le> 239 then utf8_tail bs 3 128 191
      else if x = 240 then utf8_tail bs 4 144 191
      else if 241 \<le> x \<and> x \<le> 243 then utf8_tail bs 4 128 191
      else if x = 244 then utf8_tail bs 4 128 143
      else Invalid 1)"

text \<open>The number of bytes a step covers is at least one, so the scan below stops.\<close>

definition step_width :: "bytes \<Rightarrow> nat" where
  "step_width bs = (case utf8_first bs of Scalar n \<Rightarrow> max 1 n | Invalid n \<Rightarrow> max 1 n | Truncated \<Rightarrow> length bs)"

function valid_utf8 :: "bytes \<Rightarrow> bool" where
  "valid_utf8 bs =
     (if bs = [] then True
      else (case utf8_first bs of Scalar n \<Rightarrow> valid_utf8 (drop (max 1 n) bs) | _ \<Rightarrow> False))"
  by pat_completeness auto
termination
  by (relation "measure length") auto

text \<open>\<open>String::from_utf8_lossy\<close>: every invalid sequence becomes U+FFFD (EF BF BD).\<close>

function utf8_lossy :: "bytes \<Rightarrow> bytes" where
  "utf8_lossy bs =
     (if bs = [] then []
      else (case utf8_first bs of
          Scalar n \<Rightarrow> take (max 1 n) bs @ utf8_lossy (drop (max 1 n) bs)
        | Invalid n \<Rightarrow> [239, 191, 189] @ utf8_lossy (drop (max 1 n) bs)
        | Truncated \<Rightarrow> [239, 191, 189]))"
  by pat_completeness auto
termination
  by (relation "measure length") auto

declare valid_utf8.simps [simp del] utf8_lossy.simps [simp del]

text \<open>The text of \<open>Utf8Error\<close>, with the index where the valid prefix ends.\<close>

function utf8_error :: "nat \<Rightarrow> bytes \<Rightarrow> string" where
  "utf8_error i bs =
     (if bs = [] then ''''
      else (case utf8_first bs of
          Scalar n \<Rightarrow> utf8_error (i + max 1 n) (drop (max 1 n) bs)
        | Invalid n \<Rightarrow> ''invalid utf-8 sequence of '' @ nat_to_string n @ '' bytes from index '' @ nat_to_string i
        | Truncated \<Rightarrow> ''incomplete utf-8 byte sequence from index '' @ nat_to_string i))"
  by pat_completeness auto
termination
  by (relation "measure (\<lambda>(i, bs). length bs)") auto

declare utf8_error.simps [simp del]

definition from_utf8 :: "bytes \<Rightarrow> string option" where
  "from_utf8 bs = (if valid_utf8 bs then Some (of_bytes bs) else None)"

text \<open>The invariant of Rust's \<open>String\<close>.\<close>

definition utf8_string :: "string \<Rightarrow> bool" where
  "utf8_string s \<longleftrightarrow> valid_utf8 (as_bytes s)"

section \<open>Floating point on bit patterns\<close>

definition f64_sign :: "f64 \<Rightarrow> bool" where
  "f64_sign w \<longleftrightarrow> 2 ^ 63 \<le> unat w"

definition f64_exp :: "f64 \<Rightarrow> nat" where
  "f64_exp w = unat w div 2 ^ 52 mod 2048"

definition f64_frac :: "f64 \<Rightarrow> nat" where
  "f64_frac w = unat w mod 2 ^ 52"

definition f64_is_nan :: "f64 \<Rightarrow> bool" where
  "f64_is_nan w \<longleftrightarrow> f64_exp w = 2047 \<and> f64_frac w \<noteq> 0"

definition f64_is_inf :: "f64 \<Rightarrow> bool" where
  "f64_is_inf w \<longleftrightarrow> f64_exp w = 2047 \<and> f64_frac w = 0"

definition f64_finite :: "f64 \<Rightarrow> bool" where
  "f64_finite w \<longleftrightarrow> f64_exp w \<noteq> 2047"

text \<open>A finite value is \<open>mant * 2 ^ scale\<close>, negative when the sign bit is set.\<close>

definition f64_mant :: "f64 \<Rightarrow> nat" where
  "f64_mant w = (if f64_exp w = 0 then f64_frac w else 2 ^ 52 + f64_frac w)"

definition f64_scale :: "f64 \<Rightarrow> int" where
  "f64_scale w = (if f64_exp w = 0 then -1074 else int (f64_exp w) - 1075)"

definition f64_trunc_abs :: "f64 \<Rightarrow> nat" where
  "f64_trunc_abs w =
     (if 0 \<le> f64_scale w then f64_mant w * 2 ^ nat (f64_scale w)
      else f64_mant w div 2 ^ nat (- f64_scale w))"

text \<open>\<open>f.fract() == 0.0\<close>: false for infinities and NaN.\<close>

definition f64_integral :: "f64 \<Rightarrow> bool" where
  "f64_integral w \<longleftrightarrow>
     f64_finite w \<and> (0 \<le> f64_scale w \<or> f64_mant w mod 2 ^ nat (- f64_scale w) = 0)"

definition clamp_i64 :: "int \<Rightarrow> i64" where
  "clamp_i64 x = word_of_int (max (- (2 ^ 63)) (min (2 ^ 63 - 1) x))"

text \<open>\<open>f as i64\<close>: truncation, saturating, NaN to 0.\<close>

definition f64_as_i64 :: "f64 \<Rightarrow> i64" where
  "f64_as_i64 w =
     (if f64_is_nan w then 0
      else if f64_is_inf w then clamp_i64 (if f64_sign w then - (2 ^ 63) else 2 ^ 63)
      else clamp_i64 (if f64_sign w then - int (f64_trunc_abs w) else int (f64_trunc_abs w)))"

text \<open>\<open>f.floor() as i64\<close>.\<close>

definition f64_floor_as_i64 :: "f64 \<Rightarrow> i64" where
  "f64_floor_as_i64 w =
     (if f64_is_nan w then 0
      else if f64_is_inf w then clamp_i64 (if f64_sign w then - (2 ^ 63) else 2 ^ 63)
      else clamp_i64
        (if f64_sign w
         then - int (f64_trunc_abs w) - (if f64_integral w then 0 else 1)
         else int (f64_trunc_abs w)))"

text \<open>The number of bits of a positive number, and \<open>i as f64\<close> (round to nearest, ties to even).\<close>

fun bit_len :: "nat \<Rightarrow> nat" where
  "bit_len n = (if n = 0 then 0 else Suc (bit_len (n div 2)))"

declare bit_len.simps [simp del]

definition i64_as_f64 :: "i64 \<Rightarrow> f64" where
  "i64_as_f64 i =
     (let n = sint i; m = nat \<bar>n\<bar>; e = bit_len m - 1;
          q = (if e \<le> 52 then m * 2 ^ (52 - e)
               else (let s = e - 52; h = m div 2 ^ s; r = m mod 2 ^ s; half = 2 ^ (s - 1)
                     in if half < r \<or> r = half \<and> odd h then h + 1 else h))
      in if m = 0 then 0
         else word_of_nat ((if n < 0 then 2 ^ 63 else 0) + (e + 1023) * 2 ^ 52 + q - 2 ^ 52))"

text \<open>
  \<open>total_cmp\<close>: the bits of a negative number are flipped (all but the sign), then the two
  patterns are compared as signed integers.
\<close>

definition f64_key :: "f64 \<Rightarrow> int" where
  "f64_key w = sint (w XOR (if f64_sign w then 2 ^ 63 - 1 else 0))"

section \<open>The shortest decimal rendering of an \<open>f64\<close>\<close>

text \<open>
  The rounding interval of a finite positive value, in units of \<open>2 ^ x\<close>: every decimal inside
  reads back as the same value. The bounds belong to the interval when the mantissa is even.
\<close>

definition f64_interval :: "f64 \<Rightarrow> nat \<times> nat \<times> nat \<times> int \<times> bool" where
  "f64_interval w =
     (let m = f64_mant w; s = f64_scale w
      in if f64_frac w = 0 \<and> 1 < f64_exp w
         then (4 * m - 1, 4 * m, 4 * m + 2, s - 2, even m)
         else (2 * m - 1, 2 * m, 2 * m + 1, s - 1, even m))"

text \<open>\<open>dec_cmp d p m x\<close> compares \<open>d * 10 ^ p\<close> with \<open>m * 2 ^ x\<close> after clearing denominators.\<close>

definition dec_sides :: "nat \<Rightarrow> int \<Rightarrow> nat \<Rightarrow> int \<Rightarrow> nat \<times> nat" where
  "dec_sides d p m x =
     (d * 10 ^ nat p * 2 ^ nat (- x), m * 2 ^ nat x * 10 ^ nat (- p))"

definition dec_le :: "nat \<Rightarrow> int \<Rightarrow> nat \<Rightarrow> int \<Rightarrow> bool" where
  "dec_le d p m x = (case dec_sides d p m x of (a, b) \<Rightarrow> a \<le> b)"

definition dec_ge :: "nat \<Rightarrow> int \<Rightarrow> nat \<Rightarrow> int \<Rightarrow> bool" where
  "dec_ge d p m x = (case dec_sides d p m x of (a, b) \<Rightarrow> b \<le> a)"

definition in_interval :: "nat \<times> nat \<times> nat \<times> int \<times> bool \<Rightarrow> nat \<Rightarrow> int \<Rightarrow> bool" where
  "in_interval iv d p =
     (case iv of (l, m, h, x, incl) \<Rightarrow>
        dec_ge d p l x \<and> dec_le d p h x
        \<and> (incl \<or> \<not> dec_le d p l x \<and> \<not> dec_ge d p h x))"

text \<open>\<open>E\<close> with \<open>10 ^ E \<le> v < 10 ^ (E + 1)\<close>, searched upwards from the smallest exponent.\<close>

fun dec_exponent :: "nat \<Rightarrow> int \<Rightarrow> nat \<Rightarrow> int \<Rightarrow> int" where
  "dec_exponent 0 e m x = e"
| "dec_exponent (Suc k) e m x = (if dec_le 1 (e + 1) m x then dec_exponent k (e + 1) m x else e)"

text \<open>The digits for one count of digits, rounding to the nearer candidate in the interval.\<close>

definition shortest_try :: "nat \<times> nat \<times> nat \<times> int \<times> bool \<Rightarrow> int \<Rightarrow> nat \<Rightarrow> (nat \<times> int) option" where
  "shortest_try iv e k =
     (case iv of (l, m, h, x, incl) \<Rightarrow>
        let p = e - int k + 1;
            d = (case dec_sides 1 p m x of (a, b) \<Rightarrow> b div a);
            down = in_interval iv d p; up = in_interval iv (d + 1) p
        in if down \<and> up then Some (if dec_le (2 * d + 1) p (2 * m) x then d + 1 else d, p)
           else if down then Some (d, p)
           else if up then Some (d + 1, p)
           else None)"

fun shortest_from :: "nat \<times> nat \<times> nat \<times> int \<times> bool \<Rightarrow> int \<Rightarrow> nat list \<Rightarrow> nat \<times> int" where
  "shortest_from iv e [] = (0, 0)"
| "shortest_from iv e (k # ks) =
     (case shortest_try iv e k of
        Some (d, p) \<Rightarrow> if d mod 10 = 0 then (d div 10, p + 1) else (d, p)
      | None \<Rightarrow> shortest_from iv e ks)"

definition dec_digits :: "nat \<Rightarrow> int \<Rightarrow> string" where
  "dec_digits d p =
     (let ds = nat_to_string d; e = int (length ds) + p
      in if e \<le> 0 then ''0.'' @ replicate (nat (- e)) (CHR ''0'') @ ds
         else if e < int (length ds) then take (nat e) ds @ ''.'' @ drop (nat e) ds
         else ds @ replicate (nat (e - int (length ds))) (CHR ''0''))"

definition f64_to_string :: "f64 \<Rightarrow> string" where
  "f64_to_string w =
     (if f64_is_nan w then ''NaN''
      else (if f64_sign w then ''-'' else '''') @
        (if f64_is_inf w then ''inf''
         else if f64_mant w = 0 then ''0''
         else (let iv = f64_interval w;
                   e = dec_exponent 700 (-330) (f64_mant w) (f64_scale w)
               in case shortest_from iv e [1..<18] of (d, p) \<Rightarrow> dec_digits d p)))"

section \<open>Lemmas: bytes and little-endian integers\<close>

lemma code_less [simp]: "code c < 256"
  by (metis mod_less_divisor of_char_mod_256 zero_less_numeral)

lemma length_as_bytes [simp]: "length (as_bytes s) = length s"
  by (simp add: as_bytes_def)

lemma length_of_bytes [simp]: "length (of_bytes bs) = length bs"
  by (simp add: of_bytes_def)

lemma as_bytes_Nil [simp]: "as_bytes [] = []"
  by (simp add: as_bytes_def)

lemma as_bytes_append [simp]: "as_bytes (a @ b) = as_bytes a @ as_bytes b"
  by (simp add: as_bytes_def)

lemma of_bytes_append [simp]: "of_bytes (a @ b) = of_bytes a @ of_bytes b"
  by (simp add: of_bytes_def)

lemma of_bytes_as_bytes [simp]: "of_bytes (as_bytes s) = s"
proof -
  have "char_of (unat (word_of_nat (code c) :: u8)) = c" for c
    by (simp add: unat_of_nat take_bit_eq_mod)
  then show ?thesis by (simp add: of_bytes_def as_bytes_def o_def)
qed

lemma as_bytes_of_bytes [simp]: "as_bytes (of_bytes bs) = bs"
proof -
  have "(word_of_nat (code (char_of (unat b))) :: u8) = b" for b :: u8
  proof -
    have "unat b < 256" using unsigned_less [of b, where ?'a = nat] by simp
    then have "code (char_of (unat b)) = unat b" by (simp add: of_char_of)
    then show ?thesis by simp
  qed
  then show ?thesis by (simp add: of_bytes_def as_bytes_def o_def)
qed

lemma from_utf8_utf8: "from_utf8 bs = Some s \<Longrightarrow> utf8_string s"
  by (auto simp: from_utf8_def utf8_string_def split: if_splits)

lemma as_bytes_inject [simp]: "as_bytes a = as_bytes b \<longleftrightarrow> a = b"
  by (metis of_bytes_as_bytes)

lemma length_nat_le [simp]: "length (nat_le k x) = k"
  by (induction k x rule: nat_le.induct) simp_all

lemma of_le_nat_le: "of_le (nat_le k x) = x mod 256 ^ k"
proof (induction k x rule: nat_le.induct)
  case (1 x)
  show ?case by simp
next
  case (2 k x)
  have "x mod 256 ^ Suc k = x mod 256 + 256 * (x div 256 mod 256 ^ k)"
    by (simp add: mod_mult2_eq)
  with 2 show ?case by (simp add: unat_of_nat take_bit_eq_mod)
qed

lemma length_le [simp]:
  "length (u16_to_le a) = 2" "length (u32_to_le b) = 4" "length (u64_to_le c) = 8"
  by (simp_all add: u16_to_le_def u32_to_le_def u64_to_le_def)

lemma of_le_to_le [simp]:
  "u16_of_le (u16_to_le a) = a" "u32_of_le (u32_to_le b) = b" "u64_of_le (u64_to_le c) = c"
proof -
  show "u16_of_le (u16_to_le a) = a"
    using unsigned_less [of a, where ?'a = nat] by (simp add: u16_of_le_def u16_to_le_def of_le_nat_le)
  show "u32_of_le (u32_to_le b) = b"
    using unsigned_less [of b, where ?'a = nat] by (simp add: u32_of_le_def u32_to_le_def of_le_nat_le)
  show "u64_of_le (u64_to_le c) = c"
    using unsigned_less [of c, where ?'a = nat] by (simp add: u64_of_le_def u64_to_le_def of_le_nat_le)
qed

lemma u32_to_le_inject [simp]: "u32_to_le a = u32_to_le b \<longleftrightarrow> a = b"
  by (metis of_le_to_le(2))

lemma u64_to_le_inject [simp]: "u64_to_le a = u64_to_le b \<longleftrightarrow> a = b"
  by (metis of_le_to_le(3))

end
