(* ===== verification/Utf8.thy ===== *)
theory Utf8
  imports RustStd
begin

text \<open>
  Lemmas about UTF-8 validity: a string splits at every byte that can start a character, so text
  may be inserted or cut at an ASCII byte without leaving the set of valid strings. The renderers
  and scanners of SQL text use them to show that no \<open>from_utf8\<close> on their output can fail.
\<close>

definition cont_byte :: "u8 \<Rightarrow> bool" where
  "cont_byte b \<longleftrightarrow> 128 \<le> unat b \<and> unat b \<le> 191"

text \<open>\<open>str::is_char_boundary\<close>.\<close>

definition is_char_boundary :: "string \<Rightarrow> nat \<Rightarrow> bool" where
  "is_char_boundary s k \<longleftrightarrow>
     k = 0 \<or> k = length s \<or> k < length s \<and> \<not> (128 \<le> code (s ! k) \<and> code (s ! k) \<le> 191)"

lemma utf8_tail_Scalar:
  assumes "utf8_tail bs k lo hi = Scalar n" "2 \<le> k" "k \<le> 4" "128 \<le> lo" "hi \<le> 191"
  shows "n = k \<and> n \<le> length bs \<and> (\<forall>i. 1 \<le> i \<and> i < n \<longrightarrow> cont_byte (bs ! i))"
proof -
  have "k \<in> {2, 3, 4}" using assms by auto
  then have k: "n = k" "n \<le> length bs" "cont_byte (bs ! 1)" "3 \<le> n \<Longrightarrow> cont_byte (bs ! 2)"
    "4 \<le> n \<Longrightarrow> cont_byte (bs ! 3)"
    using assms by (auto simp: utf8_tail_def cont_in_def cont_byte_def split: if_splits)
  have "cont_byte (bs ! i)" if "1 \<le> i" "i < n" for i
  proof -
    have "i = 1 \<or> i = 2 \<and> 3 \<le> n \<or> i = 3 \<and> 4 \<le> n" using that k(1) assms(3) by arith
    with k(3-5) show ?thesis by blast
  qed
  with k(1,2) show ?thesis by blast
qed

lemma utf8_first_Scalar:
  assumes "utf8_first bs = Scalar n" "bs \<noteq> []"
  shows "1 \<le> n" "n \<le> length bs" "\<And>i. 1 \<le> i \<Longrightarrow> i < n \<Longrightarrow> cont_byte (bs ! i)"
proof -
  have "1 \<le> n \<and> n \<le> length bs \<and> (\<forall>i. 1 \<le> i \<and> i < n \<longrightarrow> cont_byte (bs ! i))"
  proof (cases "unat (hd bs) < 128")
    case True
    with assms show ?thesis by (cases bs) (auto simp: utf8_first_def Let_def)
  next
    case False
    with assms(1) obtain k lo hi where "utf8_tail bs k lo hi = Scalar n" "2 \<le> k" "k \<le> 4" "128 \<le> lo" "hi \<le> 191"
      unfolding utf8_first_def Let_def by (auto split: if_splits)
    from utf8_tail_Scalar [OF this] \<open>2 \<le> k\<close> show ?thesis by auto
  qed
  then show "1 \<le> n" "n \<le> length bs" "\<And>i. 1 \<le> i \<Longrightarrow> i < n \<Longrightarrow> cont_byte (bs ! i)" by blast+
qed

lemma cont_in_append: "i < length a \<Longrightarrow> cont_in (a @ b) i lo hi = cont_in a i lo hi"
  by (simp add: cont_in_def nth_append)

lemma utf8_tail_prefix:
  assumes "2 \<le> k" "k \<le> length a" "k \<le> 4"
  shows "(utf8_tail (a @ b) k lo hi = Scalar n) = (utf8_tail a k lo hi = Scalar n)"
proof -
  have "k \<in> {2, 3, 4}" using assms by auto
  with assms show ?thesis
    by (auto simp: utf8_tail_def cont_in_append)
qed

lemma utf8_first_prefix:
  assumes "utf8_first (a @ b) = Scalar n" "n \<le> length a" "a \<noteq> []"
  shows "utf8_first a = Scalar n"
proof -
  have h: "hd (a @ b) = hd a" using assms(3) by simp
  have "\<And>k lo hi. utf8_tail (a @ b) k lo hi = Scalar n \<Longrightarrow> 2 \<le> k \<Longrightarrow> k \<le> 4 \<Longrightarrow> 128 \<le> lo \<Longrightarrow> hi \<le> 191 \<Longrightarrow>
      utf8_tail a k lo hi = Scalar n"
    using utf8_tail_Scalar utf8_tail_prefix assms(2) by metis
  with assms(1) show ?thesis
    unfolding utf8_first_def h Let_def by (auto split: if_splits)
qed

lemma utf8_first_extend:
  assumes "utf8_first a = Scalar n" "a \<noteq> []"
  shows "utf8_first (a @ b) = Scalar n"
proof -
  have h: "hd (a @ b) = hd a" using assms(2) by simp
  have "\<And>k lo hi. utf8_tail a k lo hi = Scalar n \<Longrightarrow> 2 \<le> k \<Longrightarrow> k \<le> 4 \<Longrightarrow> 128 \<le> lo \<Longrightarrow> hi \<le> 191 \<Longrightarrow>
      utf8_tail (a @ b) k lo hi = Scalar n"
    using utf8_tail_Scalar utf8_tail_prefix by metis
  with assms(1) show ?thesis
    unfolding utf8_first_def h Let_def by (auto split: if_splits)
qed

lemma valid_utf8_Nil [simp]: "valid_utf8 []"
  by (subst valid_utf8.simps) simp

lemma valid_utf8_step:
  "bs \<noteq> [] \<Longrightarrow> valid_utf8 bs \<longleftrightarrow> (\<exists>n. utf8_first bs = Scalar n \<and> valid_utf8 (drop n bs))"
  using utf8_first_Scalar(1) [of bs]
  by (subst valid_utf8.simps) (auto simp: max_def split: utf8_step.splits)

lemma utf8_lossy_valid: "valid_utf8 bs \<Longrightarrow> utf8_lossy bs = bs"
proof (induction bs rule: valid_utf8.induct)
  case (1 bs)
  show ?case
  proof (cases "bs = []")
    case True
    then show ?thesis by (subst utf8_lossy.simps) simp
  next
    case False
    with 1(2) obtain n where n: "utf8_first bs = Scalar n" "valid_utf8 (drop (max 1 n) bs)"
      by (subst (asm) valid_utf8.simps) (auto split: utf8_step.splits)
    from 1(1) [OF False n] False n(1) show ?thesis by (subst utf8_lossy.simps) simp
  qed
qed

lemma valid_utf8_append: "valid_utf8 a \<Longrightarrow> valid_utf8 (a @ b) = valid_utf8 b"
proof (induction a rule: measure_induct_rule [where f = length])
  case (less a)
  show ?case
  proof (cases "a = []")
    case False
    then obtain n where n: "utf8_first a = Scalar n" "valid_utf8 (drop n a)"
      using less.prems valid_utf8_step by blast
    note sc = utf8_first_Scalar [OF n(1) False]
    have "valid_utf8 (drop n a @ b) = valid_utf8 b"
      using less.IH n(2) sc(1) False by simp
    with utf8_first_extend [OF n(1) False, of b] sc(2) False show ?thesis
      by (simp add: valid_utf8_step [of "a @ b"])
  qed simp
qed

lemma valid_utf8_boundary:
  "valid_utf8 (a @ b) \<Longrightarrow> b = [] \<or> \<not> cont_byte (hd b) \<Longrightarrow> valid_utf8 a \<and> valid_utf8 b"
proof (induction a rule: measure_induct_rule [where f = length])
  case (less a)
  show ?case
  proof (cases "a = []")
    case True
    with less.prems show ?thesis by simp
  next
    case False
    then obtain n where n: "utf8_first (a @ b) = Scalar n" "valid_utf8 (drop n (a @ b))"
      using less.prems(1) valid_utf8_step by (metis Nil_is_append_conv)
    note sc = utf8_first_Scalar [OF n(1)]
    have le: "n \<le> length a"
    proof (rule ccontr)
      assume "\<not> n \<le> length a"
      then have "length a < n" by simp
      moreover have "1 \<le> length a" using False by (cases a) simp_all
      ultimately have "cont_byte ((a @ b) ! length a)" "b \<noteq> []"
        using sc(2,3) False by (blast, auto)
      with less.prems(2) show False by (simp add: nth_append hd_conv_nth)
    qed
    then have "valid_utf8 (drop n a) \<and> valid_utf8 b"
      using less.IH [of "drop n a"] n(2) sc(1) False less.prems(2) by simp
    with utf8_first_prefix [OF n(1) le False] False show ?thesis
      by (auto simp: valid_utf8_step [of a])
  qed
qed

lemma valid_utf8_ascii: "unat x < 128 \<Longrightarrow> valid_utf8 (x # bs) = valid_utf8 bs"
  by (simp add: valid_utf8_step [of "x # bs"] utf8_first_def)

section \<open>Strings\<close>

lemma unat_byte_of_char [simp]: "unat (word_of_nat (code c) :: u8) = code c"
  by (simp add: unat_of_nat take_bit_eq_mod)

lemma utf8_string_Nil [simp]: "utf8_string []"
  by (simp add: utf8_string_def)

lemma utf8_string_append: "utf8_string a \<Longrightarrow> utf8_string (a @ b) = utf8_string b"
  by (simp add: utf8_string_def valid_utf8_append)

lemma utf8_string_ascii: "code c < 128 \<Longrightarrow> utf8_string (c # s) = utf8_string s"
  by (simp add: utf8_string_def as_bytes_def valid_utf8_ascii)

lemma utf8_string_split: "code c < 128 \<Longrightarrow> utf8_string (a @ c # b) \<longleftrightarrow> utf8_string a \<and> utf8_string b"
proof
  assume c: "code c < 128" and u: "utf8_string (a @ c # b)"
  have "\<not> cont_byte (hd (as_bytes (c # b)))" using c by (simp add: cont_byte_def as_bytes_def)
  then have "utf8_string a \<and> utf8_string (c # b)"
    using u valid_utf8_boundary [of "as_bytes a" "as_bytes (c # b)"] by (simp add: utf8_string_def)
  with c show "utf8_string a \<and> utf8_string b" by (simp add: utf8_string_ascii)
next
  assume "code c < 128" "utf8_string a \<and> utf8_string b"
  then show "utf8_string (a @ c # b)" by (simp add: utf8_string_append utf8_string_ascii)
qed

lemma utf8_string_all_ascii: "(\<And>c. c \<in> set s \<Longrightarrow> code c < 128) \<Longrightarrow> utf8_string s"
  by (induction s) (simp_all add: utf8_string_ascii)

lemma utf8_string_nat [simp]: "utf8_string (nat_to_string n)"
proof (induction n rule: nat_to_string.induct)
  case (1 n)
  have d: "code (char_of (48 + m) :: char) < 128" if "m < 10" for m :: nat
    using that by (simp add: of_char_of)
  show ?case
  proof (cases "n < 10")
    case True
    with d show ?thesis by (subst nat_to_string.simps) (simp add: utf8_string_ascii)
  next
    case False
    with 1 d [of "n mod 10"] show ?thesis
      by (subst nat_to_string.simps) (simp add: utf8_string_append utf8_string_ascii)
  qed
qed

end
