(* ===== verification/SqlText.thy ===== *)
theory SqlText
  imports Utf8
begin

text \<open>
  The byte scanners over SQL text: the stacked-statement guard of \<open>guard.rs\<close>, the placeholder
  rewriting of \<open>pg.rs\<close> and \<open>ms.rs\<close> and the transaction statements of \<open>ms.rs\<close>. The scanners of
  the code walk an index through the bytes and only look ahead by one, so they are recursions on
  the rest of the text. \<open>lexemes\<close> is the reference reading of SQL text they are all compared with.
\<close>

section \<open>The inner loops\<close>

text \<open>Each loop returns the text it went over and the rest.\<close>

definition take_line :: "string \<Rightarrow> string \<times> string" where
  "take_line s = (takeWhile (\<lambda>c. c \<noteq> CHR 0x0A) s, dropWhile (\<lambda>c. c \<noteq> CHR 0x0A) s)"

fun take_block :: "string \<Rightarrow> string \<times> string" where
  "take_block (c # d # s) =
     (if c = CHR ''*'' \<and> d = CHR ''/'' then ([c, d], s)
      else (let (a, r) = take_block (d # s) in (c # a, r)))"
| "take_block s = (s, [])"

text \<open>Up to the closing quote; a doubled one does not close.\<close>

fun take_quoted :: "char \<Rightarrow> string \<Rightarrow> string \<times> string" where
  "take_quoted q (c # d # s) =
     (if c \<noteq> q then (let (a, r) = take_quoted q (d # s) in (c # a, r))
      else if d = q then (let (a, r) = take_quoted q s in (c # d # a, r))
      else ([c], d # s))"
| "take_quoted q s = (s, [])"

lemma take_line_split: "fst (take_line s) @ snd (take_line s) = s"
  by (simp add: take_line_def)

lemma take_block_split: "fst (take_block s) @ snd (take_block s) = s"
  by (induction s rule: take_block.induct) (simp_all add: Let_def case_prod_beta)

lemma take_quoted_split: "fst (take_quoted q s) @ snd (take_quoted q s) = s"
  by (induction q s rule: take_quoted.induct) (simp_all add: Let_def case_prod_beta)

lemma split_length: "a @ b = s \<Longrightarrow> length b \<le> length s"
  by auto

lemmas scan_length [simp] =
  split_length [OF take_line_split] split_length [OF take_block_split] split_length [OF take_quoted_split]

lemma take_line_dash [simp]: "c \<noteq> CHR 0x0A \<Longrightarrow> take_line (c # s) = (c # fst (take_line s), snd (take_line s))"
  by (simp add: take_line_def)

definition at_line_comment :: "string \<Rightarrow> bool" where
  "at_line_comment s \<longleftrightarrow> take 2 s = ''--''"

definition at_block_comment :: "string \<Rightarrow> bool" where
  "at_block_comment s \<longleftrightarrow> take 2 s = ''/*''"

lemma line_comment_shrinks: "at_line_comment (c # s) \<Longrightarrow> length (snd (take_line (c # s))) \<le> length s"
  by (simp add: at_line_comment_def)

section \<open>The guard\<close>

text \<open>The closing character of what a character opens: quotes close themselves, a bracket closes with a bracket.\<close>

definition guard_closer :: "char \<Rightarrow> char option" where
  "guard_closer c =
     (if c = CHR 0x27 \<or> c = CHR 0x22 \<or> c = CHR 0x60 then Some c
      else if c = CHR ''['' then Some (CHR '']'') else None)"

function guard_scan :: "bool \<Rightarrow> string \<Rightarrow> bool" where
  "guard_scan seen s =
     (case s of
        [] \<Rightarrow> False
      | c # s' \<Rightarrow>
          if at_line_comment s then guard_scan seen (snd (take_line s))
          else if at_block_comment s then guard_scan seen (snd (take_block (drop 2 s)))
          else if is_ascii_whitespace c then guard_scan seen s'
          else if seen then True
          else if c = CHR '';'' then guard_scan True s'
          else (case guard_closer c of
                  Some q \<Rightarrow> guard_scan seen (snd (take_quoted q s'))
                | None \<Rightarrow> guard_scan seen s'))"
  by pat_completeness auto
termination
  by (relation "measure (\<lambda>(_, s). length s)")
    (auto simp: line_comment_shrinks le_imp_less_Suc order.strict_trans1 [OF scan_length(2)])

declare guard_scan.simps [simp del]

definition has_stacked_statements :: "string \<Rightarrow> bool" where
  "has_stacked_statements sql = guard_scan False sql"

definition stacked_message :: string where
  "stacked_message =
     ''multiple SQL statements in one call are rejected (SQL-injection guard); '' @
     ''run them one per call, or use execute() without parameters for trusted DDL/seed batches''"

definition reject_stacked :: "string \<Rightarrow> unit result" where
  "reject_stacked sql = (if has_stacked_statements sql then Err (Database stacked_message) else Ok ())"

section \<open>Placeholders\<close>

text \<open>
  The scanner of \<open>translate_placeholders\<close>: the output and the count so far are arguments, as in the
  loop; \<open>mk n\<close> is the text pushed for the \<open>n\<close>-th placeholder.
\<close>

definition ph_closer :: "char \<Rightarrow> char option" where
  "ph_closer c = (if c = CHR 0x27 \<or> c = CHR 0x22 then Some c else None)"

function ph_scan :: "(nat \<Rightarrow> string) \<Rightarrow> nat \<Rightarrow> string \<Rightarrow> string \<Rightarrow> string" where
  "ph_scan mk n out s =
     (case s of
        [] \<Rightarrow> out
      | c # s' \<Rightarrow>
          (case ph_closer c of
             Some q \<Rightarrow> (let (a, r) = take_quoted q s' in ph_scan mk n (out @ c # a) r)
           | None \<Rightarrow>
               if at_line_comment s then (let (a, r) = take_line s in ph_scan mk n (out @ a) r)
               else if at_block_comment s
               then (let (a, r) = take_block (drop 2 s) in ph_scan mk n (out @ ''/*'' @ a) r)
               else if c = CHR ''?'' then ph_scan mk (n + 1) (out @ mk (n + 1)) s'
               else ph_scan mk n (out @ [c]) s'))"
  by pat_completeness auto
termination
  by (relation "measure (\<lambda>(_, _, _, s). length s)")
    (auto simp: line_comment_shrinks le_imp_less_Suc order.strict_trans1 [OF scan_length(2)]
      dest!: arg_cong [where f = snd and x = "(_, _)"])

declare ph_scan.simps [simp del]

definition pg_marker :: "nat \<Rightarrow> string" where
  "pg_marker n = CHR ''$'' # nat_to_string n"

definition ms_marker :: "nat \<Rightarrow> string" where
  "ms_marker n = ''@P'' @ nat_to_string n"

text \<open>\<open>String::from_utf8(out).expect(..)\<close> panics on output that is not UTF-8.\<close>

definition utf8_expect :: "string \<Rightarrow> string result" where
  "utf8_expect out = (case from_utf8 (as_bytes out) of Some s \<Rightarrow> Ok s | None \<Rightarrow> Panicked)"

definition pg_translate_placeholders :: "string \<Rightarrow> string result" where
  "pg_translate_placeholders sql = utf8_expect (ph_scan pg_marker 0 [] sql)"

definition ms_translate_placeholders :: "string \<Rightarrow> string result" where
  "ms_translate_placeholders sql = utf8_expect (ph_scan ms_marker 0 [] sql)"

section \<open>Transaction statements for SQL Server\<close>

text \<open>The slice \<open>s[..kw.len()]\<close> panics unless it ends on a character boundary.\<close>

definition strip_keyword :: "string \<Rightarrow> string \<Rightarrow> string option result" where
  "strip_keyword s kw =
     (if length kw < length s then
        (if \<not> is_char_boundary s (length kw) then Panicked
         else if eq_ignore_ascii_case (take (length kw) s) kw
         then Ok (Some (trim_start (drop (length kw) s))) else Ok None)
      else Ok None)"

definition normalize_tx :: "string \<Rightarrow> string option result" where
  "normalize_tx sql =
     (let t = trim sql; upper = map to_ascii_upper t in
      if upper = ''BEGIN'' \<or> upper = ''BEGIN IMMEDIATE'' then Ok (Some ''BEGIN TRANSACTION'')
      else bind_r (strip_keyword t ''SAVEPOINT '') (\<lambda>sp. case sp of
        Some name \<Rightarrow> Ok (Some (''SAVE TRANSACTION '' @ name))
      | None \<Rightarrow>
        bind_r (strip_keyword t ''ROLLBACK TO '') (\<lambda>rb. case rb of
          Some rest \<Rightarrow>
            bind_r (strip_keyword rest ''SAVEPOINT '')
              (\<lambda>n. Ok (Some (''ROLLBACK TRANSACTION '' @ option_or n rest)))
        | None \<Rightarrow>
          bind_r (strip_keyword t ''RELEASE '') (\<lambda>rl. case rl of
            Some rest \<Rightarrow> bind_r (strip_keyword rest ''SAVEPOINT '') (\<lambda>_. Ok None)
          | None \<Rightarrow> Ok (Some sql)))))"

end
