(* ===== verification/SqlLex.thy ===== *)
theory SqlLex
  imports SqlText
begin

text \<open>
  The reference reading of SQL text as a list of lexemes (single characters, quoted text, line and
  block comments) and the properties of the scanners of \<open>SqlText\<close> stated with it.
\<close>

section \<open>Lexemes\<close>

datatype lexeme = LChar char | LQuoted string | LLine string | LBlock string

fun lexeme_text :: "lexeme \<Rightarrow> string" where
  "lexeme_text (LChar c) = [c]"
| "lexeme_text (LQuoted s) = s"
| "lexeme_text (LLine s) = s"
| "lexeme_text (LBlock s) = s"

function lexemes :: "(char \<Rightarrow> char option) \<Rightarrow> string \<Rightarrow> lexeme list" where
  "lexemes cl s =
     (case s of
        [] \<Rightarrow> []
      | c # s' \<Rightarrow>
          if at_line_comment s then LLine (fst (take_line s)) # lexemes cl (snd (take_line s))
          else if at_block_comment s
          then LBlock (''/*'' @ fst (take_block (drop 2 s))) # lexemes cl (snd (take_block (drop 2 s)))
          else (case cl c of
              Some q \<Rightarrow> LQuoted (c # fst (take_quoted q s')) # lexemes cl (snd (take_quoted q s'))
            | None \<Rightarrow> LChar c # lexemes cl s'))"
  by pat_completeness auto
termination
  by (relation "measure (\<lambda>(_, s). length s)")
    (auto simp: line_comment_shrinks le_imp_less_Suc order.strict_trans1 [OF scan_length(2)])

declare lexemes.simps [simp del]

lemma lexemes_Nil [simp]: "lexemes cl [] = []"
  by (subst lexemes.simps) simp

lemma at_block_comment_split: "at_block_comment s \<Longrightarrow> s = ''/*'' @ drop 2 s"
  by (metis append_take_drop_id at_block_comment_def)

lemma lexemes_text: "concat (map lexeme_text (lexemes cl s)) = s"
proof (induction cl s rule: lexemes.induct)
  case (1 cl s)
  show ?case
  proof (cases s)
    case Nil
    then show ?thesis by simp
  next
    case (Cons c s')
    note IH = 1 [OF Cons]
    consider "at_line_comment s" | "\<not> at_line_comment s" "at_block_comment s"
      | "\<not> at_line_comment s" "\<not> at_block_comment s" by blast
    then show ?thesis
    proof cases
      case 1
      with IH(1) Cons show ?thesis
        by (subst lexemes.simps) (simp add: take_line_split del: take_line_dash)
    next
      case 2
      with IH(2) Cons at_block_comment_split [OF 2(2)] show ?thesis
        using take_block_split [of "drop 2 s"] by (subst lexemes.simps) simp
    next
      case 3
      with IH(3,4) Cons show ?thesis
        using take_quoted_split [of _ s']
        by (subst lexemes.simps) (auto split: option.splits)
    qed
  qed
qed

section \<open>A reference reading of SQL text\<close>

text \<open>
  What the lexical grammar of SQL says of every character, one at a time and independently of the
  scanners of the code: it is code, part of a quoted text (a literal or a quoted identifier, its
  delimiters included) or part of a comment. \<open>Within q\<close> waits for the closing delimiter \<open>q\<close>;
  \<open>Escaped q\<close> stands on the second half of a doubled one. This is the standard grammar with the
  identifier quotes of MySQL and T-SQL; backslash escapes (MySQL) and dollar quotes (Postgres) are
  not in it.
\<close>

datatype mark = MCode | MQuoted | MComment

datatype lex_mode = Plain | Line | BlockOpen | Block | BlockEnd | Within char | Escaped char

fun mark_text :: "lex_mode \<Rightarrow> string \<Rightarrow> mark list" where
  "mark_text _ [] = []"
| "mark_text Plain (c # s) =
     (if c = CHR ''-'' \<and> take 1 s = ''-'' then MComment # mark_text Line s
      else if c = CHR ''/'' \<and> take 1 s = ''*'' then MComment # mark_text BlockOpen s
      else if c = CHR 0x27 then MQuoted # mark_text (Within (CHR 0x27)) s
      else if c = CHR 0x22 then MQuoted # mark_text (Within (CHR 0x22)) s
      else if c = CHR 0x60 then MQuoted # mark_text (Within (CHR 0x60)) s
      else if c = CHR ''['' then MQuoted # mark_text (Within (CHR '']'')) s
      else MCode # mark_text Plain s)"
| "mark_text Line (c # s) =
     (if c = CHR 0x0A then MCode # mark_text Plain s else MComment # mark_text Line s)"
| "mark_text BlockOpen (c # s) = MComment # mark_text Block s"
| "mark_text Block (c # s) =
     (if c = CHR ''*'' \<and> take 1 s = ''/'' then MComment # mark_text BlockEnd s
      else MComment # mark_text Block s)"
| "mark_text BlockEnd (c # s) = MComment # mark_text Plain s"
| "mark_text (Within q) (c # s) =
     (if c \<noteq> q then MQuoted # mark_text (Within q) s
      else if take 1 s = [q] then MQuoted # mark_text (Escaped q) s
      else MQuoted # mark_text Plain s)"
| "mark_text (Escaped q) (c # s) = MQuoted # mark_text (Within q) s"

lemma mark_text_length [simp]: "length (mark_text m s) = length s"
  by (induction m s rule: mark_text.induct) auto

text \<open>A semicolon of the code, and a character that belongs to a statement.\<close>

fun ends_statement :: "char \<times> mark \<Rightarrow> bool" where
  "ends_statement (c, m) \<longleftrightarrow> m = MCode \<and> c = CHR '';''"

fun in_statement :: "char \<times> mark \<Rightarrow> bool" where
  "in_statement (c, m) \<longleftrightarrow>
     m = MQuoted \<or> m = MCode \<and> c \<notin> {CHR 0x09, CHR 0x0A, CHR 0x0C, CHR 0x0D, CHR '' ''}"

definition marked :: "string \<Rightarrow> (char \<times> mark) list" where
  "marked s = zip s (mark_text Plain s)"

text \<open>One pass over the marked text, and the scanner of the guard.\<close>

fun pending :: "bool \<Rightarrow> (char \<times> mark) list \<Rightarrow> bool" where
  "pending seen [] \<longleftrightarrow> False"
| "pending seen (x # xs) \<longleftrightarrow>
     (if in_statement x then seen \<or> pending (ends_statement x) xs else pending seen xs)"

lemma mark_Line:
  "pending seen (zip s (mark_text Line s)) \<longleftrightarrow> pending seen (marked (snd (take_line s)))"
  by (induction s) (auto simp: take_line_def marked_def)

lemma mark_Block:
  "pending seen (zip s (mark_text Block s)) \<longleftrightarrow> pending seen (marked (snd (take_block s)))"
  by (induction s rule: take_block.induct) (auto simp: marked_def Let_def case_prod_beta)

lemma mark_Within:
  "pending False (zip s (mark_text (Within q) s)) \<longleftrightarrow> pending False (marked (snd (take_quoted q s)))"
  by (induction q s rule: take_quoted.induct) (auto simp: marked_def Let_def case_prod_beta)

lemma blank_chars:
  "is_ascii_whitespace c \<longleftrightarrow> c \<in> {CHR 0x09, CHR 0x0A, CHR 0x0C, CHR 0x0D, CHR '' ''}"
proof -
  have eq: "c = c' \<longleftrightarrow> code c = code c'" for c' by simp
  show ?thesis
    unfolding is_ascii_whitespace_def insert_iff empty_iff eq
    by (simp del: of_char_eq_iff)
qed

lemma guard_closer_cases:
  "guard_closer c = (if c = CHR 0x27 then Some (CHR 0x27) else if c = CHR 0x22 then Some (CHR 0x22)
     else if c = CHR 0x60 then Some (CHR 0x60) else if c = CHR ''['' then Some (CHR '']'') else None)"
  by (simp add: guard_closer_def)

lemma comment_starts:
  "at_line_comment (c # s) \<longleftrightarrow> c = CHR ''-'' \<and> take 1 s = ''-''"
  "at_block_comment (c # s) \<longleftrightarrow> c = CHR ''/'' \<and> take 1 s = ''*''"
  by (cases s; simp add: at_line_comment_def at_block_comment_def)+

lemma marked_comments:
  "at_line_comment s \<Longrightarrow> pending seen (marked s) \<longleftrightarrow> pending seen (marked (snd (take_line s)))"
  "at_block_comment s \<Longrightarrow> pending seen (marked s) \<longleftrightarrow> pending seen (marked (snd (take_block (drop 2 s))))"
proof -
  show "pending seen (marked s) \<longleftrightarrow> pending seen (marked (snd (take_line s)))" if "at_line_comment s"
  proof (cases s)
    case (Cons c s')
    with that have c: "c = CHR ''-''" "take 1 s' = ''-''" by (simp_all add: comment_starts)
    then have "marked s = (c, MComment) # zip s' (mark_text Line s')" by (simp add: marked_def Cons)
    with c show ?thesis by (simp add: mark_Line Cons)
  qed (use that in \<open>simp add: at_line_comment_def\<close>)
  show "pending seen (marked s) \<longleftrightarrow> pending seen (marked (snd (take_block (drop 2 s))))"
    if b: "at_block_comment s"
  proof -
    obtain r where s: "s = CHR ''/'' # CHR ''*'' # r"
      using at_block_comment_split [OF b] by (metis append_Cons append_Nil)
    have "marked s = (CHR ''/'', MComment) # (CHR ''*'', MComment) # zip r (mark_text Block r)"
      by (simp add: marked_def s)
    then show ?thesis by (simp add: mark_Block s)
  qed
qed

lemma guard_scan_marked: "guard_scan seen s \<longleftrightarrow> pending seen (marked s)"
proof (induction seen s rule: guard_scan.induct)
  case (1 seen s)
  show ?case
  proof (cases s)
    case Nil
    then show ?thesis by (subst guard_scan.simps) (simp add: marked_def)
  next
    case (Cons c s')
    note IH = 1 [OF Cons]
    consider "at_line_comment s" | "\<not> at_line_comment s" "at_block_comment s"
      | "\<not> at_line_comment s" "\<not> at_block_comment s" by blast
    then show ?thesis
    proof cases
      case 1
      with IH(1) Cons marked_comments(1) [OF 1] show ?thesis
        by (subst guard_scan.simps) (simp del: take_line_dash)
    next
      case 2
      with IH(2) Cons marked_comments(2) [OF 2(2)] show ?thesis by (subst guard_scan.simps) simp
    next
      case 3
      show ?thesis
      proof (cases "guard_closer c")
        case None
        then have "marked s = (c, MCode) # marked s'"
          using 3 Cons by (auto simp: marked_def comment_starts guard_closer_cases split: if_splits)
        with 3 Cons None IH(3-) show ?thesis
          by (subst guard_scan.simps) (auto simp: blank_chars split: if_splits)
      next
        case (Some q)
        then have "marked s = (c, MQuoted) # zip s' (mark_text (Within q) s')" and "c \<noteq> CHR '';''"
          "\<not> is_ascii_whitespace c"
          using 3 Cons by (auto simp: marked_def comment_starts guard_closer_cases blank_chars split: if_splits)
        with 3 Cons Some IH(5-) mark_Within show ?thesis
          by (subst guard_scan.simps) auto
      qed
    qed
  qed
qed

lemma pending_True: "pending True xs \<longleftrightarrow> (\<exists>x \<in> set xs. in_statement x)"
  by (induction xs) auto

lemma ends_in_statement: "ends_statement x \<Longrightarrow> in_statement x"
  by (cases x) auto

lemma pending_False:
  "pending False xs \<longleftrightarrow> (\<exists>i j. i < j \<and> j < length xs \<and> ends_statement (xs ! i) \<and> in_statement (xs ! j))"
  (is "_ \<longleftrightarrow> ?R xs")
proof (induction xs)
  case Nil
  then show ?case by simp
next
  case (Cons x xs)
  have split: "?R (x # xs) \<longleftrightarrow> ends_statement x \<and> (\<exists>y \<in> set xs. in_statement y) \<or> ?R xs" (is "?L \<longleftrightarrow> ?M")
  proof
    assume ?L
    then obtain i j where ij: "i < j" "j < length (x # xs)" "ends_statement ((x # xs) ! i)" "in_statement ((x # xs) ! j)"
      by blast
    show ?M
    proof (cases i)
      case 0
      with ij show ?thesis by (cases j) auto
    next
      case (Suc k)
      with ij have "k < j - 1" "j - 1 < length xs" "ends_statement (xs ! k)" "in_statement (xs ! (j - 1))"
        by (auto simp: nth_Cons')
      then show ?thesis by blast
    qed
  next
    assume ?M
    then show ?L
    proof (elim disjE conjE exE)
      assume "ends_statement x" "\<exists>y \<in> set xs. in_statement y"
      then obtain k where "k < length xs" "in_statement (xs ! k)" by (auto simp: in_set_conv_nth)
      with \<open>ends_statement x\<close> show ?L by (intro exI [of _ 0] exI [of _ "Suc k"]) simp
    next
      fix i j assume "i < j" "j < length xs" "ends_statement (xs ! i)" "in_statement (xs ! j)"
      then show ?L by (intro exI [of _ "Suc i"] exI [of _ "Suc j"]) simp
    qed
  qed
  have some: "?R xs \<Longrightarrow> \<exists>y \<in> set xs. in_statement y" by (meson nth_mem)
  show ?case
  proof (cases "ends_statement x")
    case True
    with ends_in_statement [OF this] show ?thesis
      unfolding split using some by (simp only: pending.simps pending_True if_True simp_thms) blast
  next
    case False
    then have "pending False (x # xs) \<longleftrightarrow> pending False xs" by simp
    with False show ?thesis unfolding split Cons.IH by blast
  qed
qed

text \<open>
  C36: The guard rejects a text exactly when, in the lexical grammar of \<open>mark_text\<close> (quoted texts
  with doubled delimiters, line and block comments; no backslash escapes and no dollar quotes), a
  semicolon of the code is followed by a character of a statement: one of a quoted text, or one of
  the code that is not blank. A semicolon inside a literal, a quoted identifier or a comment never
  counts, and neither do comments and blanks after the last one.
\<close>

theorem guard_exact:
  "reject_stacked sql =
     (if \<exists>i j. i < j \<and> j < length sql
           \<and> sql ! i = CHR '';'' \<and> mark_text Plain sql ! i = MCode
           \<and> (mark_text Plain sql ! j = MQuoted
              \<or> mark_text Plain sql ! j = MCode
                 \<and> sql ! j \<notin> {CHR 0x09, CHR 0x0A, CHR 0x0C, CHR 0x0D, CHR '' ''})
      then Err (Database stacked_message) else Ok ())"
proof -
  have nth: "i < length sql \<Longrightarrow> marked sql ! i = (sql ! i, mark_text Plain sql ! i)" for i
    by (simp add: marked_def)
  have "length (marked sql) = length sql" by (simp add: marked_def)
  then show ?thesis
    unfolding reject_stacked_def has_stacked_statements_def guard_scan_marked pending_False
    using nth by (smt (verit, best) ends_statement.simps in_statement.simps order.strict_trans)
qed

text \<open>What the SQL generators rely on: text without a semicolon passes.\<close>

lemma LChar_in_text: "LChar c \<in> set (lexemes cl s) \<Longrightarrow> c \<in> set s"
proof -
  assume "LChar c \<in> set (lexemes cl s)"
  then have "c \<in> set (concat (map lexeme_text (lexemes cl s)))" by force
  then show ?thesis by (simp only: lexemes_text)
qed

lemma no_semicolon_passes: "CHR '';'' \<notin> set sql \<Longrightarrow> reject_stacked sql = Ok ()"
proof -
  assume "CHR '';'' \<notin> set sql"
  then have "\<not> ends_statement (marked sql ! i)" if "i < length (marked sql)" for i
    using that nth_mem [of i sql] by (auto simp: marked_def simp del: nth_mem)
  then have "\<not> pending False (marked sql)"
    unfolding pending_False by (meson order.strict_trans)
  then show ?thesis by (simp add: reject_stacked_def has_stacked_statements_def guard_scan_marked)
qed

section \<open>The placeholder scanner reads lexemes\<close>

fun number_from :: "(nat \<Rightarrow> string) \<Rightarrow> nat \<Rightarrow> lexeme list \<Rightarrow> string" where
  "number_from mk n [] = []"
| "number_from mk n (l # ls) =
     (if l = LChar CHR ''?'' then mk (n + 1) @ number_from mk (n + 1) ls
      else lexeme_text l @ number_from mk n ls)"

lemma ph_closer_plain:
  "ph_closer c = Some q \<Longrightarrow> \<not> at_line_comment (c # s) \<and> \<not> at_block_comment (c # s)"
  "ph_closer CHR ''?'' = None"
  by (auto simp: ph_closer_def at_line_comment_def at_block_comment_def split: if_splits)

lemma ph_scan_lexemes: "ph_scan mk n out s = out @ number_from mk n (lexemes ph_closer s)"
proof (induction mk n out s rule: ph_scan.induct)
  case (1 mk n out s)
  show ?case
  proof (cases s)
    case Nil
    then show ?thesis by (subst ph_scan.simps) simp
  next
    case (Cons c s')
    note IH = 1 [OF Cons]
    show ?thesis
    proof (cases "ph_closer c")
      case (Some q)
      with IH(5) [OF Some refl] Cons ph_closer_plain(1) [OF Some] show ?thesis
        by (subst ph_scan.simps, subst lexemes.simps) (simp add: case_prod_beta)
    next
      case None
      consider "at_line_comment s" | "\<not> at_line_comment s" "at_block_comment s"
        | "\<not> at_line_comment s" "\<not> at_block_comment s" by blast
      then show ?thesis
      proof cases
        case 1
        with IH(1) [OF None 1 refl] None Cons show ?thesis
          by (subst ph_scan.simps, subst lexemes.simps) (simp add: case_prod_beta del: take_line_dash)
      next
        case 2
        with IH(2) [OF None 2 refl] None Cons show ?thesis
          by (subst ph_scan.simps, subst lexemes.simps) (simp add: case_prod_beta)
      next
        case 3
        with IH(3,4) [OF None 3] None Cons show ?thesis
          by (subst ph_scan.simps, subst lexemes.simps) auto
      qed
    qed
  qed
qed

lemma number_from_utf8:
  assumes "\<And>k. utf8_string (mk k)"
  shows "utf8_string (p @ concat (map lexeme_text ls)) \<Longrightarrow> utf8_string (p @ number_from mk n ls)"
proof (induction ls arbitrary: p n)
  case Nil
  then show ?case by simp
next
  case (Cons l ls)
  show ?case
  proof (cases "l = LChar CHR ''?''")
    case True
    with Cons.prems utf8_string_split [of "CHR ''?''" p] have "utf8_string p" "utf8_string (concat (map lexeme_text ls))"
      by simp_all
    with Cons.IH [of "[]" "n + 1"] assms True show ?thesis
      by (simp add: utf8_string_append)
  next
    case False
    with Cons.IH [of "p @ lexeme_text l" n] Cons.prems show ?thesis by simp
  qed
qed

lemma utf8_expect_ok: "utf8_string s \<Longrightarrow> utf8_expect s = Ok s"
  by (simp add: utf8_expect_def from_utf8_def utf8_string_def)

lemma translate_utf8:
  assumes "\<And>k. utf8_string (mk k)" "utf8_string sql"
  shows "utf8_expect (ph_scan mk 0 [] sql) = Ok (number_from mk 0 (lexemes ph_closer sql))"
  using number_from_utf8 [where mk = mk and p = "[]" and n = 0 and ls = "lexemes ph_closer sql", OF assms(1)] assms(2)
  by (simp add: ph_scan_lexemes utf8_expect_ok lexemes_text)

lemma utf8_markers: "utf8_string (pg_marker n)" "utf8_string (ms_marker n)"
  by (simp_all add: pg_marker_def ms_marker_def utf8_string_ascii)

text \<open>The question marks before an index that are placeholders.\<close>

definition placeholders :: "lexeme list \<Rightarrow> nat" where
  "placeholders ls = length (filter (\<lambda>l. l = LChar CHR ''?'') ls)"

lemma number_from_nth:
  "number_from mk n ls =
     concat (map (\<lambda>i. if ls ! i = LChar CHR ''?'' then mk (n + placeholders (take (Suc i) ls))
                      else lexeme_text (ls ! i)) [0..<length ls])"
proof (induction ls arbitrary: n)
  case Nil
  then show ?case by simp
next
  case (Cons l ls)
  have "[0..<length (l # ls)] = 0 # map Suc [0..<length ls]"
    by (simp add: upt_conv_Cons map_Suc_upt del: upt_Suc)
  moreover have "n + placeholders (take (Suc (Suc i)) (l # ls))
      = (if l = LChar CHR ''?'' then n + 1 else n) + placeholders (take (Suc i) ls)" for i
    by (simp add: placeholders_def)
  ultimately show ?case
    using Cons [of n] Cons [of "n + 1"] by (simp add: o_def cong: if_cong) (simp add: placeholders_def cong: if_cong)
qed

text \<open>
  For Postgres, rewriting the placeholders of a statement returns (it never hits the
  \<open>expect\<close>), replaces the question marks outside literals and comments by \<open>$1\<close>, \<open>$2\<close>, \<open>...\<close> in
  order, and copies every other lexeme unchanged.
\<close>

theorem pg_placeholders_numbered:
  assumes "utf8_string sql"
  shows "let ls = lexemes ph_closer sql in
    pg_translate_placeholders sql =
      Ok (concat (map (\<lambda>i. if ls ! i = LChar CHR ''?'' then pg_marker (placeholders (take (Suc i) ls))
                           else lexeme_text (ls ! i)) [0..<length ls]))"
  using translate_utf8 [where mk = pg_marker, OF utf8_markers(1) assms]
  by (simp add: pg_translate_placeholders_def Let_def number_from_nth cong: if_cong)

lemma pg_placeholders_numbered_witness:
  "pg_translate_placeholders ''a = ? AND b = '?' -- ?'' = Ok ''a = $1 AND b = '?' -- ?''"
proof -
  have u: "utf8_string ''a = ? AND b = '?' -- ?''" by (rule utf8_string_all_ascii) auto
  have "lexemes ph_closer ''a = ? AND b = '?' -- ?'' =
      map LChar ''a = ? AND b = '' @ [LQuoted [CHR 0x27, CHR ''?'', CHR 0x27], LChar CHR '' '', LLine ''-- ?'']"
    by code_simp
  moreover have "pg_marker (Suc 0) = ''$1''" by code_simp
  ultimately show ?thesis
    using pg_placeholders_numbered [OF u] by (simp add: Let_def upt_rec placeholders_def)
qed

text \<open>
  The SQL Server rewriting is the Postgres one with \<open>@P1\<close>, \<open>@P2\<close>, \<open>...\<close> as the markers: both
  return for every valid text and number the same lexemes.
\<close>

theorem ms_placeholders_numbered:
  assumes "utf8_string sql"
  shows "pg_translate_placeholders sql = Ok (number_from pg_marker 0 (lexemes ph_closer sql))
    \<and> ms_translate_placeholders sql = Ok (number_from ms_marker 0 (lexemes ph_closer sql))"
  using translate_utf8 [where mk = pg_marker, OF utf8_markers(1) assms]
    translate_utf8 [where mk = ms_marker, OF utf8_markers(2) assms]
  by (simp add: pg_translate_placeholders_def ms_translate_placeholders_def)

lemma ms_placeholders_numbered_witness:
  "ms_translate_placeholders ''x = ?'' = Ok ''x = @P1''"
proof -
  have u: "utf8_string ''x = ?''" by (rule utf8_string_all_ascii) auto
  have "number_from ms_marker 0 (lexemes ph_closer ''x = ?'') = ''x = @P1''" by code_simp
  with ms_placeholders_numbered [OF u] show ?thesis by simp
qed

section \<open>Transaction statements\<close>

lemma trim_id: "ws_front (map code s) = 0 \<Longrightarrow> ws_back s = 0 \<Longrightarrow> trim s = s"
  by (simp add: trim_def trim_start.simps [of s] trim_end.simps [of s])

lemma ws_back_0:
  assumes "ws_front (map code (drop (length s - 1) s)) \<noteq> 1"
    and "ws_front (map code (drop (length s - 2) s)) \<noteq> 2"
    and "ws_front (map code (drop (length s - 3) s)) \<noteq> 3"
  shows "ws_back s = 0"
  using assms by (simp add: ws_back_def Let_def)

text \<open>
  Converting a statement for SQL Server panics on text whose eleventh byte (after trimming) is
  inside a multi-byte character: the code slices off as many bytes as a keyword has before it
  compares them.
\<close>

theorem normalize_tx_multibyte_panics:
  assumes "10 < length (trim sql)" "\<not> is_char_boundary (trim sql) 10"
  shows "normalize_tx sql = Panicked"
proof -
  let ?t = "trim sql"
  have "128 \<le> code (?t ! 10)" using assms by (simp add: is_char_boundary_def)
  then have keep: "to_ascii_upper (?t ! 10) = ?t ! 10" by (simp add: to_ascii_upper_def)
  have "map to_ascii_upper ?t \<noteq> ''BEGIN IMMEDIATE''"
  proof
    assume "map to_ascii_upper ?t = ''BEGIN IMMEDIATE''"
    then have "map to_ascii_upper ?t ! 10 = ''BEGIN IMMEDIATE'' ! 10" by simp
    then have "?t ! 10 = CHR ''D''" using keep assms(1) by simp
    with \<open>128 \<le> code (?t ! 10)\<close> show False by simp
  qed
  moreover have "map to_ascii_upper ?t \<noteq> ''BEGIN''"
    using assms(1) by (auto dest: arg_cong [where f = length])
  moreover have "strip_keyword ?t ''SAVEPOINT '' = Panicked"
    using assms by (simp add: strip_keyword_def numeral_eq_Suc)
  ultimately show ?thesis by (simp add: normalize_tx_def Let_def)
qed

lemma normalize_tx_multibyte_panics_witness:
  "normalize_tx (''SELECT aa'' @ [CHR 0xED, CHR 0x95, CHR 0x9C]) = Panicked"
proof -
  let ?s = "''SELECT aa'' @ [CHR 0xED, CHR 0x95, CHR 0x9C]"
  have "ws_front (map code ?s) = 0" by (simp add: ws_front_def)
  moreover have "ws_back ?s = 0" by (rule ws_back_0) (simp_all add: ws_front_def)
  ultimately have t: "trim ?s = ?s" by (simp add: trim_id)
  show ?thesis
    by (rule normalize_tx_multibyte_panics; unfold t) (simp_all add: is_char_boundary_def)
qed

end
