(* ===== verification/StrOps.thy ===== *)
theory StrOps
  imports SqlLex
begin

text \<open>
  String operations of the Rust standard library that the query front end and the command line use
  beyond those of \<open>RustStd\<close>: splitting, searching, prefixes, and identifiers.
\<close>

text \<open>\<open>s.split(c)\<close>: the pieces between the separators, one more than there are separators.\<close>

fun split_char :: "char \<Rightarrow> string \<Rightarrow> string list" where
  "split_char c [] = [[]]"
| "split_char c (x # xs) =
     (if x = c then [] # split_char c xs
      else (case split_char c xs of p # ps \<Rightarrow> (x # p) # ps | [] \<Rightarrow> [[x]]))"

text \<open>The first index where a pattern occurs, compared without regard to ASCII case.\<close>

definition find_ignore_case :: "string \<Rightarrow> string \<Rightarrow> nat option" where
  "find_ignore_case pat s =
     List.find (\<lambda>i. eq_ignore_ascii_case (slice_at i (length pat) s) pat) [0..<length s + 1 - length pat]"

definition contains_ignore_case :: "string \<Rightarrow> string \<Rightarrow> bool" where
  "contains_ignore_case pat s \<longleftrightarrow> find_ignore_case pat s \<noteq> None"

text \<open>\<open>s.find(pat)\<close>, \<open>s.split_once(pat)\<close>, \<open>s.contains(pat)\<close>.\<close>

definition str_find :: "string \<Rightarrow> string \<Rightarrow> nat option" where
  "str_find pat s = List.find (\<lambda>i. slice_at i (length pat) s = pat) [0..<length s + 1 - length pat]"

definition split_once :: "string \<Rightarrow> string \<Rightarrow> (string \<times> string) option" where
  "split_once pat s = map_option (\<lambda>i. (take i s, drop (i + length pat) s)) (str_find pat s)"

definition str_contains :: "string \<Rightarrow> string \<Rightarrow> bool" where
  "str_contains pat s \<longleftrightarrow> str_find pat s \<noteq> None"

text \<open>\<open>s.get(..n)\<close>: nothing when \<open>n\<close> is past the end or inside a character.\<close>

definition get_prefix :: "nat \<Rightarrow> string \<Rightarrow> string option" where
  "get_prefix n s = (if n \<le> length s \<and> is_char_boundary s n then Some (take n s) else None)"

definition is_simple_ident :: "string \<Rightarrow> bool" where
  "is_simple_ident s =
     (case s of
        [] \<Rightarrow> False
      | c # cs \<Rightarrow> (is_ascii_alphabetic c \<or> c = CHR ''_'')
          \<and> list_all (\<lambda>c. is_ascii_alphanumeric c \<or> c = CHR ''_'') cs)"

section \<open>Lemmas\<close>

lemma split_char_nonempty [simp]: "split_char c s \<noteq> []"
  by (induction c s rule: split_char.induct) (auto split: list.splits)

lemma split_char_join: "intercalate [c] (split_char c s) = s"
proof (induction c s rule: split_char.induct)
  case (2 c x xs)
  obtain p ps where p: "split_char c xs = p # ps" by (cases "split_char c xs") auto
  with 2 show ?case by (cases ps) auto
qed simp

lemma split_char_pieces: "p \<in> set (split_char c s) \<Longrightarrow> c \<notin> set p"
proof (induction c s arbitrary: p rule: split_char.induct)
  case (2 c x xs)
  obtain q qs where q: "split_char c xs = q # qs" by (cases "split_char c xs") auto
  with 2 show ?case by (auto split: if_splits)
qed simp

lemma split_char_absent: "c \<notin> set s \<Longrightarrow> split_char c s = [s]"
  by (induction c s rule: split_char.induct) auto

end
