(* ===== verification/Query.thy ===== *)
theory Query
  imports SqlLex
begin

text \<open>
  \<open>query.rs\<close>: bound values and the fluent SELECT builder. Text that contains no quote, dash, slash
  or semicolon is plain; the builder is shown to keep the number of placeholders equal to the number
  of bound values, and its statements pass the guard.
\<close>

section \<open>Values and the builder\<close>

datatype param_value = VNull | VInt i64 | VFloat f64 | VText string | VBool bool

datatype sort_order = Asc | Desc

record query =
  q_table :: string
  q_columns :: "string list"
  q_filters :: "string list"
  q_params :: "param_value list"
  q_order :: "(string \<times> sort_order) option"
  q_limit :: "u64 option"
  q_offset :: "u64 option"

definition query_table :: "string \<Rightarrow> query" where
  "query_table t =
     \<lparr>q_table = t, q_columns = [], q_filters = [], q_params = [],
      q_order = None, q_limit = None, q_offset = None\<rparr>"

definition query_select :: "string list \<Rightarrow> query \<Rightarrow> query" where
  "query_select cs q = q\<lparr>q_columns := cs\<rparr>"

definition query_filter :: "string \<Rightarrow> param_value list \<Rightarrow> query \<Rightarrow> query" where
  "query_filter p ps q = q\<lparr>q_filters := q_filters q @ [p], q_params := q_params q @ ps\<rparr>"

definition query_order_by :: "string \<Rightarrow> sort_order \<Rightarrow> query \<Rightarrow> query" where
  "query_order_by c ord q = q\<lparr>q_order := Some (c, ord)\<rparr>"

definition query_limit :: "u64 \<Rightarrow> query \<Rightarrow> query" where
  "query_limit n q = q\<lparr>q_limit := Some n\<rparr>"

definition query_offset :: "u64 \<Rightarrow> query \<Rightarrow> query" where
  "query_offset n q = q\<lparr>q_offset := Some n\<rparr>"

fun sort_word :: "sort_order \<Rightarrow> string" where
  "sort_word Asc = ''ASC''"
| "sort_word Desc = ''DESC''"

definition query_build :: "query \<Rightarrow> string \<times> param_value list" where
  "query_build q =
     (let cols = (if q_columns q = [] then ''*'' else intercalate '', '' (q_columns q));
          sql = ''SELECT '' @ cols @ '' FROM '' @ q_table q;
          sql = (if q_filters q \<noteq> [] then sql @ '' WHERE '' @ intercalate '' AND '' (q_filters q) else sql);
          sql = (case q_order q of
                   Some (c, ord) \<Rightarrow> sql @ '' ORDER BY '' @ c @ '' '' @ sort_word ord
                 | None \<Rightarrow> sql);
          sql = (case q_limit q of Some n \<Rightarrow> sql @ '' LIMIT '' @ nat_to_string (unat n) | None \<Rightarrow> sql);
          sql = (case q_offset q of Some n \<Rightarrow> sql @ '' OFFSET '' @ nat_to_string (unat n) | None \<Rightarrow> sql)
      in (sql, q_params q))"

section \<open>Plain text\<close>

text \<open>
  Text no scanner treats specially: it has no quote, bracket, dash, slash or semicolon.
\<close>

definition special_chars :: string where
  "special_chars = [CHR 0x27, CHR 0x22, CHR 0x60, CHR ''['', CHR ''-'', CHR ''/'', CHR '';'']"

definition plain :: "string \<Rightarrow> bool" where
  "plain s \<longleftrightarrow> list_all (\<lambda>c. c \<notin> set special_chars) s"

definition qmarks :: "string \<Rightarrow> nat" where
  "qmarks s = length (filter (\<lambda>c. c = CHR ''?'') s)"

named_theorems plain_simps "plain text and its question marks"

lemma plain_append [plain_simps]: "plain (a @ b) \<longleftrightarrow> plain a \<and> plain b"
  by (simp add: plain_def)

lemma plain_Nil [plain_simps]: "plain []"
  by (simp add: plain_def)

lemma plain_Cons [plain_simps]: "plain (c # s) \<longleftrightarrow> c \<notin> set special_chars \<and> plain s"
  by (simp add: plain_def)

lemma qmarks_append [plain_simps]: "qmarks (a @ b) = qmarks a + qmarks b"
  by (simp add: qmarks_def)

lemma qmarks_Nil [plain_simps]: "qmarks [] = 0"
  by (simp add: qmarks_def)

lemma qmarks_Cons [plain_simps]: "qmarks (c # s) = (if c = CHR ''?'' then 1 else 0) + qmarks s"
  by (simp add: qmarks_def)

lemma plain_intercalate: "plain sep \<Longrightarrow> (\<And>s. s \<in> set xs \<Longrightarrow> plain s) \<Longrightarrow> plain (intercalate sep xs)"
  by (induction sep xs rule: intercalate.induct) (simp_all add: plain_simps)

lemma qmarks_intercalate: "qmarks sep = 0 \<Longrightarrow> qmarks (intercalate sep xs) = sum_list (map qmarks xs)"
  by (induction sep xs rule: intercalate.induct) (simp_all add: plain_simps)

lemma plain_concat: "plain (concat xs) \<longleftrightarrow> list_all plain xs"
  by (induction xs) (simp_all add: plain_simps)

lemma decimal_digits: "c \<in> set (nat_to_string n) \<Longrightarrow> is_ascii_digit c"
proof (induction n rule: nat_to_string.induct)
  case (1 n)
  have d: "is_ascii_digit (char_of (48 + m))" if "m < 10" for m :: nat
    using that by (simp add: is_ascii_digit_def of_char_of)
  show ?case
  proof (cases "n < 10")
    case True
    with 1 d show ?thesis by (subst (asm) (2) nat_to_string.simps) simp
  next
    case False
    with 1 d [of "n mod 10"] show ?thesis by (subst (asm) (2) nat_to_string.simps) auto
  qed
qed

lemma digit_plain: "is_ascii_digit c \<Longrightarrow> c \<notin> set special_chars \<and> c \<noteq> CHR ''?''"
  by (auto simp: is_ascii_digit_def special_chars_def)

lemma plain_decimal [plain_simps]: "plain (nat_to_string n)" "qmarks (nat_to_string n) = 0"
  using digit_plain decimal_digits
  by (auto simp: plain_def qmarks_def list_all_iff filter_empty_conv)

lemma plain_lexemes: "plain s \<Longrightarrow> lexemes ph_closer s = map LChar s"
proof (induction s)
  case Nil
  then show ?case by simp
next
  case (Cons c s)
  then have "\<not> at_line_comment (c # s)" "\<not> at_block_comment (c # s)" "ph_closer c = None"
    by (auto simp: plain_simps special_chars_def at_line_comment_def at_block_comment_def ph_closer_def)
  with Cons show ?case by (subst lexemes.simps) (simp add: plain_simps)
qed

lemma plain_placeholders: "plain s \<Longrightarrow> placeholders (lexemes ph_closer s) = qmarks s"
  by (simp add: plain_lexemes placeholders_def qmarks_def filter_map o_def)

lemma plain_passes: "plain s \<Longrightarrow> reject_stacked s = Ok ()"
  by (rule no_semicolon_passes) (auto simp: plain_def special_chars_def list_all_iff)

section \<open>Statements of the builder\<close>

text \<open>The clauses after the FROM clause, as the builder adds them.\<close>

definition tail_text :: "query \<Rightarrow> string" where
  "tail_text q =
     (case q_order q of Some (c, ord) \<Rightarrow> '' ORDER BY '' @ c @ '' '' @ sort_word ord | None \<Rightarrow> [])
     @ (case q_limit q of Some n \<Rightarrow> '' LIMIT '' @ nat_to_string (unat n) | None \<Rightarrow> [])
     @ (case q_offset q of Some n \<Rightarrow> '' OFFSET '' @ nat_to_string (unat n) | None \<Rightarrow> [])"

lemma query_build_clauses:
  "query_build q =
     (''SELECT '' @ (if q_columns q = [] then ''*'' else intercalate '', '' (q_columns q))
      @ '' FROM '' @ q_table q
      @ (if q_filters q = [] then [] else '' WHERE '' @ intercalate '' AND '' (q_filters q)) @ tail_text q,
      q_params q)"
  by (simp add: query_build_def Let_def tail_text_def split: option.splits)

definition query_plain :: "query \<Rightarrow> bool" where
  "query_plain q \<longleftrightarrow>
     list_all (\<lambda>s. plain s \<and> qmarks s = 0) (q_table q # q_columns q) \<and> list_all plain (q_filters q)
     \<and> (case q_order q of Some (c, _) \<Rightarrow> plain c \<and> qmarks c = 0 | None \<Rightarrow> True)"

lemma plain_sort_word: "plain (sort_word d)" "qmarks (sort_word d) = 0"
  by (cases d; simp add: plain_simps special_chars_def)+

text \<open>
  A statement of the query builder has exactly as many placeholders as it has bound values, and
  passes the guard, when its table, columns and predicates are plain text and the question marks of
  the predicates are as many as the values that came with them.
\<close>

theorem query_build_placeholders:
  assumes pl: "query_plain q" and marks: "sum_list (map qmarks (q_filters q)) = length (q_params q)"
  shows "placeholders (lexemes ph_closer (fst (query_build q))) = length (snd (query_build q))
    \<and> reject_stacked (fst (query_build q)) = Ok ()"
proof -
  have sep: "plain '', ''" "plain '' AND ''" "qmarks '', '' = 0" "qmarks '' AND '' = 0" "plain ''*''" "qmarks ''*'' = 0"
    by (simp_all add: plain_simps special_chars_def)
  have tail: "plain (tail_text q) \<and> qmarks (tail_text q) = 0"
    using pl by (auto simp: tail_text_def query_plain_def plain_simps special_chars_def
        plain_sort_word split: option.splits)
  have cols: "plain (intercalate '', '' (q_columns q))" "qmarks (intercalate '', '' (q_columns q)) = 0"
    using pl by (auto simp: qmarks_intercalate sep query_plain_def list_all_iff intro!: plain_intercalate)
  have flt: "plain (intercalate '' AND '' (q_filters q))"
    using pl by (auto simp: sep query_plain_def list_all_iff intro!: plain_intercalate)
  have "plain (fst (query_build q))" "qmarks (fst (query_build q)) = length (snd (query_build q))"
    using pl marks tail cols flt sep
    by (auto simp: query_build_clauses plain_simps query_plain_def qmarks_intercalate special_chars_def)
  then show ?thesis by (simp add: plain_placeholders plain_passes)
qed

lemma query_build_placeholders_witness:
  "placeholders (lexemes ph_closer (fst (query_build (query_filter ''age >= ?'' [VInt 30] (query_table ''users''))))) = 1"
proof -
  let ?q = "query_filter ''age >= ?'' [VInt 30] (query_table ''users'')"
  have "query_plain ?q" by code_simp
  moreover have "sum_list (map qmarks (q_filters ?q)) = length (q_params ?q)" by code_simp
  ultimately have "placeholders (lexemes ph_closer (fst (query_build ?q))) = length (snd (query_build ?q))"
    using query_build_placeholders by blast
  then show ?thesis by (simp add: query_build_def query_filter_def query_table_def Let_def)
qed

end
