(* ===== verification/Cache.thy ===== *)
theory Cache
  imports Query
begin

text \<open>
  The bounded result cache of \<open>client.rs\<close>: its keys, the gate that decides which statements may be
  cached, and insertion with first-in first-out eviction. The interface \<open>result_cache\<close> states what
  the client relies on; it is interpreted on the cache of the code.
\<close>

section \<open>Keys\<close>

datatype sql_value = SNull | SInteger i64 | SReal f64 | SText string | SBlob bytes

definition to_sql_values :: "param_value list \<Rightarrow> sql_value list" where
  "to_sql_values ps =
     map (\<lambda>v. case v of
         VNull \<Rightarrow> SNull
       | VInt i \<Rightarrow> SInteger i
       | VFloat f \<Rightarrow> SReal f
       | VText s \<Rightarrow> SText s
       | VBool b \<Rightarrow> SInteger (if b then 1 else 0)) ps"

fun key_bytes :: "sql_value \<Rightarrow> bytes" where
  "key_bytes SNull = [0]"
| "key_bytes (SInteger i) = 1 # u64_to_le i"
| "key_bytes (SReal f) = 2 # u64_to_le f"
| "key_bytes (SText s) = 3 # u32_to_le (word_of_nat (length s)) @ as_bytes s"
| "key_bytes (SBlob b) = 4 # u32_to_le (word_of_nat (length b)) @ b"

definition cache_key :: "string \<Rightarrow> sql_value list \<Rightarrow> bytes" where
  "cache_key sql ps = as_bytes sql @ [0] @ concat (map key_bytes ps)"

definition BANNED :: "string list" where
  "BANNED =
     [''random'', ''current_'', ''datetime'', ''julianday'', ''strftime'', ''unixepoch'', ''date('',
      ''time('', ''last_insert_rowid'', ''changes'', ''sqlite_offset'']"

definition is_cache_safe :: "string \<Rightarrow> bool" where
  "is_cache_safe sql =
     (\<not> list_ex (\<lambda>pat. list_ex (\<lambda>i. eq_ignore_ascii_case (slice_at i (length pat) sql) pat)
                              [0..<length sql + 1 - length pat]) BANNED)"

section \<open>The cache\<close>

record query_cache =
  qc_map :: "bytes \<Rightarrow> bytes option"
  qc_order :: "bytes list"
  qc_total :: nat
  qc_version :: "i64 option"

definition cache_default :: query_cache where
  "cache_default = \<lparr>qc_map = (\<lambda>_. None), qc_order = [], qc_total = 0, qc_version = None\<rparr>"

definition CACHE_MAX_ENTRIES :: nat where
  "CACHE_MAX_ENTRIES = 32"

definition CACHE_MAX_TOTAL_BYTES :: nat where
  "CACHE_MAX_TOTAL_BYTES = 128 * 2 ^ 20"

definition CACHE_MAX_RESULT_BYTES :: nat where
  "CACHE_MAX_RESULT_BYTES = 64 * 2 ^ 20"

definition cache_clear :: "query_cache \<Rightarrow> query_cache" where
  "cache_clear c = c\<lparr>qc_map := (\<lambda>_. None), qc_order := [], qc_total := 0\<rparr>"

text \<open>\<open>pop_front\<close> and the removal of what it returned.\<close>

definition evict_one :: "query_cache \<Rightarrow> query_cache" where
  "evict_one c =
     (case qc_order c of
        [] \<Rightarrow> c
      | old # rest \<Rightarrow>
          (let c' = c\<lparr>qc_order := rest\<rparr> in
           case qc_map c old of
             Some v \<Rightarrow> c'\<lparr>qc_map := (qc_map c)(old := None), qc_total := qc_total c - length v\<rparr>
           | None \<Rightarrow> c'))"

lemma evict_one_order [simp]: "qc_order (evict_one c) = tl (qc_order c)"
  by (simp add: evict_one_def Let_def split: list.splits option.splits)

definition over_limit :: "nat \<Rightarrow> query_cache \<Rightarrow> bool" where
  "over_limit n c \<longleftrightarrow>
     CACHE_MAX_ENTRIES \<le> length (qc_order c)
     \<or> CACHE_MAX_TOTAL_BYTES < qc_total c + n \<and> qc_order c \<noteq> []"

function evict :: "nat \<Rightarrow> query_cache \<Rightarrow> query_cache" where
  "evict n c = (if over_limit n c then evict n (evict_one c) else c)"
  by pat_completeness auto
termination
  by (relation "measure (\<lambda>(_, c). length (qc_order c))")
    (auto simp: over_limit_def CACHE_MAX_ENTRIES_def intro: diff_less)

declare evict.simps [simp del]

definition cache_insert :: "bytes \<Rightarrow> bytes \<Rightarrow> query_cache \<Rightarrow> query_cache" where
  "cache_insert key v c =
     (if CACHE_MAX_RESULT_BYTES < length v then c
      else (let c = evict (length v) c
            in c\<lparr>qc_total := qc_total c + length v, qc_order := qc_order c @ [key],
                 qc_map := (qc_map c)(key := Some v)\<rparr>))"

section \<open>Keys determine the statement and its parameters\<close>

locale prefix_code =
  fixes enc :: "'a \<Rightarrow> 'b list" and ok :: "'a \<Rightarrow> bool"
  assumes prefix_free: "ok x \<Longrightarrow> ok y \<Longrightarrow> enc x @ r = enc y @ s \<Longrightarrow> x = y \<and> r = s"
    and enc_nonempty: "enc x \<noteq> []"
begin

lemma concat_inject:
  "list_all ok xs \<Longrightarrow> list_all ok ys \<Longrightarrow> concat (map enc xs) = concat (map enc ys) \<Longrightarrow> xs = ys"
proof (induction xs arbitrary: ys)
  case Nil
  then show ?case using enc_nonempty by (cases ys) auto
next
  case (Cons x xs)
  then obtain y ys' where ys: "ys = y # ys'" using enc_nonempty [of x] by (cases ys) auto
  with Cons.prems have "x = y \<and> concat (map enc xs) = concat (map enc ys')"
    by (intro prefix_free) simp_all
  with Cons ys show ?case by simp
qed

end

definition short_value :: "sql_value \<Rightarrow> bool" where
  "short_value v = (case v of SText s \<Rightarrow> length s < 2 ^ 32 | SBlob b \<Rightarrow> length b < 2 ^ 32 | _ \<Rightarrow> True)"

lemma length_prefixed:
  fixes a b :: bytes
  assumes "(word_of_nat (length a) :: u32) = word_of_nat (length b)" "a @ r = b @ s"
    and "length a < 2 ^ 32" "length b < 2 ^ 32"
  shows "a = b \<and> r = s"
proof -
  have "unat (word_of_nat (length a) :: u32) = unat (word_of_nat (length b) :: u32)"
    using assms(1) by simp
  with assms(3,4) have "length a = length b" by (simp add: unat_of_nat take_bit_eq_mod)
  with assms(2) show ?thesis by simp
qed

lemma text_prefixed:
  fixes a b :: string
  assumes "(word_of_nat (length a) :: u32) = word_of_nat (length b)" "as_bytes a @ r = as_bytes b @ s"
    and "length a < 2 ^ 32" "length b < 2 ^ 32"
  shows "a = b \<and> r = s"
  using length_prefixed [of "as_bytes a" "as_bytes b" r s] assms by simp

interpretation key_code: prefix_code key_bytes short_value
proof
  fix x y r s
  assume "short_value x" "short_value y" "key_bytes x @ r = key_bytes y @ s"
  then show "x = y \<and> r = s"
    by (cases x; cases y) (auto simp: short_value_def dest: length_prefixed text_prefixed)
next
  show "key_bytes x \<noteq> []" for x by (cases x) simp_all
qed

lemma split_at_zero:
  assumes "a @ x # r = b @ x # s" "x \<notin> set a" "x \<notin> set b"
  shows "a = b \<and> r = s"
  using assms by (induction a arbitrary: b) (auto simp: Cons_eq_append_conv)

lemma key_injective:
  assumes "cache_key sql ps = cache_key sql' ps'"
    and "0 \<notin> set (as_bytes sql)" "0 \<notin> set (as_bytes sql')"
    and "list_all short_value ps" "list_all short_value ps'"
  shows "sql = sql' \<and> ps = ps'"
proof -
  have "as_bytes sql = as_bytes sql' \<and> concat (map key_bytes ps) = concat (map key_bytes ps')"
    using assms(1-3) by (intro split_at_zero [where x = 0]) (simp_all add: cache_key_def)
  with assms(4,5) key_code.concat_inject show ?thesis by simp
qed

text \<open>
  C38: Two calls that use the same cache key are the same statement with the same parameters, so a
  cached result is never returned for another query. The statements must not contain a NUL byte,
  and texts and blobs must be shorter than 2^32 bytes.
\<close>

theorem cache_key_injective:
  assumes "cache_key sql ps = cache_key sql' ps'"
    and "0 \<notin> set (as_bytes sql)" "0 \<notin> set (as_bytes sql')"
    and "list_all short_value ps" "list_all short_value ps'"
  shows "sql = sql' \<and> ps = ps'"
  by (rule key_injective [OF assms])

lemma cache_key_injective_witness:
  "''a'' = ''a'' \<and> [SInteger 1, SText ''x''] = [SInteger 1, SText ''x'']"
  by (rule cache_key_injective) (simp_all add: as_bytes_def short_value_def)

section \<open>The invariant\<close>

text \<open>
  The queue lists the keys of the map, each once, the running total is the size of the stored
  results, and both limits hold.
\<close>

definition stored_size :: "query_cache \<Rightarrow> bytes \<Rightarrow> nat" where
  "stored_size c k = (case qc_map c k of Some v \<Rightarrow> length v | None \<Rightarrow> 0)"

definition cache_inv :: "query_cache \<Rightarrow> bool" where
  "cache_inv c \<longleftrightarrow>
     distinct (qc_order c) \<and> dom (qc_map c) = set (qc_order c)
     \<and> qc_total c = sum_list (map (stored_size c) (qc_order c))
     \<and> length (qc_order c) \<le> CACHE_MAX_ENTRIES \<and> qc_total c \<le> CACHE_MAX_TOTAL_BYTES"

lemma cache_inv_default: "cache_inv cache_default"
  by (simp add: cache_inv_def cache_default_def)

lemma cache_inv_clear: "cache_inv (cache_clear c)"
  by (simp add: cache_inv_def cache_clear_def)

lemma evict_one_map:
  "cache_inv c \<Longrightarrow> qc_order c = old # rest \<Longrightarrow>
    qc_map (evict_one c) = (qc_map c)(old := None) \<and> qc_total (evict_one c) = qc_total c - stored_size c old"
  by (auto simp: evict_one_def Let_def stored_size_def cache_inv_def split: option.splits)

lemma sizes_cong: "(\<And>k. k \<in> set ks \<Longrightarrow> f k = g k) \<Longrightarrow> sum_list (map f ks) = sum_list (map g ks)"
  by (intro arg_cong [where f = sum_list] map_cong) simp_all

lemma evict_one_inv:
  assumes "cache_inv c" "qc_order c = old # rest"
  shows "cache_inv (evict_one c)"
proof -
  note m = evict_one_map [OF assms]
  have "stored_size (evict_one c) k = stored_size c k" if "k \<in> set rest" for k
    using that assms m by (auto simp: stored_size_def cache_inv_def)
  then have "sum_list (map (stored_size (evict_one c)) rest) = sum_list (map (stored_size c) rest)"
    by (rule sizes_cong)
  moreover have "qc_order (evict_one c) = rest" "distinct rest" using assms by (simp_all add: cache_inv_def)
  ultimately show ?thesis using assms m by (auto simp: cache_inv_def)
qed

text \<open>What the eviction loop leaves: the newest entries, in order, with their results.\<close>

lemma evict_spec:
  assumes "cache_inv c"
  shows "cache_inv (evict n c) \<and> \<not> over_limit n (evict n c)
    \<and> (\<exists>k. qc_order (evict n c) = drop k (qc_order c)
         \<and> qc_map (evict n c) = (qc_map c) |` set (drop k (qc_order c)))"
  using assms
proof (induction n c rule: evict.induct)
  case (1 n c)
  show ?case
  proof (cases "over_limit n c")
    case False
    have "(qc_map c) |` dom (qc_map c) = qc_map c" by (rule ext) (simp add: restrict_map_def domIff)
    with False 1 show ?thesis by (subst (1 2 3 4) evict.simps) (auto simp: cache_inv_def intro!: exI [of _ 0])
  next
    case True
    then obtain old rest where o: "qc_order c = old # rest"
      by (cases "qc_order c") (auto simp: over_limit_def CACHE_MAX_ENTRIES_def)
    note m = evict_one_map [OF 1(2) o]
    from 1(1) [OF True evict_one_inv [OF 1(2) o]] obtain k where
      k: "cache_inv (evict n (evict_one c))" "\<not> over_limit n (evict n (evict_one c))"
      "qc_order (evict n (evict_one c)) = drop k rest"
      "qc_map (evict n (evict_one c)) = qc_map (evict_one c) |` set (drop k rest)"
      using o by auto
    have "old \<notin> set (drop k rest)" using 1(2) o by (auto simp: cache_inv_def dest: in_set_dropD)
    then have "qc_map (evict n (evict_one c)) = qc_map c |` set (drop (Suc k) (qc_order c))"
      using k(4) m o by (auto simp: restrict_map_def)
    with k o True show ?thesis by (subst (1 2 3 4) evict.simps) (auto intro!: exI [of _ "Suc k"])
  qed
qed

lemma cache_insert_spec:
  assumes inv: "cache_inv c" and new: "qc_map c key = None"
  shows "if CACHE_MAX_RESULT_BYTES < length v then cache_insert key v c = c
    else cache_inv (cache_insert key v c)
      \<and> (\<exists>n. qc_order (cache_insert key v c) = drop n (qc_order c) @ [key]
           \<and> qc_map (cache_insert key v c) = ((qc_map c) |` set (drop n (qc_order c)))(key \<mapsto> v))"
proof (cases "CACHE_MAX_RESULT_BYTES < length v")
  case True
  then show ?thesis by (simp add: cache_insert_def)
next
  case False
  let ?e = "evict (length v) c" and ?c = "cache_insert key v c"
  obtain n where e: "cache_inv ?e" "\<not> over_limit (length v) ?e" "qc_order ?e = drop n (qc_order c)"
    "qc_map ?e = (qc_map c) |` set (drop n (qc_order c))"
    using evict_spec [OF inv] by blast
  have ins: "?c = ?e\<lparr>qc_total := qc_total ?e + length v, qc_order := qc_order ?e @ [key],
      qc_map := (qc_map ?e)(key := Some v)\<rparr>"
    using False by (simp add: cache_insert_def Let_def)
  have fresh: "key \<notin> set (qc_order ?e)"
    using new e(3) inv by (auto simp: cache_inv_def domIff dest: in_set_dropD)
  have "stored_size ?c k = stored_size ?e k" if "k \<in> set (qc_order ?e)" for k
    using that fresh by (auto simp: ins stored_size_def)
  then have "sum_list (map (stored_size ?c) (qc_order ?e)) = sum_list (map (stored_size ?e) (qc_order ?e))"
    by (rule sizes_cong)
  moreover have "stored_size ?c key = length v" by (simp add: ins stored_size_def)
  moreover have "length (qc_order ?e) < CACHE_MAX_ENTRIES" using e(2) by (auto simp: over_limit_def)
  moreover have "qc_total ?e + length v \<le> CACHE_MAX_TOTAL_BYTES"
  proof (cases "qc_order ?e = []")
    case True
    with e(1) have "qc_total ?e = 0" by (simp add: cache_inv_def)
    with False show ?thesis by (simp add: CACHE_MAX_RESULT_BYTES_def CACHE_MAX_TOTAL_BYTES_def)
  next
    case False
    with e(2) show ?thesis by (auto simp: over_limit_def)
  qed
  ultimately have "cache_inv ?c"
    using e(1) fresh by (auto simp: ins cache_inv_def)
  with False e(3,4) show ?thesis by (auto simp: ins)
qed

text \<open>
  C37: Inserting a result under a key that is not in the cache keeps the cache consistent and
  bounded: at most 32 entries and 128 MiB, the running total exact. The new result is found
  afterwards, the entries that remain are unchanged, and those that went are the oldest ones. A result
  over 64 MiB leaves the cache as it was.
\<close>

theorem cache_insert_correct:
  assumes inv: "cache_inv c" and new: "qc_map c key = None"
  shows "if CACHE_MAX_RESULT_BYTES < length v then cache_insert key v c = c
    else cache_inv (cache_insert key v c)
      \<and> (\<exists>n. qc_order (cache_insert key v c) = drop n (qc_order c) @ [key]
           \<and> qc_map (cache_insert key v c) = ((qc_map c) |` set (drop n (qc_order c)))(key \<mapsto> v))"
  by (rule cache_insert_spec [OF assms])

lemma cache_insert_correct_witness:
  "cache_inv (cache_insert [1] [2] cache_default)"
proof -
  have "qc_map cache_default [1] = None" by (simp add: cache_default_def)
  from cache_insert_correct [OF cache_inv_default this, of "[2]"] show ?thesis
    by (simp add: CACHE_MAX_RESULT_BYTES_def)
qed

text \<open>
  The cache key does not separate a statement that contains a NUL byte from its parameters: two
  different calls share one key.
\<close>

theorem cache_key_collision: "cache_key ''a'' [SNull] = cache_key [CHR ''a'', CHR 0x00] []"
  by (simp add: cache_key_def as_bytes_def)

text \<open>
  The determinism gate lets a statement through that reads the clock: SQL allows a space
  between a function name and its parenthesis, the banned patterns do not.
\<close>

theorem cache_gate_misses_spaced_call:
  "is_cache_safe ''select date ('now')'' \<and> \<not> is_cache_safe ''select date('now')''"
  by (simp add: is_cache_safe_def BANNED_def eq_ignore_ascii_case_def slice_at_def to_ascii_lower_def upt_rec)

end
