(* ===== verification/Schema.thy ===== *)
theory Schema
  imports RustStd
begin

text \<open>
  \<open>schema.rs\<close>: the four column types of the columnar format with their wire codes, fields and
  schemas; and the rendering of the error type of \<open>error.rs\<close>.
\<close>

section \<open>Definitions\<close>

datatype data_type = Int64 | Float64 | Boolean | Utf8

fun dtype_code :: "data_type \<Rightarrow> u8" where
  "dtype_code Int64 = 0"
| "dtype_code Float64 = 1"
| "dtype_code Boolean = 2"
| "dtype_code Utf8 = 3"

definition from_code :: "u8 \<Rightarrow> data_type result" where
  "from_code c =
     (if c = 0 then Ok Int64
      else if c = 1 then Ok Float64
      else if c = 2 then Ok Boolean
      else if c = 3 then Ok Utf8
      else Err (Unsupported (''type code '' @ nat_to_string (unat c))))"

fun dtype_name :: "data_type \<Rightarrow> string" where
  "dtype_name Int64 = ''int64''"
| "dtype_name Float64 = ''float64''"
| "dtype_name Boolean = ''bool''"
| "dtype_name Utf8 = ''utf8''"

record field =
  field_name :: string
  data_type :: data_type
  nullable :: bool

definition field_new :: "string \<Rightarrow> data_type \<Rightarrow> bool \<Rightarrow> field" where
  "field_new n t nl = \<lparr>field_name = n, data_type = t, nullable = nl\<rparr>"

record schema =
  schema_fields :: "field list"

definition schema_new :: "field list \<Rightarrow> schema" where
  "schema_new fs = \<lparr>schema_fields = fs\<rparr>"

definition schema_len :: "schema \<Rightarrow> nat" where
  "schema_len s = length (schema_fields s)"

definition schema_is_empty :: "schema \<Rightarrow> bool" where
  "schema_is_empty s \<longleftrightarrow> schema_fields s = []"

text \<open>The \<open>Display\<close> text of every error variant.\<close>

fun error_to_string :: "error \<Rightarrow> string" where
  "error_to_string (Database m) = ''database error: '' @ m"
| "error_to_string (InvalidUrl m) = ''invalid connection url: '' @ m"
| "error_to_string (Codec m) = ''codec error: '' @ m"
| "error_to_string (TypeError c m) = ''type error in column `'' @ c @ ''`: '' @ m"
| "error_to_string (Unsupported m) = ''unsupported data type: '' @ m"
| "error_to_string (Join m) = ''background task failed: '' @ m"
| "error_to_string (OrmError m) = ''orm error: '' @ m"

section \<open>The type codes\<close>

lemma from_code_code [simp]: "from_code (dtype_code t) = Ok t"
  by (cases t) (simp_all add: from_code_def)

lemma from_code_eq_Ok: "from_code c = Ok t \<longleftrightarrow> c = dtype_code t"
  by (cases t) (auto simp: from_code_def)

lemma dtype_code_inject [simp]: "dtype_code a = dtype_code b \<longleftrightarrow> a = b"
  by (cases a; cases b) simp_all

lemma field_new_simps [simp]:
  "field_name (field_new n t nl) = n" "data_type (field_new n t nl) = t"
  "nullable (field_new n t nl) = nl"
  by (simp_all add: field_new_def)

lemma schema_fields_new [simp]: "schema_fields (schema_new fs) = fs"
  by (simp add: schema_new_def)

end
