(* ===== verification/Offsets.thy ===== *)
theory Offsets
  imports RustStd
begin

text \<open>
  The variable-length layout every text buffer of the code uses: a \<open>u32\<close> offsets vector one longer
  than the number of values, beside the concatenated bytes. \<open>repr_segs\<close> relates the two buffers to
  the list of values they stand for; it is kept by every append even where an offset wraps, and
  the values read back as long as the bytes fit a \<open>u32\<close>.
\<close>

section \<open>Definitions\<close>

fun prefix_sums :: "nat \<Rightarrow> nat list \<Rightarrow> nat list" where
  "prefix_sums a [] = [a]"
| "prefix_sums a (x # xs) = a # prefix_sums (a + x) xs"

definition offsets_of :: "bytes list \<Rightarrow> u32 list" where
  "offsets_of segs = map word_of_nat (prefix_sums 0 (map length segs))"

definition repr_segs :: "u32 list \<Rightarrow> bytes \<Rightarrow> bytes list \<Rightarrow> bool" where
  "repr_segs offs data segs \<longleftrightarrow> offs = offsets_of segs \<and> data = concat segs"

text \<open>The value at index \<open>i\<close>, when both of its offsets are in range: \<open>data[offs[i]..offs[i+1]]\<close>.\<close>

definition seg_at :: "u32 list \<Rightarrow> bytes \<Rightarrow> nat \<Rightarrow> bytes" where
  "seg_at offs data i =
     slice_at (unat (offs ! i)) (unat (offs ! Suc i) - unat (offs ! i)) data"

definition segs_of :: "u32 list \<Rightarrow> bytes \<Rightarrow> bytes list" where
  "segs_of offs data = map (seg_at offs data) [0..<length offs - 1]"

section \<open>Prefix sums\<close>

lemma length_prefix_sums [simp]: "length (prefix_sums a xs) = Suc (length xs)"
  by (induction a xs rule: prefix_sums.induct) simp_all

lemma prefix_sums_not_Nil [simp]: "prefix_sums a xs \<noteq> []"
  by (cases xs) simp_all

lemma nth_prefix_sums: "i \<le> length xs \<Longrightarrow> prefix_sums a xs ! i = a + sum_list (take i xs)"
proof (induction a xs arbitrary: i rule: prefix_sums.induct)
  case (1 a)
  then show ?case by simp
next
  case (2 a x xs)
  then show ?case by (cases i) simp_all
qed

lemma prefix_sums_snoc: "prefix_sums a (xs @ [y]) = prefix_sums a xs @ [a + sum_list xs + y]"
  by (induction a xs rule: prefix_sums.induct) (simp_all add: add.assoc)

lemma prefix_sums_append:
  "prefix_sums a (xs @ ys) = prefix_sums a xs @ tl (prefix_sums (a + sum_list xs) ys)"
proof (induction a xs rule: prefix_sums.induct)
  case (1 a)
  show ?case by (cases ys) simp_all
next
  case (2 a x xs)
  then show ?case by (simp add: add.assoc)
qed

lemma prefix_sums_shift: "prefix_sums (a + b) xs = map (\<lambda>k. k + b) (prefix_sums a xs)"
  by (induction a xs rule: prefix_sums.induct) (simp_all add: add.commute add.left_commute)

section \<open>Representation\<close>

lemma length_offsets_of [simp]: "length (offsets_of segs) = Suc (length segs)"
  by (simp add: offsets_of_def)

lemma offsets_of_not_Nil [simp]: "offsets_of segs \<noteq> []"
  by (simp add: offsets_of_def)

lemma offsets_of_Nil [simp]: "offsets_of [] = [0]"
  by (simp add: offsets_of_def)

lemma sum_list_map_length: "sum_list (map length xss) = length (concat xss)"
  by (simp add: length_concat)

lemma offsets_of_snoc: "offsets_of (segs @ [x]) = offsets_of segs @ [word_of_nat (length (concat segs @ x))]"
  by (simp add: offsets_of_def prefix_sums_snoc length_concat)

lemma nth_offsets_of:
  "i \<le> length segs \<Longrightarrow> offsets_of segs ! i = word_of_nat (length (concat (take i segs)))"
  by (simp add: offsets_of_def nth_prefix_sums length_concat take_map)

lemma repr_segs_empty [simp]: "repr_segs [0] [] []"
  by (simp add: repr_segs_def)

lemma repr_segs_push:
  "repr_segs offs data segs \<Longrightarrow>
    repr_segs (offs @ [word_of_nat (length (data @ x))]) (data @ x) (segs @ [x])"
  by (simp add: repr_segs_def offsets_of_snoc)

lemma repr_segs_push_sum:
  "repr_segs offs data segs \<Longrightarrow>
    repr_segs (offs @ [word_of_nat (length data) + word_of_nat (length x)]) (data @ x) (segs @ [x])"
  using repr_segs_push [of offs data segs x] by simp

lemma repr_segs_push_empty:
  "repr_segs offs data segs \<Longrightarrow> repr_segs (offs @ [word_of_nat (length data)]) data (segs @ [[]])"
  using repr_segs_push [of offs data segs "[]"] by simp

lemma repr_segs_length: "repr_segs offs data segs \<Longrightarrow> length offs = Suc (length segs)"
  by (simp add: repr_segs_def)

lemma repr_segs_append:
  assumes "repr_segs oa da a" and "repr_segs ob db b"
  shows "repr_segs (oa @ map (\<lambda>k. k + word_of_nat (length da)) (tl ob)) (da @ db) (a @ b)"
proof -
  have "offsets_of (a @ b) = offsets_of a @
      map (\<lambda>k. k + word_of_nat (length (concat a))) (tl (offsets_of b))"
  proof -
    have "prefix_sums 0 (map length a @ map length b) = prefix_sums 0 (map length a) @
        map (\<lambda>k. k + length (concat a)) (tl (prefix_sums 0 (map length b)))"
      using prefix_sums_shift [of 0 "length (concat a)" "map length b"]
      by (simp add: prefix_sums_append length_concat map_tl)
    then show ?thesis
      by (simp add: offsets_of_def map_tl o_def)
  qed
  with assms show ?thesis by (simp add: repr_segs_def)
qed

lemma concat_split_nth:
  "i < length xs \<Longrightarrow> concat xs = concat (take i xs) @ xs ! i @ concat (drop (Suc i) xs)"
  by (metis append_take_drop_id concat.simps(2) concat_append Cons_nth_drop_Suc)

lemma length_concat_take_le: "length (concat (take i xs)) \<le> length (concat xs)"
  by (metis append_take_drop_id concat_append length_append le_add1)

lemma unat_nth_offsets_of:
  assumes "length (concat segs) < 2 ^ 32" and "i \<le> length segs"
  shows "unat (offsets_of segs ! i) = length (concat (take i segs))"
  using assms length_concat_take_le [of i segs]
  by (simp add: nth_offsets_of unat_of_nat take_bit_eq_mod)

lemma concat_take_Suc:
  "i < length xs \<Longrightarrow> concat (take (Suc i) xs) = concat (take i xs) @ xs ! i"
  by (simp add: take_Suc_conv_app_nth)

lemma seg_at_repr:
  assumes "repr_segs offs data segs" and "length data < 2 ^ 32" and "i < length segs"
  shows "seg_at offs data i = segs ! i"
proof -
  have r: "offs = offsets_of segs" "data = concat segs" using assms(1) by (simp_all add: repr_segs_def)
  have "concat segs = concat (take i segs) @ segs ! i @ concat (drop (Suc i) segs)"
    using assms(3) by (rule concat_split_nth)
  moreover have "unat (offs ! i) = length (concat (take i segs))"
    "unat (offs ! Suc i) = length (concat (take i segs)) + length (segs ! i)"
    using assms(2,3) r by (simp_all add: unat_nth_offsets_of concat_take_Suc)
  ultimately show ?thesis
    unfolding seg_at_def r(2) by (simp add: slice_at_exact)
qed

lemma seg_at_bounds:
  assumes "repr_segs offs data segs" and "length data < 2 ^ 32" and "i < length segs"
  shows "unat (offs ! i) \<le> unat (offs ! Suc i)" and "unat (offs ! Suc i) \<le> length data"
  using assms length_concat_take_le [of "Suc i" segs]
  by (simp_all add: repr_segs_def unat_nth_offsets_of concat_take_Suc)

lemma segs_of_repr:
  assumes "repr_segs offs data segs" and "length data < 2 ^ 32"
  shows "segs_of offs data = segs"
  using assms repr_segs_length [OF assms(1)]
  by (intro nth_equalityI) (auto simp: segs_of_def seg_at_repr)

end
