(* ===== verification/Bits.thy ===== *)
theory Bits
  imports RustStd
begin

text \<open>
  Bit-packed booleans, least significant bit first: the validity bitmaps and the boolean buffers of
  the columnar format. \<open>bits_repr\<close> relates a byte vector to the boolean list it stands for; a byte
  vector has at most one such list of a given length and the padding bits of its last byte are 0.
\<close>

section \<open>Definitions\<close>

text \<open>\<open>n.div_ceil(8)\<close>.\<close>

definition bits_len :: "nat \<Rightarrow> nat" where
  "bits_len n = (n + 7) div 8"

text \<open>The test \<open>bits[i / 8] & (1 << (i % 8)) != 0\<close>, without and with the bounds check.\<close>

definition bit_at :: "bytes \<Rightarrow> nat \<Rightarrow> bool" where
  "bit_at bs i \<longleftrightarrow> bs ! (i div 8) AND push_bit (i mod 8) 1 \<noteq> 0"

definition get_bit :: "bytes \<Rightarrow> nat \<Rightarrow> bool result" where
  "get_bit bs i = (if i div 8 < length bs then Ok (bit_at bs i) else Panicked)"

text \<open>\<open>bits[i / 8] |= 1 << (i % 8)\<close> and \<open>bits[i / 8] &= !(1 << (i % 8))\<close>.\<close>

definition or_bit :: "nat \<Rightarrow> bytes \<Rightarrow> bytes" where
  "or_bit i bs = bs[i div 8 := bs ! (i div 8) OR push_bit (i mod 8) 1]"

definition clear_bit :: "nat \<Rightarrow> bytes \<Rightarrow> bytes" where
  "clear_bit i bs = bs[i div 8 := bs ! (i div 8) AND NOT (push_bit (i mod 8) 1)]"

definition bits_repr :: "bytes \<Rightarrow> bool list \<Rightarrow> bool" where
  "bits_repr bytes bs \<longleftrightarrow>
     length bytes = bits_len (length bs) \<and>
     (\<forall>k < length bytes. \<forall>j < 8. bit (bytes ! k) j \<longleftrightarrow> 8 * k + j < length bs \<and> bs ! (8 * k + j))"

section \<open>Reading and writing single bits\<close>

lemma bit_at_iff: "bit_at bs i \<longleftrightarrow> bit (bs ! (i div 8)) (i mod 8)"
  unfolding bit_at_def by (simp add: and_exp_eq_0_iff_not_bit push_bit_eq_mult)

lemma bit_index_eq: "j < 8 \<Longrightarrow> (8 * (i div 8) + j = i) = (j = i mod 8)" for i j :: nat
  by presburger

lemma bit_or_bit:
  "i div 8 < length bs \<Longrightarrow> k < length bs \<Longrightarrow> j < 8 \<Longrightarrow>
    bit (or_bit i bs ! k) j \<longleftrightarrow> bit (bs ! k) j \<or> 8 * k + j = i"
  by (cases "k = i div 8") (auto simp: or_bit_def bit_simps bit_index_eq)

lemma bit_clear_bit:
  "i div 8 < length bs \<Longrightarrow> k < length bs \<Longrightarrow> j < 8 \<Longrightarrow>
    bit (clear_bit i bs ! k) j \<longleftrightarrow> bit (bs ! k) j \<and> 8 * k + j \<noteq> i"
  by (cases "k = i div 8") (auto simp: clear_bit_def bit_simps bit_index_eq)

lemma length_or_bit [simp]: "length (or_bit i bs) = length bs"
  by (simp add: or_bit_def)

lemma length_clear_bit [simp]: "length (clear_bit i bs) = length bs"
  by (simp add: clear_bit_def)

lemma bits_len_simps [simp]: "bits_len 0 = 0"
  by (simp add: bits_len_def)

lemma bits_len_Suc: "bits_len (Suc n) = (if n mod 8 = 0 then Suc (bits_len n) else bits_len n)"
proof -
  have n: "n = 8 * (n div 8) + n mod 8" and r: "n mod 8 < 8" by simp_all
  have "bits_len n = n div 8 + (n mod 8 + 7) div 8"
    unfolding bits_len_def by (subst n) (simp only: add.assoc div_mult_self4 zero_neq_numeral not_False_eq_True)
  moreover have "bits_len (Suc n) = n div 8 + Suc (n mod 8 + 7) div 8"
    unfolding bits_len_def add_Suc
    by (subst n) (simp only: add.assoc add_Suc_right [symmetric] div_mult_self4 zero_neq_numeral not_False_eq_True)
  moreover have "Suc (n mod 8 + 7) div 8 = Suc 0" using r by simp
  moreover have "(n mod 8 + 7) div 8 = (if n mod 8 = 0 then 0 else 1)"
    using r by (auto simp: div_nat_eqI)
  ultimately show ?thesis by simp
qed

lemma bits_len_index: "i < n \<Longrightarrow> i div 8 < bits_len n"
  unfolding bits_len_def by (simp add: less_eq_div_iff_mult_less_eq Suc_le_eq [symmetric])

section \<open>Representation\<close>

lemma bits_repr_Nil [simp]: "bits_repr [] []"
  by (simp add: bits_repr_def)

lemma bits_repr_bit_at:
  assumes "bits_repr bytes bs" and "i < length bs"
  shows "i div 8 < length bytes" and "bit_at bytes i = bs ! i"
proof -
  show l: "i div 8 < length bytes"
    using assms bits_len_index by (simp add: bits_repr_def)
  have "bit (bytes ! (i div 8)) (i mod 8) \<longleftrightarrow> 8 * (i div 8) + i mod 8 < length bs \<and> bs ! (8 * (i div 8) + i mod 8)"
    using assms(1) l unfolding bits_repr_def by (meson mod_less_divisor zero_less_numeral)
  with assms(2) show "bit_at bytes i = bs ! i"
    by (simp add: bit_at_iff)
qed

lemma bits_repr_get_bit:
  "bits_repr bytes bs \<Longrightarrow> i < length bs \<Longrightarrow> get_bit bytes i = Ok (bs ! i)"
  by (simp add: get_bit_def bits_repr_bit_at)

lemma u8_eqI: "(\<And>j. j < 8 \<Longrightarrow> bit (a :: u8) j \<longleftrightarrow> bit b j) \<Longrightarrow> a = b"
  by (rule bit_eqI) (simp add: bit_word_def)

lemma bits_repr_unique:
  assumes "bits_repr a bs" and "bits_repr b bs"
  shows "a = b"
proof (rule nth_equalityI)
  show "length a = length b" using assms by (simp add: bits_repr_def)
next
  fix k assume "k < length a"
  with assms show "a ! k = b ! k" by (intro u8_eqI) (auto simp: bits_repr_def)
qed

lemma bits_repr_grow:
  assumes "bits_repr bytes bs"
  shows "bits_repr (if length bs mod 8 = 0 then bytes @ [0] else bytes) (bs @ [False])"
proof -
  have len: "length bytes = bits_len (length bs)" using assms by (simp add: bits_repr_def)
  have old: "bit (bytes ! k) j \<longleftrightarrow> 8 * k + j < length bs \<and> bs ! (8 * k + j)"
    if "k < length bytes" "j < 8" for k j using assms that by (simp add: bits_repr_def)
  show ?thesis
  proof (cases "length bs mod 8 = 0")
    case True
    then have l8: "8 * length bytes = length bs" using len by (auto simp: bits_len_def elim!: dvdE)
    have "bit ((bytes @ [0]) ! k) j \<longleftrightarrow> 8 * k + j < Suc (length bs) \<and> (bs @ [False]) ! (8 * k + j)"
      if "k \<le> length bytes" "j < 8" for k j
    proof (cases "k < length bytes")
      case True
      then have "8 * k + j < length bs" using l8 \<open>j < 8\<close> by linarith
      with True \<open>j < 8\<close> show ?thesis by (simp add: nth_append old)
    next
      case False
      with that l8 show ?thesis by (cases j) (simp_all add: nth_append)
    qed
    with True len show ?thesis by (simp add: bits_repr_def bits_len_Suc less_Suc_eq_le)
  next
    case False
    have "bit (bytes ! k) j \<longleftrightarrow> 8 * k + j < Suc (length bs) \<and> (bs @ [False]) ! (8 * k + j)"
      if "k < length bytes" "j < 8" for k j
      using old [OF that] by (cases "8 * k + j = length bs") (simp_all add: nth_append)
    with False len show ?thesis by (simp add: bits_repr_def bits_len_Suc)
  qed
qed

lemma bits_repr_or_bit:
  assumes "bits_repr bytes bs" and "i < length bs"
  shows "bits_repr (or_bit i bytes) (bs[i := True])"
proof -
  have l: "i div 8 < length bytes" by (rule bits_repr_bit_at) (use assms in auto)
  show ?thesis
    using assms unfolding bits_repr_def
    by (auto simp: bit_or_bit [OF l] nth_list_update split: if_splits)
qed

lemma bits_repr_clear_bit:
  assumes "bits_repr bytes bs" and "i < length bs"
  shows "bits_repr (clear_bit i bytes) (bs[i := False])"
proof -
  have l: "i div 8 < length bytes" by (rule bits_repr_bit_at) (use assms in auto)
  show ?thesis
    using assms unfolding bits_repr_def
    by (auto simp: bit_clear_bit [OF l] nth_list_update split: if_splits)
qed

lemma bits_repr_length: "bits_repr bytes bs \<Longrightarrow> length bytes = bits_len (length bs)"
  by (simp add: bits_repr_def)

end
