(* ===== verification/Columns.thy ===== *)
theory Columns
  imports Schema Offsets Bits
begin

text \<open>
  \<open>array.rs\<close>: finished columns with their typed, panic-aware readers, the bitmap builder and the
  column builder with its push operations. The lemmas relate a builder to the list of cells that
  were pushed; the property at the end says that a finished column reads back exactly those cells.
\<close>

section \<open>Columns\<close>

datatype column_data =
    DInt64 "i64 list"
  | DFloat64 "f64 list"
  | DBool "bool list"
  | DUtf8 "u32 list" bytes

record column =
  col_field :: field
  col_len :: nat
  validity :: "bytes option"
  col_data :: column_data

definition is_valid :: "column \<Rightarrow> nat \<Rightarrow> bool result" where
  "is_valid c row =
     (if col_len c \<le> row then Ok False
      else (case validity c of None \<Rightarrow> Ok True | Some bits \<Rightarrow> get_bit bits row))"

definition list_get :: "'a list \<Rightarrow> nat \<Rightarrow> 'a option" where
  "list_get xs i = (if i < length xs then Some (xs ! i) else None)"

definition get_i64 :: "column \<Rightarrow> nat \<Rightarrow> i64 option result" where
  "get_i64 c row =
     bind_r (is_valid c row) (\<lambda>v. Ok (if \<not> v then None else
       (case col_data c of DInt64 xs \<Rightarrow> list_get xs row | _ \<Rightarrow> None)))"

definition get_f64 :: "column \<Rightarrow> nat \<Rightarrow> f64 option result" where
  "get_f64 c row =
     bind_r (is_valid c row) (\<lambda>v. Ok (if \<not> v then None else
       (case col_data c of DFloat64 xs \<Rightarrow> list_get xs row | _ \<Rightarrow> None)))"

definition get_bool :: "column \<Rightarrow> nat \<Rightarrow> bool option result" where
  "get_bool c row =
     bind_r (is_valid c row) (\<lambda>v. Ok (if \<not> v then None else
       (case col_data c of DBool xs \<Rightarrow> list_get xs row | _ \<Rightarrow> None)))"

text \<open>The slice \<open>data[start..end]\<close> panics when the offsets are out of order or out of range.\<close>

definition get_str :: "column \<Rightarrow> nat \<Rightarrow> string option result" where
  "get_str c row =
     bind_r (is_valid c row) (\<lambda>v.
       if \<not> v \<or> col_len c \<le> row then Ok None
       else (case col_data c of
           DUtf8 offs data \<Rightarrow>
             (case (list_get offs row, list_get offs (row + 1)) of
                (Some s, Some e) \<Rightarrow>
                  if unat s \<le> unat e \<and> unat e \<le> length data
                  then Ok (from_utf8 (slice_at (unat s) (unat e - unat s) data))
                  else Panicked
              | _ \<Rightarrow> Ok None)
         | _ \<Rightarrow> Ok None))"

section \<open>The bitmap builder\<close>

record bitmap =
  bm_bits :: bytes
  bm_len :: nat
  any_unset :: bool

definition bitmap_new :: bitmap where
  "bitmap_new = \<lparr>bm_bits = [], bm_len = 0, any_unset = False\<rparr>"

definition bitmap_push :: "bool \<Rightarrow> bitmap \<Rightarrow> bitmap" where
  "bitmap_push v b =
     (let bits = (if bm_len b mod 8 = 0 then bm_bits b @ [0] else bm_bits b)
      in if v then b\<lparr>bm_bits := or_bit (bm_len b) bits, bm_len := bm_len b + 1\<rparr>
         else b\<lparr>bm_bits := bits, any_unset := True, bm_len := bm_len b + 1\<rparr>)"

section \<open>The column builder\<close>

datatype column_builder =
    BInt64 "i64 list" bitmap
  | BFloat64 "f64 list" bitmap
  | BBool "bool list" bitmap
  | BUtf8 "u32 list" bytes bitmap

fun builder_new :: "data_type \<Rightarrow> column_builder" where
  "builder_new Int64 = BInt64 [] bitmap_new"
| "builder_new Float64 = BFloat64 [] bitmap_new"
| "builder_new Boolean = BBool [] bitmap_new"
| "builder_new Utf8 = BUtf8 [0] [] bitmap_new"

fun builder_type :: "column_builder \<Rightarrow> data_type" where
  "builder_type (BInt64 _ _) = Int64"
| "builder_type (BFloat64 _ _) = Float64"
| "builder_type (BBool _ _) = Boolean"
| "builder_type (BUtf8 _ _ _) = Utf8"

definition mismatch :: "column_builder \<Rightarrow> string \<Rightarrow> error" where
  "mismatch b pushed =
     TypeError ''<builder>'' (''cannot push '' @ pushed @ '' into a '' @ dtype_name (builder_type b) @ '' column'')"

fun push_i64 :: "i64 \<Rightarrow> column_builder \<Rightarrow> column_builder result" where
  "push_i64 v (BInt64 xs bm) = Ok (BInt64 (xs @ [v]) (bitmap_push True bm))"
| "push_i64 v (BFloat64 xs bm) = Ok (BFloat64 (xs @ [i64_as_f64 v]) (bitmap_push True bm))"
| "push_i64 v b = Err (mismatch b ''i64'')"

fun push_f64 :: "f64 \<Rightarrow> column_builder \<Rightarrow> column_builder result" where
  "push_f64 v (BFloat64 xs bm) = Ok (BFloat64 (xs @ [v]) (bitmap_push True bm))"
| "push_f64 v b = Err (mismatch b ''f64'')"

fun push_bool :: "bool \<Rightarrow> column_builder \<Rightarrow> column_builder result" where
  "push_bool v (BBool xs bm) = Ok (BBool (xs @ [v]) (bitmap_push True bm))"
| "push_bool v b = Err (mismatch b ''bool'')"

fun push_str :: "string \<Rightarrow> column_builder \<Rightarrow> column_builder result" where
  "push_str v (BUtf8 offs data bm) =
     (let data' = data @ as_bytes v
      in Ok (BUtf8 (offs @ [word_of_nat (length data')]) data' (bitmap_push True bm)))"
| "push_str v b = Err (mismatch b ''utf8'')"

fun push_null :: "column_builder \<Rightarrow> column_builder" where
  "push_null (BInt64 xs bm) = BInt64 (xs @ [0]) (bitmap_push False bm)"
| "push_null (BFloat64 xs bm) = BFloat64 (xs @ [0]) (bitmap_push False bm)"
| "push_null (BBool xs bm) = BBool (xs @ [False]) (bitmap_push False bm)"
| "push_null (BUtf8 offs data bm) = BUtf8 (offs @ [word_of_nat (length data)]) data (bitmap_push False bm)"

definition assemble :: "string \<Rightarrow> data_type \<Rightarrow> nat \<Rightarrow> bitmap \<Rightarrow> column_data \<Rightarrow> column" where
  "assemble nm dt n bm d =
     \<lparr>col_field = field_new nm dt (any_unset bm), col_len = n,
      validity = (if any_unset bm then Some (bm_bits bm) else None), col_data = d\<rparr>"

fun finish :: "string \<Rightarrow> column_builder \<Rightarrow> column" where
  "finish nm (BInt64 xs bm) = assemble nm Int64 (length xs) bm (DInt64 xs)"
| "finish nm (BFloat64 xs bm) = assemble nm Float64 (length xs) bm (DFloat64 xs)"
| "finish nm (BBool xs bm) = assemble nm Boolean (length xs) bm (DBool xs)"
| "finish nm (BUtf8 offs data bm) = assemble nm Utf8 (length offs - 1) bm (DUtf8 offs data)"

section \<open>Cells: what a builder was given and what a column returns\<close>

datatype cell = CInt i64 | CFloat f64 | CBool bool | CText string

datatype push = PushInt i64 | PushFloat f64 | PushBool bool | PushText string | PushNull

fun apply_push :: "push \<Rightarrow> column_builder \<Rightarrow> column_builder result" where
  "apply_push (PushInt v) b = push_i64 v b"
| "apply_push (PushFloat v) b = push_f64 v b"
| "apply_push (PushBool v) b = push_bool v b"
| "apply_push (PushText v) b = push_str v b"
| "apply_push PushNull b = Ok (push_null b)"

definition build :: "data_type \<Rightarrow> push list \<Rightarrow> column_builder result" where
  "build dt ps = fold_r apply_push ps (builder_new dt)"

text \<open>The cell a push stands for in a column of the given type (an integer widens to a float).\<close>

fun pushed_cell :: "data_type \<Rightarrow> push \<Rightarrow> cell option" where
  "pushed_cell dt (PushInt v) = Some (if dt = Float64 then CFloat (i64_as_f64 v) else CInt v)"
| "pushed_cell dt (PushFloat v) = Some (CFloat v)"
| "pushed_cell dt (PushBool v) = Some (CBool v)"
| "pushed_cell dt (PushText v) = Some (CText v)"
| "pushed_cell dt PushNull = None"

fun push_fits :: "data_type \<Rightarrow> push \<Rightarrow> bool" where
  "push_fits dt (PushInt _) \<longleftrightarrow> dt = Int64 \<or> dt = Float64"
| "push_fits dt (PushFloat _) \<longleftrightarrow> dt = Float64"
| "push_fits dt (PushBool _) \<longleftrightarrow> dt = Boolean"
| "push_fits dt (PushText _) \<longleftrightarrow> dt = Utf8"
| "push_fits dt PushNull \<longleftrightarrow> True"

text \<open>The reader a client picks by the type of the column.\<close>

definition read_cell :: "column \<Rightarrow> nat \<Rightarrow> cell option result" where
  "read_cell c row =
     (case data_type (col_field c) of
        Int64 \<Rightarrow> bind_r (get_i64 c row) (\<lambda>x. Ok (map_option CInt x))
      | Float64 \<Rightarrow> bind_r (get_f64 c row) (\<lambda>x. Ok (map_option CFloat x))
      | Boolean \<Rightarrow> bind_r (get_bool c row) (\<lambda>x. Ok (map_option CBool x))
      | Utf8 \<Rightarrow> bind_r (get_str c row) (\<lambda>x. Ok (map_option CText x)))"

fun text_bytes :: "push \<Rightarrow> bytes" where
  "text_bytes (PushText s) = as_bytes s"
| "text_bytes _ = []"

section \<open>The bitmap builder is a list of booleans\<close>

definition bitmap_repr :: "bitmap \<Rightarrow> bool list \<Rightarrow> bool" where
  "bitmap_repr bm bs \<longleftrightarrow>
     bits_repr (bm_bits bm) bs \<and> bm_len bm = length bs \<and> (any_unset bm \<longleftrightarrow> False \<in> set bs)"

lemma bitmap_repr_new [simp]: "bitmap_repr bitmap_new []"
  by (simp add: bitmap_repr_def bitmap_new_def)

lemma bitmap_repr_push:
  assumes "bitmap_repr bm bs"
  shows "bitmap_repr (bitmap_push v bm) (bs @ [v])"
proof -
  let ?bits = "if bm_len bm mod 8 = 0 then bm_bits bm @ [0] else bm_bits bm"
  have len: "bm_len bm = length bs" using assms by (simp add: bitmap_repr_def)
  have grown: "bits_repr ?bits (bs @ [False])"
    using assms bits_repr_grow unfolding bitmap_repr_def by fastforce
  from bits_repr_or_bit [OF grown, of "length bs"]
  have "bits_repr (or_bit (bm_len bm) ?bits) (bs @ [True])"
    by (simp add: len list_update_append)
  with grown assms show ?thesis
    by (auto simp: bitmap_repr_def bitmap_push_def Let_def)
qed

section \<open>The builder invariant\<close>

text \<open>
  A builder of type \<open>dt\<close> after the pushes \<open>ps\<close>: its buffers hold one slot for each push, null
  slots hold the zero placeholder, and the bitmap records which pushes were not null.
\<close>

fun slot_int :: "push \<Rightarrow> i64" where
  "slot_int (PushInt v) = v"
| "slot_int _ = 0"

fun slot_float :: "push \<Rightarrow> f64" where
  "slot_float (PushInt v) = i64_as_f64 v"
| "slot_float (PushFloat v) = v"
| "slot_float _ = 0"

fun slot_bool :: "push \<Rightarrow> bool" where
  "slot_bool (PushBool v) = v"
| "slot_bool _ = False"

fun builder_inv :: "push list \<Rightarrow> column_builder \<Rightarrow> bool" where
  "builder_inv ps (BInt64 xs bm) \<longleftrightarrow> xs = map slot_int ps \<and> bitmap_repr bm (map (\<lambda>p. p \<noteq> PushNull) ps)"
| "builder_inv ps (BFloat64 xs bm) \<longleftrightarrow> xs = map slot_float ps \<and> bitmap_repr bm (map (\<lambda>p. p \<noteq> PushNull) ps)"
| "builder_inv ps (BBool xs bm) \<longleftrightarrow> xs = map slot_bool ps \<and> bitmap_repr bm (map (\<lambda>p. p \<noteq> PushNull) ps)"
| "builder_inv ps (BUtf8 offs data bm) \<longleftrightarrow>
     repr_segs offs data (map text_bytes ps) \<and> bitmap_repr bm (map (\<lambda>p. p \<noteq> PushNull) ps)"

lemma builder_inv_new [simp]: "builder_inv [] (builder_new dt)"
  by (cases dt) simp_all

lemma builder_type_new [simp]: "builder_type (builder_new dt) = dt"
  by (cases dt) simp_all

lemma apply_push_ok_iff: "(\<exists>b'. apply_push p b = Ok b') \<longleftrightarrow> push_fits (builder_type b) p"
  by (cases p; cases b) (simp_all add: Let_def)

lemma apply_push_type: "apply_push p b = Ok b' \<Longrightarrow> builder_type b' = builder_type b"
  by (cases p; cases b) (auto simp: Let_def)

lemma apply_push_inv:
  assumes "builder_inv ps b" and "apply_push p b = Ok b'"
  shows "builder_inv (ps @ [p]) b'"
  using assms
  by (cases p; cases b)
    (auto simp: Let_def intro!: bitmap_repr_push repr_segs_push_empty
      repr_segs_push_sum [where x = "as_bytes s" for s, simplified])

lemma build_inv:
  assumes "build dt ps = Ok b"
  shows "builder_inv ps b \<and> builder_type b = dt \<and> (\<forall>p \<in> set ps. push_fits dt p)"
  using assms
proof (induction ps arbitrary: b rule: rev_induct)
  case Nil
  then show ?case by (auto simp: build_def)
next
  case (snoc p ps)
  then obtain b0 where b0: "build dt ps = Ok b0" "apply_push p b0 = Ok b"
    by (auto simp: build_def fold_r_snoc bind_r_eq_Inr)
  from snoc.IH [OF b0(1)] b0(2) show ?case
    using apply_push_inv [of ps b0 p b] apply_push_type [OF b0(2)] apply_push_ok_iff [of p b0] by auto
qed

lemma build_ok_iff: "(\<exists>b. build dt ps = Ok b) \<longleftrightarrow> (\<forall>p \<in> set ps. push_fits dt p)"
proof (induction ps rule: rev_induct)
  case Nil
  show ?case by (simp add: build_def)
next
  case (snoc p ps)
  have step: "build dt (ps @ [p]) = bind_r (build dt ps) (apply_push p)"
    by (simp add: build_def fold_r_snoc)
  show ?case
  proof (cases "build dt ps")
    case (Inl e)
    with snoc show ?thesis unfolding step by auto
  next
    case (Inr b)
    with build_inv have "builder_type b = dt" by blast
    with Inr snoc apply_push_ok_iff [of p b] show ?thesis unfolding step by auto
  qed
qed

section \<open>Reading a finished column\<close>

lemma assemble_sel [simp]:
  "col_field (assemble nm dt n bm d) = field_new nm dt (any_unset bm)"
  "col_len (assemble nm dt n bm d) = n" "col_data (assemble nm dt n bm d) = d"
  "validity (assemble nm dt n bm d) = (if any_unset bm then Some (bm_bits bm) else None)"
  by (simp_all add: assemble_def)

lemma is_valid_assemble:
  assumes "bitmap_repr bm bs" and "n = length bs" and "i < n"
  shows "is_valid (assemble nm dt n bm d) i = Ok (bs ! i)"
proof (cases "any_unset bm")
  case True
  with assms show ?thesis
    by (simp add: is_valid_def bitmap_repr_def bits_repr_get_bit)
next
  case False
  have "bs ! i \<in> set bs" using assms by simp
  with False assms(1) have "bs ! i" by (cases "bs ! i") (auto simp: bitmap_repr_def)
  with False assms show ?thesis by (simp add: is_valid_def)
qed

lemma from_utf8_as_bytes: "utf8_string s \<Longrightarrow> from_utf8 (as_bytes s) = Some s"
  by (simp add: from_utf8_def utf8_string_def)

lemma get_str_repr:
  assumes "col_data c = DUtf8 offs data" "repr_segs offs data segs" "length data < 2 ^ 32"
    and "i < length segs" "i < col_len c" "is_valid c i = Ok True"
  shows "get_str c i = Ok (from_utf8 (segs ! i))"
proof -
  have b: "unat (offs ! i) \<le> unat (offs ! Suc i)" "unat (offs ! Suc i) \<le> length data"
    using assms(2,3,4) by (rule seg_at_bounds)+
  have len: "length offs = Suc (length segs)" using assms(2) by (rule repr_segs_length)
  have "slice_at (unat (offs ! i)) (unat (offs ! Suc i) - unat (offs ! i)) data = segs ! i"
    using seg_at_repr [OF assms(2,3,4)] by (simp add: seg_at_def)
  with b len assms show ?thesis by (simp add: get_str_def list_get_def)
qed

lemma finish_len:
  "builder_inv ps b \<Longrightarrow> col_len (finish nm b) = length ps"
  by (cases b) (auto dest: repr_segs_length)

lemma read_null:
  assumes "is_valid c i = Ok False"
  shows "read_cell c i = Ok None"
  by (cases "data_type (col_field c)")
    (simp_all add: read_cell_def get_i64_def get_f64_def get_bool_def get_str_def assms)

lemma finish_read:
  assumes inv: "builder_inv ps b" and ty: "builder_type b = dt" and i: "i < length ps"
    and fits: "push_fits dt (ps ! i)"
    and short: "length (concat (map text_bytes ps)) < 2 ^ 32"
    and utf: "\<And>s. ps ! i = PushText s \<Longrightarrow> utf8_string s"
  shows "read_cell (finish nm b) i = Ok (pushed_cell dt (ps ! i))"
proof (cases b)
  case (BInt64 xs bm)
  with inv i have "bitmap_repr bm (map (\<lambda>p. p \<noteq> PushNull) ps)" "xs = map slot_int ps" by simp_all
  with BInt64 ty i fits show ?thesis
    by (cases "ps ! i") (auto simp: read_cell_def get_i64_def list_get_def is_valid_assemble)
next
  case (BFloat64 xs bm)
  with inv i have "bitmap_repr bm (map (\<lambda>p. p \<noteq> PushNull) ps)" "xs = map slot_float ps" by simp_all
  with BFloat64 ty i fits show ?thesis
    by (cases "ps ! i") (auto simp: read_cell_def get_f64_def list_get_def is_valid_assemble)
next
  case (BBool xs bm)
  with inv i have "bitmap_repr bm (map (\<lambda>p. p \<noteq> PushNull) ps)" "xs = map slot_bool ps" by simp_all
  with BBool ty i fits show ?thesis
    by (cases "ps ! i") (auto simp: read_cell_def get_bool_def list_get_def is_valid_assemble)
next
  case (BUtf8 offs data bm)
  then have sg: "repr_segs offs data (map text_bytes ps)" using inv by simp
  have n: "length offs - 1 = length ps" using repr_segs_length [OF sg] by simp
  from BUtf8 inv i n is_valid_assemble [of bm "map (\<lambda>p. p \<noteq> PushNull) ps" "length ps" i]
  have v: "is_valid (finish nm b) i = Ok (ps ! i \<noteq> PushNull)" by simp
  show ?thesis
  proof (cases "ps ! i = PushNull")
    case True
    with v show ?thesis by (simp add: read_null)
  next
    case False
    with fits ty BUtf8 obtain s where s: "ps ! i = PushText s" by (cases "ps ! i") auto
    have "get_str (finish nm b) i = Ok (from_utf8 (map text_bytes ps ! i))"
      using BUtf8 sg short i n v False by (intro get_str_repr) (simp_all add: repr_segs_def)
    with s i utf BUtf8 ty show ?thesis
      by (simp add: read_cell_def from_utf8_as_bytes)
  qed
qed

section \<open>Properties\<close>

text \<open>
  A column builder accepts a sequence of pushes exactly when every pushed value has a type the
  column can hold (an integer may go into a float column, null into any).
\<close>

theorem build_accepts: "is_ok (build dt ps) \<longleftrightarrow> list_all (push_fits dt) ps"
  using build_ok_iff [of dt ps] by (simp add: is_ok_iff list_all_iff)

text \<open>
  What is pushed into a builder is what the finished column reads back: one row for each push,
  every row with its value (an integer widened in a float column) or null, null past the end, and
  the column marked nullable exactly when a null was pushed. The offsets of a text column are 32-bit,
  so its bytes must fit.
\<close>

theorem build_reads_back:
  assumes built: "build dt ps = Ok b"
    and short: "length (concat (map text_bytes ps)) < 2 ^ 32"
    and utf: "\<And>s. PushText s \<in> set ps \<Longrightarrow> utf8_string s"
  shows "map (read_cell (finish nm b)) [0..<length ps + 1] = map (\<lambda>p. Ok (pushed_cell dt p)) ps @ [Ok None]
    \<and> col_len (finish nm b) = length ps
    \<and> (nullable (col_field (finish nm b)) \<longleftrightarrow> PushNull \<in> set ps)"
proof -
  let ?c = "finish nm b"
  have inv: "builder_inv ps b" "builder_type b = dt" "\<forall>p \<in> set ps. push_fits dt p"
    using build_inv [OF built] by simp_all
  have "read_cell ?c i = Ok (pushed_cell dt (ps ! i))" if "i < length ps" for i
  proof (rule finish_read [OF inv(1,2) that _ short])
    show "push_fits dt (ps ! i)" using inv(3) that by simp
    show "utf8_string s" if "ps ! i = PushText s" for s
      using utf nth_mem [OF \<open>i < length ps\<close>] that by simp
  qed
  then have "map (read_cell ?c) [0..<length ps] = map (\<lambda>p. Ok (pushed_cell dt p)) ps"
    by (intro nth_equalityI) simp_all
  moreover have len: "col_len ?c = length ps" by (rule finish_len [OF inv(1)])
  moreover have "read_cell ?c (length ps) = Ok None"
    by (rule read_null) (simp add: is_valid_def len)
  moreover have "nullable (col_field ?c) \<longleftrightarrow> PushNull \<in> set ps"
    using inv(1) by (cases b) (auto simp: bitmap_repr_def image_iff field_new_def)
  ultimately show ?thesis by simp
qed

lemma build_reads_back_witness:
  "\<exists>b. build Utf8 [PushText ''ab'', PushNull, PushText ''c''] = Ok b
    \<and> map (read_cell (finish ''name'' b)) [0..<4]
        = [Ok (Some (CText ''ab'')), Ok None, Ok (Some (CText ''c'')), Ok None]"
proof -
  let ?ps = "[PushText ''ab'', PushNull, PushText ''c'']"
  have "is_ok (build Utf8 ?ps)" by code_simp
  then obtain b where b: "build Utf8 ?ps = Ok b" by (auto simp: is_ok_iff)
  have len: "length (concat (map text_bytes ?ps)) < 2 ^ 32" by (simp add: as_bytes_def)
  have utf: "utf8_string s" if "PushText s \<in> set ?ps" for s
  proof -
    have "utf8_string ''ab''" "utf8_string ''c''" by code_simp+
    with that show ?thesis by auto
  qed
  from build_reads_back [OF b len utf, of "''name''"] b show ?thesis by (simp add: numeral_eq_Suc)
qed

end
