(* ===== verification/Batch.thy ===== *)
theory Batch
  imports Columns
begin

text \<open>\<open>batch.rs\<close>: a record batch, its validating constructor and lookups.\<close>

section \<open>Definitions\<close>

record record_batch =
  batch_schema :: schema
  num_rows :: nat
  columns :: "column list"

definition row_mismatch :: "column \<Rightarrow> nat \<Rightarrow> error" where
  "row_mismatch c n =
     Codec (''column `'' @ field_name (col_field c) @ ''` has '' @ nat_to_string (col_len c)
            @ '' rows, expected '' @ nat_to_string n)"

definition try_new :: "column list \<Rightarrow> record_batch result" where
  "try_new cs =
     (let n = (case cs of [] \<Rightarrow> 0 | c # _ \<Rightarrow> col_len c)
      in case List.find (\<lambda>c. col_len c \<noteq> n) cs of
           Some c \<Rightarrow> Err (row_mismatch c n)
         | None \<Rightarrow> Ok \<lparr>batch_schema = schema_new (map col_field cs), num_rows = n, columns = cs\<rparr>)"

definition num_columns :: "record_batch \<Rightarrow> nat" where
  "num_columns b = length (columns b)"

definition batch_column :: "record_batch \<Rightarrow> string \<Rightarrow> column option" where
  "batch_column b nm = List.find (\<lambda>c. field_name (col_field c) = nm) (columns b)"

text \<open>
  What every column of a batch satisfies: its type, length, nullability and buffers agree, and its
  name is text. The columns the builders finish have this form.
\<close>

definition data_matches :: "data_type \<Rightarrow> nat \<Rightarrow> column_data \<Rightarrow> bool" where
  "data_matches dt n d =
     (case d of
        DInt64 xs \<Rightarrow> dt = Int64 \<and> length xs = n
      | DFloat64 xs \<Rightarrow> dt = Float64 \<and> length xs = n
      | DBool xs \<Rightarrow> dt = Boolean \<and> length xs = n
      | DUtf8 offs _ \<Rightarrow> dt = Utf8 \<and> length offs = n + 1)"

definition column_wf :: "column \<Rightarrow> bool" where
  "column_wf c \<longleftrightarrow>
     data_matches (data_type (col_field c)) (col_len c) (col_data c)
     \<and> (nullable (col_field c) \<longleftrightarrow> validity c \<noteq> None)
     \<and> utf8_string (field_name (col_field c))"

definition batch_wf :: "record_batch \<Rightarrow> bool" where
  "batch_wf b \<longleftrightarrow>
     (\<forall>c \<in> set (columns b). column_wf c \<and> col_len c = num_rows b)
     \<and> batch_schema b = schema_new (map col_field (columns b))
     \<and> (columns b = [] \<longrightarrow> num_rows b = 0)"

section \<open>The constructor\<close>

lemma all_same_head:
  "(\<forall>c \<in> set cs. f c = (case cs of [] \<Rightarrow> z | x # _ \<Rightarrow> f x)) \<longleftrightarrow>
   (\<forall>c \<in> set cs. \<forall>d \<in> set cs. f c = f d)"
proof (cases cs)
  case Nil
  then show ?thesis by simp
next
  case (Cons x xs)
  have "(\<forall>c \<in> set (x # xs). f c = f x) \<longleftrightarrow> (\<forall>c \<in> set (x # xs). \<forall>d \<in> set (x # xs). f c = f d)"
    by (metis list.set_intros(1))
  with Cons show ?thesis by (simp only: list.case)
qed

lemma try_new_Ok:
  "try_new cs = Ok b \<longleftrightarrow>
     b = \<lparr>batch_schema = schema_new (map col_field cs),
          num_rows = (case cs of [] \<Rightarrow> 0 | c # _ \<Rightarrow> col_len c), columns = cs\<rparr>
     \<and> (\<forall>c \<in> set cs. \<forall>d \<in> set cs. col_len c = col_len d)"
proof -
  let ?n = "case cs of [] \<Rightarrow> 0 | c # _ \<Rightarrow> col_len c"
  have "List.find (\<lambda>c. col_len c \<noteq> ?n) cs = None \<longleftrightarrow> (\<forall>c \<in> set cs. col_len c = ?n)"
    by (auto simp: find_None_iff)
  also have "\<dots> \<longleftrightarrow> (\<forall>c \<in> set cs. \<forall>d \<in> set cs. col_len c = col_len d)"
    by (rule all_same_head)
  finally have none: "List.find (\<lambda>c. col_len c \<noteq> ?n) cs = None \<longleftrightarrow>
      (\<forall>c \<in> set cs. \<forall>d \<in> set cs. col_len c = col_len d)" .
  show ?thesis
    unfolding try_new_def Let_def none [symmetric]
    by (cases "List.find (\<lambda>c. col_len c \<noteq> ?n) cs") (simp_all only: option.case, blast+)
qed

lemma try_new_wf:
  assumes "try_new cs = Ok b" and "\<And>c. c \<in> set cs \<Longrightarrow> column_wf c"
  shows "batch_wf b"
proof -
  let ?n = "case cs of [] \<Rightarrow> 0 | c # _ \<Rightarrow> col_len c"
  have b: "b = \<lparr>batch_schema = schema_new (map col_field cs), num_rows = ?n, columns = cs\<rparr>"
    and eq: "\<forall>c \<in> set cs. \<forall>d \<in> set cs. col_len c = col_len d"
    using assms(1) unfolding try_new_Ok by blast+
  have "col_len c = ?n" if "c \<in> set cs" for c
    by (rule bspec [OF all_same_head [THEN iffD2, OF eq] that])
  moreover have "cs = [] \<longrightarrow> ?n = 0" by simp
  ultimately show ?thesis using assms(2) by (simp only: b batch_wf_def record_batch.simps) blast
qed

lemma finish_wf:
  assumes "builder_inv ps b" and "utf8_string nm"
  shows "column_wf (finish nm b)"
  using assms by (cases b) (auto simp: column_wf_def data_matches_def dest: repr_segs_length)

end
