(* ===== verification/Codec.thy ===== *)
theory Codec
  imports Batch
begin

text \<open>
  \<open>codec.rs\<close>: the PCB wire format. The encoder appends to one output buffer and patches the header
  and the directory in place at the end, as the code does; the decoder reads the header, then one
  directory entry after the other, and its slice reads can fail with an error or panic. The
  lemmas follow the buffer: each column only appends, so what an entry records stays readable in
  the final buffer.
\<close>

section \<open>Encoding\<close>

definition MAGIC :: bytes where
  "MAGIC = [80, 67, 66, 49]"

definition VERSION :: u16 where
  "VERSION = 1"

definition HEADER_LEN :: nat where
  "HEADER_LEN = 24"

definition COLDIR_LEN :: nat where
  "COLDIR_LEN = 40"

definition FLAG_ASCII :: u8 where
  "FLAG_ASCII = 2"

text \<open>The loop of \<open>align8\<close>: push a zero byte until the length is a multiple of 8.\<close>

definition pad8 :: "nat \<Rightarrow> nat" where
  "pad8 n = (8 - n mod 8) mod 8"

lemma pad8_Suc: "n mod 8 \<noteq> 0 \<Longrightarrow> pad8 n = Suc (pad8 (Suc n))"
  unfolding pad8_def by (cases "n mod 8 = 7") (auto simp: mod_Suc)

function align8 :: "bytes \<Rightarrow> bytes" where
  "align8 v = (if length v mod 8 = 0 then v else align8 (v @ [0]))"
  by pat_completeness auto
termination
  by (relation "measure (\<lambda>v. pad8 (length v))") (auto simp: pad8_Suc)

declare align8.simps [simp del]

definition u32_of :: "nat \<Rightarrow> u32" where
  "u32_of n = word_of_nat n"

record dir_entry =
  e_name_off :: u32
  e_name_len :: u32
  e_dtype :: u8
  e_flags :: u8
  e_validity_off :: u32
  e_validity_len :: u32
  e_buf1_off :: u32
  e_buf1_len :: u32
  e_buf2_off :: u32
  e_buf2_len :: u32

text \<open>The names region: the buffer grows by every name, whose span is remembered.\<close>

fun write_names :: "string list \<Rightarrow> bytes \<Rightarrow> bytes \<times> (u32 \<times> u32) list" where
  "write_names [] out = (out, [])"
| "write_names (n # ns) out =
     (let off = u32_of (length out); (out', spans) = write_names ns (out @ as_bytes n)
      in (out', (off, u32_of (length n)) # spans))"

definition write_validity :: "column \<Rightarrow> bytes \<Rightarrow> bytes \<times> u32 \<times> u32 \<times> u8" where
  "write_validity c out =
     (case validity c of
        Some bits \<Rightarrow> (let out = align8 out in (out @ bits, u32_of (length out), u32_of (length bits), 1))
      | None \<Rightarrow> (out, 0, 0, 0))"

definition ascii_flag :: "column_data \<Rightarrow> u8 \<Rightarrow> u8" where
  "ascii_flag d flags =
     (case d of DUtf8 _ data \<Rightarrow> if bytes_is_ascii data then flags OR FLAG_ASCII else flags | _ \<Rightarrow> flags)"

text \<open>The bit packing loop: the byte being filled is pushed after every eighth value.\<close>

fun pack_bools :: "nat \<Rightarrow> u8 \<Rightarrow> bool list \<Rightarrow> bytes" where
  "pack_bools j byte [] = (if j mod 8 \<noteq> 0 then [byte] else [])"
| "pack_bools j byte (v # vs) =
     (let byte = (if v then byte OR push_bit (j mod 8) 1 else byte)
      in if j mod 8 = 7 then byte # pack_bools (j + 1) 0 vs else pack_bools (j + 1) byte vs)"

fun write_payload :: "column_data \<Rightarrow> bytes \<Rightarrow> bytes \<times> u32 \<times> u32 \<times> u32 \<times> u32" where
  "write_payload (DInt64 xs) out =
     (let out = align8 out
      in (out @ concat (map u64_to_le xs), u32_of (length out), u32_of (length xs * 8), 0, 0))"
| "write_payload (DFloat64 xs) out =
     (let out = align8 out
      in (out @ concat (map u64_to_le xs), u32_of (length out), u32_of (length xs * 8), 0, 0))"
| "write_payload (DBool vs) out =
     (let out = align8 out
      in (out @ pack_bools 0 0 vs, u32_of (length out), u32_of (bits_len (length vs)), 0, 0))"
| "write_payload (DUtf8 offs data) out =
     (let out = align8 out; off1 = u32_of (length out);
          out = align8 (out @ concat (map u32_to_le offs)); off2 = u32_of (length out)
      in (out @ data, off1, u32_of (length offs * 4), off2, u32_of (length data)))"

definition write_column :: "column \<Rightarrow> u32 \<times> u32 \<Rightarrow> bytes \<Rightarrow> bytes \<times> dir_entry" where
  "write_column c span out =
     (let (out, voff, vlen, flags) = write_validity c out;
          flags = ascii_flag (col_data c) flags;
          (out, b1off, b1len, b2off, b2len) = write_payload (col_data c) out
      in (out, \<lparr>e_name_off = fst span, e_name_len = snd span,
                e_dtype = dtype_code (data_type (col_field c)), e_flags = flags,
                e_validity_off = voff, e_validity_len = vlen,
                e_buf1_off = b1off, e_buf1_len = b1len, e_buf2_off = b2off, e_buf2_len = b2len\<rparr>))"

fun write_columns :: "(column \<times> u32 \<times> u32) list \<Rightarrow> bytes \<Rightarrow> bytes \<times> dir_entry list" where
  "write_columns [] out = (out, [])"
| "write_columns ((c, span) # cs) out =
     (let (out, e) = write_column c span out; (out, es) = write_columns cs out in (out, e # es))"

definition patch_header :: "nat \<Rightarrow> nat \<Rightarrow> bytes \<Rightarrow> bytes" where
  "patch_header ncols nrows out =
     (let out = copy_at 0 MAGIC out;
          out = copy_at 4 (u16_to_le VERSION) out;
          out = copy_at 6 (u16_to_le 0) out;
          out = copy_at 8 (u32_to_le (u32_of ncols)) out;
          out = copy_at 12 (u32_to_le (u32_of nrows)) out
      in copy_at 16 (u32_to_le (u32_of HEADER_LEN)) out)"

definition patch_entry :: "nat \<Rightarrow> dir_entry \<Rightarrow> bytes \<Rightarrow> bytes" where
  "patch_entry base e out =
     (let out = copy_at base (u32_to_le (e_name_off e)) out;
          out = copy_at (base + 4) (u32_to_le (e_name_len e)) out;
          out = copy_at (base + 8) [e_dtype e] out;
          out = copy_at (base + 9) [e_flags e] out;
          out = copy_at (base + 12) (u32_to_le (e_validity_off e)) out;
          out = copy_at (base + 16) (u32_to_le (e_validity_len e)) out;
          out = copy_at (base + 20) (u32_to_le (e_buf1_off e)) out;
          out = copy_at (base + 24) (u32_to_le (e_buf1_len e)) out;
          out = copy_at (base + 28) (u32_to_le (e_buf2_off e)) out
      in copy_at (base + 32) (u32_to_le (e_buf2_len e)) out)"

fun patch_entries :: "nat \<Rightarrow> dir_entry list \<Rightarrow> bytes \<Rightarrow> bytes" where
  "patch_entries i [] out = out"
| "patch_entries i (e # es) out =
     patch_entries (Suc i) es (patch_entry (HEADER_LEN + i * COLDIR_LEN) e out)"

definition encode :: "record_batch \<Rightarrow> bytes" where
  "encode b =
     (let ncols = length (columns b);
          out = replicate (HEADER_LEN + ncols * COLDIR_LEN) 0;
          (out, spans) = write_names (map (\<lambda>c. field_name (col_field c)) (columns b)) out;
          out = align8 out;
          (out, entries) = write_columns (zip (columns b) spans) out;
          out = align8 out;
          out = patch_header ncols (num_rows b) out
      in patch_entries 0 entries out)"

section \<open>Decoding\<close>

definition ru16 :: "bytes \<Rightarrow> nat \<Rightarrow> u16 result" where
  "ru16 b pos =
     (if pos + 2 \<le> length b then Ok (u16_of_le (slice_at pos 2 b)) else Err (Codec ''truncated: u16''))"

definition ru32 :: "bytes \<Rightarrow> nat \<Rightarrow> u32 result" where
  "ru32 b pos =
     (if pos + 4 \<le> length b then Ok (u32_of_le (slice_at pos 4 b)) else Err (Codec ''truncated: u32''))"

definition slice_checked :: "bytes \<Rightarrow> u32 \<Rightarrow> u32 \<Rightarrow> bytes result" where
  "slice_checked b off len =
     (if unat off + unat len \<le> length b then Ok (slice_at (unat off) (unat len) b)
      else Err (Codec (''buffer out of range at '' @ nat_to_string (unat off) @ ''+'' @ nat_to_string (unat len))))"

text \<open>
  A loop that reads \<open>n\<close> fixed-width elements; the slice \<open>raw[o..o + w]\<close> panics when it is out of
  range.
\<close>

definition read_array :: "nat \<Rightarrow> (bytes \<Rightarrow> 'a) \<Rightarrow> bytes \<Rightarrow> nat \<Rightarrow> 'a list result" where
  "read_array w dec raw n =
     map_r (\<lambda>r. if r * w + w \<le> length raw then Ok (dec (slice_at (r * w) w raw)) else Panicked) [0..<n]"

fun decode_data :: "data_type \<Rightarrow> nat \<Rightarrow> bytes \<Rightarrow> u32 \<Rightarrow> u32 \<Rightarrow> u32 \<Rightarrow> u32 \<Rightarrow> column_data result" where
  "decode_data Int64 nrows bytes o1 l1 o2 l2 =
     bind_r (slice_checked bytes o1 l1) (\<lambda>raw. bind_r (read_array 8 u64_of_le raw nrows) (\<lambda>v. Ok (DInt64 v)))"
| "decode_data Float64 nrows bytes o1 l1 o2 l2 =
     bind_r (slice_checked bytes o1 l1) (\<lambda>raw. bind_r (read_array 8 u64_of_le raw nrows) (\<lambda>v. Ok (DFloat64 v)))"
| "decode_data Boolean nrows bytes o1 l1 o2 l2 =
     bind_r (slice_checked bytes o1 l1) (\<lambda>raw. bind_r (map_r (get_bit raw) [0..<nrows]) (\<lambda>v. Ok (DBool v)))"
| "decode_data Utf8 nrows bytes o1 l1 o2 l2 =
     bind_r (slice_checked bytes o1 l1) (\<lambda>raw. bind_r (read_array 4 u32_of_le raw (nrows + 1)) (\<lambda>offs.
       bind_r (slice_checked bytes o2 l2) (\<lambda>data. Ok (DUtf8 offs data))))"

definition decode_column :: "bytes \<Rightarrow> nat \<Rightarrow> nat \<Rightarrow> nat \<Rightarrow> column result" where
  "decode_column bytes nrows dir_off i =
     (let base = dir_off + i * COLDIR_LEN in
      if length bytes < base + COLDIR_LEN then Err (Codec ''truncated directory'')
      else
        bind_r (ru32 bytes base) (\<lambda>name_off.
        bind_r (ru32 bytes (base + 4)) (\<lambda>name_len.
        bind_r (from_code (bytes ! (base + 8))) (\<lambda>dtype.
        let has_validity = (bytes ! (base + 9) AND 1 \<noteq> 0) in
        bind_r (ru32 bytes (base + 12)) (\<lambda>validity_off.
        bind_r (ru32 bytes (base + 16)) (\<lambda>validity_len.
        bind_r (ru32 bytes (base + 20)) (\<lambda>buf1_off.
        bind_r (ru32 bytes (base + 24)) (\<lambda>buf1_len.
        bind_r (ru32 bytes (base + 28)) (\<lambda>buf2_off.
        bind_r (ru32 bytes (base + 32)) (\<lambda>buf2_len.
        bind_r (slice_checked bytes name_off name_len) (\<lambda>raw_name.
        bind_r (ok_or (from_utf8 raw_name) (Codec (''column name not UTF-8: '' @ utf8_error 0 raw_name))) (\<lambda>name.
        bind_r (if has_validity
                then bind_r (slice_checked bytes validity_off validity_len) (\<lambda>v. Ok (Some v))
                else Ok None) (\<lambda>vld.
        bind_r (decode_data dtype nrows bytes buf1_off buf1_len buf2_off buf2_len) (\<lambda>data.
        Ok \<lparr>col_field = field_new name dtype has_validity, col_len = nrows,
            validity = vld, col_data = data\<rparr>))))))))))))))"

definition decode :: "bytes \<Rightarrow> record_batch result" where
  "decode bytes =
     (if length bytes < HEADER_LEN then Err (Codec ''buffer smaller than header'')
      else if slice_at 0 4 bytes \<noteq> MAGIC then Err (Codec ''bad magic (not an PCB buffer)'')
      else
        bind_r (ru16 bytes 4) (\<lambda>version.
        if version \<noteq> VERSION
        then Err (Codec (''unsupported PCB version '' @ nat_to_string (unat version)))
        else
          bind_r (ru32 bytes 8) (\<lambda>ncols.
          bind_r (ru32 bytes 12) (\<lambda>nrows.
          bind_r (ru32 bytes 16) (\<lambda>dir_off.
          bind_r (map_r (decode_column bytes (unat nrows) (unat dir_off)) [0..<unat ncols]) (\<lambda>cs.
          Ok \<lparr>batch_schema = schema_new (map col_field cs), num_rows = unat nrows, columns = cs\<rparr>))))))"

section \<open>Alignment\<close>

lemma align8_eq: "align8 v = v @ replicate (pad8 (length v)) 0"
proof (induction v rule: align8.induct)
  case (1 v)
  show ?case
  proof (cases "length v mod 8 = 0")
    case True
    then show ?thesis by (subst align8.simps) (simp add: pad8_def)
  next
    case False
    with 1 have "align8 (v @ [0]) = v @ [0] @ replicate (pad8 (Suc (length v))) 0" by simp
    with False show ?thesis by (subst align8.simps) (simp add: pad8_Suc)
  qed
qed

lemma add_pad8_mod: "(n + pad8 n) mod 8 = 0"
proof (cases "n mod 8 = 0")
  case True
  then show ?thesis by (simp add: pad8_def)
next
  case False
  then have p: "pad8 n = 8 - n mod 8" by (simp add: pad8_def)
  have "n = 8 * (n div 8) + n mod 8" "n mod 8 < 8" by simp_all
  with p have "n + pad8 n = 8 * (n div 8) + 8" by linarith
  then show ?thesis by simp
qed

lemma align8_mod [simp]: "length (align8 v) mod 8 = 0"
  by (simp add: align8_eq add_pad8_mod)

section \<open>Packed booleans\<close>

lemma pack_bools_repr:
  assumes "bits_repr (out @ (if length pre mod 8 \<noteq> 0 then [byte] else [])) pre"
    and "length pre mod 8 = 0 \<Longrightarrow> byte = 0"
  shows "bits_repr (out @ pack_bools (length pre) byte vs) (pre @ vs)"
  using assms
proof (induction vs arbitrary: pre byte out)
  case Nil
  then show ?case by (simp split: if_splits)
next
  case (Cons v vs)
  let ?j = "length pre"
  let ?byte = "if v then byte OR push_bit (?j mod 8) 1 else byte"
  have grown: "bits_repr (out @ [byte]) (pre @ [False])"
    using bits_repr_grow [OF Cons.prems(1)] Cons.prems(2) by (auto split: if_splits)
  have len: "length out = ?j div 8"
    using bits_repr_length [OF grown] by (simp add: bits_len_def)
  have upd: "(out @ [byte])[?j div 8 := (out @ [byte]) ! (?j div 8) OR push_bit (?j mod 8) 1]
      = out @ [byte OR push_bit (?j mod 8) 1]"
    by (simp add: len [symmetric])
  have "bits_repr (out @ [?byte]) (pre @ [v])"
    using grown bits_repr_or_bit [OF grown, of ?j] upd
    by (auto simp: or_bit_def list_update_append)
  then show ?case
    using Cons.IH [of "out @ [?byte]" "pre @ [v]" 0] Cons.IH [of out "pre @ [v]" ?byte]
    by (cases "?j mod 8 = 7") (simp_all add: Let_def mod_Suc)
qed

lemma pack_bools_bits: "bits_repr (pack_bools 0 0 vs) vs"
  using pack_bools_repr [of "[]" "[]" 0 vs] by simp

lemma length_pack_bools [simp]: "length (pack_bools 0 0 vs) = bits_len (length vs)"
  using pack_bools_bits bits_repr_length by blast

end
