(* ===== verification/Writes.thy ===== *)
theory Writes
  imports Prelude
begin

text \<open>
  Sequences of in-place writes to a buffer. Writes to disjoint ranges can be reordered freely,
  which is what makes the encoder's parallel writers safe, and writes that tile the buffer determine
  it completely, whatever the buffer held before.
\<close>

section \<open>Definitions\<close>

type_synonym 'a writes = "(nat \<times> 'a list) list"

fun apply_writes :: "'a writes \<Rightarrow> 'a list \<Rightarrow> 'a list" where
  "apply_writes [] buf = buf"
| "apply_writes ((p, x) # ws) buf = apply_writes ws (copy_at p x buf)"

definition fits :: "nat \<Rightarrow> (nat \<times> 'a list) set \<Rightarrow> bool" where
  "fits n W \<longleftrightarrow> (\<forall>(p, x) \<in> W. p + length x \<le> n)"

definition covers :: "nat \<times> 'a list \<Rightarrow> nat \<Rightarrow> bool" where
  "covers u i \<longleftrightarrow> fst u \<le> i \<and> i < fst u + length (snd u)"

definition disjoint_set :: "(nat \<times> 'a list) set \<Rightarrow> bool" where
  "disjoint_set W \<longleftrightarrow> (\<forall>u \<in> W. \<forall>v \<in> W. \<forall>i. covers u i \<and> covers v i \<longrightarrow> u = v)"

text \<open>Writes in increasing order from \<open>lo\<close>, and writes that follow each other without a gap.\<close>

fun increasing :: "nat \<Rightarrow> 'a writes \<Rightarrow> bool" where
  "increasing lo [] \<longleftrightarrow> True"
| "increasing lo ((p, x) # ws) \<longleftrightarrow> lo \<le> p \<and> increasing (p + length x) ws"

fun tiles :: "nat \<Rightarrow> 'a writes \<Rightarrow> bool" where
  "tiles lo [] \<longleftrightarrow> True"
| "tiles lo ((p, x) # ws) \<longleftrightarrow> lo = p \<and> tiles (p + length x) ws"

section \<open>Single cells\<close>

lemma fits_simps [simp]:
  "fits n {}" "fits n (insert (p, x) W) \<longleftrightarrow> p + length x \<le> n \<and> fits n W"
  "fits n (A \<union> B) \<longleftrightarrow> fits n A \<and> fits n B"
  by (auto simp: fits_def)

lemma apply_writes_append: "apply_writes (us @ vs) buf = apply_writes vs (apply_writes us buf)"
  by (induction us buf rule: apply_writes.induct) simp_all

lemma length_apply_writes [simp]:
  "fits (length buf) (set ws) \<Longrightarrow> length (apply_writes ws buf) = length buf"
  by (induction ws buf rule: apply_writes.induct) simp_all

lemma writes_nth_out:
  "fits (length buf) (set ws) \<Longrightarrow> i < length buf \<Longrightarrow> (\<And>u. u \<in> set ws \<Longrightarrow> \<not> covers u i) \<Longrightarrow>
    apply_writes ws buf ! i = buf ! i"
proof (induction ws buf rule: apply_writes.induct)
  case (1 buf)
  then show ?case by simp
next
  case (2 p x ws buf)
  have "\<not> covers (p, x) i" using "2.prems"(3) by simp
  with 2 show ?case by (auto simp: nth_copy_at covers_def)
qed

lemma writes_nth_in:
  assumes "fits (length buf) (set ws)" "disjoint_set (set ws)" "(p, x) \<in> set ws" "covers (p, x) i"
  shows "apply_writes ws buf ! i = x ! (i - p)"
  using assms
proof (induction ws buf rule: apply_writes.induct)
  case (1 buf)
  then show ?case by simp
next
  case (2 q y ws buf)
  have dis: "disjoint_set (set ws)" using "2.prems"(2) by (simp add: disjoint_set_def)
  show ?case
  proof (cases "(p, x) \<in> set ws")
    case True
    with 2 dis show ?thesis by simp
  next
    case False
    with "2.prems" have pq: "(p, x) = (q, y)" by simp
    have "\<not> covers u i" if "u \<in> set ws" for u
      using that False "2.prems"(2,4) pq unfolding disjoint_set_def by auto
    then have "apply_writes ws (copy_at q y buf) ! i = copy_at q y buf ! i"
      using "2.prems"(1,4) pq by (intro writes_nth_out) (auto simp: covers_def)
    with "2.prems"(1,4) pq show ?thesis by (simp add: nth_copy_at covers_def)
  qed
qed

text \<open>The result depends on the set of the writes alone.\<close>

lemma apply_writes_set:
  assumes "set ws = set ws'" "fits (length buf) (set ws)" "disjoint_set (set ws)"
  shows "apply_writes ws buf = apply_writes ws' buf"
proof (rule nth_equalityI)
  show "length (apply_writes ws buf) = length (apply_writes ws' buf)"
    using assms(1,2) length_apply_writes [of buf ws'] by simp
next
  fix i assume "i < length (apply_writes ws buf)"
  with assms have i: "i < length buf" by simp
  show "apply_writes ws buf ! i = apply_writes ws' buf ! i"
  proof (cases "\<exists>u \<in> set ws. covers u i")
    case True
    then obtain p x where "(p, x) \<in> set ws" "covers (p, x) i" by auto
    with assms show ?thesis using writes_nth_in [of buf ws p x i] writes_nth_in [of buf ws' p x i] by simp
  next
    case False
    with assms i show ?thesis using writes_nth_out [of buf ws i] writes_nth_out [of buf ws' i] by simp
  qed
qed

section \<open>Slices\<close>

lemma slice_apply_in:
  assumes "fits (length buf) (set ws)" "disjoint_set (set ws)" "(p, x) \<in> set ws" "n = length x"
  shows "slice_at p n (apply_writes ws buf) = x"
proof (rule nth_equalityI)
  have "p + length x \<le> length buf" using assms(1,3) by (auto simp: fits_def)
  with assms show len: "length (slice_at p n (apply_writes ws buf)) = length x" by simp
  fix i assume "i < length (slice_at p n (apply_writes ws buf))"
  with len have i: "i < length x" by simp
  then have "apply_writes ws buf ! (p + i) = x ! i"
    using writes_nth_in [OF assms(1,2,3), of "p + i"] by (simp add: covers_def)
  with i assms \<open>p + length x \<le> length buf\<close> show "slice_at p n (apply_writes ws buf) ! i = x ! i"
    by (simp add: nth_slice_at)
qed

lemma slice_apply_out:
  assumes "fits (length buf) (set ws)" "q + n \<le> length buf"
    and "\<And>p x. (p, x) \<in> set ws \<Longrightarrow> q + n \<le> p \<or> p + length x \<le> q"
  shows "slice_at q n (apply_writes ws buf) = slice_at q n buf"
proof (rule slice_at_eqI)
  show "q + n \<le> length (apply_writes ws buf)" "length buf = length (apply_writes ws buf)"
    using assms by simp_all
  fix i assume i: "q \<le> i" "i < q + n"
  have "\<not> covers u i" if "u \<in> set ws" for u
  proof -
    obtain p x where u: "u = (p, x)" by (cases u)
    with assms(3) that have "q + n \<le> p \<or> p + length x \<le> q" by blast
    with i u show ?thesis by (auto simp: covers_def)
  qed
  with assms i show "apply_writes ws buf ! i = buf ! i" by (intro writes_nth_out) auto
qed

lemma drop_apply_writes:
  assumes "fits n (set ws)" "n \<le> length buf"
  shows "drop n (apply_writes ws buf) = drop n buf"
  using assms
proof (induction ws buf rule: apply_writes.induct)
  case (1 buf)
  then show ?case by simp
next
  case (2 p x ws buf)
  then show ?case by (simp add: drop_copy_at)
qed

lemma apply_writes_nth_cong:
  assumes "length a = length b" "fits (length a) (set ws)" "i < length a" "a ! i = b ! i"
  shows "apply_writes ws a ! i = apply_writes ws b ! i"
  using assms
proof (induction ws a arbitrary: b rule: apply_writes.induct)
  case (1 buf)
  then show ?case by simp
next
  case (2 p x ws buf)
  have "apply_writes ws (copy_at p x buf) ! i = apply_writes ws (copy_at p x b) ! i"
    using "2.prems" by (intro "2.IH") (simp_all add: nth_copy_at)
  then show ?case by simp
qed

section \<open>Increasing and tiling writes\<close>

lemma increasing_lower: "increasing lo ws \<Longrightarrow> (p, x) \<in> set ws \<Longrightarrow> lo \<le> p"
  by (induction lo ws rule: increasing.induct) fastforce+

lemma increasing_disjoint: "increasing lo ws \<Longrightarrow> disjoint_set (set ws)"
proof (induction lo ws rule: increasing.induct)
  case (1 lo)
  show ?case by (simp add: disjoint_set_def)
next
  case (2 lo p x ws)
  then have tail: "disjoint_set (set ws)" by simp
  have "\<not> (covers (p, x) i \<and> covers u i)" if u: "u \<in> set ws" for u i
    using increasing_lower [of "p + length x" ws "fst u" "snd u"] "2.prems" u
    by (auto simp: covers_def)
  with tail show ?case unfolding disjoint_set_def by auto
qed

lemma tiles_increasing: "tiles lo ws \<Longrightarrow> increasing lo ws"
  by (induction lo ws rule: tiles.induct) simp_all

lemma tiles_append: "tiles lo (us @ vs) \<longleftrightarrow> tiles lo us \<and> tiles (lo + length (concat (map snd us))) vs"
  by (induction lo us rule: tiles.induct) (auto simp: add.assoc)

lemma tiles_fits: "tiles lo ws \<Longrightarrow> lo + length (concat (map snd ws)) \<le> n \<Longrightarrow> fits n (set ws)"
  by (induction lo ws rule: tiles.induct) (simp_all add: add.assoc)

text \<open>Writes that tile the whole buffer leave nothing of what it held.\<close>

lemma tiles_apply:
  assumes "tiles lo ws" "length buf = lo + length (concat (map snd ws))"
  shows "apply_writes ws buf = take lo buf @ concat (map snd ws)"
  using assms
proof (induction ws arbitrary: lo buf)
  case Nil
  then show ?case by simp
next
  case (Cons u ws)
  obtain x where u: "u = (lo, x)" using Cons.prems(1) by (cases u) simp
  have "apply_writes ws (copy_at lo x buf) =
      take (lo + length x) (copy_at lo x buf) @ concat (map snd ws)"
    using Cons.prems u by (intro Cons.IH) simp_all
  moreover have "take (lo + length x) (copy_at lo x buf) = take lo buf @ x"
    using Cons.prems(2) u by (simp add: copy_at_def min_def)
  ultimately show ?case using u by simp
qed

end
