(* ===== verification/CodecProofs.thy ===== *)
theory CodecProofs
  imports Codec Writes
begin

text \<open>
  The round trip of the PCB format. A locale states what a fixed-width element encoding promises
  and proves the packed-array read loop once; it is interpreted on the little-endian encodings of
  \<open>u32\<close> and \<open>u64\<close>. \<open>stored\<close> says that an offset and a length recorded in a directory entry
  address given bytes of a buffer, past the region that is patched at the end.
\<close>

section \<open>Packed arrays of fixed-width elements\<close>

locale fixed_width =
  fixes enc :: "'a \<Rightarrow> bytes" and dec :: "bytes \<Rightarrow> 'a" and w :: nat
  assumes enc_length: "length (enc x) = w"
    and dec_enc: "dec (enc x) = x"
begin

lemma length_packed: "length (concat (map enc xs)) = length xs * w"
  by (induction xs) (simp_all add: enc_length)

lemma slice_packed: "i < length xs \<Longrightarrow> slice_at (i * w) w (concat (map enc xs)) = enc (xs ! i)"
proof -
  assume i: "i < length xs"
  have "concat (map enc xs) = concat (map enc (take i xs)) @ enc (xs ! i) @ concat (map enc (drop (Suc i) xs))"
    using i concat_split_nth [of i "map enc xs"] by (simp add: take_map drop_map)
  with i length_packed [of "take i xs"] show ?thesis
    by (simp add: slice_at_exact enc_length)
qed

lemma read_packed: "read_array w dec (concat (map enc xs)) (length xs) = Inr xs"
proof -
  have "r * w + w \<le> length (concat (map enc xs))" if "r < length xs" for r
    using mult_le_mono1 [of "Suc r" "length xs" w] that by (simp add: length_packed)
  then have "read_array w dec (concat (map enc xs)) (length xs) = Inr (map (\<lambda>r. xs ! r) [0..<length xs])"
    unfolding read_array_def by (intro map_r_all_ok) (simp add: slice_packed dec_enc)
  then show ?thesis by (simp add: map_nth)
qed

end

interpretation le32: fixed_width u32_to_le u32_of_le 4
  by unfold_locales simp_all

interpretation le64: fixed_width u64_to_le u64_of_le 8
  by unfold_locales simp_all

section \<open>Bytes stored in the buffer\<close>

definition stored :: "nat \<Rightarrow> bytes \<Rightarrow> u32 \<Rightarrow> u32 \<Rightarrow> bytes \<Rightarrow> bool" where
  "stored lo buf off len x \<longleftrightarrow>
     lo \<le> unat off \<and> unat off + unat len \<le> length buf \<and> slice_at (unat off) (unat len) buf = x"

definition payload_stored ::
  "nat \<Rightarrow> bytes \<Rightarrow> column_data \<Rightarrow> u32 \<Rightarrow> u32 \<Rightarrow> u32 \<Rightarrow> u32 \<Rightarrow> bool" where
  "payload_stored lo buf d o1 l1 o2 l2 =
     (case d of
        DInt64 xs \<Rightarrow> stored lo buf o1 l1 (concat (map u64_to_le xs))
      | DFloat64 xs \<Rightarrow> stored lo buf o1 l1 (concat (map u64_to_le xs))
      | DBool vs \<Rightarrow> stored lo buf o1 l1 (pack_bools 0 0 vs)
      | DUtf8 offs data \<Rightarrow> stored lo buf o1 l1 (concat (map u32_to_le offs)) \<and> stored lo buf o2 l2 data)"

definition column_stored :: "nat \<Rightarrow> bytes \<Rightarrow> column \<Rightarrow> u32 \<times> u32 \<Rightarrow> dir_entry \<Rightarrow> bool" where
  "column_stored lo buf c span e \<longleftrightarrow>
     e_name_off e = fst span \<and> e_name_len e = snd span
     \<and> e_dtype e = dtype_code (data_type (col_field c))
     \<and> (e_flags e AND 1 \<noteq> 0 \<longleftrightarrow> validity c \<noteq> None)
     \<and> (\<forall>bits. validity c = Some bits \<longrightarrow> stored lo buf (e_validity_off e) (e_validity_len e) bits)
     \<and> payload_stored lo buf (col_data c) (e_buf1_off e) (e_buf1_len e) (e_buf2_off e) (e_buf2_len e)"

lemma stored_checked: "stored lo buf off len x \<Longrightarrow> slice_checked buf off len = Ok x"
  by (simp add: stored_def slice_checked_def)

lemma stored_append: "stored lo buf off len x \<Longrightarrow> stored lo (buf @ ext) off len x"
  by (simp add: stored_def slice_simps)

lemma stored_patch:
  assumes "stored lo buf off len x" "length buf' = length buf" "drop lo buf' = drop lo buf"
  shows "stored lo buf' off len x"
proof -
  have "drop (unat off) buf' = drop (unat off) buf"
    using assms(1,3) unfolding stored_def
    by (metis add.commute drop_drop le_add_diff_inverse)
  with assms show ?thesis by (simp add: stored_def slice_at_def)
qed

lemma payload_stored_append:
  "payload_stored lo buf d o1 l1 o2 l2 \<Longrightarrow> payload_stored lo (buf @ ext) d o1 l1 o2 l2"
  by (cases d) (simp_all add: payload_stored_def stored_append)

lemma payload_stored_patch:
  "payload_stored lo buf d o1 l1 o2 l2 \<Longrightarrow> length buf' = length buf \<Longrightarrow> drop lo buf' = drop lo buf \<Longrightarrow>
    payload_stored lo buf' d o1 l1 o2 l2"
  by (cases d) (auto simp: payload_stored_def intro: stored_patch)

lemma column_stored_append: "column_stored lo buf c sp e \<Longrightarrow> column_stored lo (buf @ ext) c sp e"
  by (simp add: column_stored_def stored_append payload_stored_append)

lemma column_stored_patch:
  "column_stored lo buf c sp e \<Longrightarrow> length buf' = length buf \<Longrightarrow> drop lo buf' = drop lo buf \<Longrightarrow>
    column_stored lo buf' c sp e"
  by (auto simp: column_stored_def intro: stored_patch payload_stored_patch)

lemma unat_u32_of [simp]: "n < 2 ^ 32 \<Longrightarrow> unat (u32_of n) = n"
  by (simp add: u32_of_def unat_of_nat take_bit_eq_mod)

lemma stored_here:
  "lo \<le> length buf \<Longrightarrow> length (buf @ x) < 2 ^ 32 \<Longrightarrow> n = length x \<Longrightarrow>
    stored lo (buf @ x) (u32_of (length buf)) (u32_of n) x"
  by (simp add: stored_def slice_simps)

section \<open>Decoding what is stored\<close>

lemma decode_bools: "map_r (get_bit (pack_bools 0 0 vs)) [0..<length vs] = Ok vs"
proof -
  have "map_r (get_bit (pack_bools 0 0 vs)) [0..<length vs] = Ok (map (\<lambda>i. vs ! i) [0..<length vs])"
    by (intro map_r_all_ok) (simp add: bits_repr_get_bit [OF pack_bools_bits])
  then show ?thesis by (simp add: map_nth)
qed

lemma decode_data_stored:
  assumes "data_matches dt n d" and "payload_stored lo buf d o1 l1 o2 l2"
  shows "decode_data dt n buf o1 l1 o2 l2 = Ok d"
proof (cases d)
  case (DUtf8 offs data)
  with assms le32.read_packed [of offs] show ?thesis
    by (auto simp: data_matches_def payload_stored_def dest!: stored_checked)
qed (use assms le64.read_packed in
      \<open>auto simp: data_matches_def payload_stored_def decode_bools dest!: stored_checked\<close>)

section \<open>Writing one column\<close>

lemma align8_append: "\<exists>ext. align8 out = out @ ext"
  by (auto simp: align8_eq)

lemma length_align8_le: "length out \<le> length (align8 out)"
  by (simp add: align8_eq)

lemma write_payload_append: "write_payload d out = (out', r) \<Longrightarrow> \<exists>ext. out' = out @ ext"
  by (cases d) (auto simp: Let_def align8_eq)

lemma write_payload_stored:
  assumes "write_payload d out = (out', o1, l1, o2, l2)" "lo \<le> length out" "length out' < 2 ^ 32"
  shows "payload_stored lo out' d o1 l1 o2 l2"
proof (cases d)
  case (DInt64 xs)
  with assms length_align8_le [of out] show ?thesis
    by (auto simp: payload_stored_def Let_def le64.length_packed intro!: stored_here)
next
  case (DFloat64 xs)
  with assms length_align8_le [of out] show ?thesis
    by (auto simp: payload_stored_def Let_def le64.length_packed intro!: stored_here)
next
  case (DBool vs)
  with assms length_align8_le [of out] show ?thesis
    by (auto simp: payload_stored_def Let_def intro!: stored_here)
next
  case (DUtf8 offs data)
  let ?a = "align8 out" and ?x = "concat (map u32_to_le offs)"
  let ?b = "align8 (?a @ ?x)"
  from DUtf8 assms have eqs: "out' = ?b @ data" "o1 = u32_of (length ?a)" "l1 = u32_of (length offs * 4)"
    "o2 = u32_of (length ?b)" "l2 = u32_of (length data)"
    by (auto simp: Let_def)
  obtain ext where ext: "?b = (?a @ ?x) @ ext" using align8_append by blast
  have "stored lo (?a @ ?x) o1 l1 ?x"
    using assms(2,3) eqs ext length_align8_le [of out]
    unfolding eqs by (intro stored_here) (simp_all add: le32.length_packed)
  then have "stored lo (((?a @ ?x) @ ext) @ data) o1 l1 ?x"
    using stored_append by metis
  moreover have "stored lo (?b @ data) o2 l2 data"
    using assms(2,3) eqs length_align8_le [of out] length_align8_le [of "?a @ ?x"]
    unfolding eqs by (intro stored_here) simp_all
  ultimately show ?thesis
    using DUtf8 eqs ext by (simp add: payload_stored_def)
qed

lemma ascii_flag_bit0: "ascii_flag d f AND 1 = f AND 1"
proof -
  have "(f OR 2) AND 1 = f AND (1 :: u8)"
    by (rule bit_eqI) (auto simp: bit_simps)
  then show ?thesis by (auto simp: ascii_flag_def FLAG_ASCII_def split: column_data.splits)
qed

lemma write_validity_append: "write_validity c out = (out', r) \<Longrightarrow> \<exists>ext. out' = out @ ext"
  by (auto simp: write_validity_def Let_def align8_eq split: option.splits)

lemma write_validity_stored:
  assumes "write_validity c out = (out', voff, vlen, fl)" "lo \<le> length out" "length out' < 2 ^ 32"
  shows "fl AND 1 \<noteq> 0 \<longleftrightarrow> validity c \<noteq> None"
    and "validity c = Some bits \<Longrightarrow> stored lo out' voff vlen bits"
  using assms length_align8_le [of out]
  by (auto simp: write_validity_def Let_def split: option.splits intro!: stored_here)

lemma write_column_append: "write_column c sp out = (out', e) \<Longrightarrow> \<exists>ext. out' = out @ ext"
  unfolding write_column_def Let_def
  by (auto split: prod.splits dest!: write_validity_append write_payload_append)

lemma write_column_stored:
  assumes "write_column c sp out = (out', e)" "lo \<le> length out" "length out' < 2 ^ 32"
  shows "column_stored lo out' c sp e"
proof -
  obtain o1 voff vlen fl where v: "write_validity c out = (o1, voff, vlen, fl)"
    by (cases "write_validity c out")
  obtain o2 b1 l1 b2 l2 where p: "write_payload (col_data c) o1 = (o2, b1, l1, b2, l2)"
    by (cases "write_payload (col_data c) o1")
  have e: "out' = o2" "e = \<lparr>e_name_off = fst sp, e_name_len = snd sp,
      e_dtype = dtype_code (data_type (col_field c)), e_flags = ascii_flag (col_data c) fl,
      e_validity_off = voff, e_validity_len = vlen, e_buf1_off = b1, e_buf1_len = l1,
      e_buf2_off = b2, e_buf2_len = l2\<rparr>"
    using assms(1) v p by (simp_all add: write_column_def Let_def)
  obtain x where x: "o1 = out @ x" using write_validity_append [OF v] by blast
  obtain y where y: "o2 = o1 @ y" using write_payload_append [OF p] by blast
  have small: "length o1 < 2 ^ 32" "lo \<le> length o1" using assms x y e by simp_all
  have "payload_stored lo out' (col_data c) b1 l1 b2 l2"
    using write_payload_stored [OF p small(2)] assms(3) e by simp
  moreover have "stored lo out' voff vlen bits" if "validity c = Some bits" for bits
    using write_validity_stored(2) [OF v assms(2) small(1) that] y e by (simp add: stored_append)
  ultimately show ?thesis
    using write_validity_stored(1) [OF v assms(2) small(1)]
    by (simp add: column_stored_def e(2) ascii_flag_bit0)
qed

section \<open>All columns and all names\<close>

lemma write_columns_append: "write_columns cs out = (out', es) \<Longrightarrow> \<exists>ext. out' = out @ ext"
proof (induction cs arbitrary: out out' es)
  case Nil
  then show ?case by simp
next
  case (Cons p cs)
  obtain c sp where p: "p = (c, sp)" by (cases p)
  with Cons.prems obtain o1 e es' where s: "write_column c sp out = (o1, e)"
    "write_columns cs o1 = (out', es')"
    by (auto simp: Let_def split: prod.splits)
  obtain x where "o1 = out @ x" using write_column_append [OF s(1)] by blast
  moreover obtain y where "out' = o1 @ y" using Cons.IH [OF s(2)] by blast
  ultimately show ?case by simp
qed

lemma write_columns_stored:
  assumes "write_columns cs out = (out', es)" "lo \<le> length out" "length out' < 2 ^ 32"
  shows "list_all2 (\<lambda>(c, sp) e. column_stored lo out' c sp e) cs es"
  using assms
proof (induction cs arbitrary: out es)
  case Nil
  then show ?case by simp
next
  case (Cons p cs)
  obtain c sp where p: "p = (c, sp)" by (cases p)
  with Cons.prems(1) obtain o1 e es' where s: "write_column c sp out = (o1, e)"
    "write_columns cs o1 = (out', es')" "es = e # es'"
    by (auto simp: Let_def split: prod.splits)
  obtain x where x: "o1 = out @ x" using write_column_append [OF s(1)] by blast
  obtain y where y: "out' = o1 @ y" using write_columns_append [OF s(2)] by blast
  have "column_stored lo o1 c sp e"
    using write_column_stored [OF s(1) Cons.prems(2)] Cons.prems(3) y by simp
  moreover have "list_all2 (\<lambda>(c, sp) e. column_stored lo out' c sp e) cs es'"
    using Cons.IH [OF s(2)] Cons.prems(2,3) x by simp
  ultimately show ?case using p s(3) y by (simp add: column_stored_append)
qed

lemma write_names_out: "fst (write_names ns out) = out @ concat (map as_bytes ns)"
  by (induction ns arbitrary: out) (simp_all add: Let_def split: prod.splits, metis append.assoc fst_conv)

lemma write_names_stored:
  assumes "write_names ns out = (out', spans)" "lo \<le> length out" "length out' < 2 ^ 32"
  shows "list_all2 (\<lambda>n sp. stored lo out' (fst sp) (snd sp) (as_bytes n)) ns spans"
  using assms
proof (induction ns arbitrary: out spans)
  case Nil
  then show ?case by simp
next
  case (Cons n ns)
  from Cons.prems(1) obtain spans' where s: "write_names ns (out @ as_bytes n) = (out', spans')"
    "spans = (u32_of (length out), u32_of (length n)) # spans'"
    by (auto simp: Let_def split: prod.splits)
  have out': "out' = (out @ as_bytes n) @ concat (map as_bytes ns)"
    using write_names_out [of ns "out @ as_bytes n"] s(1) by simp
  have "stored lo (out @ as_bytes n) (u32_of (length out)) (u32_of (length n)) (as_bytes n)"
    using Cons.prems(2,3) out' by (intro stored_here) simp_all
  then have "stored lo out' (u32_of (length out)) (u32_of (length n)) (as_bytes n)"
    unfolding out' by (rule stored_append)
  moreover have "list_all2 (\<lambda>n sp. stored lo out' (fst sp) (snd sp) (as_bytes n)) ns spans'"
    using Cons.IH [OF s(1)] Cons.prems(2,3) by simp
  ultimately show ?case using s(2) by simp
qed

section \<open>Patching the header and the directory\<close>

text \<open>The ten writes of a directory entry, in increasing order.\<close>

definition entry_writes :: "nat \<Rightarrow> dir_entry \<Rightarrow> u8 writes" where
  "entry_writes base e =
     [(base, u32_to_le (e_name_off e)), (base + 4, u32_to_le (e_name_len e)),
      (base + 8, [e_dtype e]), (base + 9, [e_flags e]),
      (base + 12, u32_to_le (e_validity_off e)), (base + 16, u32_to_le (e_validity_len e)),
      (base + 20, u32_to_le (e_buf1_off e)), (base + 24, u32_to_le (e_buf1_len e)),
      (base + 28, u32_to_le (e_buf2_off e)), (base + 32, u32_to_le (e_buf2_len e))]"

lemma patch_entry_writes: "patch_entry base e out = apply_writes (entry_writes base e) out"
  by (simp add: patch_entry_def entry_writes_def Let_def)

lemma entry_writes_fits: "base + 40 \<le> n \<Longrightarrow> fits n (set (entry_writes base e))"
  by (simp add: entry_writes_def)

lemma entry_writes_disjoint: "disjoint_set (set (entry_writes base e))"
  by (rule increasing_disjoint [of base]) (simp add: entry_writes_def)

lemma length_patch_entry [simp]:
  "base + 40 \<le> length out \<Longrightarrow> length (patch_entry base e out) = length out"
  by (simp add: patch_entry_writes entry_writes_fits)

lemma patch_entry_other:
  assumes "base + 40 \<le> length out" "q + n \<le> length out" "q + n \<le> base \<or> base + 40 \<le> q"
  shows "slice_at q n (patch_entry base e out) = slice_at q n out"
  unfolding patch_entry_writes
  by (rule slice_apply_out) (use assms in \<open>auto simp: entry_writes_fits entry_writes_def\<close>)

lemma patch_entry_nth_cong:
  assumes "length a = length b" "base + 40 \<le> length a" "m < length a" "a ! m = b ! m"
  shows "patch_entry base e a ! m = patch_entry base e b ! m"
  unfolding patch_entry_writes
  by (rule apply_writes_nth_cong) (use assms in \<open>simp_all add: entry_writes_fits\<close>)

lemma patch_entry_field:
  assumes "base + 40 \<le> length out" "(p, x) \<in> set (entry_writes base e)" "n = length x"
  shows "slice_at p n (patch_entry base e out) = x"
  unfolding patch_entry_writes
  by (rule slice_apply_in) (use assms in \<open>simp_all add: entry_writes_fits entry_writes_disjoint\<close>)

lemma patch_entry_fields:
  assumes "base + 40 \<le> length out"
  shows "slice_at base 4 (patch_entry base e out) = u32_to_le (e_name_off e)"
    "slice_at (base + 4) 4 (patch_entry base e out) = u32_to_le (e_name_len e)"
    "slice_at (base + 8) 1 (patch_entry base e out) = [e_dtype e]"
    "slice_at (base + 9) 1 (patch_entry base e out) = [e_flags e]"
    "slice_at (base + 12) 4 (patch_entry base e out) = u32_to_le (e_validity_off e)"
    "slice_at (base + 16) 4 (patch_entry base e out) = u32_to_le (e_validity_len e)"
    "slice_at (base + 20) 4 (patch_entry base e out) = u32_to_le (e_buf1_off e)"
    "slice_at (base + 24) 4 (patch_entry base e out) = u32_to_le (e_buf1_len e)"
    "slice_at (base + 28) 4 (patch_entry base e out) = u32_to_le (e_buf2_off e)"
    "slice_at (base + 32) 4 (patch_entry base e out) = u32_to_le (e_buf2_len e)"
  by (rule patch_entry_field [OF assms], simp add: entry_writes_def, simp)+

lemma patch_entries_len:
  "HEADER_LEN + (i + length es) * COLDIR_LEN \<le> length out \<Longrightarrow>
    length (patch_entries i es out) = length out"
  by (induction i es out rule: patch_entries.induct) (simp_all add: HEADER_LEN_def COLDIR_LEN_def)

lemma patch_entries_before:
  assumes "HEADER_LEN + (i + length es) * COLDIR_LEN \<le> length out"
    and "q + n \<le> HEADER_LEN + i * COLDIR_LEN"
  shows "slice_at q n (patch_entries i es out) = slice_at q n out"
  using assms
  by (induction i es out rule: patch_entries.induct)
    (simp_all add: HEADER_LEN_def COLDIR_LEN_def patch_entry_other)

lemma patch_entries_drop:
  assumes "HEADER_LEN + (i + length es) * COLDIR_LEN \<le> lo" "lo \<le> length out"
  shows "drop lo (patch_entries i es out) = drop lo out"
  using assms
proof (induction i es out rule: patch_entries.induct)
  case (1 i out)
  then show ?case by simp
next
  case (2 i e es out)
  then have base: "HEADER_LEN + i * COLDIR_LEN + 40 \<le> lo" by (simp add: HEADER_LEN_def COLDIR_LEN_def)
  have "drop lo (patch_entry (HEADER_LEN + i * COLDIR_LEN) e out) = drop lo out"
    using base 2(3) unfolding patch_entry_writes
    by (intro drop_apply_writes) (simp_all add: entry_writes_fits)
  with 2 base show ?case by simp
qed

lemma patch_entries_slice:
  assumes "HEADER_LEN + (i + length es) * COLDIR_LEN \<le> length out"
    and "j < length es" "q + n \<le> COLDIR_LEN"
  shows "slice_at (HEADER_LEN + (i + j) * COLDIR_LEN + q) n (patch_entries i es out) =
    slice_at (HEADER_LEN + (i + j) * COLDIR_LEN + q) n
      (patch_entry (HEADER_LEN + (i + j) * COLDIR_LEN) (es ! j) out)"
  using assms
proof (induction i es out arbitrary: j rule: patch_entries.induct)
  case (1 i out)
  then show ?case by simp
next
  case (2 i e es out)
  have len: "HEADER_LEN + (Suc i + length es) * COLDIR_LEN \<le> length out"
    using "2.prems"(1) by simp
  have b: "HEADER_LEN + i * COLDIR_LEN + 40 \<le> length out"
    using "2.prems"(1) by (simp add: HEADER_LEN_def COLDIR_LEN_def)
  show ?case
  proof (cases j)
    case 0
    with "2.prems" b show ?thesis
      by (simp add: patch_entries_before HEADER_LEN_def COLDIR_LEN_def)
  next
    case (Suc k)
    let ?out = "patch_entry (HEADER_LEN + i * COLDIR_LEN) e out"
    let ?p = "HEADER_LEN + (i + j) * COLDIR_LEN"
    have eq: "HEADER_LEN + (Suc i + k) * COLDIR_LEN = ?p" and nth: "(e # es) ! j = es ! k"
      using Suc by simp_all
    have pb: "?p + 40 \<le> length out" "HEADER_LEN + i * COLDIR_LEN + 40 \<le> ?p"
      using "2.prems"(1,2) Suc by (simp_all add: HEADER_LEN_def COLDIR_LEN_def)
    have "slice_at (?p + q) n (patch_entries i (e # es) out) =
        slice_at (?p + q) n (patch_entry ?p ((e # es) ! j) ?out)"
      unfolding nth patch_entries.simps(2)
      by (rule "2.IH" [of k, unfolded eq]) (use "2.prems"(2,3) len b Suc in simp_all)
    also have "\<dots> = slice_at (?p + q) n (patch_entry ?p ((e # es) ! j) out)"
    proof (rule slice_at_eqI)
      show "?p + q + n \<le> length (patch_entry ?p ((e # es) ! j) ?out)"
        using pb b "2.prems"(3) by (simp add: COLDIR_LEN_def)
      show "length (patch_entry ?p ((e # es) ! j) out) = length (patch_entry ?p ((e # es) ! j) ?out)"
        using pb b by simp
      fix m assume "?p + q \<le> m" "m < ?p + q + n"
      with pb b "2.prems"(3) have m: "?p \<le> m" "m < ?p + 40" "m < length out"
        by (simp_all add: COLDIR_LEN_def)
      have "slice_at m 1 ?out = slice_at m 1 out"
        using m pb b by (intro patch_entry_other) simp_all
      then have same: "?out ! m = out ! m"
        using nth_slice_at [of 0 1 m ?out] nth_slice_at [of 0 1 m out] m b by simp
      show "patch_entry ?p ((e # es) ! j) ?out ! m = patch_entry ?p ((e # es) ! j) out ! m"
        using m pb b same by (intro patch_entry_nth_cong) simp_all
    qed
    finally show ?thesis .
  qed
qed

lemma patch_header_fields:
  assumes "24 \<le> length out"
  shows "length (patch_header nc nr out) = length out"
    "slice_at 0 4 (patch_header nc nr out) = MAGIC"
    "slice_at 4 2 (patch_header nc nr out) = u16_to_le VERSION"
    "slice_at 8 4 (patch_header nc nr out) = u32_to_le (u32_of nc)"
    "slice_at 12 4 (patch_header nc nr out) = u32_to_le (u32_of nr)"
    "slice_at 16 4 (patch_header nc nr out) = u32_to_le (u32_of HEADER_LEN)"
  using assms by (simp_all add: patch_header_def Let_def MAGIC_def slice_copy_same slice_copy_other)

lemma patch_header_drop:
  "24 \<le> lo \<Longrightarrow> lo \<le> length out \<Longrightarrow> drop lo (patch_header nc nr out) = drop lo out"
  by (simp add: patch_header_def Let_def MAGIC_def drop_copy_at)

section \<open>The whole buffer\<close>

definition names_off :: "record_batch \<Rightarrow> nat" where
  "names_off b = HEADER_LEN + length (columns b) * COLDIR_LEN"

definition col_names :: "record_batch \<Rightarrow> string list" where
  "col_names b = map (\<lambda>c. field_name (col_field c)) (columns b)"

lemma length_write_names [simp]: "length (snd (write_names ns out)) = length ns"
  by (induction ns arbitrary: out) (simp_all add: Let_def split: prod.splits, metis snd_conv)

lemma length_write_columns [simp]: "length (snd (write_columns cs out)) = length cs"
  by (induction cs arbitrary: out) (auto simp: Let_def split: prod.splits, metis snd_conv)

lemma encode_steps:
  assumes n: "write_names (col_names b) (replicate (names_off b) 0) = (o1, spans)"
    and c: "write_columns (zip (columns b) spans) (align8 o1) = (o2, es)"
  shows "encode b = patch_entries 0 es (patch_header (length (columns b)) (num_rows b) (align8 o2))"
    and "length spans = length (columns b)" and "length es = length (columns b)"
    and "\<exists>x y z. align8 o1 = o1 @ x \<and> o2 = align8 o1 @ y \<and> align8 o2 = o1 @ x @ y @ z"
    and "o1 = replicate (names_off b) 0 @ concat (map as_bytes (col_names b))"
    and "length (encode b) = length (align8 o2)"
proof -
  show enc: "encode b = patch_entries 0 es (patch_header (length (columns b)) (num_rows b) (align8 o2))"
    using n c by (simp add: encode_def names_off_def col_names_def Let_def)
  show spans: "length spans = length (columns b)"
    using arg_cong [OF n, of "\<lambda>r. length (snd r)"] by (simp add: col_names_def)
  show es: "length es = length (columns b)"
    using arg_cong [OF c, of "\<lambda>r. length (snd r)"] spans by simp
  obtain x where x: "align8 o1 = o1 @ x" using align8_append by blast
  obtain y where y: "o2 = align8 o1 @ y" using write_columns_append [OF c] by blast
  obtain z where z: "align8 o2 = o2 @ z" using align8_append by blast
  from x y z show "\<exists>x y z. align8 o1 = o1 @ x \<and> o2 = align8 o1 @ y \<and> align8 o2 = o1 @ x @ y @ z"
    by (metis append.assoc)
  show o1: "o1 = replicate (names_off b) 0 @ concat (map as_bytes (col_names b))"
    using write_names_out [of "col_names b" "replicate (names_off b) 0"] n by simp
  show "length (encode b) = length (align8 o2)"
    unfolding enc using o1 x y z es
    by (simp add: patch_entries_len patch_header_fields(1) names_off_def HEADER_LEN_def)
qed

lemma encode_layout:
  assumes "length (encode b) < 2 ^ 32"
  obtains spans es body where
    "encode b = patch_entries 0 es (patch_header (length (columns b)) (num_rows b) body)"
    "length (encode b) = length body" "names_off b \<le> length body" "length body mod 8 = 0"
    "length es = length (columns b)" "length spans = length (columns b)"
    "list_all2 (\<lambda>n sp. stored (names_off b) body (fst sp) (snd sp) (as_bytes n)) (col_names b) spans"
    "list_all2 (\<lambda>(c, sp) e. column_stored (names_off b) body c sp e) (zip (columns b) spans) es"
proof -
  let ?o0 = "replicate (names_off b) 0 :: bytes"
  obtain o1 spans where n: "write_names (col_names b) ?o0 = (o1, spans)"
    by (cases "write_names (col_names b) ?o0")
  obtain o2 es where c: "write_columns (zip (columns b) spans) (align8 o1) = (o2, es)"
    by (cases "write_columns (zip (columns b) spans) (align8 o1)")
  let ?body = "align8 o2"
  note st = encode_steps [OF n c]
  obtain x y z where xyz: "align8 o1 = o1 @ x" "o2 = align8 o1 @ y" "?body = o1 @ x @ y @ z"
    using st(4) by blast
  then have z: "?body = o2 @ z" by simp
  have lo: "names_off b \<le> length o1" "names_off b \<le> length ?body"
    using st(5) xyz by simp_all
  have small: "length o2 < 2 ^ 32" "length o1 < 2 ^ 32"
    using assms st(6) xyz by simp_all
  have "list_all2 (\<lambda>(c, sp) e. column_stored (names_off b) o2 c sp e) (zip (columns b) spans) es"
    using write_columns_stored [OF c _ small(1)] lo(1) length_align8_le [of o1] by simp
  then have cols: "list_all2 (\<lambda>(c, sp) e. column_stored (names_off b) ?body c sp e) (zip (columns b) spans) es"
    unfolding z by (rule list_all2_mono) (auto simp: column_stored_append)
  have "list_all2 (\<lambda>n sp. stored (names_off b) o1 (fst sp) (snd sp) (as_bytes n)) (col_names b) spans"
    using write_names_stored [OF n _ small(2)] by simp
  then have nms: "list_all2 (\<lambda>n sp. stored (names_off b) ?body (fst sp) (snd sp) (as_bytes n)) (col_names b) spans"
    unfolding xyz(3) by (rule list_all2_mono) (rule stored_append)
  show thesis
    using that [OF st(1) st(6) lo(2) _ st(3,2) nms cols] by simp
qed

lemma decode_column_stored:
  assumes lo: "length buf < 2 ^ 32" and base: "base = dir + i * COLDIR_LEN" "base + 40 \<le> length buf"
    and e: "\<And>q n. q + n \<le> 40 \<Longrightarrow> slice_at (base + q) n buf = slice_at (base + q) n (patch_entry base e out)"
    and out: "base + 40 \<le> length out"
    and col: "column_stored lo buf c sp e" and nm: "stored lo buf (fst sp) (snd sp) (as_bytes (field_name (col_field c)))"
    and wf: "column_wf c" and rows: "col_len c = nrows"
  shows "decode_column buf nrows dir i = Ok c"
proof -
  have f: "slice_at base 4 buf = u32_to_le (e_name_off e)"
    "slice_at (base + 4) 4 buf = u32_to_le (e_name_len e)"
    "slice_at (base + 12) 4 buf = u32_to_le (e_validity_off e)"
    "slice_at (base + 16) 4 buf = u32_to_le (e_validity_len e)"
    "slice_at (base + 20) 4 buf = u32_to_le (e_buf1_off e)"
    "slice_at (base + 24) 4 buf = u32_to_le (e_buf1_len e)"
    "slice_at (base + 28) 4 buf = u32_to_le (e_buf2_off e)"
    "slice_at (base + 32) 4 buf = u32_to_le (e_buf2_len e)"
    using e [of 0 4] by (simp_all add: e patch_entry_fields [OF out])
  have b8: "buf ! (base + 8) = e_dtype e" "buf ! (base + 9) = e_flags e"
    using nth_slice_at [of 0 1 "base + 8" buf] nth_slice_at [of 0 1 "base + 9" buf] base(2)
    by (simp_all add: e patch_entry_fields [OF out, simplified])
  have r: "ru32 buf p = Ok v" if "slice_at p 4 buf = u32_to_le v" "p + 4 \<le> length buf" for p v
    using that by (simp add: ru32_def)
  have rs: "ru32 buf base = Ok (e_name_off e)" "ru32 buf (base + 4) = Ok (e_name_len e)"
    "ru32 buf (base + 12) = Ok (e_validity_off e)" "ru32 buf (base + 16) = Ok (e_validity_len e)"
    "ru32 buf (base + 20) = Ok (e_buf1_off e)" "ru32 buf (base + 24) = Ok (e_buf1_len e)"
    "ru32 buf (base + 28) = Ok (e_buf2_off e)" "ru32 buf (base + 32) = Ok (e_buf2_len e)"
    using f base(2) by (intro r; simp)+
  have name: "slice_checked buf (e_name_off e) (e_name_len e) = Ok (as_bytes (field_name (col_field c)))"
    using stored_checked [OF nm] col by (simp add: column_stored_def)
  have utf: "from_utf8 (as_bytes (field_name (col_field c))) = Some (field_name (col_field c))"
    using wf by (intro from_utf8_as_bytes) (simp add: column_wf_def)
  have flag: "e_flags e AND 1 \<noteq> 0 \<longleftrightarrow> validity c \<noteq> None"
    and dt: "e_dtype e = dtype_code (data_type (col_field c))"
    using col by (simp_all add: column_stored_def)
  have vld: "(if e_flags e AND 1 \<noteq> 0
      then bind_r (slice_checked buf (e_validity_off e) (e_validity_len e)) (\<lambda>v. Ok (Some v)) else Ok None)
      = Ok (validity c)"
    using col flag by (cases "validity c") (auto simp: column_stored_def dest: stored_checked)
  have data: "decode_data (data_type (col_field c)) nrows buf (e_buf1_off e) (e_buf1_len e)
      (e_buf2_off e) (e_buf2_len e) = Ok (col_data c)"
    using col wf rows 
    by (intro decode_data_stored [where lo = lo]) (simp_all add: column_stored_def column_wf_def)
  have nl: "(validity c \<noteq> None) = nullable (col_field c)" using wf by (simp add: column_wf_def)
  have "decode_column buf nrows dir i =
      Ok \<lparr>col_field = field_new (field_name (col_field c)) (data_type (col_field c)) (validity c \<noteq> None),
          col_len = nrows, validity = validity c, col_data = col_data c\<rparr>"
    unfolding decode_column_def Let_def base(1) [symmetric] rs b8 dt from_code_code bind_r_simps
      name utf ok_or_simps vld data flag vld [unfolded flag]
    using base(2) by (simp add: COLDIR_LEN_def)
  also have "\<dots> = Ok c"
    using rows unfolding nl field_new_def by (simp add: field.surjective [symmetric])
  finally show ?thesis .
qed

lemma decode_of_encode:
  assumes wf: "batch_wf b" and size: "length (encode b) < 2 ^ 32" and rows: "num_rows b < 2 ^ 32"
  shows "decode (encode b) = Ok b"
proof -
  let ?F = "encode b" and ?lo = "names_off b" and ?n = "length (columns b)"
  obtain spans es body where enc: "?F = patch_entries 0 es (patch_header ?n (num_rows b) body)"
    and len: "length ?F = length body" "?lo \<le> length body" "length body mod 8 = 0"
    and ls: "length es = ?n" "length spans = ?n"
    and nms: "list_all2 (\<lambda>n sp. stored ?lo body (fst sp) (snd sp) (as_bytes n)) (col_names b) spans"
    and cols: "list_all2 (\<lambda>(c, sp) e. column_stored ?lo body c sp e) (zip (columns b) spans) es"
    by (rule encode_layout [OF size])
  let ?H = "patch_header ?n (num_rows b) body"
  have b24: "24 \<le> length body" using len(2) by (simp add: names_off_def HEADER_LEN_def)
  have lenH: "length ?H = length body" by (rule patch_header_fields [OF b24])
  have fit: "HEADER_LEN + (0 + length es) * COLDIR_LEN \<le> length ?H"
    using len(2) lenH ls by (simp add: names_off_def)
  have nn: "?n < 2 ^ 32" using len size by (simp add: names_off_def HEADER_LEN_def COLDIR_LEN_def)
  have hd: "slice_at q m ?F = slice_at q m ?H" if "q + m \<le> 24" for q m
    unfolding enc by (rule patch_entries_before [OF fit]) (use that in \<open>simp add: HEADER_LEN_def\<close>)
  have header: "slice_at 0 4 ?F = MAGIC" "ru16 ?F 4 = Ok VERSION" "ru32 ?F 8 = Ok (u32_of ?n)"
    "ru32 ?F 12 = Ok (u32_of (num_rows b))" "ru32 ?F 16 = Ok (u32_of HEADER_LEN)"
    using patch_header_fields [OF b24, of ?n "num_rows b"] len(1) b24
    by (simp_all add: hd ru16_def ru32_def)
  have dropF: "drop ?lo ?F = drop ?lo body"
    unfolding enc using fit lenH len(2) ls
    by (simp add: patch_entries_drop names_off_def patch_header_drop HEADER_LEN_def)
  have col: "decode_column ?F (num_rows b) HEADER_LEN i = Ok (columns b ! i)" if i: "i < ?n" for i
  proof (rule decode_column_stored)
    let ?base = "HEADER_LEN + i * COLDIR_LEN" and ?c = "columns b ! i"
    show "length ?F < 2 ^ 32" by (rule size)
    show "?base = HEADER_LEN + i * COLDIR_LEN" ..
    have "Suc i * COLDIR_LEN \<le> ?n * COLDIR_LEN" using i by (intro mult_le_mono1) simp
    then show inF: "?base + 40 \<le> length ?F" and "?base + 40 \<le> length ?H"
      using len lenH by (simp_all add: names_off_def COLDIR_LEN_def)
    show "slice_at (?base + q) m ?F = slice_at (?base + q) m (patch_entry ?base (es ! i) ?H)"
      if "q + m \<le> 40" for q m
      using patch_entries_slice [OF fit, of i q m] i ls that unfolding enc by (simp add: COLDIR_LEN_def)
    show "column_stored ?lo ?F ?c (spans ! i) (es ! i)"
      using list_all2_nthD [OF cols, of i] i ls by (intro column_stored_patch [OF _ len(1) dropF]) simp
    show "stored ?lo ?F (fst (spans ! i)) (snd (spans ! i)) (as_bytes (field_name (col_field ?c)))"
      using list_all2_nthD [OF nms, of i] i ls
      by (intro stored_patch [OF _ len(1) dropF]) (simp add: col_names_def)
    show "column_wf ?c" "col_len ?c = num_rows b" using wf i by (simp_all add: batch_wf_def)
  qed
  have "map_r (decode_column ?F (num_rows b) HEADER_LEN) [0..<?n] = Ok (map (\<lambda>i. columns b ! i) [0..<?n])"
    by (rule map_r_all_ok) (simp add: col)
  then have cs: "map_r (decode_column ?F (num_rows b) HEADER_LEN) [0..<?n] = Ok (columns b)"
    by (simp add: map_nth)
  have "decode ?F = Ok \<lparr>batch_schema = schema_new (map col_field (columns b)),
      num_rows = num_rows b, columns = columns b\<rparr>"
    using header len(1) b24 nn rows cs by (simp add: decode_def HEADER_LEN_def)
  with wf show ?thesis by (simp add: batch_wf_def)
qed

text \<open>
  C1: Decoding what the encoder wrote returns the batch unchanged: schema, row count, validity
  bitmaps and every buffer. It holds for every well-formed batch whose buffer and row count fit the
  32-bit fields of the format.
\<close>

theorem decode_encode:
  assumes wf: "batch_wf b" and size: "length (encode b) < 2 ^ 32" and rows: "num_rows b < 2 ^ 32"
  shows "decode (encode b) = Ok b"
  by (rule decode_of_encode [OF wf size rows])

lemma decode_encode_witness:
  "decode (encode \<lparr>batch_schema = schema_new [field_new ''id'' Int64 False, field_new ''ok'' Boolean True],
      num_rows = 2,
      columns = [\<lparr>col_field = field_new ''id'' Int64 False, col_len = 2, validity = None, col_data = DInt64 [7, 8]\<rparr>,
        \<lparr>col_field = field_new ''ok'' Boolean True, col_len = 2, validity = Some [1], col_data = DBool [True, False]\<rparr>]\<rparr>)
    = Ok \<lparr>batch_schema = schema_new [field_new ''id'' Int64 False, field_new ''ok'' Boolean True],
      num_rows = 2,
      columns = [\<lparr>col_field = field_new ''id'' Int64 False, col_len = 2, validity = None, col_data = DInt64 [7, 8]\<rparr>,
        \<lparr>col_field = field_new ''ok'' Boolean True, col_len = 2, validity = Some [1], col_data = DBool [True, False]\<rparr>]\<rparr>"
proof (rule decode_encode)
  let ?b = "\<lparr>batch_schema = schema_new [field_new ''id'' Int64 False, field_new ''ok'' Boolean True],
      num_rows = 2,
      columns = [\<lparr>col_field = field_new ''id'' Int64 False, col_len = 2, validity = None, col_data = DInt64 [7, 8]\<rparr>,
        \<lparr>col_field = field_new ''ok'' Boolean True, col_len = 2, validity = Some [1], col_data = DBool [True, False]\<rparr>]\<rparr>"
  show "batch_wf ?b" by code_simp
  have "length (encode ?b) = 144" by code_simp
  then show "length (encode ?b) < 2 ^ 32" by simp
  show "num_rows ?b < 2 ^ 32" by simp
qed

text \<open>
  Every encoded buffer is a whole number of 8-byte words.
\<close>

theorem encode_aligned: "length (encode b) mod 8 = 0"
proof -
  let ?o0 = "replicate (names_off b) 0 :: bytes"
  obtain o1 spans where n: "write_names (col_names b) ?o0 = (o1, spans)"
    by (cases "write_names (col_names b) ?o0")
  obtain o2 es where c: "write_columns (zip (columns b) spans) (align8 o1) = (o2, es)"
    by (cases "write_columns (zip (columns b) spans) (align8 o1)")
  show ?thesis
    using encode_steps(6) [OF n c] by simp
qed

section \<open>What the decoder accepts\<close>

lemma read_array_length: "read_array w dec raw n = Inr xs \<Longrightarrow> length xs = n"
  by (auto simp: read_array_def dest: map_r_length)

lemma decode_data_matches: "decode_data dt n bs o1 l1 o2 l2 = Inr d \<Longrightarrow> data_matches dt n d"
  by (cases dt) (auto simp: data_matches_def bind_r_eq_Inr dest!: read_array_length map_r_length)

lemma decode_column_wf:
  assumes "decode_column bs n dir i = Inr c"
  shows "column_wf c \<and> col_len c = n"
proof -
  from assms obtain raw nm dt hv vld d o1 l1 o2 l2 where
    c: "c = \<lparr>col_field = field_new nm dt hv, col_len = n, validity = vld, col_data = d\<rparr>"
    and nm: "from_utf8 raw = Some nm" and d: "decode_data dt n bs o1 l1 o2 l2 = Inr d"
    and v: "hv \<longleftrightarrow> vld \<noteq> None"
    unfolding decode_column_def Let_def
    by (auto simp: bind_r_eq_Inr ok_or_eq_Ok split: if_splits)
  from nm have "utf8_string nm" by (rule from_utf8_utf8)
  with decode_data_matches [OF d] c v show ?thesis
    by (simp add: column_wf_def field_new_def)
qed

lemma list_all2_right: "list_all2 (\<lambda>x. P) xs ys \<Longrightarrow> list_all P ys"
  by (induction rule: list_all2_induct) simp_all

text \<open>
  C39: Whatever bytes the decoder is given, a batch it returns is consistent: the schema lists the
  fields of the columns, every column has the row count of the header, a buffer with one slot for
  each row (and one more text offset), a validity bitmap exactly when it is nullable, and a name
  that is valid UTF-8.
\<close>

theorem decode_consistent:
  assumes "decode bs = Ok b"
  shows "batch_schema b = schema_new (map col_field (columns b)) \<and>
    list_all (\<lambda>c. column_wf c \<and> col_len c = num_rows b) (columns b)"
proof -
  from assms obtain n m dir cs where
    b: "b = \<lparr>batch_schema = schema_new (map col_field cs), num_rows = n, columns = cs\<rparr>"
    and cs: "map_r (decode_column bs n dir) [0..<m] = Inr cs"
    unfolding decode_def by (auto simp: bind_r_eq_Inr split: if_splits)
  from cs have "list_all2 (\<lambda>i c. decode_column bs n dir i = Inr c) [0..<m] cs"
    by (simp add: map_r_eq_Inr)
  then have "list_all2 (\<lambda>i c. column_wf c \<and> col_len c = n) [0..<m] cs"
    by (rule list_all2_mono) (rule decode_column_wf)
  then have "list_all (\<lambda>c. column_wf c \<and> col_len c = n) cs"
    by (rule list_all2_right)
  with b show ?thesis by simp
qed

text \<open>A complete 72-byte buffer of one integer column with one row.\<close>

definition sample_buffer :: "u8 \<Rightarrow> bytes" where
  "sample_buffer len1 =
     [80,67,66,49, 1,0, 0,0, 1,0,0,0, 1,0,0,0, 24,0,0,0, 0,0,0,0,
      64,0,0,0, 1,0,0,0, 0,0, 0,0, 0,0,0,0, 0,0,0,0, 72,0,0,0, len1,0,0,0, 0,0,0,0, 0,0,0,0, 0,0,0,0,
      97, 0,0,0,0,0,0,0, 5,0,0,0,0,0,0,0]"

lemma decode_consistent_witness:
  "\<exists>b. decode (sample_buffer 8) = Ok b \<and> num_rows b = 1 \<and>
    list_all (\<lambda>c. column_wf c \<and> col_len c = num_rows b) (columns b)"
proof -
  have "(case decode (sample_buffer 8) of Inr b \<Rightarrow> num_rows b = 1 | _ \<Rightarrow> False)" by code_simp
  then obtain b where "decode (sample_buffer 8) = Ok b" "num_rows b = 1"
    by (auto split: sum.splits)
  with decode_consistent [OF this(1)] show ?thesis by blast
qed

text \<open>
  The same buffer with a payload length of 0: the decoder does not return an error, it indexes
  past the end of the slice.
\<close>

lemma decode_short_payload_panics: "decode (sample_buffer 0) = Panicked"
  by code_simp

end
