(* ===== verification/EncodeParts.thy ===== *)
theory EncodeParts
  imports CodecProofs
begin

text \<open>
  \<open>encode_parts\<close> of \<open>codec.rs\<close>, the chunked twin of the encoder: pass 1 computes the layout of the
  buffer, pass 2 writes header, directory, names and padding into an uninitialised buffer, and one
  task per column writes the payload regions in parallel. Every write is an element of a list; the
  order in which the tasks' writes reach the buffer is an argument. The writes are disjoint and tile
  the buffer, so its final contents are those of \<open>encode\<close> on the concatenated columns.
\<close>

section \<open>Definitions\<close>

datatype col_parts =
    PInt "i64 list list"
  | PFloat "f64 list list"
  | PUtf8 "(u32 list \<times> bytes) list" bool

record col_layout =
  l_dtype :: u8
  l_flags :: u8
  l_buf1_off :: nat
  l_buf1_len :: nat
  l_buf2_off :: nat
  l_buf2_len :: nat

definition align_pos :: "nat \<times> (nat \<times> nat) list \<Rightarrow> nat \<times> (nat \<times> nat) list" where
  "align_pos s = (case s of (pos, pads) \<Rightarrow>
     (let pad = pad8 pos in if 0 < pad then (pos + pad, pads @ [(pos, pad)]) else (pos, pads)))"

fun layout_col ::
  "nat \<Rightarrow> col_parts \<Rightarrow> nat \<times> (nat \<times> nat) list \<Rightarrow> (nat \<times> (nat \<times> nat) list) \<times> col_layout" where
  "layout_col nrows (PUtf8 parts ascii) s =
     (let (off1, pads) = align_pos s;
          (off2, pads) = align_pos (off1 + (nrows + 1) * 4, pads);
          data_len = sum_list (map (\<lambda>(_, d). length d) parts)
      in ((off2 + data_len, pads),
          \<lparr>l_dtype = 3, l_flags = (if ascii then FLAG_ASCII else 0), l_buf1_off = off1,
           l_buf1_len = (nrows + 1) * 4, l_buf2_off = off2, l_buf2_len = data_len\<rparr>))"
| "layout_col nrows col s =
     (let (off, pads) = align_pos s
      in ((off + nrows * 8, pads),
          \<lparr>l_dtype = (case col of PInt _ \<Rightarrow> 0 | _ \<Rightarrow> 1), l_flags = 0, l_buf1_off = off,
           l_buf1_len = nrows * 8, l_buf2_off = 0, l_buf2_len = 0\<rparr>))"

fun layout_cols ::
  "nat \<Rightarrow> col_parts list \<Rightarrow> nat \<times> (nat \<times> nat) list \<Rightarrow> (nat \<times> (nat \<times> nat) list) \<times> col_layout list" where
  "layout_cols nrows [] s = (s, [])"
| "layout_cols nrows (c # cs) s =
     (let (s, l) = layout_col nrows c s; (s, ls) = layout_cols nrows cs s in (s, l # ls))"

definition layout_entry_writes :: "nat \<Rightarrow> nat \<Rightarrow> nat \<Rightarrow> col_layout \<Rightarrow> u8 writes" where
  "layout_entry_writes base npos nlen l =
     [(base, u32_to_le (u32_of npos)), (base + 4, u32_to_le (u32_of nlen)),
      (base + 8, [l_dtype l]), (base + 9, [l_flags l]),
      (base + 20, u32_to_le (u32_of (l_buf1_off l))), (base + 24, u32_to_le (u32_of (l_buf1_len l))),
      (base + 28, u32_to_le (u32_of (l_buf2_off l))), (base + 32, u32_to_le (u32_of (l_buf2_len l)))]"

fun name_writes :: "nat \<Rightarrow> nat \<Rightarrow> string list \<Rightarrow> col_layout list \<Rightarrow> u8 writes" where
  "name_writes i npos (n # ns) (l # ls) =
     (npos, as_bytes n) # layout_entry_writes (HEADER_LEN + i * COLDIR_LEN) npos (length n) l
       @ name_writes (Suc i) (npos + length n) ns ls"
| "name_writes i npos _ _ = []"

definition header_writes :: "nat \<Rightarrow> nat \<Rightarrow> u8 writes" where
  "header_writes ncols nrows =
     [(0, MAGIC), (4, u16_to_le VERSION), (8, u32_to_le (u32_of ncols)),
      (12, u32_to_le (u32_of nrows)), (16, u32_to_le (u32_of HEADER_LEN))]"

fun numeric_writes :: "nat \<Rightarrow> 64 word list list \<Rightarrow> u8 writes" where
  "numeric_writes dst [] = []"
| "numeric_writes dst (p # ps) =
     (dst, concat (map u64_to_le p)) # numeric_writes (dst + length p * 8) ps"

fun single_writes :: "nat \<Rightarrow> u32 list \<Rightarrow> u8 writes" where
  "single_writes dst [] = []"
| "single_writes dst (x # xs) = (dst, u32_to_le x) # single_writes (dst + 4) xs"

fun offset_writes :: "nat \<Rightarrow> u32 \<Rightarrow> (u32 list \<times> bytes) list \<Rightarrow> u8 writes" where
  "offset_writes dst base [] = []"
| "offset_writes dst base ((offsets, data) # ps) =
     (let rest = tl offsets
      in (if base = 0 then [(dst, concat (map u32_to_le rest))]
          else single_writes dst (map (\<lambda>k. k + base) rest))
         @ offset_writes (dst + length rest * 4) (base + u32_of (length data)) ps)"

fun data_writes :: "nat \<Rightarrow> (u32 list \<times> bytes) list \<Rightarrow> u8 writes" where
  "data_writes dst [] = []"
| "data_writes dst ((_, data) # ps) = (dst, data) # data_writes (dst + length data) ps"

fun task_writes :: "col_parts \<Rightarrow> col_layout \<Rightarrow> u8 writes" where
  "task_writes (PInt parts) l = numeric_writes (l_buf1_off l) parts"
| "task_writes (PFloat parts) l = numeric_writes (l_buf1_off l) parts"
| "task_writes (PUtf8 parts _) l =
     (l_buf1_off l, u32_to_le 0) # offset_writes (l_buf1_off l + 4) 0 parts
       @ data_writes (l_buf2_off l) parts"

text \<open>
  \<open>junk\<close> is what the allocator left in the buffer, \<open>sched\<close> the order in which the writes of the
  parallel tasks happen. A slice index out of range panics: \<open>layouts[i]\<close> of a name without a column,
  and \<open>offsets[1..]\<close> of an empty offset list.
\<close>

definition encode_parts ::
  "(u8 writes \<Rightarrow> u8 writes) \<Rightarrow> (nat \<Rightarrow> u8) \<Rightarrow> string list \<Rightarrow> col_parts list \<Rightarrow> nat \<Rightarrow> bytes result" where
  "encode_parts sched junk names cols nrows =
     (let ncols = length cols;
          names_off = HEADER_LEN + ncols * COLDIR_LEN;
          names_end = names_off + sum_list (map length names);
          ((pos, pads), layouts) = layout_cols nrows cols (align_pos (names_end, []));
          (total, pads) = align_pos (pos, pads);
          out = map junk [0..<total];
          out = copy_at 0 (replicate names_off 0) out;
          out = apply_writes (header_writes ncols nrows) out;
          out = apply_writes (name_writes 0 names_off names layouts) out;
          out = apply_writes (map (\<lambda>(start, n). (start, replicate n 0)) pads) out
      in if length cols < length names
           \<or> list_ex (\<lambda>c. case c of PUtf8 ps _ \<Rightarrow> list_ex (\<lambda>(offsets, _). offsets = []) ps | _ \<Rightarrow> False) cols
         then Panicked
         else Ok (apply_writes (sched (concat (map (\<lambda>(c, l). task_writes c l) (zip cols layouts)))) out))"

section \<open>The column the parts stand for\<close>

fun shifted_offsets :: "u32 \<Rightarrow> (u32 list \<times> bytes) list \<Rightarrow> u32 list" where
  "shifted_offsets base [] = []"
| "shifted_offsets base ((offsets, data) # ps) =
     map (\<lambda>k. k + base) (tl offsets) @ shifted_offsets (base + u32_of (length data)) ps"

fun parts_data :: "col_parts \<Rightarrow> column_data" where
  "parts_data (PInt parts) = DInt64 (concat parts)"
| "parts_data (PFloat parts) = DFloat64 (concat parts)"
| "parts_data (PUtf8 parts _) = DUtf8 (0 # shifted_offsets 0 parts) (concat (map snd parts))"

fun parts_type :: "col_parts \<Rightarrow> data_type" where
  "parts_type (PInt _) = Int64"
| "parts_type (PFloat _) = Float64"
| "parts_type (PUtf8 _ _) = Utf8"

fun parts_ok :: "nat \<Rightarrow> col_parts \<Rightarrow> bool" where
  "parts_ok nrows (PInt parts) \<longleftrightarrow> length (concat parts) = nrows"
| "parts_ok nrows (PFloat parts) \<longleftrightarrow> length (concat parts) = nrows"
| "parts_ok nrows (PUtf8 parts ascii) \<longleftrightarrow>
     list_all (\<lambda>(offsets, _). offsets \<noteq> []) parts
     \<and> sum_list (map (\<lambda>(offsets, _). length offsets - 1) parts) = nrows
     \<and> ascii = bytes_is_ascii (concat (map snd parts))"

definition parts_column :: "nat \<Rightarrow> string \<Rightarrow> col_parts \<Rightarrow> column" where
  "parts_column nrows name p =
     \<lparr>col_field = field_new name (parts_type p) False, col_len = nrows, validity = None,
      col_data = parts_data p\<rparr>"

definition parts_batch :: "string list \<Rightarrow> col_parts list \<Rightarrow> nat \<Rightarrow> record_batch" where
  "parts_batch names cols nrows =
     (let cs = map (\<lambda>(n, p). parts_column nrows n p) (zip names cols)
      in \<lparr>batch_schema = schema_new (map col_field cs), num_rows = nrows, columns = cs\<rparr>)"

section \<open>Generic lemmas on writes\<close>

text \<open>A write of zeros to a zeroed region can be left out.\<close>

lemma apply_writes_drop_zeros:
  fixes ws ws' :: "u8 writes"
  assumes sub: "set ws' \<subseteq> set ws"
    and zero: "\<And>p x. (p, x) \<in> set ws \<Longrightarrow> (p, x) \<notin> set ws' \<Longrightarrow> x = replicate (length x) 0"
    and fit: "fits n (set ws)" and dis: "disjoint_set (set ws)"
  shows "apply_writes ws' (replicate n 0) = apply_writes ws (replicate n 0)"
proof (rule nth_equalityI)
  have fit': "fits n (set ws')" using fit sub by (auto simp: fits_def)
  have dis': "disjoint_set (set ws')" using dis sub unfolding disjoint_set_def by blast
  show "length (apply_writes ws' (replicate n 0)) = length (apply_writes ws (replicate n 0))"
    using fit fit' by simp
  fix i assume "i < length (apply_writes ws' (replicate n 0))"
  then have i: "i < n" using fit' by simp
  show "apply_writes ws' (replicate n 0) ! i = apply_writes ws (replicate n 0) ! i"
  proof (cases "\<exists>u \<in> set ws. covers u i")
    case False
    with i fit fit' sub show ?thesis
      using writes_nth_out [of "replicate n 0" ws i] writes_nth_out [of "replicate n 0" ws' i] by auto
  next
    case True
    then obtain p x where u: "(p, x) \<in> set ws" "covers (p, x) i" by auto
    then have ws: "apply_writes ws (replicate n 0) ! i = x ! (i - p)"
      using fit dis by (intro writes_nth_in) simp_all
    show ?thesis
    proof (cases "(p, x) \<in> set ws'")
      case True
      then have "apply_writes ws' (replicate n 0) ! i = x ! (i - p)"
        using u fit' dis' by (intro writes_nth_in) simp_all
      with ws show ?thesis by simp
    next
      case new: False
      have "\<not> covers v i" if "v \<in> set ws'" for v
        using that new u dis sub unfolding disjoint_set_def by blast
      then have "apply_writes ws' (replicate n 0) ! i = 0"
        using fit' i writes_nth_out [of "replicate n 0" ws' i] by simp
      moreover have "x ! (i - p) = 0"
        using zero [OF u(1) new] u(2) by (metis covers_def fst_conv less_diff_conv2 nth_replicate snd_conv add.commute)
      ultimately show ?thesis using ws by simp
    qed
  qed
qed

text \<open>Writes below \<open>n\<close> act on the first \<open>n\<close> cells alone.\<close>

lemma apply_writes_prefix: "fits (length a) (set ws) \<Longrightarrow> apply_writes ws (a @ b) = apply_writes ws a @ b"
  by (induction ws a rule: apply_writes.induct) (simp_all add: copy_at_append)

lemma tiles_parts:
  "tiles lo us \<Longrightarrow> lo + length (concat (map snd us)) = p \<Longrightarrow> tiles p vs \<Longrightarrow> tiles lo (us @ vs)"
  by (simp add: tiles_append)

section \<open>What each task writes\<close>

lemma numeric_writes_tile:
  "tiles dst (numeric_writes dst ps)" "concat (map snd (numeric_writes dst ps)) = concat (map u64_to_le (concat ps))"
  by (induction dst ps rule: numeric_writes.induct) (simp_all add: le64.length_packed)

lemma single_writes_tile:
  "tiles dst (single_writes dst xs)" "concat (map snd (single_writes dst xs)) = concat (map u32_to_le xs)"
  by (induction dst xs rule: single_writes.induct) simp_all

lemma data_writes_tile:
  "tiles dst (data_writes dst ps)" "concat (map snd (data_writes dst ps)) = concat (map snd ps)"
  by (induction dst ps rule: data_writes.induct) simp_all

lemma shift_0 [simp]: "map (\<lambda>k. k + 0) xs = (xs :: u32 list)"
  by simp

lemma length_le32_shifted: "length (concat (map u32_to_le (map (\<lambda>k. k + base) xs))) = length xs * 4"
  by (simp only: le32.length_packed length_map)

lemma offset_writes_bytes:
  "concat (map snd (offset_writes dst base ps)) = concat (map u32_to_le (shifted_offsets base ps))"
proof (induction dst base ps rule: offset_writes.induct)
  case (2 dst base offsets data ps)
  from 2 show ?case
    by (cases "base = 0") (simp_all add: Let_def single_writes_tile del: map_map)
qed simp

lemma offset_writes_tile: "tiles dst (offset_writes dst base ps)"
proof (induction dst base ps rule: offset_writes.induct)
  case (2 dst base offsets data ps)
  from 2 show ?case
    by (cases "base = 0")
      (simp_all add: Let_def tiles_append single_writes_tile length_le32_shifted le32.length_packed del: map_map)
qed simp

lemma length_shifted_offsets:
  "length (shifted_offsets base ps) = sum_list (map (\<lambda>(offsets, _). length offsets - 1) ps)"
  by (induction base ps rule: shifted_offsets.induct) simp_all

lemma length_concat_snd: "length (concat (map snd ps)) = sum_list (map (\<lambda>(_, d). length d) ps)"
  by (induction ps) auto

section \<open>Pass 1 against the encoder's growing buffer\<close>

text \<open>The padding and payload writes of a column in increasing order.\<close>

definition pad_write :: "nat \<Rightarrow> u8 writes" where
  "pad_write pos = (if 0 < pad8 pos then [(pos, replicate (pad8 pos) 0)] else [])"

lemma pad_write_tiles [simp]: "tiles pos (pad_write pos)"
  "concat (map snd (pad_write pos)) = replicate (pad8 pos) 0"
  by (simp_all add: pad_write_def)

definition pad_writes :: "(nat \<times> nat) list \<Rightarrow> u8 writes" where
  "pad_writes pads = map (\<lambda>(start, n). (start, replicate n 0)) pads"

lemma align_pos_eq: "fst (align_pos (pos, pads)) = pos + pad8 pos"
  "pad_writes (snd (align_pos (pos, pads))) = pad_writes pads @ pad_write pos"
  by (simp_all add: align_pos_def Let_def pad_writes_def pad_write_def)

text \<open>
  \<open>grown pads out pads' ws out'\<close>: from buffer \<open>out\<close> the encoder reaches \<open>out'\<close> by appending the
  bytes that the new pads and the task writes \<open>ws\<close> put at the same positions.
\<close>

definition grown :: "(nat \<times> nat) list \<Rightarrow> bytes \<Rightarrow> (nat \<times> nat) list \<Rightarrow> u8 writes \<Rightarrow> bytes \<Rightarrow> bool" where
  "grown pads out pads' ws out' \<longleftrightarrow>
     (\<exists>tail new. tiles (length out) tail \<and> out' = out @ concat (map snd tail)
        \<and> pad_writes pads' = pad_writes pads @ new \<and> set tail = set new \<union> set ws)"

lemma grown_refl: "grown pads out pads [] out"
  unfolding grown_def by (intro exI [of _ "[]"]) simp

lemma grown_trans:
  assumes "grown pads out pads' ws out'" "grown pads' out' pads'' ws' out''"
  shows "grown pads out pads'' (ws @ ws') out''"
proof -
  from assms obtain t n t' n' where
    a: "tiles (length out) t" "out' = out @ concat (map snd t)"
      "pad_writes pads' = pad_writes pads @ n" "set t = set n \<union> set ws" and
    b: "tiles (length out') t'" "out'' = out' @ concat (map snd t')"
      "pad_writes pads'' = pad_writes pads' @ n'" "set t' = set n' \<union> set ws'"
    unfolding grown_def by blast
  show ?thesis
    unfolding grown_def
  proof (intro exI conjI)
    show "tiles (length out) (t @ t')" using a b by (simp add: tiles_append)
    show "out'' = out @ concat (map snd (t @ t'))" using a b by simp
    show "pad_writes pads'' = pad_writes pads @ (n @ n')" using a b by simp
    show "set (t @ t') = set (n @ n') \<union> set (ws @ ws')" using a b by auto
  qed
qed

lemma grown_align:
  assumes "align_pos (length out, pads) = (pos, pads')"
  shows "grown pads out pads' [] (align8 out)" "pos = length (align8 out)"
proof -
  have eq: "pos = length out + pad8 (length out)"
    "pad_writes pads' = pad_writes pads @ pad_write (length out)"
    using align_pos_eq [of "length out" pads] assms by simp_all
  then show "pos = length (align8 out)" by (simp add: align8_eq)
  show "grown pads out pads' [] (align8 out)"
    unfolding grown_def using eq
    by (intro exI [of _ "pad_write (length out)"]) (simp add: align8_eq)
qed

lemma grown_tile:
  "tiles (length out) ws \<Longrightarrow> grown pads out pads ws (out @ concat (map snd ws))"
  unfolding grown_def by (intro exI [of _ ws] exI [of _ "[]"]) simp

definition layout_dir_entry :: "u32 \<times> u32 \<Rightarrow> col_layout \<Rightarrow> dir_entry" where
  "layout_dir_entry sp l =
     \<lparr>e_name_off = fst sp, e_name_len = snd sp, e_dtype = l_dtype l, e_flags = l_flags l,
      e_validity_off = 0, e_validity_len = 0, e_buf1_off = u32_of (l_buf1_off l),
      e_buf1_len = u32_of (l_buf1_len l), e_buf2_off = u32_of (l_buf2_off l),
      e_buf2_len = u32_of (l_buf2_len l)\<rparr>"

lemma u32_of_0 [simp]: "u32_of 0 = 0"
  by (simp add: u32_of_def)

lemma layout_col_grown:
  assumes ok: "parts_ok nrows p"
    and lay: "layout_col nrows p (length out, pads) = ((pos', pads'), l)"
    and wc: "write_column (parts_column nrows nm p) sp out = (out', e)"
  shows "pos' = length out' \<and> e = layout_dir_entry sp l \<and> grown pads out pads' (task_writes p l) out'"
proof -
  obtain o1 pads1 where al: "align_pos (length out, pads) = (o1, pads1)"
    by (cases "align_pos (length out, pads)")
  note g1 = grown_align [OF al]
  have num: ?thesis
    if p: "p = PInt parts \<or> p = PFloat parts" for parts
  proof -
    have g2: "grown pads1 (align8 out) pads1 (numeric_writes o1 parts)
        (align8 out @ concat (map u64_to_le (concat parts)))"
      using grown_tile [of "align8 out" "numeric_writes o1 parts" pads1] g1(2)
      by (simp add: numeric_writes_tile)
    have l: "l_buf1_off l = o1" "pads' = pads1" "pos' = o1 + nrows * 8"
      using p lay al by auto
    have out': "out' = align8 out @ concat (map u64_to_le (concat parts))"
      using p wc by (auto simp: write_column_def write_validity_def parts_column_def Let_def)
    have "pos' = length out'"
      using l out' g1(2) ok p by (auto simp: le64.length_packed)
    moreover have "e = layout_dir_entry sp l"
      using p wc lay al g1(2) ok
      by (auto simp: write_column_def write_validity_def parts_column_def Let_def layout_dir_entry_def
          ascii_flag_def field_new_def)
    moreover have "grown pads out pads' (task_writes p l) out'"
      using grown_trans [OF g1(1) g2] l out' p by auto
    ultimately show ?thesis by blast
  qed
  show ?thesis
  proof (cases p)
    case (PUtf8 parts ascii)
    let ?ws1 = "(o1, u32_to_le 0) # offset_writes (o1 + 4) 0 parts"
    let ?offs = "0 # shifted_offsets 0 parts"
    let ?b1 = "align8 out @ concat (map u32_to_le ?offs)"
    have t1: "tiles o1 ?ws1" "concat (map snd ?ws1) = concat (map u32_to_le ?offs)"
      using offset_writes_tile by (simp_all add: offset_writes_bytes)
    have n: "length ?offs = nrows + 1"
      using ok PUtf8 by (simp add: length_shifted_offsets)
    have g2: "grown pads1 (align8 out) pads1 ?ws1 ?b1"
      using grown_tile [of "align8 out" ?ws1 pads1] t1 g1(2) by simp
    have len1: "length ?b1 = o1 + (nrows + 1) * 4"
      using g1(2) n le32.length_packed [of ?offs] by simp
    obtain o2 pads2 where al2: "align_pos (o1 + (nrows + 1) * 4, pads1) = (o2, pads2)"
      by (cases "align_pos (o1 + (nrows + 1) * 4, pads1)")
    note g3 = grown_align [OF al2 [folded len1]]
    have g4: "grown pads2 (align8 ?b1) pads2 (data_writes o2 parts) (align8 ?b1 @ concat (map snd parts))"
      using grown_tile [of "align8 ?b1" "data_writes o2 parts" pads2] g3(2)
      by (simp add: data_writes_tile)
    have l: "pads' = pads2" "pos' = o2 + length (concat (map snd parts))"
      "l = \<lparr>l_dtype = 3, l_flags = (if ascii then FLAG_ASCII else 0), l_buf1_off = o1,
        l_buf1_len = (nrows + 1) * 4, l_buf2_off = o2, l_buf2_len = length (concat (map snd parts))\<rparr>"
      using lay al al2 PUtf8 unfolding length_concat_snd by (simp_all add: Let_def)
    have out': "out' = align8 ?b1 @ concat (map snd parts)"
      using PUtf8 wc by (auto simp: write_column_def write_validity_def parts_column_def Let_def)
    have "pos' = length out'"
      using l out' g3(2) by simp
    moreover have "e = layout_dir_entry sp l"
      using PUtf8 wc l(3) g1(2) g3(2) ok n
      by (auto simp: write_column_def write_validity_def parts_column_def Let_def layout_dir_entry_def
          ascii_flag_def field_new_def FLAG_ASCII_def)
    moreover have "grown pads out pads' (task_writes p l) out'"
      using grown_trans [OF grown_trans [OF grown_trans [OF g1(1) g2] g3(1)] g4] l out' PUtf8 by simp
    ultimately show ?thesis by blast
  qed (use num in auto)
qed

lemma layout_cols_grown:
  assumes "list_all (parts_ok nrows) ps" "length nms = length ps" "length spans = length ps"
    and "layout_cols nrows ps (length out, pads) = ((pos', pads'), ls)"
    and "write_columns (zip (map (\<lambda>(n, p). parts_column nrows n p) (zip nms ps)) spans) out = (out', es)"
  shows "pos' = length out' \<and> es = map (\<lambda>(sp, l). layout_dir_entry sp l) (zip spans ls)
    \<and> length ls = length ps \<and> grown pads out pads' (concat (map (\<lambda>(c, l). task_writes c l) (zip ps ls))) out'"
  using assms
proof (induction ps arbitrary: nms spans out pads ls es)
  case Nil
  then show ?case by (simp add: grown_refl)
next
  case (Cons p ps)
  obtain n nms' where n: "nms = n # nms'" using Cons.prems(2) by (cases nms) auto
  obtain sp spans' where sp: "spans = sp # spans'" using Cons.prems(3) by (cases spans) auto
  obtain pos1 pads1 l ls' where lay: "layout_col nrows p (length out, pads) = ((pos1, pads1), l)"
    "layout_cols nrows ps (pos1, pads1) = ((pos', pads'), ls')" "ls = l # ls'"
    using Cons.prems(4) by (auto simp: Let_def split: prod.splits)
  obtain o1 e es' where wc: "write_column (parts_column nrows n p) sp out = (o1, e)"
    "write_columns (zip (map (\<lambda>(n, p). parts_column nrows n p) (zip nms' ps)) spans') o1 = (out', es')"
    "es = e # es'"
    using Cons.prems(5) n sp by (auto simp: Let_def split: prod.splits)
  have one: "pos1 = length o1 \<and> e = layout_dir_entry sp l \<and> grown pads out pads1 (task_writes p l) o1"
    using Cons.prems(1) by (intro layout_col_grown [OF _ lay(1) wc(1)]) simp
  have "pos' = length out' \<and> es' = map (\<lambda>(sp, l). layout_dir_entry sp l) (zip spans' ls')
    \<and> length ls' = length ps \<and> grown pads1 o1 pads' (concat (map (\<lambda>(c, l). task_writes c l) (zip ps ls'))) out'"
    using Cons.prems n sp lay(2) one wc(2) by (intro Cons.IH [of nms' spans' o1 pads1]) simp_all
  with one lay(3) wc(3) sp show ?case by (auto intro: grown_trans)
qed

section \<open>Header, directory and names\<close>

definition full_header_writes :: "nat \<Rightarrow> nat \<Rightarrow> u8 writes" where
  "full_header_writes ncols nrows =
     [(0, MAGIC), (4, u16_to_le VERSION), (6, u16_to_le 0), (8, u32_to_le (u32_of ncols)),
      (12, u32_to_le (u32_of nrows)), (16, u32_to_le (u32_of HEADER_LEN))]"

fun dir_writes :: "nat \<Rightarrow> dir_entry list \<Rightarrow> u8 writes" where
  "dir_writes i [] = []"
| "dir_writes i (e # es) = entry_writes (HEADER_LEN + i * COLDIR_LEN) e @ dir_writes (Suc i) es"

fun layout_dir_writes :: "nat \<Rightarrow> nat \<Rightarrow> string list \<Rightarrow> col_layout list \<Rightarrow> u8 writes" where
  "layout_dir_writes i npos (n # ns) (l # ls) =
     layout_entry_writes (HEADER_LEN + i * COLDIR_LEN) npos (length n) l
       @ layout_dir_writes (Suc i) (npos + length n) ns ls"
| "layout_dir_writes i npos _ _ = []"

fun name_tile :: "nat \<Rightarrow> string list \<Rightarrow> u8 writes" where
  "name_tile npos [] = []"
| "name_tile npos (n # ns) = (npos, as_bytes n) # name_tile (npos + length n) ns"

lemma name_tile_tiles: "tiles npos (name_tile npos ns)"
  "concat (map snd (name_tile npos ns)) = concat (map as_bytes ns)"
  by (induction npos ns rule: name_tile.induct) simp_all

lemma name_writes_set:
  "length ns = length ls \<Longrightarrow>
    set (name_writes i npos ns ls) = set (name_tile npos ns) \<union> set (layout_dir_writes i npos ns ls)"
  by (induction i npos ns ls rule: name_writes.induct) auto

lemma patch_header_writes: "patch_header nc nr out = apply_writes (full_header_writes nc nr) out"
  by (simp add: patch_header_def full_header_writes_def Let_def)

lemma patch_entries_writes: "patch_entries i es out = apply_writes (dir_writes i es) out"
  by (induction i es out rule: patch_entries.induct) (simp_all add: patch_entry_writes apply_writes_append)

lemma increasing_append:
  "increasing lo us \<Longrightarrow> (\<And>p x. (p, x) \<in> set us \<Longrightarrow> p + length x \<le> m) \<Longrightarrow> lo \<le> m \<Longrightarrow> increasing m vs \<Longrightarrow>
    increasing lo (us @ vs)"
proof (induction lo us rule: increasing.induct)
  case (1 lo)
  then show ?case by (cases vs) auto
qed auto

lemma dir_writes_increasing:
  "increasing (HEADER_LEN + i * COLDIR_LEN) (dir_writes i es) \<and>
    (\<forall>(p, x) \<in> set (dir_writes i es). p + length x \<le> HEADER_LEN + (i + length es) * COLDIR_LEN)"
proof (induction i es rule: dir_writes.induct)
  case (1 i)
  then show ?case by simp
next
  case (2 i e es)
  let ?b = "HEADER_LEN + i * COLDIR_LEN"
  have b: "HEADER_LEN + Suc i * COLDIR_LEN = ?b + 40" "increasing ?b (entry_writes ?b e)"
    by (simp_all add: COLDIR_LEN_def entry_writes_def)
  have up: "p + length x \<le> ?b + 40" if "(p, x) \<in> set (entry_writes ?b e)" for p x
    using that by (auto simp: entry_writes_def)
  have "increasing ?b (dir_writes i (e # es))"
    using 2 b up unfolding dir_writes.simps by (intro increasing_append [where m = "?b + 40"]) (auto simp: algebra_simps)
  moreover have "p + length x \<le> HEADER_LEN + (i + length (e # es)) * COLDIR_LEN"
    if "(p, x) \<in> set (dir_writes i (e # es))" for p x
    using that up [of p x] 2 by (force simp: COLDIR_LEN_def)
  ultimately show ?case by blast
qed

text \<open>What the chunked encoder does not write is zero: the validity fields and the reserved field.\<close>

definition zero_writes :: "u8 writes \<Rightarrow> bool" where
  "zero_writes ws \<longleftrightarrow> list_all (\<lambda>(p, x). x = replicate (length x) 0) ws"

lemma le_bytes_0: "u16_to_le 0 = [0, 0]" "u32_to_le 0 = [0, 0, 0, 0]"
  by code_simp+

lemma zero_writes_simps [simp]:
  "zero_writes []" "zero_writes (us @ vs) \<longleftrightarrow> zero_writes us \<and> zero_writes vs"
  "zero_writes [(p, u16_to_le 0)]" "zero_writes [(p, u32_to_le 0), (q, u32_to_le 0)]"
  by (simp_all add: zero_writes_def le_bytes_0)

lemma layout_entry_writes_set:
  "set (entry_writes base (layout_dir_entry (u32_of npos, u32_of nlen) l)) =
    set (layout_entry_writes base npos nlen l) \<union> set [(base + 12, u32_to_le 0), (base + 16, u32_to_le 0)]"
  unfolding entry_writes_def layout_entry_writes_def layout_dir_entry_def dir_entry.select_convs
    fst_conv snd_conv list.set
  by blast

lemma layout_dir_writes_set:
  assumes "write_names ns out = (out', spans)" "length ls = length ns"
  shows "\<exists>zs. set (dir_writes i (map (\<lambda>(sp, l). layout_dir_entry sp l) (zip spans ls))) =
    set (layout_dir_writes i (length out) ns ls) \<union> set zs \<and> zero_writes zs"
  using assms
proof (induction ns arbitrary: out spans ls i)
  case Nil
  then show ?case by (intro exI [of _ "[]"]) simp
next
  case (Cons n ns)
  obtain l ls' where l: "ls = l # ls'" using Cons.prems(2) by (cases ls) auto
  obtain spans' where s: "write_names ns (out @ as_bytes n) = (out', spans')"
    "spans = (u32_of (length out), u32_of (length n)) # spans'"
    using Cons.prems(1) by (auto simp: Let_def split: prod.splits)
  let ?b = "HEADER_LEN + i * COLDIR_LEN"
  let ?z = "[(?b + 12, u32_to_le 0), (?b + 16, u32_to_le 0)]"
  obtain zs where zs: "set (dir_writes (Suc i) (map (\<lambda>(sp, l). layout_dir_entry sp l) (zip spans' ls'))) =
    set (layout_dir_writes (Suc i) (length out + length n) ns ls') \<union> set zs" "zero_writes zs"
    using Cons.IH [OF s(1), of ls' "Suc i"] Cons.prems(2) l by auto
  have "zero_writes (?z @ zs)" using zs(2) unfolding zero_writes_simps(2) by simp
  moreover have "set (dir_writes i (map (\<lambda>(sp, l). layout_dir_entry sp l) (zip spans ls))) =
      set (layout_dir_writes i (length out) (n # ns) ls) \<union> set (?z @ zs)"
    unfolding s(2) l zip_Cons_Cons list.map prod.case dir_writes.simps layout_dir_writes.simps
      set_append layout_entry_writes_set zs(1) by blast
  ultimately show ?case by blast
qed

section \<open>Equality with the serial encoder\<close>

lemma no_empty_offsets:
  assumes "list_all (parts_ok nrows) cols"
  shows "\<not> list_ex (\<lambda>c. case c of PUtf8 ps _ \<Rightarrow> list_ex (\<lambda>(offsets, _). offsets = []) ps | _ \<Rightarrow> False) cols"
  using assms
proof (induction cols)
  case (Cons c cols)
  have "\<not> (list_ex (\<lambda>(offsets, _). offsets = []) ps)" if "c = PUtf8 ps a" for ps a
    using that Cons.prems by (induction ps) (auto simp: list_all_iff list_ex_iff)
  with Cons show ?case by (simp split: col_parts.split)
qed simp

lemma parts_batch_names:
  "length names = length cols \<Longrightarrow> col_names (parts_batch names cols nrows) = names"
  by (rule nth_equalityI) (simp_all add: col_names_def parts_batch_def Let_def parts_column_def field_new_def)

text \<open>The pads and task writes fill the region after the directory, in any order.\<close>

lemma grown_writes:
  assumes "grown [] out pads ws out'"
  obtains tail where "tiles (length out) tail" "out' = out @ concat (map snd tail)"
    "set tail = set (pad_writes pads) \<union> set ws"
  using assms unfolding grown_def by (auto simp: pad_writes_def)

lemma head_and_tail:
  fixes H H' tail ws :: "u8 writes"
  assumes H: "increasing 0 H" "fits n (set H)"
    and zs: "\<exists>zs. set H = set H' \<union> set zs \<and> zero_writes zs"
    and tail: "tiles n tail" "length J = length (concat (map snd tail))"
    and ws: "set ws = set H' \<union> set tail"
  shows "apply_writes ws (replicate n 0 @ J) = apply_writes H (replicate n 0) @ concat (map snd tail)"
proof -
  from zs have sub: "set H' \<subseteq> set H" by blast
  have zero: "x = replicate (length x) 0" if "(p, x) \<in> set H" "(p, x) \<notin> set H'" for p x
    using zs that unfolding zero_writes_def list_all_iff by blast
  have up: "p + length x \<le> n" if "(p, x) \<in> set H" for p x
    using H(2) that by (auto simp: fits_def)
  have "increasing 0 (H @ tail)"
    using H(1) up tail(1) by (intro increasing_append [where m = n]) (auto intro: tiles_increasing)
  then have dis: "disjoint_set (set (H @ tail))" by (rule increasing_disjoint)
  have fit: "fits (length (replicate n 0 @ J)) (set (H @ tail))"
    using tiles_fits [OF tail(1), of "n + length J"] H(2) tail(2) by (auto simp: fits_def)
  have sub': "set ws \<subseteq> set (H @ tail)" using ws sub by auto
  have "apply_writes ws (replicate n 0 @ J) = apply_writes (H' @ tail) (replicate n 0 @ J)"
  proof (rule apply_writes_set)
    show "set ws = set (H' @ tail)" using ws by simp
    show "fits (length (replicate n 0 @ J)) (set ws)" using fit sub' by (auto simp: fits_def)
    show "disjoint_set (set ws)" using dis sub' unfolding disjoint_set_def by blast
  qed
  also have "\<dots> = apply_writes tail (apply_writes H' (replicate n 0) @ J)"
    using H(2) sub by (subst apply_writes_append, subst apply_writes_prefix) (auto simp: fits_def)
  also have "apply_writes H' (replicate n 0) = apply_writes H (replicate n 0)"
    using dis H(2) by (intro apply_writes_drop_zeros [OF sub zero]) (auto simp: disjoint_set_def)
  also have "apply_writes tail (apply_writes H (replicate n 0) @ J)
      = take n (apply_writes H (replicate n 0) @ J) @ concat (map snd tail)"
    using tail H(2) by (intro tiles_apply) simp_all
  finally show ?thesis using H(2) by simp
qed

lemma head_writes:
  assumes "write_names ns out = (out', spans)" "length ls = length ns" "length spans = length ns"
    and es: "es = map (\<lambda>(sp, l). layout_dir_entry sp l) (zip spans ls)"
    and n: "n = HEADER_LEN + length ns * COLDIR_LEN"
  shows "increasing 0 (full_header_writes nc nr @ dir_writes 0 es)"
    and "fits n (set (full_header_writes nc nr @ dir_writes 0 es))"
    and "\<exists>zs. set (full_header_writes nc nr @ dir_writes 0 es) =
      set (header_writes nc nr @ layout_dir_writes 0 (length out) ns ls) \<union> set zs \<and> zero_writes zs"
proof -
  have len: "length es = length ns" using assms(2,3) es by simp
  note dir = dir_writes_increasing [of 0 es]
  have hd: "p + length x \<le> HEADER_LEN" if "(p, x) \<in> set (full_header_writes nc nr)" for p x
    using that by (auto simp: full_header_writes_def MAGIC_def HEADER_LEN_def)
  have up: "p + length x \<le> n" if "(p, x) \<in> set (dir_writes 0 es)" for p x
    using dir that len n by auto
  show "increasing 0 (full_header_writes nc nr @ dir_writes 0 es)"
    using hd dir by (intro increasing_append [where m = HEADER_LEN])
      (auto simp: full_header_writes_def MAGIC_def)
  have "p + length x \<le> n" if "(p, x) \<in> set (full_header_writes nc nr @ dir_writes 0 es)" for p x
    using that hd [of p x] up [of p x] n by auto
  then show "fits n (set (full_header_writes nc nr @ dir_writes 0 es))"
    by (auto simp: fits_def)
  obtain zs where zs: "set (dir_writes 0 es) = set (layout_dir_writes 0 (length out) ns ls) \<union> set zs"
    "zero_writes zs"
    using layout_dir_writes_set [OF assms(1,2), of 0] es by auto
  have "zero_writes ([(6, u16_to_le 0)] @ zs)" using zs(2) unfolding zero_writes_simps(2) by simp
  moreover have "set (full_header_writes nc nr @ dir_writes 0 es) =
      set (header_writes nc nr @ layout_dir_writes 0 (length out) ns ls) \<union> set ([(6, u16_to_le 0)] @ zs)"
    unfolding full_header_writes_def header_writes_def set_append list.set zs(1) by blast
  ultimately show "\<exists>zs. set (full_header_writes nc nr @ dir_writes 0 es) =
      set (header_writes nc nr @ layout_dir_writes 0 (length out) ns ls) \<union> set zs \<and> zero_writes zs"
    by blast
qed

lemma chunked_encode:
  assumes names: "length names = length cols" and ok: "list_all (parts_ok nrows) cols"
    and sched: "\<And>ws. set (sched ws) = set ws"
  shows "encode_parts sched junk names cols nrows = Ok (encode (parts_batch names cols nrows))"
proof -
  let ?b = "parts_batch names cols nrows" and ?n = "HEADER_LEN + length cols * COLDIR_LEN"
  let ?zs = "replicate ?n 0 :: bytes"
  have b: "columns ?b = map (\<lambda>(n, p). parts_column nrows n p) (zip names cols)" "num_rows ?b = nrows"
    by (simp_all add: parts_batch_def Let_def)
  have ncols: "length (columns ?b) = length cols" using names b by simp
  have noff: "CodecProofs.names_off ?b = ?n" using ncols by (simp add: names_off_def)
  obtain o1 spans where n: "write_names (col_names ?b) (replicate (CodecProofs.names_off ?b) 0) = (o1, spans)"
    by fastforce
  obtain o2 es where c: "write_columns (zip (columns ?b) spans) (align8 o1) = (o2, es)" by fastforce
  note st = encode_steps [OF n c]
  have n': "write_names names ?zs = (o1, spans)"
    using n noff parts_batch_names [OF names] by simp
  have o1: "o1 = ?zs @ concat (map as_bytes names)"
    using st(5) noff parts_batch_names [OF names] by simp
  have end_pos: "?n + sum_list (map length names) = length o1"
    using o1 by (simp add: length_concat o_def)
  obtain p0 pads0 where a0: "align_pos (length o1, []) = (p0, pads0)" by fastforce
  obtain p1 pads1 ls where lay: "layout_cols nrows cols (p0, pads0) = ((p1, pads1), ls)"
    by (metis prod.exhaust)
  obtain total pads where a1: "align_pos (p1, pads1) = (total, pads)" by fastforce
  let ?ts = "concat (map (\<lambda>(c, l). task_writes c l) (zip cols ls))"
  note g0 = grown_align [OF a0]
  have cols: "p1 = length o2 \<and> es = map (\<lambda>(sp, l). layout_dir_entry sp l) (zip spans ls)
      \<and> length ls = length cols \<and> grown pads0 (align8 o1) pads1 ?ts o2"
    using ok names st(2) ncols lay g0(2) c b by (intro layout_cols_grown) simp_all
  then have a1': "align_pos (length o2, pads1) = (total, pads)" using a1 by simp
  note g1 = grown_align [OF a1']
  have "grown [] o1 pads ?ts (align8 o2)"
    using grown_trans [OF grown_trans [OF g0(1)] g1(1)] cols by fastforce
  then obtain pt where pt: "tiles (length o1) pt" "align8 o2 = o1 @ concat (map snd pt)"
    "set pt = set (pad_writes pads) \<union> set ?ts"
    by (rule grown_writes)
  let ?tail = "name_tile ?n names @ pt"
  let ?H' = "header_writes (length cols) nrows @ layout_dir_writes 0 (length ?zs) names ls"
  let ?H = "full_header_writes (length cols) nrows @ dir_writes 0 es"
  let ?ws = "header_writes (length cols) nrows @ name_writes 0 ?n names ls @ pad_writes pads @ sched ?ts"
  have tail: "tiles ?n ?tail" "align8 o2 = ?zs @ concat (map snd ?tail)"
    using pt(1,2) o1 by (simp_all add: tiles_append name_tile_tiles)
  have sp: "length spans = length names" using st(2) ncols names by simp
  note hw = head_writes [OF n' _ sp, of ls es ?n "length cols" nrows]
  have total: "total = ?n + length (concat (map snd ?tail))" using g1(2) tail(2) by simp
  have J: "copy_at 0 ?zs (map junk [0..<total]) = ?zs @ map junk [?n..<total]"
    using total by (simp add: copy_at_def drop_map)
  have "apply_writes ?ws (?zs @ map junk [?n..<total]) = apply_writes ?H ?zs @ concat (map snd ?tail)"
  proof (rule head_and_tail)
    show "set ?ws = set ?H' \<union> set ?tail"
      using name_writes_set [of names ls 0 ?n] names cols pt(3) sched by auto
    show "length (map junk [?n..<total]) = length (concat (map snd ?tail))" using total by simp
  qed (use hw cols names tail(1) in auto)
  also have "\<dots> = apply_writes ?H (?zs @ concat (map snd ?tail))"
    using hw(2) cols names by (subst apply_writes_prefix) simp_all
  also have "\<dots> = encode ?b"
    using st(1) tail(2) ncols b by (simp add: patch_entries_writes patch_header_writes apply_writes_append)
  finally have eq: "apply_writes ?ws (?zs @ map junk [?n..<total]) = encode ?b" .
  have "\<not> list_ex (\<lambda>c. case c of PUtf8 ps _ \<Rightarrow> list_ex (\<lambda>(offsets, _). offsets = []) ps | _ \<Rightarrow> False) cols"
    using ok by (intro no_empty_offsets)
  with eq show ?thesis
    using names J a0 lay a1 end_pos
    by (simp add: encode_parts_def Let_def apply_writes_append pad_writes_def)
qed

text \<open>
  C5: The parallel chunked encoder writes exactly the bytes of the serial encoder applied to the
  concatenated columns, whatever the uninitialised buffer held and in whatever order the writes of
  its parallel tasks reach the buffer.
\<close>

theorem encode_parts_encode:
  assumes names: "length names = length cols" and ok: "list_all (parts_ok nrows) cols"
    and sched: "\<And>ws. set (sched ws) = set ws"
  shows "encode_parts sched junk names cols nrows = Ok (encode (parts_batch names cols nrows))"
  by (rule chunked_encode [OF names ok sched])

lemma encode_parts_encode_witness:
  "encode_parts rev (\<lambda>i. 7) [''a'', ''b''] [PInt [[1], [2]], PUtf8 [([0, 1], [65]), ([0, 1], [66])] True] 2 =
    Ok (encode (parts_batch [''a'', ''b'']
      [PInt [[1], [2]], PUtf8 [([0, 1], [65]), ([0, 1], [66])] True] 2))"
proof (rule encode_parts_encode)
  show "list_all (parts_ok 2) [PInt [[1], [2]], PUtf8 [([0, 1], [65]), ([0, 1], [66])] True]"
    by code_simp
qed simp_all

end
