(* ===== verification/Adaptive.thy ===== *)
theory Adaptive
  imports Codec
begin

text \<open>
  The adaptive column of \<open>client.rs\<close> (lines 1434-1689): a column that starts as integers and promotes to
  floats and to text while rows stream in, with its null list and flags. The cells are what SQLite
  reports for a row: its storage class and the raw value.
\<close>

section \<open>Cells and columns\<close>

datatype sq_cell = CellNull | CellInt i64 | CellFloat f64 | CellText bytes | CellBlob bytes

datatype adaptive_data = AInt "i64 list" | AFloat "f64 list" | AStr "u32 list" bytes

record adaptive_col =
  a_data :: adaptive_data
  a_len :: nat
  nulls :: "u32 list"
  promoted :: bool
  saw_blob :: bool
  text_valid :: bool
  a_ascii :: bool

definition acol_new :: adaptive_col where
  "acol_new =
     \<lparr>a_data = AInt [], a_len = 0, nulls = [], promoted = False, saw_blob = False,
      text_valid = True, a_ascii = False\<rparr>"

definition validate_text :: "adaptive_col \<Rightarrow> adaptive_col" where
  "validate_text c =
     (case a_data c of
        AStr _ data \<Rightarrow>
          if bytes_is_ascii data then c\<lparr>a_ascii := True, text_valid := True\<rparr>
          else c\<lparr>text_valid := valid_utf8 data\<rparr>
      | _ \<Rightarrow> c)"

section \<open>Promotion\<close>

text \<open>
  The loop of \<open>stringify\<close>: the index of the next value, the nulls not yet reached, and the two
  buffers built so far.
\<close>

fun stringify_loop :: "nat \<Rightarrow> u32 list \<Rightarrow> u32 list \<Rightarrow> bytes \<Rightarrow> string list \<Rightarrow> u32 list \<times> bytes" where
  "stringify_loop i ns offs data [] = (offs, data)"
| "stringify_loop i ns offs data (s # ss) =
     (case ns of
        n # ns' \<Rightarrow>
          if n = word_of_nat i
          then stringify_loop (i + 1) ns' (offs @ [word_of_nat (length data)]) data ss
          else (let data = data @ as_bytes s
                in stringify_loop (i + 1) ns (offs @ [word_of_nat (length data)]) data ss)
      | [] \<Rightarrow>
          (let data = data @ as_bytes s
           in stringify_loop (i + 1) ns (offs @ [word_of_nat (length data)]) data ss))"

definition stringify :: "string list \<Rightarrow> u32 list \<Rightarrow> u32 list \<times> bytes" where
  "stringify vs ns = stringify_loop 0 ns [0] [] vs"

definition has_value :: "adaptive_col \<Rightarrow> bool" where
  "has_value c \<longleftrightarrow> length (nulls c) < a_len c"

definition promote_to_float :: "adaptive_col \<Rightarrow> adaptive_col" where
  "promote_to_float c =
     (case a_data c of
        AInt v \<Rightarrow> c\<lparr>promoted := promoted c \<or> has_value c, a_data := AFloat (map i64_as_f64 v)\<rparr>
      | _ \<Rightarrow> c)"

definition promote_to_str :: "adaptive_col \<Rightarrow> adaptive_col" where
  "promote_to_str c =
     (case a_data c of
        AStr _ _ \<Rightarrow> c
      | AInt v \<Rightarrow>
          (let (offs, data) = stringify (map i64_to_string v) (nulls c)
           in c\<lparr>promoted := promoted c \<or> has_value c, a_data := AStr offs data\<rparr>)
      | AFloat v \<Rightarrow>
          (let (offs, data) = stringify (map f64_to_string v) (nulls c)
           in c\<lparr>promoted := promoted c \<or> has_value c, a_data := AStr offs data\<rparr>))"

section \<open>Pushing a cell\<close>

definition push_slot :: "u32 list \<Rightarrow> bytes \<Rightarrow> bytes \<Rightarrow> adaptive_data" where
  "push_slot offs data x = (let data = data @ x in AStr (offs @ [word_of_nat (length data)]) data)"

definition a_push_null :: "adaptive_col \<Rightarrow> adaptive_col" where
  "a_push_null c =
     c\<lparr>a_data := (case a_data c of
          AInt v \<Rightarrow> AInt (v @ [0])
        | AFloat v \<Rightarrow> AFloat (v @ [0])
        | AStr offs data \<Rightarrow> AStr (offs @ [word_of_nat (length data)]) data),
       nulls := nulls c @ [word_of_nat (a_len c)], a_len := a_len c + 1\<rparr>"

definition a_push_int :: "i64 \<Rightarrow> adaptive_col \<Rightarrow> adaptive_col" where
  "a_push_int i c =
     (let c = (case a_data c of
          AInt v \<Rightarrow> c\<lparr>a_data := AInt (v @ [i])\<rparr>
        | AFloat v \<Rightarrow> c\<lparr>promoted := True, a_data := AFloat (v @ [i64_as_f64 i])\<rparr>
        | AStr offs data \<Rightarrow>
            c\<lparr>promoted := True, a_data := push_slot offs data (as_bytes (i64_to_string i))\<rparr>)
      in c\<lparr>a_len := a_len c + 1\<rparr>)"

definition a_push_real :: "f64 \<Rightarrow> adaptive_col \<Rightarrow> adaptive_col" where
  "a_push_real f c =
     (let c = promote_to_float c;
          c = (case a_data c of
          AFloat v \<Rightarrow> c\<lparr>a_data := AFloat (v @ [f])\<rparr>
        | AStr offs data \<Rightarrow>
            c\<lparr>promoted := True, a_data := push_slot offs data (as_bytes (f64_to_string f))\<rparr>
        | AInt _ \<Rightarrow> c)
      in c\<lparr>a_len := a_len c + 1\<rparr>)"

definition a_push_text :: "bytes \<Rightarrow> adaptive_col \<Rightarrow> adaptive_col" where
  "a_push_text t c =
     (let c = promote_to_str c;
          c = (case a_data c of AStr offs data \<Rightarrow> c\<lparr>a_data := push_slot offs data t\<rparr> | _ \<Rightarrow> c)
      in c\<lparr>a_len := a_len c + 1\<rparr>)"

definition a_push_blob :: "bytes \<Rightarrow> adaptive_col \<Rightarrow> adaptive_col" where
  "a_push_blob b c =
     (let c = promote_to_str (c\<lparr>saw_blob := True\<rparr>);
          c = (case a_data c of
                 AStr offs data \<Rightarrow>
                   c\<lparr>a_data := push_slot offs data (if valid_utf8 b then b else utf8_lossy b)\<rparr>
               | _ \<Rightarrow> c)
      in c\<lparr>a_len := a_len c + 1\<rparr>)"

fun push_cell :: "sq_cell \<Rightarrow> adaptive_col \<Rightarrow> adaptive_col" where
  "push_cell CellNull c = a_push_null c"
| "push_cell (CellInt i) c = a_push_int i c"
| "push_cell (CellFloat f) c = a_push_real f c"
| "push_cell (CellText t) c = a_push_text t c"
| "push_cell (CellBlob b) c = a_push_blob b c"

section \<open>Reordering and finishing\<close>

fun gather_segs :: "u32 list \<Rightarrow> bytes \<Rightarrow> u32 list \<Rightarrow> u32 list \<Rightarrow> bytes \<Rightarrow> u32 list \<times> bytes" where
  "gather_segs offs data [] new_offs new_data = (new_offs, new_data)"
| "gather_segs offs data (i # idx) new_offs new_data =
     (let new_data = new_data @ seg_at offs data (unat i)
      in gather_segs offs data idx (new_offs @ [word_of_nat (length new_data)]) new_data)"

definition permute :: "u32 list \<Rightarrow> adaptive_col \<Rightarrow> adaptive_col" where
  "permute idx c =
     (let c' = c\<lparr>a_data := (case a_data c of
              AInt v \<Rightarrow> AInt (map (\<lambda>i. v ! unat i) idx)
            | AFloat v \<Rightarrow> AFloat (map (\<lambda>i. v ! unat i) idx)
            | AStr offs data \<Rightarrow> (case gather_segs offs data idx [0] [] of (no, nd) \<Rightarrow> AStr no nd))\<rparr>
      in if nulls c = [] then c'
         else (let is_null = fold (\<lambda>i m. m[unat i := True]) (nulls c) (replicate (a_len c) False)
               in c'\<lparr>nulls := map (\<lambda>r. word_of_nat r)
                    (filter (\<lambda>r. is_null ! unat (idx ! r)) [0..<length idx])\<rparr>))"

definition null_bits :: "nat \<Rightarrow> u32 list \<Rightarrow> bytes" where
  "null_bits n ns =
     (let bits = replicate (bits_len n) 255;
          bits = (if n mod 8 \<noteq> 0 then bits[length bits - 1 := push_bit (n mod 8) 1 - 1] else bits)
      in fold (\<lambda>i. clear_bit (unat i)) ns bits)"

fun repair_loop :: "u32 list \<Rightarrow> bytes \<Rightarrow> u32 list \<Rightarrow> bytes \<Rightarrow> u32 list \<times> bytes" where
  "repair_loop (s # e # rest) data new_offs new_data =
     (let x = slice_at (unat s) (unat e - unat s) data;
          new_data = new_data @ (if valid_utf8 x then x else utf8_lossy x)
      in repair_loop (e # rest) data (new_offs @ [word_of_nat (length new_data)]) new_data)"
| "repair_loop _ data new_offs new_data = (new_offs, new_data)"

definition repair_utf8 :: "u32 list \<Rightarrow> bytes \<Rightarrow> u32 list \<times> bytes" where
  "repair_utf8 offs data = repair_loop offs data [0] []"

definition a_finish :: "string \<Rightarrow> adaptive_col \<Rightarrow> column" where
  "a_finish nm c =
     (let isnullable = nulls c \<noteq> [];
          (dt, d) = (case a_data c of
              AInt v \<Rightarrow> (Int64, DInt64 v)
            | AFloat v \<Rightarrow> (Float64, DFloat64 v)
            | AStr offs data \<Rightarrow>
                (case if text_valid c then (offs, data) else repair_utf8 offs data of
                   (o2, d2) \<Rightarrow> (Utf8, DUtf8 o2 d2)))
      in \<lparr>col_field = field_new nm dt isnullable, col_len = a_len c,
          validity = (if isnullable then Some (null_bits (a_len c) (nulls c)) else None), col_data = d\<rparr>)"

definition finish_batch :: "adaptive_col list \<Rightarrow> string list \<Rightarrow> record_batch result" where
  "finish_batch bs names = try_new (map (\<lambda>(b, nm). a_finish nm b) (zip bs names))"

section \<open>Merging the columns of several ranges\<close>

fun data_class :: "adaptive_data \<Rightarrow> nat" where
  "data_class (AInt _) = 0"
| "data_class (AFloat _) = 1"
| "data_class (AStr _ _) = 2"

definition promote_class :: "nat \<Rightarrow> adaptive_col \<Rightarrow> adaptive_col" where
  "promote_class target p =
     (if target = 2 then promote_to_str p else if target = 1 then promote_to_float p else p)"

text \<open>One round of the concatenation loop; columns of different classes are \<open>unreachable!\<close>.\<close>

definition append_col :: "adaptive_col \<Rightarrow> adaptive_col \<Rightarrow> adaptive_col result" where
  "append_col p acc =
     (let grow = (\<lambda>d. Ok (acc\<lparr>a_data := d,
            nulls := nulls acc @ map (\<lambda>i. i + word_of_nat (a_len acc)) (nulls p),
            a_len := a_len acc + a_len p\<rparr>))
      in case (a_data acc, a_data p) of
           (AInt a, AInt b) \<Rightarrow> grow (AInt (a @ b))
         | (AFloat a, AFloat b) \<Rightarrow> grow (AFloat (a @ b))
         | (AStr ao ad, AStr bo bd) \<Rightarrow>
             grow (AStr (ao @ map (\<lambda>k. k + word_of_nat (length ad)) (tl bo)) (ad @ bd))
         | _ \<Rightarrow> Panicked)"

definition merge_target :: "adaptive_col list \<Rightarrow> nat" where
  "merge_target parts = fold max (map (\<lambda>p. data_class (a_data p)) (filter has_value parts)) 0"

definition merge_promoted :: "adaptive_col list \<Rightarrow> bool" where
  "merge_promoted parts \<longleftrightarrow>
     list_ex promoted parts
     \<or> list_ex (\<lambda>p. data_class (a_data p) \<noteq> merge_target parts) (filter has_value parts)"

definition merge_col :: "adaptive_col list \<Rightarrow> adaptive_col result" where
  "merge_col parts =
     (case map (promote_class (merge_target parts)) parts of
        [] \<Rightarrow> Panicked
      | p # ps \<Rightarrow>
          bind_r (fold_r append_col ps p) (\<lambda>acc.
            Ok (acc\<lparr>promoted := merge_promoted parts, saw_blob := list_ex saw_blob parts,
                    text_valid := list_all text_valid parts\<rparr>)))"

text \<open>
  The columns of one range go to the column lists in order; a range with more columns than the
  first one would index past the end.
\<close>

definition merge_chunks :: "adaptive_col list list \<Rightarrow> adaptive_col list result" where
  "merge_chunks chs =
     (let ncols = (case chs of [] \<Rightarrow> 0 | ch # _ \<Rightarrow> length ch)
      in if list_all (\<lambda>ch. length ch \<le> ncols) chs
         then map_r (\<lambda>c. merge_col (map (\<lambda>ch. ch ! c) (filter (\<lambda>ch. c < length ch) chs))) [0..<ncols]
         else Panicked)"

end
