(* ===== verification/AdaptiveProofs.thy ===== *)
theory AdaptiveProofs
  imports Adaptive Utf8
begin

text \<open>
  What an adaptive column stands for: a class (0 integers, 1 floats, 2 text) and a list of slots.
  Every operation of the column is shown to be the corresponding operation on slots, which gives the
  meaning of a scanned column, of a permuted one and of a merge of several.
\<close>

section \<open>Slots\<close>

datatype slot = SlInt i64 | SlFloat f64 | SlText bytes

fun slot_class :: "slot \<Rightarrow> nat" where
  "slot_class (SlInt _) = 0"
| "slot_class (SlFloat _) = 1"
| "slot_class (SlText _) = 2"

fun sl_float :: "slot \<Rightarrow> slot" where
  "sl_float (SlInt i) = SlFloat (i64_as_f64 i)"
| "sl_float s = s"

fun sl_text :: "slot \<Rightarrow> slot" where
  "sl_text (SlInt i) = SlText (as_bytes (i64_to_string i))"
| "sl_text (SlFloat f) = SlText (as_bytes (f64_to_string f))"
| "sl_text s = s"

definition conv :: "nat \<Rightarrow> slot \<Rightarrow> slot" where
  "conv k s = (if k = 2 then sl_text s else if k = 1 then sl_float s else s)"

fun int_of :: "slot option \<Rightarrow> i64" where
  "int_of (Some (SlInt i)) = i"
| "int_of _ = 0"

fun float_of :: "slot option \<Rightarrow> f64" where
  "float_of (Some (SlFloat f)) = f"
| "float_of _ = 0"

fun text_of :: "slot option \<Rightarrow> bytes" where
  "text_of (Some (SlText t)) = t"
| "text_of _ = []"

definition of_class :: "nat \<Rightarrow> slot option list \<Rightarrow> bool" where
  "of_class k vs \<longleftrightarrow> (\<forall>s. Some s \<in> set vs \<longrightarrow> slot_class s = k)"

definition null_index :: "slot option list \<Rightarrow> nat list" where
  "null_index vs = filter (\<lambda>i. vs ! i = None) [0..<length vs]"

fun data_rep :: "adaptive_data \<Rightarrow> nat \<Rightarrow> slot option list \<Rightarrow> bool" where
  "data_rep (AInt v) k vs \<longleftrightarrow> k = 0 \<and> v = map int_of vs"
| "data_rep (AFloat v) k vs \<longleftrightarrow> k = 1 \<and> v = map float_of vs"
| "data_rep (AStr offs data) k vs \<longleftrightarrow> k = 2 \<and> repr_segs offs data (map text_of vs)"

definition acol_rep :: "adaptive_col \<Rightarrow> nat \<Rightarrow> slot option list \<Rightarrow> bool" where
  "acol_rep c k vs \<longleftrightarrow>
     data_rep (a_data c) k vs \<and> of_class k vs
     \<and> a_len c = length vs \<and> nulls c = map word_of_nat (null_index vs)"

named_theorems acol_simps "the parts of a represented column"

lemma of_class_simps [acol_simps]:
  "of_class k []" "of_class k (vs @ ws) \<longleftrightarrow> of_class k vs \<and> of_class k ws"
  "of_class k (None # vs) \<longleftrightarrow> of_class k vs"
  "of_class k (Some s # vs) \<longleftrightarrow> slot_class s = k \<and> of_class k vs"
  by (auto simp: of_class_def)

lemma slot_class_conv [simp]:
  "slot_class (sl_text s) = 2" "slot_class (sl_float s) = max 1 (slot_class s)"
  by (cases s; simp)+

lemma of_class_map:
  "(\<And>s. Some s \<in> set vs \<Longrightarrow> slot_class (f s) = k) \<Longrightarrow> of_class k (map (map_option f) vs)"
  by (auto simp: of_class_def eq_commute [of "Some _"])

lemma of_classD: "of_class k vs \<Longrightarrow> Some s \<in> set vs \<Longrightarrow> slot_class s = k"
  by (simp add: of_class_def)

lemma null_index_Nil [simp]: "null_index [] = []"
  by (simp add: null_index_def)

lemma null_index_append:
  "null_index (vs @ ws) = null_index vs @ map (\<lambda>i. i + length vs) (null_index ws)"
proof -
  have "[0..<length (vs @ ws)] = [0..<length vs] @ map (\<lambda>i. i + length vs) [0..<length ws]"
    by (simp add: upt_add_eq_append [of 0] map_add_upt add.commute)
  then have "null_index (vs @ ws) = filter (\<lambda>i. (vs @ ws) ! i = None) [0..<length vs]
      @ map (\<lambda>i. i + length vs) (filter (\<lambda>i. (vs @ ws) ! (i + length vs) = None) [0..<length ws])"
    unfolding null_index_def by (simp only: filter_append filter_map o_def)
  also have "filter (\<lambda>i. (vs @ ws) ! i = None) [0..<length vs] = null_index vs"
    unfolding null_index_def by (rule filter_cong) (simp_all add: nth_append)
  also have "filter (\<lambda>i. (vs @ ws) ! (i + length vs) = None) [0..<length ws] = null_index ws"
    unfolding null_index_def by (rule filter_cong) (simp_all add: nth_append)
  finally show ?thesis .
qed

lemma null_index_snoc: "null_index (vs @ [x]) = null_index vs @ (if x = None then [length vs] else [])"
  unfolding null_index_append by (simp add: null_index_def)

lemma null_index_map [simp]: "null_index (map (map_option f) vs) = null_index vs"
  unfolding null_index_def length_map by (rule filter_cong) simp_all

lemma length_null_index: "length (null_index vs) < length vs \<longleftrightarrow> (\<exists>s. Some s \<in> set vs)"
proof -
  have "length (null_index vs) = length (filter (\<lambda>x. x = None) vs)"
    by (induction vs rule: rev_induct) (simp_all add: null_index_snoc)
  also have "\<dots> < length vs \<longleftrightarrow> (\<exists>x \<in> set vs. x \<noteq> None)"
  proof
    assume less: "length (filter (\<lambda>x. x = None) vs) < length vs"
    show "\<exists>x \<in> set vs. x \<noteq> None"
    proof (rule ccontr)
      assume "\<not> ?thesis"
      then have "filter (\<lambda>x. x = None) vs = vs" by (simp add: filter_id_conv)
      with less show False by simp
    qed
  next
    assume "\<exists>x \<in> set vs. x \<noteq> None"
    then show "length (filter (\<lambda>x. x = None) vs) < length vs" using length_filter_less [of _ vs "\<lambda>x. x = None"] by blast
  qed
  finally show ?thesis by auto
qed

lemma has_value_rep: "acol_rep c k vs \<Longrightarrow> has_value c \<longleftrightarrow> (\<exists>s. Some s \<in> set vs)"
  by (simp add: acol_rep_def has_value_def length_null_index)

lemma data_class_rep: "acol_rep c k vs \<Longrightarrow> data_class (a_data c) = k"
  by (cases "a_data c") (auto simp: acol_rep_def)

lemma acol_rep_new [simp]: "acol_rep acol_new 0 []"
  by (simp add: acol_rep_def acol_new_def acol_simps)

section \<open>Promotion\<close>

text \<open>The null list, read with an index, gives empty text exactly at the null slots.\<close>

lemma stringify_loop_rep:
  assumes "length vs < 2 ^ 32" "i \<le> length vs" "repr_segs offs data (map g (take i vs))"
    and "\<And>v. v \<in> set vs \<Longrightarrow> g v = (if v = None then [] else as_bytes (f v))"
    and "stringify_loop i (map word_of_nat (filter (\<lambda>j. vs ! j = None) [i..<length vs]))
          offs data (map f (drop i vs)) = (offs', data')"
  shows "repr_segs offs' data' (map g vs)"
  using assms(2,3,5)
proof (induction "length vs - i" arbitrary: i offs data)
  case 0
  then show ?case by simp
next
  case (Suc n)
  then have i: "i < length vs" by simp
  let ?v = "vs ! i" and ?ns = "\<lambda>i. filter (\<lambda>j. vs ! j = None) [i..<length vs]"
  have dr: "drop i vs = ?v # drop (Suc i) vs" using i by (simp add: Cons_nth_drop_Suc)
  have tk: "map g (take (Suc i) vs) = map g (take i vs) @ [g ?v]"
    using i by (simp add: take_Suc_conv_app_nth)
  have gv: "g ?v = (if ?v = None then [] else as_bytes (f ?v))" using assms(4) i by simp
  have up: "[i..<length vs] = i # [Suc i..<length vs]" using i by (simp add: upt_conv_Cons)
  show ?case
  proof (cases "?v = None")
    case True
    then have "repr_segs (offs @ [word_of_nat (length data)]) data (map g (take (Suc i) vs))"
      using Suc.prems(2) gv unfolding tk by (simp add: repr_segs_push_empty)
    moreover have "stringify_loop (Suc i) (map word_of_nat (?ns (Suc i)))
        (offs @ [word_of_nat (length data)]) data (map f (drop (Suc i) vs)) = (offs', data')"
      using Suc.prems(3) True unfolding dr up by simp
    ultimately show ?thesis using Suc.hyps i by (intro Suc.hyps(1) [of "Suc i"]) simp_all
  next
    case False
    let ?d = "data @ as_bytes (f ?v)"
    have "repr_segs (offs @ [word_of_nat (length ?d)]) ?d (map g (take (Suc i) vs))"
      using repr_segs_push [OF Suc.prems(2), of "as_bytes (f ?v)"] gv False unfolding tk by simp
    moreover have "stringify_loop (Suc i) (map word_of_nat (?ns (Suc i)))
        (offs @ [word_of_nat (length ?d)]) ?d (map f (drop (Suc i) vs)) = (offs', data')"
    proof (cases "?ns (Suc i)")
      case Nil
      then show ?thesis using Suc.prems(3) False unfolding dr up by (simp add: Let_def)
    next
      case (Cons m ms)
      then have "m \<in> set (?ns (Suc i))" by simp
      then have "Suc i \<le> m" "m < length vs" by auto
      with assms(1) i have "(word_of_nat m :: u32) \<noteq> word_of_nat i"
        by (simp add: word_of_nat_eq_iff take_bit_eq_mod)
      with Cons Suc.prems(3) False show ?thesis unfolding dr up by (simp add: Let_def)
    qed
    ultimately show ?thesis using Suc.hyps i by (intro Suc.hyps(1) [of "Suc i"]) simp_all
  qed
qed

lemma stringify_rep:
  assumes "length vs < 2 ^ 32" "ns = map word_of_nat (null_index vs)"
    and "\<And>v. v \<in> set vs \<Longrightarrow> g v = (if v = None then [] else as_bytes (f v))"
  shows "repr_segs (fst (stringify (map f vs) ns)) (snd (stringify (map f vs) ns)) (map g vs)"
  using stringify_loop_rep [of vs 0 "[0]" "[]" g f] assms
  by (cases "stringify (map f vs) ns") (simp add: stringify_def null_index_def)

lemma i64_as_f64_0 [simp]: "i64_as_f64 0 = 0"
  by (simp add: i64_as_f64_def Let_def)

lemma promote_to_float_rep:
  assumes "acol_rep c k vs"
  shows "acol_rep (promote_to_float c) (max k 1) (if k = 0 then map (map_option sl_float) vs else vs)"
    and "promoted (promote_to_float c) \<longleftrightarrow> promoted c \<or> k = 0 \<and> (\<exists>s. Some s \<in> set vs)"
    and "saw_blob (promote_to_float c) = saw_blob c" "text_valid (promote_to_float c) = text_valid c"
proof -
  have conv: "i64_as_f64 (int_of v) = float_of (map_option sl_float v)"
    if "v \<in> set vs" "of_class 0 vs" for v
    using that by (cases v rule: int_of.cases) (auto simp: of_class_def i64_as_f64_0)
  show "acol_rep (promote_to_float c) (max k 1) (if k = 0 then map (map_option sl_float) vs else vs)"
  proof (cases "a_data c")
    case (AInt v)
    then have k: "k = 0" "of_class 0 vs" "v = map int_of vs" using assms by (auto simp: acol_rep_def)
    have "of_class 1 (map (map_option sl_float) vs)"
      using of_classD [OF k(2)] by (intro of_class_map) simp
    with k AInt assms conv show ?thesis
      by (auto simp: promote_to_float_def acol_rep_def)
  next
    case (AFloat v)
    with data_class_rep [OF assms] have "k = 1" by simp
    with AFloat assms show ?thesis by (simp add: promote_to_float_def)
  next
    case (AStr offs data)
    with data_class_rep [OF assms] have "max k 1 = k" "k \<noteq> 0" by simp_all
    with AStr assms show ?thesis by (simp only: promote_to_float_def adaptive_data.case if_False)
  qed
  show "promoted (promote_to_float c) \<longleftrightarrow> promoted c \<or> k = 0 \<and> (\<exists>s. Some s \<in> set vs)"
    using assms has_value_rep [OF assms] by (cases "a_data c") (auto simp: promote_to_float_def acol_rep_def)
  show "saw_blob (promote_to_float c) = saw_blob c" "text_valid (promote_to_float c) = text_valid c"
    by (simp_all add: promote_to_float_def split: adaptive_data.splits)
qed

lemma promote_to_str_rep:
  assumes "acol_rep c k vs" "length vs < 2 ^ 32"
  shows "acol_rep (promote_to_str c) 2 (map (map_option sl_text) vs)"
    and "promoted (promote_to_str c) \<longleftrightarrow> promoted c \<or> k \<noteq> 2 \<and> (\<exists>s. Some s \<in> set vs)"
    and "saw_blob (promote_to_str c) = saw_blob c" "text_valid (promote_to_str c) = text_valid c"
proof -
  let ?g = "text_of \<circ> map_option sl_text"
  have cls: "of_class 2 (map (map_option sl_text) vs)"
    by (rule of_class_map) simp
  have g: "?g v = (if v = None then [] else as_bytes (f v))"
    if "\<And>s. v = Some s \<Longrightarrow> sl_text s = SlText (as_bytes (f v))" for v f
    using that by (cases v) simp_all
  have str: "repr_segs offs data (map ?g vs)"
    if "stringify (map f vs) (nulls c) = (offs, data)"
      "\<And>s. Some s \<in> set vs \<Longrightarrow> sl_text s = SlText (as_bytes (f (Some s)))" for f offs data
    using stringify_rep [of vs "nulls c" ?g f] that assms g by (fastforce simp: acol_rep_def)
  show "acol_rep (promote_to_str c) 2 (map (map_option sl_text) vs)"
  proof (cases "a_data c")
    case (AInt v)
    then have k: "of_class 0 vs" "v = map int_of vs" using assms(1) by (auto simp: acol_rep_def)
    obtain offs data where st: "stringify (map (i64_to_string \<circ> int_of) vs) (nulls c) = (offs, data)"
      by (cases "stringify (map (i64_to_string \<circ> int_of) vs) (nulls c)")
    have "repr_segs offs data (map ?g vs)"
      using k(1) by (intro str [OF st]) (auto simp: of_class_def elim!: slot_class.elims)
    with AInt k st cls assms(1) show ?thesis
      by (simp add: promote_to_str_def acol_rep_def)
  next
    case (AFloat v)
    then have k: "of_class 1 vs" "v = map float_of vs" using assms(1) by (auto simp: acol_rep_def)
    obtain offs data where st: "stringify (map (f64_to_string \<circ> float_of) vs) (nulls c) = (offs, data)"
      by (cases "stringify (map (f64_to_string \<circ> float_of) vs) (nulls c)")
    have "sl_text s = SlText (as_bytes ((f64_to_string \<circ> float_of) (Some s)))" if "Some s \<in> set vs" for s
      using k(1) that by (cases s) (auto simp: of_class_def)
    then have "repr_segs offs data (map ?g vs)"
      by (intro str [OF st])
    with AFloat k st cls assms(1) show ?thesis
      by (simp add: promote_to_str_def acol_rep_def)
  next
    case (AStr offs data)
    then have k: "of_class 2 vs" "k = 2" using assms(1) by (auto simp: acol_rep_def)
    have "map_option sl_text v = v" if "v \<in> set vs" for v
    proof (cases v)
      case (Some s)
      with k(1) that show ?thesis by (cases s) (auto simp: of_class_def)
    qed simp
    then have "map (map_option sl_text) vs = vs" by (simp add: map_idI)
    with AStr k assms(1) show ?thesis by (simp add: promote_to_str_def)
  qed
  show "promoted (promote_to_str c) \<longleftrightarrow> promoted c \<or> k \<noteq> 2 \<and> (\<exists>s. Some s \<in> set vs)"
    using assms(1) has_value_rep [OF assms(1)]
    by (cases "a_data c") (auto simp: promote_to_str_def acol_rep_def case_prod_beta)
  show "saw_blob (promote_to_str c) = saw_blob c" "text_valid (promote_to_str c) = text_valid c"
    by (simp_all add: promote_to_str_def case_prod_beta split: adaptive_data.splits)
qed

section \<open>Pushing cells\<close>

text \<open>The column a push leads to, on slots.\<close>

definition blob_text :: "bytes \<Rightarrow> bytes" where
  "blob_text b = (if valid_utf8 b then b else utf8_lossy b)"

fun abs_push :: "sq_cell \<Rightarrow> nat \<times> slot option list \<Rightarrow> nat \<times> slot option list" where
  "abs_push CellNull (k, vs) = (k, vs @ [None])"
| "abs_push (CellInt i) (k, vs) = (k, vs @ [Some (conv k (SlInt i))])"
| "abs_push (CellFloat f) (k, vs) =
     (max k 1, (if k = 0 then map (map_option sl_float) vs else vs) @ [Some (conv k (SlFloat f))])"
| "abs_push (CellText t) (k, vs) = (2, map (map_option sl_text) vs @ [Some (SlText t)])"
| "abs_push (CellBlob b) (k, vs) = (2, map (map_option sl_text) vs @ [Some (SlText (blob_text b))])"

lemma push_slot_rep:
  "repr_segs offs data (map text_of vs) \<Longrightarrow> data_rep (push_slot offs data x) 2 (vs @ [Some (SlText x)])"
  by (simp add: push_slot_def repr_segs_push [simplified])

lemma acol_rep_push_null:
  "acol_rep c k vs \<Longrightarrow> acol_rep (a_push_null c) k (vs @ [None])"
  by (cases "a_data c")
    (auto simp: acol_rep_def a_push_null_def acol_simps null_index_snoc repr_segs_push_empty)

text \<open>Putting one more value at the end of a column whose class it has.\<close>

lemma acol_rep_snoc:
  assumes "acol_rep c k vs" "slot_class s = k" "data_rep d k (vs @ [Some s])"
    and "c' = c\<lparr>a_data := d, a_len := a_len c + 1, promoted := p, saw_blob := b\<rparr>"
  shows "acol_rep c' k (vs @ [Some s])"
  using assms by (simp add: acol_rep_def acol_simps null_index_snoc)

lemma acol_rep_blob [simp]: "acol_rep (c\<lparr>saw_blob := b\<rparr>) k vs = acol_rep c k vs"
  by (simp add: acol_rep_def)

lemma conv_simps [simp]:
  "conv 0 s = s" "conv (Suc 0) s = sl_float s" "conv 2 s = sl_text s"
  by (simp_all add: conv_def)

lemma data_rep_class: "data_rep d k vs \<Longrightarrow> k = data_class d"
  by (cases d) auto

lemma push_int_rep:
  assumes "acol_rep c k vs"
  shows "acol_rep (a_push_int i c) k (vs @ [Some (conv k (SlInt i))])"
proof (cases "a_data c")
  case (AInt v)
  with assms show ?thesis
    by (auto simp: a_push_int_def Let_def acol_rep_def acol_simps null_index_snoc)
next
  case (AFloat v)
  with assms show ?thesis
    by (auto simp: a_push_int_def Let_def acol_rep_def acol_simps null_index_snoc)
next
  case (AStr offs data)
  with assms push_slot_rep [of offs data vs "as_bytes (i64_to_string i)"] show ?thesis
    by (auto simp: a_push_int_def Let_def acol_rep_def acol_simps null_index_snoc)
qed

lemma push_real_rep:
  assumes "acol_rep c k vs"
  shows "acol_rep (a_push_real f c) (max k 1)
    ((if k = 0 then map (map_option sl_float) vs else vs) @ [Some (conv k (SlFloat f))])"
proof -
  let ?c = "promote_to_float c" and ?vs = "if k = 0 then map (map_option sl_float) vs else vs"
  have r: "acol_rep ?c (max k 1) ?vs" by (rule promote_to_float_rep(1) [OF assms])
  show ?thesis
  proof (cases "a_data ?c")
    case (AInt v)
    with data_class_rep [OF r] show ?thesis by simp
  next
    case (AFloat v)
    with data_class_rep [OF r] have k: "max k 1 = Suc 0" "k = 0 \<or> k = Suc 0" by auto
    with AFloat r show ?thesis
      by (auto simp: a_push_real_def Let_def acol_rep_def acol_simps null_index_snoc)
  next
    case (AStr offs data)
    with data_class_rep [OF r] have k: "k = 2" by auto
    then have m: "max k 1 = 2" by simp
    from AStr k r [unfolded m] push_slot_rep [of offs data vs "as_bytes (f64_to_string f)"] show ?thesis
      unfolding m by (auto simp: a_push_real_def Let_def acol_rep_def acol_simps null_index_snoc)
  qed
qed

lemma push_text_rep:
  assumes "acol_rep c k vs" "length vs < 2 ^ 32"
  shows "acol_rep (a_push_text t c) 2 (map (map_option sl_text) vs @ [Some (SlText t)])"
    and "acol_rep (a_push_blob t c) 2 (map (map_option sl_text) vs @ [Some (SlText (blob_text t))])"
proof -
  have key: "acol_rep (let c = promote_to_str c; c = (case a_data c of
        AStr offs data \<Rightarrow> c\<lparr>a_data := push_slot offs data x\<rparr> | _ \<Rightarrow> c) in c\<lparr>a_len := a_len c + 1\<rparr>)
      2 (map (map_option sl_text) vs @ [Some (SlText x)])" if "acol_rep c k vs" for c x
  proof -
    note r = promote_to_str_rep(1) [OF that assms(2)]
    from data_class_rep [OF r] obtain offs data where "a_data (promote_to_str c) = AStr offs data"
      by (cases "a_data (promote_to_str c)") auto
    with r push_slot_rep [of offs data "map (map_option sl_text) vs" x] show ?thesis
      by (simp add: Let_def acol_rep_def acol_simps null_index_snoc)
  qed
  show "acol_rep (a_push_text t c) 2 (map (map_option sl_text) vs @ [Some (SlText t)])"
    using key [OF assms(1)] by (simp add: a_push_text_def)
  show "acol_rep (a_push_blob t c) 2 (map (map_option sl_text) vs @ [Some (SlText (blob_text t))])"
    using key [of "c\<lparr>saw_blob := True\<rparr>" "blob_text t"] assms(1)
    by (simp only: a_push_blob_def blob_text_def [symmetric] acol_rep_blob)
qed

text \<open>The refinement: pushing a cell is the abstract push.\<close>

theorem push_cell_rep:
  assumes "acol_rep c k vs" "length vs < 2 ^ 32"
  shows "case abs_push x (k, vs) of (k', vs') \<Rightarrow> acol_rep (push_cell x c) k' vs'"
  using assms
  by (cases x)
    (simp_all only: abs_push.simps push_cell.simps prod.case acol_rep_push_null push_int_rep
      push_real_rep push_text_rep)

section \<open>A whole column\<close>

definition scan_col :: "sq_cell list \<Rightarrow> adaptive_col" where
  "scan_col cells = validate_text (fold push_cell cells acol_new)"

text \<open>Whole-column inference: any text or blob makes the column text, else any float makes it float.\<close>

fun is_textual :: "sq_cell \<Rightarrow> bool" where
  "is_textual (CellText _) \<longleftrightarrow> True"
| "is_textual (CellBlob _) \<longleftrightarrow> True"
| "is_textual _ \<longleftrightarrow> False"

fun is_float_cell :: "sq_cell \<Rightarrow> bool" where
  "is_float_cell (CellFloat _) \<longleftrightarrow> True"
| "is_float_cell _ \<longleftrightarrow> False"

fun is_int_cell :: "sq_cell \<Rightarrow> bool" where
  "is_int_cell (CellInt _) \<longleftrightarrow> True"
| "is_int_cell _ \<longleftrightarrow> False"

definition infer_class :: "sq_cell list \<Rightarrow> nat" where
  "infer_class cells =
     (if list_ex is_textual cells then 2 else if list_ex is_float_cell cells then 1 else 0)"

text \<open>
  The value of a cell in the finished column. An integer in a text column is rendered as a float
  when a float came before the first text.
\<close>

fun cell_slot :: "sq_cell \<Rightarrow> slot option" where
  "cell_slot CellNull = None"
| "cell_slot (CellInt i) = Some (SlInt i)"
| "cell_slot (CellFloat f) = Some (SlFloat f)"
| "cell_slot (CellText t) = Some (SlText t)"
| "cell_slot (CellBlob b) = Some (SlText (blob_text b))"

definition column_slots :: "sq_cell list \<Rightarrow> slot option list" where
  "column_slots cells =
     (let early = takeWhile (\<lambda>x. \<not> is_textual x) cells; late = dropWhile (\<lambda>x. \<not> is_textual x) cells;
          early = map cell_slot early;
          early = (if list_ex is_float_cell (takeWhile (\<lambda>x. \<not> is_textual x) cells)
                   then map (map_option sl_float) early else early)
      in if late = [] then early
         else map (map_option sl_text) early @ map (map_option sl_text \<circ> cell_slot) late)"

lemma infer_class_snoc:
  "infer_class (cells @ [x]) =
     (if is_textual x then 2 else if is_float_cell x then max (infer_class cells) 1 else infer_class cells)"
  by (auto simp: infer_class_def)

lemma sl_text_idem [simp]: "sl_text (sl_text s) = sl_text s"
  by (cases s) simp_all

lemma sl_float_idem [simp]: "sl_float (sl_float s) = sl_float s"
  by (cases s) simp_all

lemma column_slots_numeric:
  assumes "\<forall>c \<in> set cells. \<not> is_textual c"
  shows "column_slots cells = (if list_ex is_float_cell cells
      then map (map_option sl_float \<circ> cell_slot) cells else map cell_slot cells)"
proof -
  have "takeWhile (\<lambda>x. \<not> is_textual x) cells = cells" "dropWhile (\<lambda>x. \<not> is_textual x) cells = []"
    using assms by simp_all
  then show ?thesis unfolding column_slots_def by (simp only: Let_def if_True map_map simp_thms)
qed

lemma column_slots_first_text:
  assumes "\<forall>c \<in> set cells. \<not> is_textual c" "is_textual x"
  shows "column_slots (cells @ [x]) = map (map_option sl_text) (column_slots cells) @ [map_option sl_text (cell_slot x)]"
proof -
  have "takeWhile (\<lambda>x. \<not> is_textual x) (cells @ [x]) = cells" "dropWhile (\<lambda>x. \<not> is_textual x) (cells @ [x]) = [x]"
    using assms by (simp_all add: takeWhile_append2 dropWhile_append2)
  then show ?thesis
    unfolding column_slots_numeric [OF assms(1)] by (simp add: column_slots_def Let_def)
qed

lemma column_slots_later:
  assumes "list_ex is_textual cells"
  shows "column_slots (cells @ [x]) = column_slots cells @ [map_option sl_text (cell_slot x)]"
    and "map (map_option sl_text) (column_slots cells) = column_slots cells"
proof -
  let ?P = "\<lambda>x. \<not> is_textual x"
  have ne: "dropWhile ?P cells \<noteq> []" using assms by (auto simp: list_ex_iff)
  have tw: "takeWhile ?P (cells @ [x]) = takeWhile ?P cells" "dropWhile ?P (cells @ [x]) = dropWhile ?P cells @ [x]"
    using assms by (auto simp: list_ex_iff takeWhile_append1 dropWhile_append1)
  show "column_slots (cells @ [x]) = column_slots cells @ [map_option sl_text (cell_slot x)]"
    using ne by (simp add: column_slots_def Let_def tw del: dropWhile_eq_Nil_conv)
  show "map (map_option sl_text) (column_slots cells) = column_slots cells"
    using ne by (simp add: column_slots_def Let_def option.map_comp o_def del: dropWhile_eq_Nil_conv)
qed

lemma map_sl_float_idem: "map (map_option sl_float) (map (map_option sl_float \<circ> f) cells) = map (map_option sl_float \<circ> f) cells"
  by (simp add: option.map_comp o_def)

lemma abs_push_column:
  "abs_push x (infer_class cells, column_slots cells) = (infer_class (cells @ [x]), column_slots (cells @ [x]))"
proof (cases "list_ex is_textual cells")
  case True
  then have "infer_class cells = 2" by (simp add: infer_class_def)
  with column_slots_later [OF True] show ?thesis
    by (cases x) (simp_all add: infer_class_snoc)
next
  case False
  then have nt: "\<forall>c \<in> set cells. \<not> is_textual c" by (simp add: list_ex_iff)
  have cls: "infer_class cells = (if list_ex is_float_cell cells then 1 else 0)"
    using False by (simp add: infer_class_def)
  show ?thesis
  proof (cases "is_textual x")
    case True
    with column_slots_first_text [OF nt True] cls show ?thesis
      by (cases x) (simp_all add: infer_class_snoc)
  next
    case False
    then have "\<forall>c \<in> set (cells @ [x]). \<not> is_textual c" using nt by simp
    with column_slots_numeric [OF nt] column_slots_numeric [OF this] show ?thesis
      using False by (cases x) (simp_all add: cls infer_class_snoc option.map_comp o_def)
  qed
qed

lemma length_column_slots [simp]: "length (column_slots cells) = length cells"
proof -
  have split: "length (takeWhile P cells) + length (dropWhile P cells) = length cells" for P
    by (metis length_append takeWhile_dropWhile_id)
  show ?thesis
    using split [of "\<lambda>x. \<not> is_textual x"]
    by (auto simp: column_slots_def Let_def takeWhile_eq_all_conv [THEN iffD2])
qed

lemma fold_push_rep:
  "length cells < 2 ^ 32 \<Longrightarrow> acol_rep (fold push_cell cells acol_new) (infer_class cells) (column_slots cells)"
proof (induction cells rule: rev_induct)
  case Nil
  show ?case by (simp add: infer_class_def column_slots_def)
next
  case (snoc x cells)
  then have "acol_rep (fold push_cell cells acol_new) (infer_class cells) (column_slots cells)" by simp
  from push_cell_rep [OF this, of x] snoc.prems show ?case
    unfolding abs_push_column by simp
qed

section \<open>Flags\<close>

fun cell_kind :: "sq_cell \<Rightarrow> nat option" where
  "cell_kind CellNull = None"
| "cell_kind (CellInt _) = Some 0"
| "cell_kind (CellFloat _) = Some 1"
| "cell_kind (CellText _) = Some 2"
| "cell_kind (CellBlob _) = Some 2"

text \<open>Two values of different storage classes.\<close>

definition clash :: "sq_cell \<Rightarrow> sq_cell \<Rightarrow> bool" where
  "clash x y \<longleftrightarrow> cell_kind x \<noteq> None \<and> cell_kind y \<noteq> None \<and> cell_kind x \<noteq> cell_kind y"

definition mixed :: "sq_cell list \<Rightarrow> bool" where
  "mixed cells \<longleftrightarrow> (\<exists>x \<in> set cells. \<exists>y \<in> set cells. clash x y)"

lemma clash_sym: "clash x y \<Longrightarrow> clash y x"
  unfolding clash_def by metis

lemma clash_irrefl [simp]: "\<not> clash x x"
  by (simp add: clash_def)

lemma infer_class_max:
  "(\<forall>y \<in> set cells. \<forall>m. cell_kind y = Some m \<longrightarrow> m \<le> infer_class cells)
   \<and> (infer_class cells \<noteq> 0 \<longrightarrow> (\<exists>y \<in> set cells. cell_kind y = Some (infer_class cells)))"
proof -
  have k: "is_textual x \<longleftrightarrow> cell_kind x = Some 2" "is_float_cell x \<longleftrightarrow> cell_kind x = Some 1"
    "cell_kind x = Some m \<Longrightarrow> m \<le> 2" "cell_kind x = Some m \<Longrightarrow> m \<noteq> 1 \<Longrightarrow> m \<noteq> 2 \<Longrightarrow> m = 0" for x m
    by (cases x; auto)+
  then show ?thesis by (fastforce simp: infer_class_def list_ex_iff)
qed

lemma some_pair_insert:
  assumes "\<And>a b. P a b \<Longrightarrow> P b a" "\<not> P x x"
  shows "(\<exists>a \<in> insert x S. \<exists>b \<in> insert x S. P a b) \<longleftrightarrow> (\<exists>a \<in> S. \<exists>b \<in> S. P a b) \<or> (\<exists>b \<in> S. P b x)"
  using assms by blast

lemma mixed_snoc:
  "mixed (cells @ [x]) \<longleftrightarrow> mixed cells \<or>
     (\<exists>m. cell_kind x = Some m \<and> m \<noteq> infer_class cells \<and> (\<exists>y \<in> set cells. cell_kind y \<noteq> None))"
proof -
  have grow: "mixed (cells @ [x]) \<longleftrightarrow> mixed cells \<or> (\<exists>y \<in> set cells. clash y x)"
    using some_pair_insert [where P = clash, OF clash_sym clash_irrefl] by (simp add: mixed_def)
  have same: "cell_kind y = Some (infer_class cells)" if nm: "\<not> mixed cells" and y: "y \<in> set cells" "cell_kind y \<noteq> None" for y
  proof (cases "infer_class cells = 0")
    case True
    with y infer_class_max [of cells] show ?thesis by force
  next
    case False
    then obtain z where "z \<in> set cells" "cell_kind z = Some (infer_class cells)"
      using infer_class_max [of cells] by blast
    with nm y show ?thesis unfolding mixed_def clash_def by force
  qed
  show ?thesis
  proof (cases "mixed cells")
    case True
    then show ?thesis by (simp add: grow)
  next
    case False
    have "(\<exists>y \<in> set cells. clash y x) \<longleftrightarrow>
        (\<exists>m. cell_kind x = Some m \<and> m \<noteq> infer_class cells \<and> (\<exists>y \<in> set cells. cell_kind y \<noteq> None))"
      using same [OF False] unfolding clash_def by fastforce
    with False show ?thesis unfolding grow by simp
  qed
qed

lemma abs_push_nulls:
  "map (\<lambda>s. s = None) (snd (abs_push x (k, vs))) = map (\<lambda>s. s = None) vs @ [cell_kind x = None]"
  by (cases x) (simp_all add: o_def)

lemma column_slots_nulls: "map (\<lambda>s. s = None) (column_slots cells) = map (\<lambda>x. cell_kind x = None) cells"
proof (induction cells rule: rev_induct)
  case Nil
  show ?case by (simp add: column_slots_def)
next
  case (snoc x cells)
  with abs_push_nulls [of x "infer_class cells" "column_slots cells"] abs_push_column [of x cells]
  show ?case by simp
qed

lemma Some_in_column_slots: "(\<exists>s. Some s \<in> set (column_slots cells)) \<longleftrightarrow> (\<exists>y \<in> set cells. cell_kind y \<noteq> None)"
proof -
  note column_slots_nulls [of cells]
  then have "set (map (\<lambda>s. s = None) (column_slots cells)) = set (map (\<lambda>x. cell_kind x = None) cells)"
    by (rule arg_cong)
  then have "False \<in> (\<lambda>s. s = None) ` set (column_slots cells) \<longleftrightarrow> False \<in> (\<lambda>x. cell_kind x = None) ` set cells"
    by simp
  then show ?thesis by (auto simp: image_iff)
qed

lemma push_cell_promoted:
  assumes "acol_rep c k vs" "length vs < 2 ^ 32" "k \<noteq> 0 \<Longrightarrow> \<exists>s. Some s \<in> set vs"
  shows "promoted (push_cell x c) \<longleftrightarrow> promoted c \<or>
    (\<exists>m. cell_kind x = Some m \<and> m \<noteq> k \<and> (\<exists>s. Some s \<in> set vs))"
proof -
  have k: "data_class (a_data c) = k" by (rule data_class_rep [OF assms(1)])
  note pf = promote_to_float_rep [OF assms(1)] and ps = promote_to_str_rep [OF assms(1,2)]
  have kf: "data_class (a_data (promote_to_float c)) = max k 1" by (rule data_class_rep [OF pf(1)])
  have b: "acol_rep (c\<lparr>saw_blob := True\<rparr>) k vs" using assms(1) by simp
  show ?thesis
  proof (cases x)
    case CellNull
    then show ?thesis by (simp add: a_push_null_def)
  next
    case (CellInt i)
    with k assms(3) show ?thesis
      by (cases "a_data c") (auto simp: a_push_int_def Let_def)
  next
    case (CellFloat f)
    with k kf pf(2) assms(3) show ?thesis
      by (cases "a_data (promote_to_float c)") (auto simp: a_push_real_def Let_def max_def split: if_splits)
  next
    case (CellText t)
    with ps(2) show ?thesis
      by (auto simp: a_push_text_def Let_def split: adaptive_data.splits)
  next
    case (CellBlob t)
    with promote_to_str_rep(2) [OF b assms(2)] show ?thesis
      by (auto simp: a_push_blob_def Let_def split: adaptive_data.splits)
  qed
qed

lemma push_cell_flags:
  assumes "acol_rep c k vs" "length vs < 2 ^ 32"
  shows "saw_blob (push_cell x c) \<longleftrightarrow> saw_blob c \<or> (\<exists>b. x = CellBlob b)"
    and "text_valid (push_cell x c) = text_valid c"
proof -
  note pf = promote_to_float_rep [OF assms(1)] and ps = promote_to_str_rep [OF assms(1,2)]
  have b: "acol_rep (c\<lparr>saw_blob := True\<rparr>) k vs" using assms(1) by simp
  note pb = promote_to_str_rep [OF b assms(2)]
  show "saw_blob (push_cell x c) \<longleftrightarrow> saw_blob c \<or> (\<exists>b. x = CellBlob b)"
    using pf ps pb
    by (cases x) (auto simp: a_push_null_def a_push_int_def a_push_real_def a_push_text_def a_push_blob_def
        Let_def split: adaptive_data.splits)
  show "text_valid (push_cell x c) = text_valid c"
    using pf ps pb
    by (cases x) (auto simp: a_push_null_def a_push_int_def a_push_real_def a_push_text_def a_push_blob_def
        Let_def split: adaptive_data.splits)
qed

lemma fold_push_flags:
  assumes "length cells < 2 ^ 32"
  shows "promoted (fold push_cell cells acol_new) \<longleftrightarrow> mixed cells"
    and "saw_blob (fold push_cell cells acol_new) \<longleftrightarrow> (\<exists>b. CellBlob b \<in> set cells)"
    and "text_valid (fold push_cell cells acol_new)"
  using assms
proof (induction cells rule: rev_induct)
  case Nil
  { case 1 show ?case by (simp add: acol_new_def mixed_def) }
  { case 2 show ?case by (simp add: acol_new_def) }
  { case 3 show ?case by (simp add: acol_new_def) }
next
  case (snoc x cells)
  { case 1
    then have len: "length cells < 2 ^ 32" by simp
    note r = fold_push_rep [OF len]
    have "\<exists>s. Some s \<in> set (column_slots cells)" if "infer_class cells \<noteq> 0"
      using that infer_class_max [of cells] unfolding Some_in_column_slots by force
    from push_cell_promoted [OF r _ this] len snoc.IH(1) [OF len] show ?case
      by (simp add: mixed_snoc Some_in_column_slots) }
  { case 2
    then have len: "length cells < 2 ^ 32" by simp
    from push_cell_flags(1) [OF fold_push_rep [OF len]] len snoc.IH(2) [OF len] show ?case by auto }
  { case 3
    then have len: "length cells < 2 ^ 32" by simp
    from push_cell_flags(2) [OF fold_push_rep [OF len]] len snoc.IH(3) [OF len] show ?case by simp }
qed

end
