(* ===== verification/AdaptiveRead.thy ===== *)
theory AdaptiveRead
  imports AdaptiveProofs Batch Query
begin

text \<open>
  What a finished adaptive column reads back: the validity bitmap is built from the list of nulls,
  the values are the slots. The property at the end is the contract of the streaming scan.
\<close>

section \<open>The validity bitmap\<close>

lemma bits_len_split: "bits_len n = n div 8 + (if n mod 8 = 0 then 0 else 1)"
proof -
  have n: "n = 8 * (n div 8) + n mod 8" and r: "n mod 8 < 8" by simp_all
  have "bits_len n = n div 8 + (n mod 8 + 7) div 8"
    unfolding bits_len_def by (subst n) (simp only: add.assoc div_mult_self4 zero_neq_numeral not_False_eq_True)
  moreover have "(n mod 8 + 7) div 8 = (if n mod 8 = 0 then 0 else 1)"
    using r by (auto simp: div_nat_eqI)
  ultimately show ?thesis by simp
qed

lemma bit_255: "j < 8 \<Longrightarrow> bit (255 :: u8) j"
proof -
  assume "j < 8"
  have "(255 :: u8) = mask 8" by (simp add: mask_eq_exp_minus_1)
  with \<open>j < 8\<close> show ?thesis by (simp only: bit_mask_iff) simp
qed

lemma all_ones:
  "bits_repr (if n mod 8 \<noteq> 0 then (replicate (bits_len n) 255)[bits_len n - 1 := push_bit (n mod 8) 1 - 1]
              else replicate (bits_len n) 255) (replicate n True)"
    (is "bits_repr ?bits _")
proof -
  let ?q = "n div 8" and ?r = "n mod 8"
  have n: "n = 8 * ?q + ?r" "?r < 8" by simp_all
  have m: "push_bit ?r 1 - 1 = (mask ?r :: u8)" by (simp add: mask_eq_exp_minus_1 push_bit_eq_mult)
  have "bit (?bits ! k) j \<longleftrightarrow> 8 * k + j < n" if k: "k < bits_len n" and j: "j < 8" for k j
  proof (cases "k = ?q")
    case True
    with k have r: "?r \<noteq> 0" "bits_len n - 1 = k" by (auto simp: bits_len_split split: if_splits)
    have "?bits ! k = push_bit ?r 1 - 1" using r k by simp
    then have "bit (?bits ! k) j \<longleftrightarrow> j < ?r" using j by (simp only: m bit_mask_iff) simp
    with True n show ?thesis by linarith
  next
    case False
    with k have lt: "k < ?q" by (auto simp: bits_len_split split: if_splits)
    then have "?r \<noteq> 0 \<Longrightarrow> bits_len n - 1 \<noteq> k" by (simp add: bits_len_split)
    then have "?bits ! k = 255" using k by simp
    moreover have "8 * k + j < n" using lt j n by linarith
    ultimately show ?thesis using bit_255 [OF j] by simp
  qed
  then show ?thesis by (auto simp: bits_repr_def)
qed

lemma fold_clear_bits:
  assumes "bits_repr bits bs" "\<forall>i \<in> set is. i < length bs" "length bs < 2 ^ 32"
  shows "bits_repr (fold (\<lambda>i. clear_bit (unat i)) (map word_of_nat is :: u32 list) bits)
    (map (\<lambda>i. bs ! i \<and> i \<notin> set is) [0..<length bs])"
  using assms
proof (induction "is" arbitrary: bits bs)
  case Nil
  then show ?case by (simp add: map_nth)
next
  case (Cons i "is")
  have u: "unat (word_of_nat i :: u32) = i" using Cons.prems by (simp add: unat_of_nat take_bit_eq_mod)
  have "bits_repr (clear_bit i bits) (bs[i := False])"
    using bits_repr_clear_bit [OF Cons.prems(1)] Cons.prems(2) by simp
  from Cons.IH [OF this] Cons.prems(2,3)
  have "bits_repr (fold (\<lambda>i. clear_bit (unat i)) (map word_of_nat is :: u32 list) (clear_bit i bits))
      (map (\<lambda>j. bs[i := False] ! j \<and> j \<notin> set is) [0..<length bs])" by simp
  moreover have "map (\<lambda>j. bs[i := False] ! j \<and> j \<notin> set is) [0..<length bs]
      = map (\<lambda>j. bs ! j \<and> j \<notin> set (i # is)) [0..<length bs]"
    using Cons.prems(2) by (intro map_cong refl) (auto simp: nth_list_update)
  ultimately show ?case by (simp add: u)
qed

lemma null_bits_repr:
  assumes "length vs < 2 ^ 32"
  shows "bits_repr (null_bits (length vs) (map word_of_nat (null_index vs))) (map (\<lambda>v. v \<noteq> None) vs)"
proof -
  have "\<forall>i \<in> set (null_index vs). i < length (replicate (length vs) True)"
    by (simp add: null_index_def)
  from fold_clear_bits [OF all_ones this, unfolded length_replicate, OF assms]
  have "bits_repr (null_bits (length vs) (map word_of_nat (null_index vs)))
      (map (\<lambda>i. replicate (length vs) True ! i \<and> i \<notin> set (null_index vs)) [0..<length vs])"
    unfolding null_bits_def Let_def by (simp only: length_replicate)
  moreover have "map (\<lambda>i. replicate (length vs) True ! i \<and> i \<notin> set (null_index vs)) [0..<length vs]
      = map (\<lambda>v. v \<noteq> None) vs"
    by (rule nth_equalityI) (simp_all add: null_index_def)
  ultimately show ?thesis by simp
qed

lemma null_index_eq_Nil: "null_index vs = [] \<longleftrightarrow> None \<notin> set vs"
  by (auto simp: null_index_def filter_empty_conv in_set_conv_nth)

section \<open>Reading\<close>

fun slot_cell :: "slot \<Rightarrow> cell option" where
  "slot_cell (SlInt i) = Some (CInt i)"
| "slot_cell (SlFloat f) = Some (CFloat f)"
| "slot_cell (SlText t) = map_option CText (from_utf8 t)"

fun class_type :: "nat \<Rightarrow> data_type" where
  "class_type k = (if k = 0 then Int64 else if k = 1 then Float64 else Utf8)"

lemma valid_utf8_concat: "(\<And>x. x \<in> set xs \<Longrightarrow> valid_utf8 x) \<Longrightarrow> valid_utf8 (concat xs)"
  by (induction xs) (simp_all add: valid_utf8_append)

lemma a_finish_sel:
  "col_len (a_finish nm c) = a_len c"
  "validity (a_finish nm c) = (if nulls c = [] then None else Some (null_bits (a_len c) (nulls c)))"
  "nullable (col_field (a_finish nm c)) \<longleftrightarrow> nulls c \<noteq> []"
  "data_type (col_field (a_finish nm c)) = class_type (data_class (a_data c))"
  "col_data (a_finish nm c) = (case a_data c of AInt v \<Rightarrow> DInt64 v | AFloat v \<Rightarrow> DFloat64 v
     | AStr offs data \<Rightarrow> (case if text_valid c then (offs, data) else repair_utf8 offs data of (a, b) \<Rightarrow> DUtf8 a b))"
  by (simp_all add: a_finish_def Let_def case_prod_beta field_new_def split: adaptive_data.split)

lemma a_finish_is_valid:
  assumes "acol_rep c k vs" "length vs < 2 ^ 32" "i < length vs"
  shows "is_valid (a_finish nm c) i = Ok (vs ! i \<noteq> None)"
proof (cases "nulls c = []")
  case True
  then have "None \<notin> set vs" using assms(1) by (auto simp: acol_rep_def null_index_eq_Nil)
  then have "vs ! i \<noteq> None" using assms(3) nth_mem by metis
  with True assms show ?thesis by (simp add: is_valid_def a_finish_sel acol_rep_def)
next
  case False
  with assms null_bits_repr [OF assms(2)] show ?thesis
    by (simp add: is_valid_def a_finish_sel acol_rep_def bits_repr_get_bit)
qed

lemma a_finish_type:
  "acol_rep c k vs \<Longrightarrow> data_type (col_field (a_finish nm c)) = class_type k
    \<and> col_len (a_finish nm c) = length vs \<and> nullable (col_field (a_finish nm c)) = (None \<in> set vs)"
  using data_class_rep [of c k vs] by (auto simp: acol_rep_def a_finish_sel null_index_eq_Nil)

lemma a_finish_read:
  assumes rep: "acol_rep c k vs" and len: "length vs < 2 ^ 32" and i: "i < length vs"
    and tv: "text_valid c" and short: "length (concat (map text_of vs)) < 2 ^ 32"
  shows "read_cell (a_finish nm c) i = Ok (Option.bind (vs ! i) slot_cell)"
proof (cases "vs ! i")
  case None
  with a_finish_is_valid [OF rep len i] show ?thesis by (simp add: read_null)
next
  case (Some s)
  then have v: "is_valid (a_finish nm c) i = Ok True" using a_finish_is_valid [OF rep len i] by simp
  have cls: "slot_class s = k"
    using rep Some nth_mem [OF i] by (auto simp: acol_rep_def of_class_def)
  have ty: "data_type (col_field (a_finish nm c)) = class_type k" using a_finish_type [OF rep] by blast
  show ?thesis
  proof (cases "a_data c")
    case (AInt xs)
    with rep cls obtain j where "s = SlInt j" "xs = map int_of vs" "k = 0"
      by (cases s) (auto simp: acol_rep_def)
    with Some v ty i AInt show ?thesis
      by (simp add: read_cell_def get_i64_def list_get_def a_finish_sel)
  next
    case (AFloat xs)
    with rep cls obtain j where "s = SlFloat j" "xs = map float_of vs" "k = 1"
      by (cases s) (auto simp: acol_rep_def)
    with Some v ty i AFloat show ?thesis
      by (simp add: read_cell_def get_f64_def list_get_def a_finish_sel)
  next
    case (AStr offs data)
    with rep cls obtain t where t: "s = SlText t" "repr_segs offs data (map text_of vs)" "k = 2"
      by (cases s) (auto simp: acol_rep_def)
    have "get_str (a_finish nm c) i = Ok (from_utf8 (map text_of vs ! i))"
    proof (rule get_str_repr [OF _ t(2)])
      show "col_data (a_finish nm c) = DUtf8 offs data"
        using AStr tv by (simp add: a_finish_sel)
      show "length data < 2 ^ 32" using short t(2) by (simp add: repr_segs_def)
      show "i < col_len (a_finish nm c)" using a_finish_type [OF rep] i by simp
    qed (use i v in simp_all)
    with Some t ty i show ?thesis by (simp add: read_cell_def)
  qed
qed

section \<open>The texts of a column are valid UTF-8\<close>

lemma ascii_utf8: "list_all (\<lambda>c. code c < 128) s \<Longrightarrow> utf8_string s"
  by (rule utf8_string_all_ascii) (simp add: list_all_iff)

lemma decimal_ascii: "list_all (\<lambda>c. code c < 128) (nat_to_string n)"
  using decimal_digits [of _ n] by (fastforce simp: list_all_iff is_ascii_digit_def)

lemma i64_string_ascii: "list_all (\<lambda>c. code c < 128) (i64_to_string i)"
  by (simp add: i64_to_string_def int_to_string_def decimal_ascii)

lemma list_all_take: "list_all P xs \<Longrightarrow> list_all P (take n xs)"
  by (auto simp: list_all_iff dest: in_set_takeD)

lemma list_all_drop: "list_all P xs \<Longrightarrow> list_all P (drop n xs)"
  by (auto simp: list_all_iff dest: in_set_dropD)

lemma dec_digits_ascii: "list_all (\<lambda>c. code c < 128) (dec_digits d p)"
  by (simp add: dec_digits_def Let_def decimal_ascii list_all_take list_all_drop list_all_iff [of _ "replicate _ _"])

lemma f64_string_ascii: "list_all (\<lambda>c. code c < 128) (f64_to_string w)"
  by (simp add: f64_to_string_def Let_def dec_digits_ascii split: prod.split)

lemma valid_utf8_lossy: "valid_utf8 (utf8_lossy bs)"
proof (induction bs rule: utf8_lossy.induct)
  case (1 bs)
  have rep: "valid_utf8 [239, 191, 189]" by (simp add: valid_utf8_step [of "[239, 191, 189]"] utf8_first_def utf8_tail_def cont_in_def)
  show ?case
  proof (cases "bs = []")
    case True
    then show ?thesis by (subst utf8_lossy.simps) simp
  next
    case False
    show ?thesis
    proof (cases "utf8_first bs")
      case (Scalar n)
      note sc = utf8_first_Scalar [OF Scalar False]
      have "utf8_first (take n bs) = Scalar n"
        using utf8_first_prefix [of "take n bs" "drop n bs" n] Scalar sc(1,2) False by simp
      then have "valid_utf8 (take n bs)"
        using sc(1,2) False by (simp add: valid_utf8_step [of "take n bs"])
      moreover have "max 1 n = n" using sc(1) by simp
      ultimately show ?thesis
        using 1(1) [OF False Scalar] False Scalar
        by (subst utf8_lossy.simps) (simp add: valid_utf8_append)
    next
      case (Invalid n)
      with 1(2) [OF False Invalid] False rep show ?thesis
        using valid_utf8_append [OF rep] by (subst utf8_lossy.simps) simp
    next
      case Truncated
      with False rep show ?thesis by (subst utf8_lossy.simps) simp
    qed
  qed
qed

fun slot_valid :: "slot option \<Rightarrow> bool" where
  "slot_valid (Some (SlText t)) \<longleftrightarrow> valid_utf8 t"
| "slot_valid _ \<longleftrightarrow> True"

lemma slot_valid_conv:
  "slot_valid (map_option sl_text s) \<longleftrightarrow> slot_valid s" "slot_valid (map_option sl_float s) \<longleftrightarrow> slot_valid s"
  using ascii_utf8 [OF i64_string_ascii] ascii_utf8 [OF f64_string_ascii]
  by (cases s rule: slot_valid.cases; simp add: utf8_string_def)+

lemma column_slots_valid:
  assumes "\<And>t. CellText t \<in> set cells \<Longrightarrow> valid_utf8 t"
  shows "list_all slot_valid (column_slots cells)"
  using assms
proof (induction cells rule: rev_induct)
  case Nil
  show ?case by (simp add: column_slots_def)
next
  case (snoc x cells)
  then have IH: "list_all slot_valid (column_slots cells)" by simp
  have "list_all slot_valid (snd (abs_push x (k, vs)))" if "list_all slot_valid vs" for k vs
    using that snoc.prems [of "case x of CellText t \<Rightarrow> t | _ \<Rightarrow> []"]
      ascii_utf8 [OF i64_string_ascii] ascii_utf8 [OF f64_string_ascii]
    by (cases x) (auto simp: list_all_iff slot_valid_conv conv_def utf8_string_def blob_text_def valid_utf8_lossy)
  with IH abs_push_column [of x cells] show ?case by (metis snd_conv)
qed

lemma acol_rep_validate [simp]: "acol_rep (validate_text c) k vs = acol_rep c k vs"
  by (simp add: validate_text_def acol_rep_def split: adaptive_data.split)

lemma validate_text_flags [simp]:
  "promoted (validate_text c) = promoted c" "saw_blob (validate_text c) = saw_blob c"
  by (simp_all add: validate_text_def split: adaptive_data.split)

lemma text_valid_validate:
  assumes "acol_rep c k vs" "text_valid c" "list_all slot_valid vs"
  shows "text_valid (validate_text c)"
proof (cases "a_data c")
  case (AStr offs data)
  then have "data = concat (map text_of vs)" using assms(1) by (simp add: acol_rep_def repr_segs_def)
  moreover have "valid_utf8 (text_of v)" if "v \<in> set vs" for v
    using assms(3) that by (cases v rule: text_of.cases) (auto simp: list_all_iff)
  ultimately have "valid_utf8 data" using valid_utf8_concat [of "map text_of vs"] by auto
  with AStr show ?thesis by (simp add: validate_text_def)
qed (use assms in \<open>simp_all add: validate_text_def\<close>)

lemma scan_col_rep:
  "length cells < 2 ^ 32 \<Longrightarrow> acol_rep (scan_col cells) (infer_class cells) (column_slots cells)"
  by (simp add: scan_col_def fold_push_rep)

section \<open>The streamed column\<close>

text \<open>
  C34: A column streamed cell by cell comes out as whole-column inference would make it: the type
  is text if any cell is text or a blob, else float if any is a float, else integer, it is nullable
  exactly when a cell is null, and every row reads back its own cell in that type, nothing lost. An
  integer in a text column is printed as a float when a float came before the first text.
\<close>

theorem scan_column_reads:
  assumes len: "length cells < 2 ^ 32"
    and short: "length (concat (map text_of (column_slots cells))) < 2 ^ 32"
    and utf: "\<And>t. CellText t \<in> set cells \<Longrightarrow> valid_utf8 t"
  shows "let c = a_finish nm (scan_col cells) in
    data_type (col_field c) = class_type (infer_class cells) \<and> col_len c = length cells
    \<and> (nullable (col_field c) \<longleftrightarrow> CellNull \<in> set cells)
    \<and> map (read_cell c) [0..<length cells] = map (\<lambda>s. Ok (Option.bind s slot_cell)) (column_slots cells)
    \<and> list_all2 (\<lambda>x s. Option.bind s slot_cell = None \<longleftrightarrow> x = CellNull) cells (column_slots cells)"
proof -
  let ?c = "scan_col cells" and ?vs = "column_slots cells"
  note rep = scan_col_rep [OF len]
  have valid: "list_all slot_valid ?vs" using column_slots_valid utf by blast
  have "text_valid ?c"
    unfolding scan_col_def
    using text_valid_validate [OF fold_push_rep [OF len] fold_push_flags(3) [OF len] valid] .
  then have "read_cell (a_finish nm ?c) i = Ok (Option.bind (?vs ! i) slot_cell)" if "i < length cells" for i
    using a_finish_read [OF rep _ _ _ short] len that by simp
  then have read: "map (read_cell (a_finish nm ?c)) [0..<length cells] = map (\<lambda>s. Ok (Option.bind s slot_cell)) ?vs"
    by (intro nth_equalityI) simp_all
  have nulls: "map (\<lambda>s. s = None) ?vs = map (\<lambda>x. cell_kind x = None) cells"
    by (rule column_slots_nulls)
  have none: "?vs ! i = None \<longleftrightarrow> cells ! i = CellNull" if "i < length cells" for i
    using arg_cong [OF nulls, of "\<lambda>xs. xs ! i"] that by (cases "cells ! i") simp_all
  have "Option.bind (?vs ! i) slot_cell = None \<longleftrightarrow> ?vs ! i = None" if "i < length cells" for i
    using valid that
    by (cases "?vs ! i" rule: slot_valid.cases) (auto simp: list_all_length from_utf8_def)
  then have "list_all2 (\<lambda>x s. Option.bind s slot_cell = None \<longleftrightarrow> x = CellNull) cells ?vs"
    using none by (simp add: list_all2_conv_all_nth)
  moreover have "None \<in> set ?vs \<longleftrightarrow> CellNull \<in> set cells"
    using none by (metis in_set_conv_nth length_column_slots)
  ultimately show ?thesis
    using a_finish_type [OF rep, of nm] read by (simp add: Let_def)
qed

lemma scan_column_reads_witness:
  "map (read_cell (a_finish ''x'' (scan_col [CellInt 3, CellNull, CellText [104, 105]]))) [0..<3]
    = [Ok (Some (CText ''3'')), Ok None, Ok (Some (CText ''hi''))]"
proof -
  let ?cells = "[CellInt 3, CellNull, CellText [104, 105]]"
  have s: "column_slots ?cells = [Some (SlText [51]), None, Some (SlText [104, 105])]" by code_simp
  have utf: "valid_utf8 t" if "CellText t \<in> set ?cells" for t
    using that by (auto simp: valid_utf8_ascii)
  have "map (read_cell (a_finish ''x'' (scan_col ?cells))) [0..<length ?cells]
      = map (\<lambda>s. Ok (Option.bind s slot_cell)) (column_slots ?cells)"
    using scan_column_reads [where cells = ?cells and nm = "''x''", OF _ _ utf] by (simp add: s Let_def)
  moreover have "from_utf8 [51] = Some ''3''" "from_utf8 [104, 105] = Some ''hi''" by code_simp+
  ultimately show ?thesis by (simp add: s numeral_eq_Suc)
qed

text \<open>
  A character whose bytes are split over two text cells is lost: the buffer as a whole is valid
  UTF-8, so it is not repaired, and both rows, neither of them null, read back no value.
\<close>

theorem split_character_lost:
  "let c = a_finish ''t'' (scan_col [CellText [195], CellText [169]]) in
     is_valid c 0 = Ok True \<and> is_valid c 1 = Ok True \<and> read_cell c 0 = Ok None \<and> read_cell c 1 = Ok None"
  by code_simp

end
