(* ===== verification/Merge.thy ===== *)
theory Merge
  imports AdaptiveRead
begin

text \<open>
  Merging the columns of several row ranges (\<open>merge_col\<close>, \<open>merge_chunks\<close>) against one scan of all the
  rows. The representation of a column determines everything a finished column contains, so the
  comparison is one of classes and slots.
\<close>

section \<open>A representation determines the finished column\<close>

lemma data_rep_unique: "data_rep d k vs \<Longrightarrow> data_rep e k vs \<Longrightarrow> d = e"
  by (cases d; cases e) (auto simp: repr_segs_def)

lemma acol_rep_finish:
  assumes "acol_rep c k vs" "acol_rep d k vs" "text_valid c = text_valid d"
  shows "a_finish nm c = a_finish nm d"
proof -
  have "a_data c = a_data d" "a_len c = a_len d" "nulls c = nulls d"
    using assms data_rep_unique by (auto simp: acol_rep_def)
  with assms(3) show ?thesis by (simp only: a_finish_def)
qed

section \<open>Promotion to a common class\<close>

lemma conv_fun [simp]: "conv 0 = (\<lambda>s. s)" "conv (Suc 0) = sl_float" "conv 2 = sl_text"
  by (rule ext; simp)+

lemma conv_class: "slot_class s \<le> t \<Longrightarrow> t \<le> 2 \<Longrightarrow> slot_class (conv t s) = t"
  by (cases s) (auto simp: conv_def)

lemma sl_float_id: "slot_class s \<noteq> 0 \<Longrightarrow> sl_float s = s"
  by (cases s) simp_all

lemma sl_text_id: "slot_class s = 2 \<Longrightarrow> sl_text s = s"
  by (cases s) simp_all

lemma map_option_id: "(\<And>s. Some s \<in> set vs \<Longrightarrow> f s = s) \<Longrightarrow> map (map_option f) vs = vs"
  by (rule map_idI) (auto simp: map_option_case split: option.split)

lemma promote_class_rep:
  assumes rep: "acol_rep p k vs" and len: "length vs < 2 ^ 32" and t: "k \<le> t" "t \<le> 2"
  shows "acol_rep (promote_class t p) t (map (map_option (conv t)) vs)"
proof -
  have cls: "of_class k vs" using rep by (simp add: acol_rep_def)
  consider "t = 0" | "t = 1" | "t = 2" using t(2) by linarith
  then show ?thesis
  proof cases
    case 1
    with rep t show ?thesis by (simp add: promote_class_def map_option_id [of vs "\<lambda>s. s"])
  next
    case 2
    show ?thesis
    proof (cases "k = 0")
      case True
      with 2 promote_to_float_rep(1) [OF rep] show ?thesis by (simp add: promote_class_def)
    next
      case False
      then have "map (map_option sl_float) vs = vs"
        using of_classD [OF cls] by (intro map_option_id sl_float_id) simp
      with False 2 t promote_to_float_rep(1) [OF rep] show ?thesis
        by (simp add: promote_class_def max_def)
    qed
  next
    case 3
    with promote_to_str_rep(1) [OF rep len] show ?thesis by (simp add: promote_class_def)
  qed
qed

lemma promote_class_flags [simp]:
  "saw_blob (promote_class t p) = saw_blob p" "text_valid (promote_class t p) = text_valid p"
  by (auto simp: promote_class_def promote_to_float_def promote_to_str_def case_prod_beta
      split: adaptive_data.split)

section \<open>Concatenation\<close>

lemma append_col_rep:
  assumes "acol_rep acc k vs" "acol_rep p k ws"
  obtains acc' where "append_col p acc = Ok acc'" "acol_rep acc' k (vs @ ws)"
    "text_valid acc' = text_valid acc" "a_ascii acc' = a_ascii acc"
proof -
  note result = that
  have nulls: "nulls acc @ map (\<lambda>i. i + word_of_nat (a_len acc)) (nulls p)
      = map word_of_nat (null_index (vs @ ws))"
    using assms by (simp add: acol_rep_def null_index_append o_def add.commute)
  have cls: "of_class k (vs @ ws)" using assms by (simp add: acol_rep_def acol_simps)
  have len: "a_len acc + a_len p = length (vs @ ws)" using assms by (simp add: acol_rep_def)
  have c: "data_class (a_data acc) = k" "data_class (a_data p) = k"
    using assms data_class_rep by blast+
  have grow: thesis
    if "append_col p acc = Ok (acc\<lparr>a_data := d, nulls := nulls acc @ map (\<lambda>i. i + word_of_nat (a_len acc)) (nulls p),
          a_len := a_len acc + a_len p\<rparr>)" "data_rep d k (vs @ ws)" for d
    by (rule result [OF that(1)]) (use that(2) nulls cls len in \<open>simp_all add: acol_rep_def\<close>)
  show thesis
  proof (cases "a_data acc")
    case (AInt a)
    with c obtain b where "a_data p = AInt b" by (cases "a_data p") auto
    with AInt assms show thesis
      by (intro grow [of "AInt (a @ b)"]) (simp_all add: append_col_def acol_rep_def)
  next
    case (AFloat a)
    with c obtain b where "a_data p = AFloat b" by (cases "a_data p") auto
    with AFloat assms show thesis
      by (intro grow [of "AFloat (a @ b)"]) (simp_all add: append_col_def acol_rep_def)
  next
    case (AStr ao ad)
    with c obtain bo bd where "a_data p = AStr bo bd" by (cases "a_data p") auto
    with AStr assms show thesis
      by (intro grow [of "AStr (ao @ map (\<lambda>k. k + word_of_nat (length ad)) (tl bo)) (ad @ bd)"])
        (auto simp: append_col_def acol_rep_def intro: repr_segs_append)
  qed
qed

lemma append_cols_rep:
  assumes "acol_rep acc k vs" "list_all2 (\<lambda>p ws. acol_rep p k ws) ps wss"
  shows "\<exists>acc'. fold_r append_col ps acc = Ok acc' \<and> acol_rep acc' k (vs @ concat wss)
    \<and> text_valid acc' = text_valid acc \<and> a_ascii acc' = a_ascii acc"
  using assms(2,1)
proof (induction ps wss arbitrary: acc vs rule: list_all2_induct)
  case Nil
  then show ?case by simp
next
  case (Cons p ps ws wss)
  obtain a where a: "append_col p acc = Ok a" "acol_rep a k (vs @ ws)" "text_valid a = text_valid acc"
    "a_ascii a = a_ascii acc"
    using append_col_rep [OF Cons.prems Cons.hyps(1)] by blast
  from Cons.IH [OF a(2)] a show ?case by auto
qed

section \<open>The merge\<close>

text \<open>
  The parts of a merge: each represents slots, and only a part with a value can have left the
  integer class.
\<close>

definition part_rep :: "adaptive_col \<Rightarrow> nat \<times> slot option list \<Rightarrow> bool" where
  "part_rep p r \<longleftrightarrow>
     acol_rep p (fst r) (snd r) \<and> fst r \<le> 2 \<and> length (snd r) < 2 ^ 32
     \<and> (fst r \<noteq> 0 \<longrightarrow> (\<exists>s. Some s \<in> set (snd r)))"

lemma fold_max_ge: "(b :: nat) \<le> fold max ys b"
proof (induction ys arbitrary: b)
  case (Cons z zs)
  from Cons [of "max z b"] show ?case by simp
qed simp

lemma fold_max_le: "(x :: nat) \<in> set xs \<Longrightarrow> x \<le> fold max xs a"
proof (induction xs arbitrary: a)
  case (Cons y ys)
  show ?case
  proof (cases "x = y")
    case True
    with fold_max_ge [of "max y a" ys] show ?thesis by simp
  next
    case False
    with Cons show ?thesis by simp
  qed
qed simp

lemma fold_max_bound: "(\<And>x. x \<in> set xs \<Longrightarrow> x \<le> b) \<Longrightarrow> a \<le> b \<Longrightarrow> fold max xs a \<le> (b :: nat)"
  by (induction xs arbitrary: a) simp_all

lemma fold_max_in: "fold max xs a \<in> insert (a :: nat) (set xs)"
proof (induction xs arbitrary: a)
  case (Cons x xs)
  from Cons [of "max x a"] show ?case by (auto simp: max_def split: if_splits)
qed simp

lemma merge_target_le:
  assumes "list_all2 part_rep parts rs"
  shows "list_all (\<lambda>r. fst r \<le> merge_target parts) rs" "merge_target parts \<le> 2"
proof -
  have "fst (rs ! i) \<le> merge_target parts" if i: "i < length rs" for i
  proof (cases "fst (rs ! i) = 0")
    case False
    have p: "part_rep (parts ! i) (rs ! i)" and ip: "i < length parts"
      using assms i by (auto simp: list_all2_conv_all_nth)
    then have "has_value (parts ! i)" "data_class (a_data (parts ! i)) = fst (rs ! i)"
      using False has_value_rep data_class_rep by (auto simp: part_rep_def)
    with ip have "fst (rs ! i) \<in> set (map (\<lambda>p. data_class (a_data p)) (filter has_value parts))" by force
    then show ?thesis unfolding merge_target_def by (rule fold_max_le)
  qed simp
  then show "list_all (\<lambda>r. fst r \<le> merge_target parts) rs" by (simp add: list_all_length)
  have "data_class d \<le> 2" for d by (cases d) simp_all
  then show "merge_target parts \<le> 2"
    unfolding merge_target_def by (intro fold_max_bound) auto
qed

lemma merge_col_rep:
  assumes parts: "list_all2 part_rep parts rs" and ne: "parts \<noteq> []"
  shows "\<exists>acc. merge_col parts = Ok acc
    \<and> acol_rep acc (merge_target parts) (concat (map (\<lambda>r. map (map_option (conv (merge_target parts))) (snd r)) rs))
    \<and> promoted acc = merge_promoted parts \<and> saw_blob acc = list_ex saw_blob parts
    \<and> text_valid acc = list_all text_valid parts"
proof -
  let ?t = "merge_target parts"
  have "list_all2 (\<lambda>p r. acol_rep (promote_class ?t p) ?t (map (map_option (conv ?t)) (snd r))) parts rs"
    using parts merge_target_le [OF parts]
    by (auto simp: list_all2_conv_all_nth list_all_length part_rep_def intro!: promote_class_rep)
  then have reps: "list_all2 (\<lambda>p vs. acol_rep p ?t vs) (map (promote_class ?t) parts)
      (map (\<lambda>r. map (map_option (conv ?t)) (snd r)) rs)"
    by (simp add: list_all2_map1 list_all2_map2)
  obtain p ps where pp: "map (promote_class ?t) parts = p # ps" using ne by (cases parts) auto
  with reps obtain v vss where vv: "map (\<lambda>r. map (map_option (conv ?t)) (snd r)) rs = v # vss"
    "acol_rep p ?t v" "list_all2 (\<lambda>p vs. acol_rep p ?t vs) ps vss"
    by (auto simp: list_all2_Cons1)
  from append_cols_rep [OF vv(2,3)] obtain acc where
    acc: "fold_r append_col ps p = Ok acc" "acol_rep acc ?t (v @ concat vss)" by blast
  have "merge_col parts = Ok (acc\<lparr>promoted := merge_promoted parts, saw_blob := list_ex saw_blob parts,
      text_valid := list_all text_valid parts\<rparr>)"
    using acc(1) by (simp add: merge_col_def pp)
  moreover have "acol_rep (acc\<lparr>promoted := a, saw_blob := b, text_valid := d\<rparr>) ?t (v @ concat vss)" for a b d
    using acc(2) by (simp add: acol_rep_def)
  ultimately show ?thesis unfolding vv(1) by simp
qed

section \<open>Merging scans of ranges is scanning all rows\<close>

text \<open>
  An integer that prints the same directly and through a float. All integers up to 2^53 do; beyond
  that the text of an integer can depend on where the ranges are cut.
\<close>

definition prints_exactly :: "i64 \<Rightarrow> bool" where
  "prints_exactly i \<longleftrightarrow> f64_to_string (i64_as_f64 i) = i64_to_string i"

definition exact_ints :: "sq_cell list \<Rightarrow> bool" where
  "exact_ints cells \<longleftrightarrow>
     (list_ex is_textual cells \<and> list_ex is_float_cell cells \<longrightarrow> (\<forall>i. CellInt i \<in> set cells \<longrightarrow> prints_exactly i))"

lemma infer_class_mono: "set a \<subseteq> set b \<Longrightarrow> infer_class a \<le> infer_class b"
  by (auto simp: infer_class_def list_ex_iff)

lemma infer_class_le: "infer_class cells \<le> 2"
  by (simp add: infer_class_def)

lemma conv_conv:
  assumes "k \<le> t" "t \<le> 2" "\<And>i. s = SlInt i \<Longrightarrow> k = 1 \<Longrightarrow> t = 2 \<Longrightarrow> prints_exactly i"
  shows "conv t (conv k s) = conv t s"
  using assms by (cases s) (auto simp: conv_def prints_exactly_def)

lemma exact_ints_subset:
  assumes "exact_ints b" "set a \<subseteq> set b"
  shows "exact_ints a"
  using assms unfolding exact_ints_def list_ex_iff by blast

lemma map_option_ident_fun: "map_option (\<lambda>s. s) = (\<lambda>s. s)"
  by (rule ext) (simp add: option.map_ident)

lemma cell_slot_text: "is_textual x \<Longrightarrow> map_option sl_text (cell_slot x) = cell_slot x"
  by (cases x) simp_all

lemma column_slots_exact:
  assumes "exact_ints cells"
  shows "column_slots cells = map (map_option (conv (infer_class cells)) \<circ> cell_slot) cells"
proof (cases "list_ex is_textual cells")
  case False
  then have "\<forall>c \<in> set cells. \<not> is_textual c" by (simp add: list_ex_iff)
  from column_slots_numeric [OF this] False show ?thesis
    by (auto simp: infer_class_def o_def map_option_ident_fun)
next
  case True
  let ?P = "\<lambda>x. \<not> is_textual x"
  let ?e = "takeWhile ?P cells"
  have ne: "dropWhile ?P cells \<noteq> []" using True by (auto simp: list_ex_iff)
  have k: "infer_class cells = 2" using True by (simp add: infer_class_def)
  have early: "map_option sl_text (map_option sl_float (cell_slot x)) = map_option sl_text (cell_slot x)"
    if "x \<in> set ?e" "list_ex is_float_cell ?e" for x
  proof -
    have "x \<in> set cells" "list_ex is_float_cell cells"
      using that by (auto dest: set_takeWhileD simp: list_ex_iff)
    with assms True show ?thesis by (cases x) (auto simp: exact_ints_def prints_exactly_def)
  qed
  have "column_slots cells = map (map_option sl_text \<circ> cell_slot) ?e @ map (map_option sl_text \<circ> cell_slot) (dropWhile ?P cells)"
    unfolding column_slots_def Let_def using ne early by auto
  also have "\<dots> = map (map_option sl_text \<circ> cell_slot) cells"
    by (metis map_append takeWhile_dropWhile_id)
  finally show ?thesis by (simp add: k)
qed

lemma part_rep_scan: "length cells < 2 ^ 32 \<Longrightarrow> part_rep (scan_col cells) (infer_class cells, column_slots cells)"
  using scan_col_rep [of cells] infer_class_le [of cells] infer_class_max [of cells]
  unfolding part_rep_def by (auto simp: Some_in_column_slots)

lemma length_chunk: "cs \<in> set css \<Longrightarrow> length cs \<le> length (concat css)"
  by (induction css) auto

lemma merge_target_scan:
  assumes "length (concat css) < 2 ^ 32"
  shows "merge_target (map scan_col css) = infer_class (concat css)"
proof (rule antisym)
  have small: "length cs < 2 ^ 32" if "cs \<in> set css" for cs
    using length_chunk [OF that] assms by simp
  have cls: "data_class (a_data (scan_col cs)) = infer_class cs" if "cs \<in> set css" for cs
    by (rule data_class_rep [OF scan_col_rep [OF small [OF that]]])
  have mono: "infer_class cs \<le> infer_class (concat css)" if "cs \<in> set css" for cs
    using that by (intro infer_class_mono) auto
  show "merge_target (map scan_col css) \<le> infer_class (concat css)"
    unfolding merge_target_def by (rule fold_max_bound) (auto simp: cls mono)
  show "infer_class (concat css) \<le> merge_target (map scan_col css)"
  proof (cases "infer_class (concat css) = 0")
    case False
    with infer_class_max [of "concat css"] obtain y cs where
      y: "y \<in> set cs" "cs \<in> set css" "cell_kind y = Some (infer_class (concat css))" by auto
    with infer_class_max [of cs] have le: "infer_class (concat css) \<le> infer_class cs" by blast
    have "has_value (scan_col cs)"
      using has_value_rep [OF scan_col_rep [OF small [OF y(2)]]] y by (auto simp: Some_in_column_slots)
    then have "infer_class cs \<in> set (map (\<lambda>p. data_class (a_data p)) (filter has_value (map scan_col css)))"
      using y(2) cls [OF y(2)] by force
    then have "infer_class cs \<le> merge_target (map scan_col css)"
      unfolding merge_target_def by (rule fold_max_le)
    with le show ?thesis by simp
  qed simp
qed

lemma merge_promoted_scan:
  assumes "length (concat css) < 2 ^ 32"
  shows "merge_promoted (map scan_col css) \<longleftrightarrow> mixed (concat css)"
proof -
  have small: "length cs < 2 ^ 32" if "cs \<in> set css" for cs
    using length_chunk [OF that] assms by simp
  have pr: "promoted (scan_col cs) \<longleftrightarrow> mixed cs" if "cs \<in> set css" for cs
    using fold_push_flags(1) [OF small [OF that]] by (simp add: scan_col_def)
  have cls: "data_class (a_data (scan_col cs)) = infer_class cs" if "cs \<in> set css" for cs
    by (rule data_class_rep [OF scan_col_rep [OF small [OF that]]])
  have hv: "has_value (scan_col cs) \<longleftrightarrow> (\<exists>y \<in> set cs. cell_kind y \<noteq> None)" if "cs \<in> set css" for cs
    using has_value_rep [OF scan_col_rep [OF small [OF that]]] by (simp add: Some_in_column_slots)
  have lhs: "merge_promoted (map scan_col css) \<longleftrightarrow>
      (\<exists>cs \<in> set css. mixed cs \<or> (\<exists>y \<in> set cs. cell_kind y \<noteq> None) \<and> infer_class cs \<noteq> infer_class (concat css))"
  proof -
    have "merge_promoted (map scan_col css) \<longleftrightarrow> (\<exists>cs \<in> set css. promoted (scan_col cs) \<or>
        has_value (scan_col cs) \<and> data_class (a_data (scan_col cs)) \<noteq> infer_class (concat css))"
      unfolding merge_promoted_def merge_target_scan [OF assms] by (auto simp: list_ex_iff)
    also have "\<dots> \<longleftrightarrow> (\<exists>cs \<in> set css. mixed cs \<or>
        (\<exists>y \<in> set cs. cell_kind y \<noteq> None) \<and> infer_class cs \<noteq> infer_class (concat css))"
      by (rule bex_cong [OF refl]) (simp only: pr cls hv)
    finally show ?thesis .
  qed
  show ?thesis
  proof
    assume "merge_promoted (map scan_col css)"
    then obtain cs where cs: "cs \<in> set css" "mixed cs \<or> (\<exists>y \<in> set cs. cell_kind y \<noteq> None) \<and> infer_class cs \<noteq> infer_class (concat css)"
      unfolding lhs by blast
    have sub: "set cs \<subseteq> set (concat css)" using cs(1) by auto
    from cs(2) show "mixed (concat css)"
    proof
      assume "mixed cs"
      with sub show ?thesis unfolding mixed_def by blast
    next
      assume d: "(\<exists>y \<in> set cs. cell_kind y \<noteq> None) \<and> infer_class cs \<noteq> infer_class (concat css)"
      then obtain y where y: "y \<in> set cs" "cell_kind y \<noteq> None" by blast
      have lt: "infer_class cs < infer_class (concat css)" using d infer_class_mono [OF sub] by simp
      then obtain z where z: "z \<in> set (concat css)" "cell_kind z = Some (infer_class (concat css))"
        using infer_class_max [of "concat css"] by auto
      have "cell_kind y \<noteq> cell_kind z"
        using z(2) lt infer_class_max [of cs] y by force
      with y z sub show ?thesis unfolding mixed_def clash_def by blast
    qed
  next
    assume "mixed (concat css)"
    then obtain x y where xy: "x \<in> set (concat css)" "y \<in> set (concat css)" "clash x y" by (auto simp: mixed_def)
    then obtain m n where k: "cell_kind x = Some m" "cell_kind y = Some n" "m \<noteq> n" by (auto simp: clash_def)
    have "\<exists>z \<in> set (concat css). \<exists>j. cell_kind z = Some j \<and> j \<noteq> infer_class (concat css)"
      using k xy by metis
    then obtain z cs j where z: "cs \<in> set css" "z \<in> set cs" "cell_kind z = Some j" "j \<noteq> infer_class (concat css)"
      by auto
    show "merge_promoted (map scan_col css)"
    proof (cases "infer_class cs = infer_class (concat css)")
      case False
      with z show ?thesis unfolding lhs by force
    next
      case True
      with z infer_class_max [of cs] have "infer_class cs \<noteq> 0" by force
      with infer_class_max [of cs] obtain w where "w \<in> set cs" "cell_kind w = Some (infer_class cs)" by blast
      with True z have "mixed cs" unfolding mixed_def clash_def by force
      with z(1) show ?thesis unfolding lhs by blast
    qed
  qed
qed

lemma exact_ints_chunk: "exact_ints (concat css) \<Longrightarrow> cs \<in> set css \<Longrightarrow> exact_ints cs"
  by (rule exact_ints_subset) auto

lemma conv_chunk_slots:
  assumes "exact_ints (concat css)" "cs \<in> set css"
  shows "map (map_option (conv (infer_class (concat css)))) (column_slots cs)
    = map (map_option (conv (infer_class (concat css))) \<circ> cell_slot) cs"
proof -
  let ?t = "infer_class (concat css)" and ?k = "infer_class cs"
  have le: "?k \<le> ?t" "?t \<le> 2" using assms(2) infer_class_le infer_class_mono [of cs "concat css"] by auto
  have "map_option (conv ?t) (map_option (conv ?k) (cell_slot x)) = map_option (conv ?t) (cell_slot x)"
    if x: "x \<in> set cs" for x
  proof (cases "cell_slot x")
    case (Some s)
    have "conv ?t (conv ?k s) = conv ?t s"
    proof (rule conv_conv [OF le])
      fix i assume "s = SlInt i" "?k = 1" "?t = 2"
      with Some have "x = CellInt i" by (cases x) simp_all
      moreover have "list_ex is_float_cell (concat css)" "list_ex is_textual (concat css)"
        using \<open>?k = 1\<close> \<open>?t = 2\<close> assms(2) by (auto simp: infer_class_def list_ex_iff split: if_splits)
      ultimately show "prints_exactly i" using assms x by (auto simp: exact_ints_def)
    qed
    with Some show ?thesis by simp
  qed simp
  then show ?thesis
    unfolding column_slots_exact [OF exact_ints_chunk [OF assms]] by simp
qed

lemma merge_scan_rep:
  assumes ne: "css \<noteq> []" and len: "length (concat css) < 2 ^ 32" and ex: "exact_ints (concat css)"
  shows "\<exists>acc. merge_col (map scan_col css) = Ok acc
    \<and> acol_rep acc (infer_class (concat css)) (column_slots (concat css))
    \<and> promoted acc = promoted (scan_col (concat css)) \<and> saw_blob acc = saw_blob (scan_col (concat css))
    \<and> text_valid acc = list_all (\<lambda>cs. text_valid (scan_col cs)) css"
proof -
  let ?t = "infer_class (concat css)"
  have small: "length cs < 2 ^ 32" if "cs \<in> set css" for cs
    using length_chunk [OF that] len by simp
  have parts: "list_all2 part_rep (map scan_col css) (map (\<lambda>cs. (infer_class cs, column_slots cs)) css)"
    using part_rep_scan [OF small] by (simp add: list_all2_map1 list_all2_map2 list_all2_same)
  obtain acc where acc: "merge_col (map scan_col css) = Ok acc"
    "acol_rep acc ?t (concat (map (\<lambda>cs. map (map_option (conv ?t)) (column_slots cs)) css))"
    "promoted acc = merge_promoted (map scan_col css)" "saw_blob acc = list_ex saw_blob (map scan_col css)"
    "text_valid acc = list_all text_valid (map scan_col css)"
    using merge_col_rep [OF parts] ne unfolding merge_target_scan [OF len] by (auto simp: o_def)
  have "concat (map (\<lambda>cs. map (map_option (conv ?t)) (column_slots cs)) css)
      = concat (map (\<lambda>cs. map (map_option (conv ?t) \<circ> cell_slot) cs) css)"
    using conv_chunk_slots [OF ex] by (intro arg_cong [where f = concat] map_cong) simp_all
  also have "\<dots> = column_slots (concat css)"
    by (simp add: column_slots_exact [OF ex] map_concat)
  finally have slots: "concat (map (\<lambda>cs. map (map_option (conv ?t)) (column_slots cs)) css) = column_slots (concat css)" .
  have "saw_blob (scan_col cs) \<longleftrightarrow> (\<exists>b. CellBlob b \<in> set cs)" if "length cs < 2 ^ 32" for cs
    using fold_push_flags(2) [OF that] by (simp add: scan_col_def)
  then have "list_ex saw_blob (map scan_col css) \<longleftrightarrow> saw_blob (scan_col (concat css))"
    using small len by (auto simp: list_ex_iff)
  moreover have "promoted (scan_col (concat css)) \<longleftrightarrow> mixed (concat css)"
    using fold_push_flags(1) [OF len] by (simp add: scan_col_def)
  ultimately show ?thesis
    using acc slots merge_promoted_scan [OF len] by (auto simp: list.pred_map o_def)
qed

lemma merge_scan_valid:
  assumes ne: "css \<noteq> []" and len: "length (concat css) < 2 ^ 32" and ex: "exact_ints (concat css)"
    and utf: "\<And>t. CellText t \<in> set (concat css) \<Longrightarrow> valid_utf8 t"
  shows "\<exists>acc. merge_col (map scan_col css) = Ok acc
    \<and> acol_rep acc (infer_class (concat css)) (column_slots (concat css))
    \<and> promoted acc = promoted (scan_col (concat css)) \<and> saw_blob acc = saw_blob (scan_col (concat css))
    \<and> text_valid acc = text_valid (scan_col (concat css))"
proof -
  have valid: "text_valid (scan_col cs)" if "length cs < 2 ^ 32" "set cs \<subseteq> set (concat css)" for cs
  proof -
    have "list_all slot_valid (column_slots cs)" using utf that(2) by (intro column_slots_valid) blast
    from text_valid_validate [OF fold_push_rep [OF that(1)] fold_push_flags(3) [OF that(1)] this]
    show ?thesis by (simp add: scan_col_def)
  qed
  obtain acc where acc: "merge_col (map scan_col css) = Ok acc"
    "acol_rep acc (infer_class (concat css)) (column_slots (concat css))"
    "promoted acc = promoted (scan_col (concat css))" "saw_blob acc = saw_blob (scan_col (concat css))"
    "text_valid acc = list_all (\<lambda>cs. text_valid (scan_col cs)) css"
    using merge_scan_rep [OF ne len ex] by blast
  have "text_valid (scan_col cs)" if "cs \<in> set css" for cs
  proof (rule valid)
    show "length cs < 2 ^ 32" using length_chunk [OF that] len by simp
    show "set cs \<subseteq> set (concat css)" using that by auto
  qed
  then have "text_valid acc = text_valid (scan_col (concat css))"
    using acc(5) valid [OF len] by (simp add: list_all_iff)
  with acc show ?thesis by blast
qed

text \<open>
  C2: Splitting a scan into ranges, building one column for each and merging them gives the very
  column one scan of all the rows gives, with the same flags. It holds when every text is valid
  UTF-8 and, if the column mixes integers, floats and text, every integer prints the same through a
  float (all integers up to 2^53 do).
\<close>

theorem merge_ranges_serial:
  assumes ne: "css \<noteq> []" and len: "length (concat css) < 2 ^ 32" and ex: "exact_ints (concat css)"
    and utf: "\<And>t. CellText t \<in> set (concat css) \<Longrightarrow> valid_utf8 t"
  shows "\<exists>acc. merge_col (map scan_col css) = Ok acc
    \<and> a_finish nm acc = a_finish nm (scan_col (concat css))
    \<and> promoted acc = promoted (scan_col (concat css)) \<and> saw_blob acc = saw_blob (scan_col (concat css))"
  using merge_scan_valid [OF ne len ex utf] acol_rep_finish [OF _ scan_col_rep [OF len]] by blast

lemma merge_ranges_serial_witness:
  "\<exists>acc. merge_col (map scan_col [[CellInt 1, CellNull], [CellText [97]]]) = Ok acc
    \<and> a_finish ''x'' acc = a_finish ''x'' (scan_col [CellInt 1, CellNull, CellText [97]])"
proof -
  let ?css = "[[CellInt 1, CellNull], [CellText [97]]]"
  have "exact_ints (concat ?css)" by (simp add: exact_ints_def)
  moreover have "valid_utf8 t" if "CellText t \<in> set (concat ?css)" for t
    using that by (simp add: valid_utf8_ascii)
  ultimately show ?thesis using merge_ranges_serial [of ?css "''x''"] by auto
qed

end
