(* ===== verification/Sorting.thy ===== *)
theory Sorting
  imports AdaptiveRead "HOL-Library.Multiset"
begin

text \<open>
  Ordering the columns of a result by a key (\<open>is_sorted\<close>, \<open>permute\<close>, \<open>sort_built\<close> of \<open>client.rs\<close>).
  Rust's unstable sort may order equal elements in any way, so the sort is an argument of the model and
  \<open>unstable_sort\<close> states what the standard library documents of it. The locale \<open>key_order\<close> is the
  interface of the three key types.
\<close>

section \<open>Key orders\<close>

text \<open>A comparison, turned round for a descending sort.\<close>

definition flip :: "bool \<Rightarrow> ('k \<Rightarrow> 'k \<Rightarrow> bool) \<Rightarrow> 'k \<Rightarrow> 'k \<Rightarrow> bool" where
  "flip desc le a b = (if desc then le b a else le a b)"

locale key_order =
  fixes le :: "'k \<Rightarrow> 'k \<Rightarrow> bool"
  assumes total: "le a b \<or> le b a"
    and trans: "le a b \<Longrightarrow> le b c \<Longrightarrow> le a c"
begin

lemma flip_trans: "flip desc le a b \<Longrightarrow> flip desc le b c \<Longrightarrow> flip desc le a c"
  using trans by (auto simp: flip_def split: if_splits)

lemma flip_total: "flip desc le a b \<or> flip desc le b a"
  using total by (auto simp: flip_def)

text \<open>Comparing neighbours is enough.\<close>

lemma successively_sorted: "successively (flip desc le) xs \<longleftrightarrow> sorted_wrt (flip desc le) xs"
  by (rule successively_iff_sorted_wrt_strong) (blast intro: flip_trans)

end

definition i64_le :: "i64 \<Rightarrow> i64 \<Rightarrow> bool" where
  "i64_le a b \<longleftrightarrow> sint a \<le> sint b"

definition f64_le :: "f64 \<Rightarrow> f64 \<Rightarrow> bool" where
  "f64_le a b \<longleftrightarrow> f64_key a \<le> f64_key b"

text \<open>The order of byte slices: lexicographic.\<close>

fun bytes_le :: "bytes \<Rightarrow> bytes \<Rightarrow> bool" where
  "bytes_le [] ys \<longleftrightarrow> True"
| "bytes_le (x # xs) [] \<longleftrightarrow> False"
| "bytes_le (x # xs) (y # ys) \<longleftrightarrow> x < y \<or> x = y \<and> bytes_le xs ys"

lemma bytes_le_total: "bytes_le a b \<or> bytes_le b a"
  by (induction a b rule: bytes_le.induct) (auto simp: neq_iff)

lemma bytes_le_trans: "bytes_le a b \<Longrightarrow> bytes_le b c \<Longrightarrow> bytes_le a c"
proof (induction a b arbitrary: c rule: bytes_le.induct)
  case (3 x xs y ys)
  then show ?case by (cases c) (auto dest: less_trans)
qed auto

interpretation int_order: key_order i64_le
  by unfold_locales (auto simp: i64_le_def)

interpretation float_order: key_order f64_le
  by unfold_locales (auto simp: f64_le_def)

interpretation text_order: key_order bytes_le
  by unfold_locales (use bytes_le_total bytes_le_trans in blast)+

section \<open>The code\<close>

definition is_sorted :: "adaptive_data \<Rightarrow> bool \<Rightarrow> bool" where
  "is_sorted d desc =
     (case d of
        AInt v \<Rightarrow> successively (flip desc i64_le) v
      | AFloat v \<Rightarrow> successively (flip desc f64_le) v
      | AStr offs data \<Rightarrow>
          list_all (\<lambda>i. flip desc bytes_le (seg_at offs data (i - 1)) (seg_at offs data i))
                   [1..<length offs - 1])"

definition index_le :: "adaptive_data \<Rightarrow> bool \<Rightarrow> u32 \<Rightarrow> u32 \<Rightarrow> bool" where
  "index_le d desc a b =
     (case d of
        AInt v \<Rightarrow> flip desc i64_le (v ! unat a) (v ! unat b)
      | AFloat v \<Rightarrow> flip desc f64_le (v ! unat a) (v ! unat b)
      | AStr offs data \<Rightarrow> flip desc bytes_le (seg_at offs data (unat a)) (seg_at offs data (unat b)))"

definition sort_built ::
  "((u32 \<Rightarrow> u32 \<Rightarrow> bool) \<Rightarrow> u32 list \<Rightarrow> u32 list) \<Rightarrow>
   adaptive_col list \<Rightarrow> string list \<Rightarrow> string \<Rightarrow> bool \<Rightarrow> adaptive_col list option" where
  "sort_built usort builders names key desc =
     (case position (\<lambda>n. eq_ignore_ascii_case n key) names of
        None \<Rightarrow> None
      | Some key_idx \<Rightarrow>
          (let k = builders ! key_idx in
           if promoted k \<or> saw_blob k \<or> nulls k \<noteq> [] then None
           else if a_len k < 2 \<or> is_sorted (a_data k) desc then Some builders
           else Some (map (permute (usort (index_le (a_data k) desc) (map word_of_nat [0..<a_len k]))) builders)))"

text \<open>What the standard library documents of \<open>sort_unstable_by\<close>: a sorted rearrangement, for a comparator that is a total preorder.\<close>

definition unstable_sort :: "(('a \<Rightarrow> 'a \<Rightarrow> bool) \<Rightarrow> 'a list \<Rightarrow> 'a list) \<Rightarrow> bool" where
  "unstable_sort usort \<longleftrightarrow>
     (\<forall>le xs. (\<forall>a b. le a b \<or> le b a) \<longrightarrow> (\<forall>a b c. le a b \<longrightarrow> le b c \<longrightarrow> le a c) \<longrightarrow>
        mset (usort le xs) = mset xs \<and> sorted_wrt le (usort le xs))"

text \<open>One such sort.\<close>

fun insert_by :: "('a \<Rightarrow> 'a \<Rightarrow> bool) \<Rightarrow> 'a \<Rightarrow> 'a list \<Rightarrow> 'a list" where
  "insert_by le x [] = [x]"
| "insert_by le x (y # ys) = (if le x y then x # y # ys else y # insert_by le x ys)"

definition insertion_sort :: "('a \<Rightarrow> 'a \<Rightarrow> bool) \<Rightarrow> 'a list \<Rightarrow> 'a list" where
  "insertion_sort le xs = foldr (insert_by le) xs []"

lemma mset_insert_by [simp]: "mset (insert_by le x ys) = add_mset x (mset ys)"
  by (induction ys) simp_all

lemma set_insert_by [simp]: "set (insert_by le x ys) = insert x (set ys)"
  by (metis mset_insert_by set_mset_add_mset_insert set_mset_mset)

lemma unstable_insertion_sort: "unstable_sort insertion_sort"
  unfolding unstable_sort_def
proof (intro allI impI)
  fix le :: "'a \<Rightarrow> 'a \<Rightarrow> bool" and xs
  assume tot: "\<forall>a b. le a b \<or> le b a" and tr: "\<forall>a b c. le a b \<longrightarrow> le b c \<longrightarrow> le a c"
  have "sorted_wrt le (insert_by le x ys)" if "sorted_wrt le ys" for x ys
    using that by (induction ys) (use tot tr in \<open>auto; blast\<close>)+
  then have "sorted_wrt le (insertion_sort le xs)" by (induction xs) (simp_all add: insertion_sort_def)
  moreover have "mset (insertion_sort le xs) = mset xs" by (induction xs) (simp_all add: insertion_sort_def)
  ultimately show "mset (insertion_sort le xs) = mset xs \<and> sorted_wrt le (insertion_sort le xs)" by blast
qed

section \<open>Slots in order\<close>

text \<open>The order of the values of one column.\<close>

fun slot_le :: "slot \<Rightarrow> slot \<Rightarrow> bool" where
  "slot_le (SlInt a) (SlInt b) \<longleftrightarrow> i64_le a b"
| "slot_le (SlFloat a) (SlFloat b) \<longleftrightarrow> f64_le a b"
| "slot_le (SlText a) (SlText b) \<longleftrightarrow> bytes_le a b"
| "slot_le a b \<longleftrightarrow> slot_class a \<le> slot_class b"

interpretation slot_order: key_order slot_le
proof
  show "slot_le a b \<or> slot_le b a" for a b
    using int_order.total float_order.total text_order.total by (cases a; cases b) auto
  show "slot_le a b \<Longrightarrow> slot_le b c \<Longrightarrow> slot_le a c" for a b c
    by (cases a; cases b; cases c)
      (auto dest: int_order.trans float_order.trans text_order.trans)
qed

definition ordered_slots :: "bool \<Rightarrow> slot option list \<Rightarrow> bool" where
  "ordered_slots desc vs \<longleftrightarrow> sorted_wrt (\<lambda>a b. flip desc slot_le (the a) (the b)) vs"

section \<open>Reordering\<close>

lemma gather_segs_rep:
  assumes "repr_segs offs data segs" "length data < 2 ^ 32" "\<forall>i \<in> set idx. unat i < length segs"
    and "repr_segs no nd ps"
  shows "case gather_segs offs data idx no nd of (a, b) \<Rightarrow> repr_segs a b (ps @ map (\<lambda>i. segs ! unat i) idx)"
  using assms(3,4)
proof (induction idx arbitrary: no nd ps)
  case Nil
  then show ?case by simp
next
  case (Cons i idx)
  then have "seg_at offs data (unat i) = segs ! unat i"
    using seg_at_repr [OF assms(1,2)] by simp
  with Cons repr_segs_push [OF Cons.prems(2), of "segs ! unat i"] show ?case
    by (simp add: Let_def)
       (use Cons.IH [of _ _ "ps @ [segs ! unat i]"] in fastforce)
qed

lemma fold_set_true:
  "\<forall>i \<in> set is. i < length m \<Longrightarrow> length m < 2 ^ 32 \<Longrightarrow>
    fold (\<lambda>i m. m[unat i := True]) (map word_of_nat is :: u32 list) m
      = map (\<lambda>j. m ! j \<or> j \<in> set is) [0..<length m]"
proof (induction "is" arbitrary: m)
  case Nil
  then show ?case by (simp add: map_nth)
next
  case (Cons i "is")
  then have u: "unat (word_of_nat i :: u32) = i" by (simp add: unat_of_nat take_bit_eq_mod)
  from Cons have "fold (\<lambda>i m. m[unat i := True]) (map word_of_nat is :: u32 list) (m[i := True])
      = map (\<lambda>j. m[i := True] ! j \<or> j \<in> set is) [0..<length m]" by simp
  also have "\<dots> = map (\<lambda>j. m ! j \<or> j \<in> set (i # is)) [0..<length m]"
    using Cons.prems by (intro map_cong refl) (auto simp: nth_list_update)
  finally show ?case by (simp add: u)
qed

definition sized :: "slot option list \<Rightarrow> bool" where
  "sized vs \<longleftrightarrow> length vs < 2 ^ 32 \<and> length (concat (map text_of vs)) < 2 ^ 32"

lemma data_rep_permute:
  assumes "data_rep d k vs" "sized vs" "\<forall>i \<in> set idx. unat i < length vs"
  shows "data_rep (case d of
       AInt v \<Rightarrow> AInt (map (\<lambda>i. v ! unat i) idx)
     | AFloat v \<Rightarrow> AFloat (map (\<lambda>i. v ! unat i) idx)
     | AStr offs data \<Rightarrow> (case gather_segs offs data idx [0] [] of (no, nd) \<Rightarrow> AStr no nd))
     k (map (\<lambda>i. vs ! unat i) idx)"
proof (cases d)
  case (AStr offs data)
  then have r: "repr_segs offs data (map text_of vs)" "k = 2" using assms(1) by simp_all
  then have "length data < 2 ^ 32" using assms(2) by (simp add: repr_segs_def sized_def)
  with gather_segs_rep [OF r(1), of idx "[0]" "[]" "[]"] assms(3)
  have "case gather_segs offs data idx [0] [] of (a, b) \<Rightarrow> repr_segs a b (map (\<lambda>i. map text_of vs ! unat i) idx)"
    by simp
  moreover have "map (\<lambda>i. map text_of vs ! unat i) idx = map text_of (map (\<lambda>i. vs ! unat i) idx)"
    using assms(3) by simp
  ultimately show ?thesis using AStr r(2) by (auto split: prod.splits)
qed (use assms in auto)

lemma permute_rep:
  assumes rep: "acol_rep c k vs" and sz: "sized vs" and len: "length idx = length vs"
    and idx: "\<forall>i \<in> set idx. unat i < length vs"
  shows "acol_rep (permute idx c) k (map (\<lambda>i. vs ! unat i) idx)"
proof -
  let ?ws = "map (\<lambda>i. vs ! unat i) idx"
  have d: "data_rep (a_data (permute idx c)) k ?ws"
    using data_rep_permute [of "a_data c" k vs idx] rep sz idx by (simp add: acol_rep_def permute_def Let_def)
  have cls: "of_class k ?ws"
    using rep idx unfolding acol_rep_def of_class_def by (auto simp: image_iff)
  have null: "nulls (permute idx c) = map word_of_nat (null_index ?ws)"
  proof (cases "nulls c = []")
    case True
    then have "None \<notin> set vs" using rep by (simp add: acol_rep_def null_index_eq_Nil)
    then have "None \<notin> set ?ws" using idx nth_mem by (fastforce simp: image_iff)
    then have "null_index ?ws = []" by (rule null_index_eq_Nil [THEN iffD2])
    with True show ?thesis by (simp add: permute_def)
  next
    case False
    have "\<forall>i \<in> set (null_index vs). i < length (replicate (length vs) False)" by (simp add: null_index_def)
    from fold_set_true [OF this] sz
    have "fold (\<lambda>i m. m[unat i := True]) (nulls c) (replicate (a_len c) False)
        = map (\<lambda>j. replicate (length vs) False ! j \<or> j \<in> set (null_index vs)) [0..<length vs]"
      using rep by (simp add: acol_rep_def sized_def)
    also have "\<dots> = map (\<lambda>v. v = None) vs"
      by (rule nth_equalityI) (simp_all add: null_index_def)
    finally have m: "fold (\<lambda>i m. m[unat i := True]) (nulls c) (replicate (a_len c) False) = map (\<lambda>v. v = None) vs" .
    have "filter (\<lambda>r. map (\<lambda>v. v = None) vs ! unat (idx ! r)) [0..<length idx] = null_index ?ws"
      unfolding null_index_def length_map using idx by (intro filter_cong) simp_all
    with False m show ?thesis by (simp add: permute_def Let_def)
  qed
  show ?thesis
    using d cls null rep len by (simp add: acol_rep_def permute_def Let_def)
qed

section \<open>Sortedness\<close>

lemma successively_conv_nth: "successively P xs \<longleftrightarrow> (\<forall>i. Suc i < length xs \<longrightarrow> P (xs ! i) (xs ! Suc i))"
  by (simp add: successively_conv_nth)

text \<open>Comparing the keys of a column without nulls is comparing its slots.\<close>

lemma key_compare:
  assumes rep: "acol_rep c k vs" and sz: "sized vs" and nn: "None \<notin> set vs" and i: "i < length vs" "j < length vs"
  shows "case a_data c of
      AInt v \<Rightarrow> flip desc i64_le (v ! i) (v ! j) = flip desc slot_le (the (vs ! i)) (the (vs ! j))
    | AFloat v \<Rightarrow> flip desc f64_le (v ! i) (v ! j) = flip desc slot_le (the (vs ! i)) (the (vs ! j))
    | AStr offs data \<Rightarrow> flip desc bytes_le (seg_at offs data i) (seg_at offs data j)
        = flip desc slot_le (the (vs ! i)) (the (vs ! j))"
proof -
  obtain s t where st: "vs ! i = Some s" "vs ! j = Some t" using nn i nth_mem by (metis option.exhaust)
  have "Some s \<in> set vs" "Some t \<in> set vs" using st i nth_mem by metis+
  then have cls: "slot_class s = k" "slot_class t = k" using rep by (auto simp: acol_rep_def of_class_def)
  show ?thesis
  proof (cases "a_data c")
    case (AInt v)
    with rep cls obtain a b where "s = SlInt a" "t = SlInt b" "v = map int_of vs"
      by (cases s; cases t) (auto simp: acol_rep_def)
    with AInt st i show ?thesis by (simp add: flip_def)
  next
    case (AFloat v)
    with rep cls obtain a b where "s = SlFloat a" "t = SlFloat b" "v = map float_of vs"
      by (cases s; cases t) (auto simp: acol_rep_def)
    with AFloat st i show ?thesis by (simp add: flip_def)
  next
    case (AStr offs data)
    with rep cls obtain a b where ab: "s = SlText a" "t = SlText b" "repr_segs offs data (map text_of vs)"
      by (cases s; cases t) (auto simp: acol_rep_def)
    then have "length data < 2 ^ 32" using sz by (simp add: repr_segs_def sized_def)
    with AStr st i ab seg_at_repr [OF ab(3)] show ?thesis by (simp add: flip_def)
  qed
qed

lemma is_sorted_rep:
  assumes rep: "acol_rep c k vs" and sz: "sized vs" and nn: "None \<notin> set vs"
  shows "is_sorted (a_data c) desc \<longleftrightarrow> ordered_slots desc vs"
proof -
  note key = key_compare [OF rep sz nn, where desc = desc]
  have tr: "transp (\<lambda>a b. flip desc slot_le (the a) (the b))"
    by (rule transpI) (rule slot_order.flip_trans)
  have ord: "ordered_slots desc vs \<longleftrightarrow>
      (\<forall>i. Suc i < length vs \<longrightarrow> flip desc slot_le (the (vs ! i)) (the (vs ! Suc i)))"
    unfolding ordered_slots_def successively_conv_sorted_wrt [OF tr, symmetric] successively_conv_nth ..
  show ?thesis
  proof (cases "a_data c")
    case (AInt v)
    then have "length v = length vs" using rep by (auto simp: acol_rep_def)
    with AInt key show ?thesis by (auto simp: is_sorted_def ord successively_conv_nth)
  next
    case (AFloat v)
    then have "length v = length vs" using rep by (auto simp: acol_rep_def)
    with AFloat key show ?thesis by (auto simp: is_sorted_def ord successively_conv_nth)
  next
    case (AStr offs data)
    then have len: "length offs = Suc (length vs)" using rep by (auto simp: acol_rep_def dest: repr_segs_length)
    have "(\<forall>i \<in> set [1..<length vs]. P (i - 1) i) \<longleftrightarrow> (\<forall>i. Suc i < length vs \<longrightarrow> P i (Suc i))" for P
    proof
      assume a: "\<forall>i \<in> set [1..<length vs]. P (i - 1) i"
      show "\<forall>i. Suc i < length vs \<longrightarrow> P i (Suc i)"
      proof (intro allI impI)
        fix i assume "Suc i < length vs"
        then show "P i (Suc i)" using a [rule_format, of "Suc i"] by simp
      qed
    next
      assume a: "\<forall>i. Suc i < length vs \<longrightarrow> P i (Suc i)"
      show "\<forall>i \<in> set [1..<length vs]. P (i - 1) i"
      proof
        fix i assume "i \<in> set [1..<length vs]"
        then show "P (i - 1) i" using a [rule_format, of "i - 1"] by simp
      qed
    qed
    then have "is_sorted (a_data c) desc \<longleftrightarrow>
        (\<forall>i. Suc i < length vs \<longrightarrow> flip desc bytes_le (seg_at offs data i) (seg_at offs data (Suc i)))"
      by (simp add: AStr is_sorted_def list_all_iff len)
    with AStr key show ?thesis by (auto simp: ord)
  qed
qed

section \<open>The sorted result\<close>

lemma sort_built_index:
  assumes us: "unstable_sort usort" and rep: "acol_rep c k vs" and sz: "sized vs" and nn: "None \<notin> set vs"
  obtains idx where
    "usort (index_le (a_data c) desc) (map word_of_nat [0..<length vs]) = idx"
    "length idx = length vs" "\<forall>i \<in> set idx. unat i < length vs"
    "mset (map unat idx) = mset [0..<length vs]"
    "ordered_slots desc (map (\<lambda>i. vs ! unat i) idx)"
proof -
  let ?le = "index_le (a_data c) desc" and ?xs = "map word_of_nat [0..<length vs] :: u32 list"
  let ?idx = "usort ?le ?xs"
  have idx_le: "?le a b \<longleftrightarrow> flip desc slot_le (the (vs ! unat a)) (the (vs ! unat b))"
    if "unat a < length vs" "unat b < length vs" for a b
    using key_compare [OF rep sz nn that, of desc] by (cases "a_data c") (simp_all add: index_le_def)
  have "?le a b \<or> ?le b a" for a b
    using int_order.flip_total float_order.flip_total text_order.flip_total
    by (cases "a_data c") (auto simp: index_le_def)
  moreover have "?le a b \<Longrightarrow> ?le b d \<Longrightarrow> ?le a d" for a b d
    by (cases "a_data c")
      (auto simp: index_le_def intro: int_order.flip_trans float_order.flip_trans text_order.flip_trans)
  ultimately have "mset ?idx = mset ?xs \<and> sorted_wrt ?le ?idx"
    using us unfolding unstable_sort_def by blast
  then have m: "mset ?idx = mset ?xs" and sorted: "sorted_wrt ?le ?idx" by blast+
  have u: "map unat ?xs = [0..<length vs]"
    using sz by (intro nth_equalityI) (simp_all add: sized_def unat_of_nat take_bit_eq_mod)
  have "mset (map unat ?idx) = image_mset unat (mset ?xs)" by (simp only: mset_map m)
  also have "\<dots> = mset (map unat ?xs)" by (simp only: mset_map)
  finally have mu: "mset (map unat ?idx) = mset [0..<length vs]" by (simp only: u)
  have bound: "\<forall>i \<in> set ?idx. unat i < length vs"
    using mset_eq_setD [OF mu] by (auto simp: set_eq_iff image_iff)
  have "sorted_wrt (\<lambda>a b. flip desc slot_le (the (vs ! unat a)) (the (vs ! unat b))) ?idx"
  proof (rule sorted_wrt_mono_rel [OF _ sorted])
    fix a b assume "a \<in> set ?idx" "b \<in> set ?idx" "?le a b"
    with bound idx_le [of a b] show "flip desc slot_le (the (vs ! unat a)) (the (vs ! unat b))" by simp
  qed
  then have "ordered_slots desc (map (\<lambda>i. vs ! unat i) ?idx)"
    by (simp add: ordered_slots_def sorted_wrt_map)
  moreover have "length ?idx = length vs" using mset_eq_length [OF m] by simp
  ultimately show thesis using that bound mu by blast
qed

text \<open>
  C35: Ordering a result in the client gives what the ORDER BY asked for: when \<open>sort_built\<close> returns
  columns, every column is rearranged by one and the same permutation of the rows, and the key
  column is in order (descending if asked). This holds for any sort the standard library may use.
\<close>

theorem sort_built_sorts:
  assumes us: "unstable_sort usort"
    and reps: "list_all2 (\<lambda>b (k, vs). acol_rep b k vs \<and> sized vs \<and> length vs = n) builders reps"
    and names: "length names = length builders"
    and res: "sort_built usort builders names key desc = Some out"
  shows "\<exists>perm j. mset perm = mset [0..<n] \<and> j < length names \<and> eq_ignore_ascii_case (names ! j) key
    \<and> list_all2 (\<lambda>b (k, vs). acol_rep b k (map (\<lambda>i. vs ! i) perm)) out reps
    \<and> ordered_slots desc (map (\<lambda>i. snd (reps ! j) ! i) perm)"
proof -
  from res obtain j where j: "position (\<lambda>n. eq_ignore_ascii_case n key) names = Some j"
    by (auto simp: sort_built_def split: option.splits)
  note pos = position_Some [OF j]
  let ?k = "builders ! j" and ?vs = "snd (reps ! j)"
  have lens: "length builders = length reps" using reps by (simp add: list_all2_lengthD)
  have jb: "j < length builders" using pos names by simp
  have rep: "acol_rep (builders ! i) (fst (reps ! i)) (snd (reps ! i))" "sized (snd (reps ! i))" "length (snd (reps ! i)) = n"
    if "i < length builders" for i
    using list_all2_nthD [OF reps that] by (cases "reps ! i"; simp)+
  note rj = rep [OF jb]
  have nn: "None \<notin> set ?vs"
    using res rj(1) j by (auto simp: sort_built_def Let_def acol_rep_def null_index_eq_Nil split: if_splits)
  have id: "map (\<lambda>i. vs ! i) [0..<n] = vs" if "length vs = n" for vs :: "slot option list"
    using that map_nth by metis
  show ?thesis
  proof (cases "a_len ?k < 2 \<or> is_sorted (a_data ?k) desc")
    case True
    then have "out = builders" using res j by (simp add: sort_built_def Let_def split: if_splits)
    moreover have "ordered_slots desc ?vs"
    proof (cases "is_sorted (a_data ?k) desc")
      case True
      with is_sorted_rep [OF rj(1,2) nn] show ?thesis by simp
    next
      case False
      with True rj(1) have "length ?vs < 2" by (simp add: acol_rep_def)
      then show ?thesis by (cases ?vs) (auto simp: ordered_slots_def)
    qed
    moreover have "list_all2 (\<lambda>b (k, vs). acol_rep b k (map (\<lambda>i. vs ! i) [0..<n])) builders reps"
      using reps by (rule list_all2_mono) (auto simp: map_nth)
    ultimately show ?thesis
      using pos rj(3) id [of ?vs] by (intro exI [of _ "[0..<n]"] exI [of _ j]) simp
  next
    case False
    obtain idx where idx: "usort (index_le (a_data ?k) desc) (map word_of_nat [0..<length ?vs]) = idx"
      "length idx = length ?vs" "\<forall>i \<in> set idx. unat i < length ?vs"
      "mset (map unat idx) = mset [0..<length ?vs]" "ordered_slots desc (map (\<lambda>i. ?vs ! unat i) idx)"
      using sort_built_index [OF us rj(1,2) nn] by blast
    have "a_len ?k = length ?vs" using rj(1) by (simp add: acol_rep_def)
    then have s: "out = map (permute idx) builders"
      using res j False idx(1) by (simp add: sort_built_def Let_def split: if_splits)
    have "list_all2 (\<lambda>b (k, vs). acol_rep b k (map (\<lambda>i. vs ! i) (map unat idx))) out reps"
      unfolding s list_all2_map1 using reps
    proof (rule list_all2_mono)
      fix b r assume "case r of (k, vs) \<Rightarrow> acol_rep b k vs \<and> sized vs \<and> length vs = n"
      then show "case r of (k, vs) \<Rightarrow> acol_rep (permute idx b) k (map (\<lambda>i. vs ! i) (map unat idx))"
        using permute_rep [of b "fst r" "snd r" idx] idx(2,3) rj(3) by (auto simp: o_def split: prod.splits)
    qed
    with idx(4,5) rj(3) pos show ?thesis
      by (intro exI [of _ "map unat idx"] exI [of _ j]) (simp add: o_def)
  qed
qed

lemma sort_built_sorts_witness:
  "\<exists>out perm. sort_built insertion_sort [scan_col [CellInt 2, CellInt 1]] [''id''] ''ID'' False = Some out
    \<and> mset perm = mset [0..<2] \<and> ordered_slots False (map (\<lambda>i. [Some (SlInt 2), Some (SlInt 1)] ! i) perm)"
proof -
  let ?cells = "[CellInt 2, CellInt 1]"
  have sl: "column_slots ?cells = [Some (SlInt 2), Some (SlInt 1)]" by code_simp
  have inf: "infer_class ?cells = 0" by code_simp
  have rep: "acol_rep (scan_col ?cells) 0 [Some (SlInt 2), Some (SlInt 1)]"
    using scan_col_rep [of ?cells] by (simp add: sl inf)
  then have reps: "list_all2 (\<lambda>b (k, vs). acol_rep b k vs \<and> sized vs \<and> length vs = 2)
      [scan_col ?cells] [(0, [Some (SlInt 2), Some (SlInt 1)])]"
    by (simp add: sized_def)
  have "sort_built insertion_sort [scan_col ?cells] [''id''] ''ID'' False \<noteq> None" by code_simp
  then obtain out where out: "sort_built insertion_sort [scan_col ?cells] [''id''] ''ID'' False = Some out" by blast
  from sort_built_sorts [OF unstable_insertion_sort reps _ out] out show ?thesis by auto
qed

end
