(* ===== verification/Scan.thy ===== *)
theory Scan
  imports StrOps Cache EncodeParts Merge Sorting "HOL-Library.Signed_Division"
begin

text \<open>
  Running one SELECT on SQLite (\<open>client.rs\<close>, lines 630-1052, 1181-1342): streaming rows into adaptive
  columns, the rewriting of a trailing ORDER BY, the range-partitioned parallel scan and the direct
  encoding of its chunks. SQLite itself is an argument: a connection maps the text of a statement to what
  preparing it gives, and a prepared statement maps parameters to the rows it steps through.
\<close>

section \<open>Connections\<close>

record prepared =
  p_readonly :: bool
  p_nparams :: nat
  p_names :: "string list"
  p_bind :: "sql_value list \<Rightarrow> string option"
  p_step :: "sql_value list \<Rightarrow> sq_cell list list \<times> string option"

datatype prep = PrepFail string | PrepEmpty | Prepared prepared

type_synonym conn = "string \<Rightarrow> prep"
type_synonym scan_chunk = "adaptive_col list \<times> string list \<times> bool"
type_synonym scan_chunks = "adaptive_col list list \<times> string list \<times> bool"

section \<open>Streaming\<close>

definition push_row :: "sq_cell list \<Rightarrow> adaptive_col list \<Rightarrow> adaptive_col list" where
  "push_row row bs = map (\<lambda>(x, b). push_cell x b) (zip row bs)"

definition build_columns :: "nat \<Rightarrow> sq_cell list list \<Rightarrow> adaptive_col list" where
  "build_columns ncols rows = map validate_text (fold push_row rows (replicate ncols acol_new))"

definition stream_query :: "conn \<Rightarrow> string \<Rightarrow> sql_value list \<Rightarrow> scan_chunk result" where
  "stream_query conn sql params =
     (if CHR 0x00 \<in> set sql then Err (Database ''SQL contains an interior NUL byte'')
      else (case conn sql of
          PrepFail m \<Rightarrow> Err (Database m)
        | PrepEmpty \<Rightarrow> Err (Database ''empty SQL statement'')
        | Prepared p \<Rightarrow>
            if p_nparams p \<noteq> length params
            then Err (Database (''wrong number of parameters: expected '' @ nat_to_string (p_nparams p)
                   @ '', got '' @ nat_to_string (length params)))
            else (case p_bind p params of
                Some m \<Rightarrow> Err (Database m)
              | None \<Rightarrow>
                  (case p_step p params of
                     (_, Some m) \<Rightarrow> Err (Database m)
                   | (rows, None) \<Rightarrow>
                       Ok (build_columns (length (p_names p)) rows, p_names p, p_readonly p)))))"

section \<open>Statement shapes\<close>

definition rsplit_token :: "string \<Rightarrow> (string \<times> string) option" where
  "rsplit_token s =
     (let trimmed = trim_end s in
      case rfind_ws trimmed of
        None \<Rightarrow> None
      | Some at \<Rightarrow>
          (let token = trim (drop at trimmed)
           in if token \<noteq> [] then Some (take at trimmed, token) else None))"

definition split_simple_order_by :: "string \<Rightarrow> (string \<times> string \<times> bool) option" where
  "split_simple_order_by sql =
     (let s = trim_end sql; s = option_or (strip_suffix s '';'') s in
      case rsplit_token s of
        None \<Rightarrow> None
      | Some (rest, dir) \<Rightarrow>
          (let desc = eq_ignore_ascii_case dir ''DESC'' in
           if \<not> desc \<and> \<not> eq_ignore_ascii_case dir ''ASC'' then None
           else (case rsplit_token rest of
               None \<Rightarrow> None
             | Some (rest, ident) \<Rightarrow>
                 if \<not> is_simple_ident ident then None
                 else (case rsplit_token rest of
                     None \<Rightarrow> None
                   | Some (rest, by_kw) \<Rightarrow>
                       if \<not> eq_ignore_ascii_case by_kw ''BY'' then None
                       else (case rsplit_token rest of
                           None \<Rightarrow> None
                         | Some (rest, order) \<Rightarrow>
                             if \<not> eq_ignore_ascii_case order ''ORDER'' then None
                             else (let inner = trim_end rest
                                   in if inner \<noteq> [] then Some (inner, ident, desc) else None))))))"

definition parse_parallel_shape :: "string \<Rightarrow> (string list \<times> string) option result" where
  "parse_parallel_shape sql =
     (let s = trim sql; s = trim_end (option_or (strip_suffix s '';'') s) in
      if length s < 7 then Ok None
      else if \<not> is_char_boundary s 6 then Panicked
      else if \<not> eq_ignore_ascii_case (take 6 s) ''SELECT'' then Ok None
      else (let rest = trim_start (drop 6 s) in
        case find_ignore_case '' from '' rest of
          None \<Rightarrow> Ok None
        | Some from_pos \<Rightarrow>
            (let cols_part = take from_pos rest; table = trim (drop (from_pos + 6) rest) in
             if \<not> is_simple_ident table then Ok None
             else (let cols = map trim (split_char (CHR '','') cols_part) in
               if cols = [] \<or> list_ex (\<lambda>c. c = []) cols then Ok None
               else if \<not> (cols = [''*''] \<or> list_all is_simple_ident cols) then Ok None
               else Ok (Some (cols, table))))))"

definition is_select :: "string \<Rightarrow> bool" where
  "is_select sql =
     (case get_prefix 6 (trim_start sql) of Some p \<Rightarrow> eq_ignore_ascii_case p ''SELECT'' | None \<Rightarrow> False)"

section \<open>The parallel scan\<close>

definition PARALLEL_MIN_SPAN :: int where
  "PARALLEL_MIN_SPAN = 64 * 1024"

text \<open>
  What a scan finds around it: the number of threads (at most 12 are used), the worker connections that
  can be opened on demand, and the driver's rendering of its errors.
\<close>

record scan_env =
  env_parallelism :: nat
  env_worker :: "nat \<Rightarrow> conn option"
  env_show :: "string \<Rightarrow> string"

definition opt_int_cell :: "sq_cell \<Rightarrow> i64 option option" where
  "opt_int_cell x = (case x of CellNull \<Rightarrow> Some None | CellInt i \<Rightarrow> Some (Some i) | _ \<Rightarrow> None)"

definition scan_endpoints :: "conn \<Rightarrow> string \<Rightarrow> (i64 option \<times> i64 option) option" where
  "scan_endpoints conn table =
     (case conn (''SELECT (SELECT min(rowid) FROM '' @ table @ ''), (SELECT max(rowid) FROM '' @ table @ '')'') of
        Prepared p \<Rightarrow>
          (case p_step p [] of
             ([a, b] # _, _) \<Rightarrow>
               (case (opt_int_cell a, opt_int_cell b) of
                  (Some x, Some y) \<Rightarrow> Some (x, y)
                | _ \<Rightarrow> None)
           | _ \<Rightarrow> None)
      | _ \<Rightarrow> None)"

definition shadows_rowid :: "string \<Rightarrow> bool" where
  "shadows_rowid nm \<longleftrightarrow>
     eq_ignore_ascii_case nm ''rowid'' \<or> eq_ignore_ascii_case nm ''_rowid_'' \<or> eq_ignore_ascii_case nm ''oid''"

text \<open>The loop over the column names of the table: true when one of them shadows the row id.\<close>

fun any_shadow :: "(string \<Rightarrow> string) \<Rightarrow> sq_cell list list \<Rightarrow> string option \<Rightarrow> bool result" where
  "any_shadow show_err [] err = (case err of Some m \<Rightarrow> Err (Database (show_err m)) | None \<Rightarrow> Ok False)"
| "any_shadow show_err (row # rows) err =
     (case (if 1 < length row then row ! 1 else CellNull) of
        CellText t \<Rightarrow>
          (case from_utf8 t of
             Some nm \<Rightarrow> if shadows_rowid nm then Ok True else any_shadow show_err rows err
           | None \<Rightarrow> Err (Database (show_err ''column 1'')))
      | _ \<Rightarrow> Err (Database (show_err ''column 1'')))"

definition rowid_shadowed :: "(string \<Rightarrow> string) \<Rightarrow> conn \<Rightarrow> string \<Rightarrow> bool result" where
  "rowid_shadowed show_err conn table =
     (case conn (''PRAGMA table_info('' @ table @ '')'') of
        PrepFail m \<Rightarrow> Err (Database (show_err m))
      | PrepEmpty \<Rightarrow> Ok False
      | Prepared p \<Rightarrow> (case p_step p [] of (rows, err) \<Rightarrow> any_shadow show_err rows err))"

text \<open>\<open>pool.split_off(keep)\<close>, then opening connections until there are enough or one fails.\<close>

function open_more :: "(nat \<Rightarrow> conn option) \<Rightarrow> nat \<Rightarrow> conn list \<Rightarrow> conn list" where
  "open_more opener threads ws =
     (if length ws < threads
      then (case opener (length ws) of Some c \<Rightarrow> open_more opener threads (ws @ [c]) | None \<Rightarrow> ws)
      else ws)"
  by pat_completeness auto
termination
  by (relation "measure (\<lambda>(_, n, ws). n - length ws)") auto

declare open_more.simps [simp del]

definition i64_div :: "i64 \<Rightarrow> i64 \<Rightarrow> i64" where
  "i64_div a b = word_of_int (sint a sdiv sint b)"

text \<open>The row-id ranges, in wrapping arithmetic (a release build).\<close>

definition scan_bounds :: "i64 \<Rightarrow> i64 \<Rightarrow> nat \<Rightarrow> (i64 \<times> i64) list" where
  "scan_bounds mn mx parts =
     (let span = (mx - mn) + 1; step = i64_div span (word_of_nat parts) in
      map (\<lambda>i. (mn + step * word_of_nat i,
                if i = parts - 1 then mx else mn + step * (word_of_nat i + 1) - 1)) [0..<parts])"

definition scan_statement :: "string list \<Rightarrow> string \<Rightarrow> string" where
  "scan_statement cols table =
     ''SELECT '' @ intercalate '', '' cols @ '' FROM '' @ table @ '' WHERE rowid BETWEEN ? AND ?''"

definition scan_ranges :: "conn list \<Rightarrow> string \<Rightarrow> (i64 \<times> i64) list \<Rightarrow> scan_chunk result list" where
  "scan_ranges ws sql bounds =
     map (\<lambda>(w, lo, hi). stream_query w sql [SInteger lo, SInteger hi]) (zip ws bounds)"

text \<open>The collected chunks; any failure gives up the parallel scan.\<close>

definition collect_chunks :: "scan_chunk result list \<Rightarrow> scan_chunks option result" where
  "collect_chunks rs =
     (if list_ex (\<lambda>r. r = Panicked) rs then Panicked
      else if list_ex (\<lambda>r. \<not> is_ok r) rs then Ok None
      else (case rs of
          [] \<Rightarrow> Panicked
        | r # _ \<Rightarrow> bind_r r (\<lambda>(_, names, _). bind_r (map_r (\<lambda>r. r) rs) (\<lambda>oks.
            Ok (Some (map fst oks, names, list_all (\<lambda>(_, _, ro). ro) oks))))))"

definition try_parallel_scan ::
  "scan_env option \<Rightarrow> conn list \<Rightarrow> conn \<Rightarrow> string list \<Rightarrow> string \<Rightarrow> scan_chunks option result \<times> conn list" where
  "try_parallel_scan ctx pool conn cols table =
     (case ctx of
        None \<Rightarrow> (Ok None, pool)
      | Some env \<Rightarrow>
          (let threads = min (env_parallelism env) 12 in
           if threads < 2 then (Ok None, pool)
           else (case scan_endpoints conn table of
               Some (Some mn, Some mx) \<Rightarrow>
                 if sint (clamp_i64 (sint mx - sint mn)) < PARALLEL_MIN_SPAN then (Ok None, pool)
                 else (case rowid_shadowed (env_show env) conn table of
                     Inl e \<Rightarrow> (Inl e, pool)
                   | Inr True \<Rightarrow> (Ok None, pool)
                   | Inr False \<Rightarrow>
                       (let keep = length pool - min threads (length pool);
                            ws = open_more (env_worker env) threads (drop keep pool);
                            pool = take keep pool @ ws in
                        if length ws < 2 then (Ok None, pool)
                        else (collect_chunks (scan_ranges ws (scan_statement cols table)
                                (scan_bounds mn mx (length ws))), pool)))
             | _ \<Rightarrow> (Ok None, pool))))"

section \<open>Encoding the chunks directly\<close>

definition col_at :: "adaptive_col list \<Rightarrow> nat \<Rightarrow> adaptive_col result" where
  "col_at ch c = (if c < length ch then Ok (ch ! c) else Panicked)"

definition plain_part :: "nat \<Rightarrow> adaptive_col \<Rightarrow> bool" where
  "plain_part k col \<longleftrightarrow> nulls col = [] \<and> \<not> promoted col \<and> text_valid col \<and> data_class (a_data col) = k"

fun gate_chunks :: "nat \<Rightarrow> nat \<Rightarrow> adaptive_col list list \<Rightarrow> bool result" where
  "gate_chunks c k [] = Ok True"
| "gate_chunks c k (ch # chs) =
     bind_r (col_at ch c) (\<lambda>col. if plain_part k col then gate_chunks c k chs else Ok False)"

fun gate_columns :: "adaptive_col list list \<Rightarrow> nat list \<Rightarrow> bool result" where
  "gate_columns chs [] = Ok True"
| "gate_columns chs (c # cs) =
     (case chs of
        [] \<Rightarrow> Panicked
      | ch # _ \<Rightarrow> bind_r (col_at ch c) (\<lambda>first.
          bind_r (gate_chunks c (data_class (a_data first)) chs) (\<lambda>ok.
            if ok then gate_columns chs cs else Ok False)))"

definition boundary_ordered :: "adaptive_data \<Rightarrow> adaptive_data \<Rightarrow> bool \<Rightarrow> bool" where
  "boundary_ordered prev nxt desc =
     (case (prev, nxt) of
        (AInt a, AInt b) \<Rightarrow> flip desc i64_le (last a) (hd b)
      | (AFloat a, AFloat b) \<Rightarrow> flip desc f64_le (last a) (hd b)
      | (AStr ao ad, AStr bo bd) \<Rightarrow>
          flip desc bytes_le (seg_at ao ad (length ao - 2)) (seg_at bo bd 0)
      | _ \<Rightarrow> False)"

fun windows_ordered :: "nat \<Rightarrow> bool \<Rightarrow> adaptive_col list list \<Rightarrow> bool" where
  "windows_ordered k desc (p # n # chs) =
     ((a_len (p ! k) = 0 \<or> a_len (n ! k) = 0 \<or> boundary_ordered (a_data (p ! k)) (a_data (n ! k)) desc)
      \<and> windows_ordered k desc (n # chs))"
| "windows_ordered k desc _ = True"

definition order_satisfied :: "adaptive_col list list \<Rightarrow> string list \<Rightarrow> (string \<times> bool) option \<Rightarrow> bool" where
  "order_satisfied chs names order =
     (case order of
        None \<Rightarrow> True
      | Some (key, desc) \<Rightarrow>
          (case position (\<lambda>n. eq_ignore_ascii_case n key) names of
             None \<Rightarrow> False
           | Some k \<Rightarrow>
               \<not> list_ex (\<lambda>ch. saw_blob (ch ! k)) chs
               \<and> list_all (\<lambda>ch. is_sorted (a_data (ch ! k)) desc) chs
               \<and> windows_ordered k desc chs))"

definition chunk_parts :: "adaptive_col list list \<Rightarrow> nat \<Rightarrow> col_parts" where
  "chunk_parts chs c =
     (case a_data (hd chs ! c) of
        AInt _ \<Rightarrow> PInt (map (\<lambda>ch. case a_data (ch ! c) of AInt v \<Rightarrow> v | _ \<Rightarrow> []) chs)
      | AFloat _ \<Rightarrow> PFloat (map (\<lambda>ch. case a_data (ch ! c) of AFloat v \<Rightarrow> v | _ \<Rightarrow> []) chs)
      | AStr _ _ \<Rightarrow>
          PUtf8 (map (\<lambda>ch. case a_data (ch ! c) of AStr offs data \<Rightarrow> (offs, data) | _ \<Rightarrow> ([], [])) chs)
                (list_all (\<lambda>ch. a_ascii (ch ! c)) chs))"

definition encode_chunks_direct ::
  "(u8 writes \<Rightarrow> u8 writes) \<Rightarrow> (nat \<Rightarrow> u8) \<Rightarrow> adaptive_col list list \<Rightarrow> string list \<Rightarrow>
   (string \<times> bool) option \<Rightarrow> bytes option result" where
  "encode_chunks_direct sched junk chs names order =
     (let ncols = length names;
          nrows = sum_list (map (\<lambda>ch. case ch of [] \<Rightarrow> 0 | c # _ \<Rightarrow> a_len c) chs)
      in bind_r (gate_columns chs [0..<ncols]) (\<lambda>plain.
           if plain \<and> order_satisfied chs names order
           then bind_r (encode_parts sched junk names (map (chunk_parts chs) [0..<ncols]) nrows)
                  (\<lambda>bs. Ok (Some bs))
           else Ok None))"

section \<open>Running a query\<close>

text \<open>\<open>usort\<close> is the standard library's unstable sort; a result carries the read-only flag.\<close>

type_synonym usort = "(u32 \<Rightarrow> u32 \<Rightarrow> bool) \<Rightarrow> u32 list \<Rightarrow> u32 list"

definition split_order :: "string \<Rightarrow> string \<times> (string \<times> bool) option" where
  "split_order sql =
     (case split_simple_order_by sql of
        Some (inner, key, desc) \<Rightarrow> (inner, Some (key, desc))
      | None \<Rightarrow> (sql, None))"

definition finish_ro :: "adaptive_col list \<Rightarrow> string list \<Rightarrow> bool \<Rightarrow> (record_batch \<times> bool) result" where
  "finish_ro bs names ro = bind_r (finish_batch bs names) (\<lambda>b. Ok (b, ro))"

definition run_whole :: "conn \<Rightarrow> string \<Rightarrow> sql_value list \<Rightarrow> (record_batch \<times> bool) result" where
  "run_whole conn sql params =
     bind_r (stream_query conn sql params) (\<lambda>(bs, names, ro). finish_ro bs names ro)"

text \<open>The serial branch: without the ORDER BY and sorted here, or as a whole.\<close>

definition run_serial :: "usort \<Rightarrow> conn \<Rightarrow> string \<Rightarrow> sql_value list \<Rightarrow> (record_batch \<times> bool) result" where
  "run_serial usort conn sql params =
     (case split_order sql of
        (scan_sql, Some (key, desc)) \<Rightarrow>
          bind_r (stream_query conn scan_sql params) (\<lambda>(bs, names, ro).
            case sort_built usort bs names key desc of
              Some bs \<Rightarrow> finish_ro bs names ro
            | None \<Rightarrow> run_whole conn sql params)
      | (_, None) \<Rightarrow> run_whole conn sql params)"

definition run_query_params ::
  "usort \<Rightarrow> scan_env option \<Rightarrow> conn list \<Rightarrow> conn \<Rightarrow> string \<Rightarrow> sql_value list \<Rightarrow>
   (record_batch \<times> bool) result \<times> conn list" where
  "run_query_params usort ctx pool conn sql params =
     (if \<not> is_select sql then (run_whole conn sql params, pool)
      else (case split_order sql of (scan_sql, order) \<Rightarrow>
        case (if params = [] then parse_parallel_shape scan_sql else Ok None) of
          Inl e \<Rightarrow> (Inl e, pool)
        | Inr None \<Rightarrow> (run_serial usort conn sql params, pool)
        | Inr (Some (cols, table)) \<Rightarrow>
            (case try_parallel_scan ctx pool conn cols table of
               (Inl e, pool) \<Rightarrow> (Inl e, pool)
             | (Inr None, pool) \<Rightarrow> (run_serial usort conn sql params, pool)
             | (Inr (Some (chs, names, ro)), pool) \<Rightarrow>
                 (case merge_chunks chs of
                    Inl e \<Rightarrow> (Inl e, pool)
                  | Inr bs \<Rightarrow>
                      (case order of
                         None \<Rightarrow> (finish_ro bs names ro, pool)
                       | Some (key, desc) \<Rightarrow>
                           (case sort_built usort bs names key desc of
                              Some bs \<Rightarrow> (finish_ro bs names ro, pool)
                            | None \<Rightarrow> (run_serial usort conn sql params, pool)))))))"

definition encode_ro :: "(record_batch \<times> bool) result \<Rightarrow> (bytes \<times> bool) result" where
  "encode_ro r = bind_r r (\<lambda>(b, ro). Ok (encode b, ro))"

definition run_query_bytes ::
  "(u8 writes \<Rightarrow> u8 writes) \<Rightarrow> (nat \<Rightarrow> u8) \<Rightarrow> usort \<Rightarrow> scan_env option \<Rightarrow> conn list \<Rightarrow> conn \<Rightarrow> string \<Rightarrow>
   sql_value list \<Rightarrow> (bytes \<times> bool) result \<times> conn list" where
  "run_query_bytes sched junk usort ctx pool conn sql params =
     (let fallback = (\<lambda>pool. case run_query_params usort ctx pool conn sql params of
                         (r, pool) \<Rightarrow> (encode_ro r, pool)) in
      if \<not> (is_select sql \<and> params = []) then fallback pool
      else (case split_order sql of (scan_sql, order) \<Rightarrow>
        case parse_parallel_shape scan_sql of
          Inl e \<Rightarrow> (Inl e, pool)
        | Inr None \<Rightarrow> fallback pool
        | Inr (Some (cols, table)) \<Rightarrow>
            (case try_parallel_scan ctx pool conn cols table of
               (Inl e, pool) \<Rightarrow> (Inl e, pool)
             | (Inr None, pool) \<Rightarrow> fallback pool
             | (Inr (Some (chs, names, ro)), pool) \<Rightarrow>
                 (case encode_chunks_direct sched junk chs names order of
                    Inl e \<Rightarrow> (Inl e, pool)
                  | Inr (Some bs) \<Rightarrow> (Ok (bs, ro), pool)
                  | Inr None \<Rightarrow>
                      (case merge_chunks chs of
                         Inl e \<Rightarrow> (Inl e, pool)
                       | Inr bs \<Rightarrow>
                           (case order of
                              None \<Rightarrow> (encode_ro (finish_ro bs names ro), pool)
                            | Some (key, desc) \<Rightarrow>
                                (case sort_built usort bs names key desc of
                                   Some b \<Rightarrow> (encode_ro (finish_ro b names ro), pool)
                                 | None \<Rightarrow> (encode_ro (run_whole conn sql params), pool))))))))"

end
