(* ===== verification/ScanProofs.thy ===== *)
theory ScanProofs
  imports Scan
begin

text \<open>
  The parallel scan against the serial one: the row-id ranges partition the table, a chunk's columns
  are scans of its rows, and the merged chunks are the columns of one scan of all rows. The direct
  encoding of the chunks is the encoding of the merged columns.
\<close>

section \<open>Row-id ranges\<close>

lemma filter_cut:
  assumes "sorted_wrt (\<lambda>x y. f x \<le> f y) xs" "a \<le> b" "b \<le> (c :: int)"
  shows "filter (\<lambda>r. a \<le> f r \<and> f r < b) xs @ filter (\<lambda>r. b \<le> f r \<and> f r < c) xs
    = filter (\<lambda>r. a \<le> f r \<and> f r < c) xs"
  using assms(1)
proof (induction xs)
  case (Cons x xs)
  have "filter (\<lambda>r. a \<le> f r \<and> f r < b) xs = []" if "b \<le> f x"
    using Cons.prems that by (fastforce simp: filter_empty_conv)
  with Cons assms(2,3) show ?case by auto
qed simp

lemma filter_cuts:
  assumes "sorted_wrt (\<lambda>x y. f x \<le> f y) xs" "\<And>i. i < n \<Longrightarrow> p i \<le> (p (Suc i) :: int)"
  shows "concat (map (\<lambda>i. filter (\<lambda>r. p i \<le> f r \<and> f r < p (Suc i)) xs) [0..<n])
    = filter (\<lambda>r. p 0 \<le> f r \<and> f r < p n) xs"
  using assms(2)
proof (induction n)
  case (Suc n)
  have "p 0 \<le> p n" using Suc.prems by (intro lift_Suc_mono_le [of "\<lambda>i. p (min i n)" 0 n, simplified])
      (auto simp: min_def le_Suc_eq not_less_eq_eq)
  with Suc filter_cut [OF assms(1), of "p 0" "p n" "p (Suc n)"] show ?case by simp
qed simp

lemma sint_word_of_int: "- (2 ^ 63) \<le> x \<Longrightarrow> x < 2 ^ 63 \<Longrightarrow> sint (word_of_int x :: i64) = x"
  by (simp add: sint_sbintrunc' signed_take_bit_int_eq_self)

lemma sint_bounds: "- (2 ^ 63) \<le> sint (x :: i64)" "sint (x :: i64) < 2 ^ 63"
  using sint_ge [of x] sint_lt [of x] by simp_all

lemma i64_of_int: "(x :: i64) = word_of_int (sint x)"
  by simp

text \<open>The ranges in unbounded integers, when the span fits.\<close>

lemma scan_bounds_ints:
  assumes ord: "sint mn \<le> sint mx" and fit: "sint mx - sint mn < 2 ^ 63 - 1"
    and parts: "0 < parts" "parts < 2 ^ 31" "int parts \<le> sint mx - sint mn + 1"
  defines "step \<equiv> (sint mx - sint mn + 1) div int parts"
  assumes i: "i < parts"
  shows "sint (fst (scan_bounds mn mx parts ! i)) = sint mn + step * int i"
    and "sint (snd (scan_bounds mn mx parts ! i)) =
      (if i = parts - 1 then sint mx else sint mn + step * int (Suc i) - 1)"
proof -
  note b = sint_bounds [of mn] sint_bounds [of mx]
  have "(mx - mn) + 1 = word_of_int (sint mx - sint mn + 1)"
    by (metis i64_of_int wi_hom_add wi_hom_sub word_1_wi)
  then have span: "sint ((mx - mn) + 1) = sint mx - sint mn + 1"
    using ord fit by (simp only: sint_word_of_int)
  have "sint (word_of_nat parts :: i64) = int parts"
    using parts sint_word_of_int [of "int parts"] by simp
  then have st: "i64_div ((mx - mn) + 1) (word_of_nat parts) = word_of_int step"
    unfolding i64_div_def span using ord by (simp add: step_def signed_divide_int_def)
  have "0 < step" using parts by (simp add: step_def pos_imp_zdiv_pos_iff)
  then have st1: "1 \<le> step" by simp
  then have st0: "0 \<le> step" by simp
  have mul: "step * int parts \<le> sint mx - sint mn + 1"
    unfolding step_def using parts(1) by (metis div_mult_mod_eq le_add_same_cancel1 pos_mod_sign of_nat_0_less_iff)
  have le: "step * int j \<le> sint mx - sint mn + 1" if "j \<le> parts" for j
    using mult_left_mono [of "int j" "int parts" step] st0 mul that by linarith
  have lo: "sint (mn + word_of_int step * word_of_nat j) = sint mn + step * int j"
    if "j \<le> parts" "j < parts \<or> sint mn + step * int j < 2 ^ 63" for j
  proof -
    have "mn + word_of_int step * word_of_nat j = word_of_int (sint mn + step * int j)"
      by simp
    moreover have "0 \<le> step * int j" using st0 by simp
    moreover have "sint mn + step * int j < 2 ^ 63"
    proof (cases "j < parts")
      case True
      then have "j + 1 \<le> parts" by simp
      with le [of "j + 1"] have "step * int j + step \<le> sint mx - sint mn + 1" by (simp add: algebra_simps)
      with st0 b show ?thesis by (cases "step = 0") auto
    qed (use that in auto)
    ultimately show ?thesis using b by (simp only: sint_word_of_int)
  qed
  show "sint (fst (scan_bounds mn mx parts ! i)) = sint mn + step * int i"
    using lo [of i] i by (simp add: scan_bounds_def Let_def st)
  have "sint (mn + word_of_int step * (word_of_nat i + 1) - 1) = sint mn + step * int (Suc i) - 1"
    if "i \<noteq> parts - 1"
  proof -
    have "mn + word_of_int step * (word_of_nat i + 1) - 1 = word_of_int (sint mn + step * int (Suc i) - 1)"
      by (simp add: algebra_simps)
    moreover have "0 \<le> step * int (Suc i)" "step * int (Suc i) \<le> sint mx - sint mn + 1"
      using st0 le [of "Suc i"] i by simp_all
    moreover have "1 \<le> step * int (Suc i)"
      using mult_mono [of 1 step 1 "int (Suc i)"] st1 by simp
    ultimately show ?thesis using b by (simp only: sint_word_of_int)
  qed
  then show "sint (snd (scan_bounds mn mx parts ! i)) =
      (if i = parts - 1 then sint mx else sint mn + step * int (Suc i) - 1)"
    using i by (simp add: scan_bounds_def Let_def st)
qed


lemma bounds_partition:
  assumes ids: "sorted_wrt (\<lambda>x y. sint (f x) \<le> sint (f y)) xs"
    and range: "\<And>x. x \<in> set xs \<Longrightarrow> sint mn \<le> sint (f x) \<and> sint (f x) \<le> sint mx"
    and fit: "sint mx - sint mn < 2 ^ 63 - 1" and parts: "0 < parts" "parts < 2 ^ 31" "int parts \<le> sint mx - sint mn + 1"
  shows "concat (map (\<lambda>(lo, hi). filter (\<lambda>x. sint lo \<le> sint (f x) \<and> sint (f x) \<le> sint hi) xs)
      (scan_bounds mn mx parts)) = xs"
proof -
  define step where "step = (sint mx - sint mn + 1) div int parts"
  define p where "p = (\<lambda>i. if i = parts then sint mx + 1 else sint mn + step * int i)"
  have ord: "sint mn \<le> sint mx" using parts by linarith
  note b = scan_bounds_ints [OF ord fit parts, folded step_def]
  have "0 < step" using parts by (simp add: step_def pos_imp_zdiv_pos_iff)
  then have st1: "1 \<le> step" by simp
  have mul: "step * int parts \<le> sint mx - sint mn + 1"
    unfolding step_def using parts(1) by (metis div_mult_mod_eq le_add_same_cancel1 pos_mod_sign of_nat_0_less_iff)
  have up: "p i \<le> p (Suc i)" if "i < parts" for i
    using that st1 mul by (auto simp: p_def algebra_simps)
  have len: "length (scan_bounds mn mx parts) = parts" by (simp add: scan_bounds_def Let_def)
  have "map (\<lambda>(lo, hi). filter (\<lambda>x. sint lo \<le> sint (f x) \<and> sint (f x) \<le> sint hi) xs) (scan_bounds mn mx parts)
      = map (\<lambda>i. filter (\<lambda>x. p i \<le> sint (f x) \<and> sint (f x) < p (Suc i)) xs) [0..<parts]"
  proof (rule nth_equalityI)
    fix i assume "i < length (map (\<lambda>(lo, hi). filter (\<lambda>x. sint lo \<le> sint (f x) \<and> sint (f x) \<le> sint hi) xs)
        (scan_bounds mn mx parts))"
    then have i: "i < parts" using len by simp
    have "sint (snd (scan_bounds mn mx parts ! i)) = p (Suc i) - 1"
      using b(2) [OF i] i by (auto simp: p_def)
    moreover have "sint (fst (scan_bounds mn mx parts ! i)) = p i" using b(1) [OF i] i by (simp add: p_def)
    ultimately show "map (\<lambda>(lo, hi). filter (\<lambda>x. sint lo \<le> sint (f x) \<and> sint (f x) \<le> sint hi) xs)
        (scan_bounds mn mx parts) ! i
      = map (\<lambda>i. filter (\<lambda>x. p i \<le> sint (f x) \<and> sint (f x) < p (Suc i)) xs) [0..<parts] ! i"
      using i len by (simp add: case_prod_beta)
  qed (simp add: len)
  then have "concat (map (\<lambda>(lo, hi). filter (\<lambda>x. sint lo \<le> sint (f x) \<and> sint (f x) \<le> sint hi) xs)
      (scan_bounds mn mx parts)) = filter (\<lambda>x. p 0 \<le> sint (f x) \<and> sint (f x) < p parts) xs"
    using filter_cuts [OF ids, of parts p] up by simp
  also have "\<dots> = xs"
    using range parts(1) by (auto simp: p_def filter_id_conv)
  finally show ?thesis .
qed

text \<open>
  C6: The row-id ranges of the parallel scan cover the table exactly once, in order: cutting the sorted
  row ids at the ranges and concatenating gives the row ids back. It needs the span to fit in 63 bits.
\<close>

theorem scan_bounds_partition:
  assumes ids: "sorted_wrt (\<lambda>x y. sint (f x) \<le> sint (f y)) xs"
    and range: "\<And>x. x \<in> set xs \<Longrightarrow> sint mn \<le> sint (f x) \<and> sint (f x) \<le> sint mx"
    and fit: "sint mx - sint mn < 2 ^ 63 - 1" and parts: "0 < parts" "parts < 2 ^ 31" "int parts \<le> sint mx - sint mn + 1"
  shows "concat (map (\<lambda>(lo, hi). filter (\<lambda>x. sint lo \<le> sint (f x) \<and> sint (f x) \<le> sint hi) xs)
      (scan_bounds mn mx parts)) = xs"
  by (rule bounds_partition [OF ids range fit parts])

lemma scan_bounds_partition_witness:
  "concat (map (\<lambda>(lo, hi). filter (\<lambda>x. sint lo \<le> sint x \<and> sint x \<le> sint hi) [1, 5, 9 :: i64])
    (scan_bounds 1 9 2)) = [1, 5, 9]"
  by (rule scan_bounds_partition [where f = "\<lambda>x. x"]) auto

text \<open>
  When the row ids reach from the smallest to the largest 64-bit integer, the span wraps to 0 and
  every one of the ranges is the whole table, so a parallel scan returns each row once for every worker.
\<close>

theorem scan_bounds_overflow:
  "sint (clamp_i64 (sint (2 ^ 63 - 1 :: i64) - sint (2 ^ 63 :: i64))) \<ge> PARALLEL_MIN_SPAN
    \<and> scan_bounds (2 ^ 63) (2 ^ 63 - 1) 4 = replicate 4 (2 ^ 63, 2 ^ 63 - 1)"
  by code_simp

section \<open>Streaming builds one scanned column per position\<close>

lemma push_row_nth:
  "length row = length bs \<Longrightarrow> c < length bs \<Longrightarrow> push_row row bs ! c = push_cell (row ! c) (bs ! c)"
  by (simp add: push_row_def)

lemma fold_push_row:
  assumes "\<And>r. r \<in> set rows \<Longrightarrow> length r = length bs"
  shows "length (fold push_row rows bs) = length bs
    \<and> (\<forall>c < length bs. fold push_row rows bs ! c = fold push_cell (map (\<lambda>r. r ! c) rows) (bs ! c))"
  using assms
proof (induction rows arbitrary: bs)
  case (Cons r rows)
  then have "length (push_row r bs) = length bs" by (simp add: push_row_def)
  with Cons show ?case by (simp add: push_row_nth)
qed simp

lemma build_columns_scan:
  assumes "\<And>r. r \<in> set rows \<Longrightarrow> length r = n"
  shows "build_columns n rows = map (\<lambda>c. scan_col (map (\<lambda>r. r ! c) rows)) [0..<n]"
  using fold_push_row [of rows "replicate n acol_new"] assms
  by (intro nth_equalityI) (simp_all add: build_columns_def scan_col_def)


section \<open>Merged chunks are the serial columns\<close>

text \<open>Two columns that differ at most in the pure-ASCII hint; nothing but the direct encoder reads it.\<close>

definition same_col :: "adaptive_col \<Rightarrow> adaptive_col \<Rightarrow> bool" where
  "same_col c d \<longleftrightarrow> c\<lparr>a_ascii := False\<rparr> = d\<lparr>a_ascii := False\<rparr>"

lemma same_colD:
  assumes "same_col c d"
  shows "a_data c = a_data d" "a_len c = a_len d" "nulls c = nulls d" "promoted c = promoted d"
    "saw_blob c = saw_blob d" "text_valid c = text_valid d"
  using assms unfolding same_col_def by (cases c; cases d; simp)+

lemma same_colI:
  "a_data c = a_data d \<Longrightarrow> a_len c = a_len d \<Longrightarrow> nulls c = nulls d \<Longrightarrow> promoted c = promoted d \<Longrightarrow>
    saw_blob c = saw_blob d \<Longrightarrow> text_valid c = text_valid d \<Longrightarrow> same_col c d"
  unfolding same_col_def by (cases c; cases d; simp)

lemma same_col_finish: "same_col c d \<Longrightarrow> a_finish nm c = a_finish nm d"
  using same_colD [of c d] by (simp only: a_finish_def)

lemma same_col_permute: "same_col c d \<Longrightarrow> same_col (permute idx c) (permute idx d)"
  by (cases c; cases d) (simp add: same_col_def permute_def Let_def)

lemma same_cols_finish:
  assumes "list_all2 same_col bs ds"
  shows "finish_batch bs names = finish_batch ds names"
proof -
  have "map (\<lambda>(b, nm). a_finish nm b) (zip bs names) = map (\<lambda>(b, nm). a_finish nm b) (zip ds names)"
    using assms by (intro nth_equalityI) (auto simp: list_all2_conv_all_nth same_col_finish)
  then show ?thesis by (simp add: finish_batch_def)
qed

lemma same_cols_sort:
  assumes "list_all2 same_col bs ds" "length names = length bs"
  shows "rel_option (list_all2 same_col) (sort_built usort bs names key desc) (sort_built usort ds names key desc)"
proof (cases "position (\<lambda>n. eq_ignore_ascii_case n key) names")
  case None
  then show ?thesis by (simp add: sort_built_def)
next
  case (Some k)
  with assms position_Some [OF Some] have "same_col (bs ! k) (ds ! k)"
    by (auto simp: list_all2_conv_all_nth)
  note k = same_colD [OF this]
  have "list_all2 same_col (map (permute idx) bs) (map (permute idx) ds)" for idx
    using assms(1) by (auto simp: list_all2_map1 list_all2_map2 intro: list_all2_mono same_col_permute)
  with Some assms k show ?thesis by (simp add: sort_built_def Let_def)
qed

lemma merge_same_col:
  assumes "css \<noteq> []" "length (concat css) < 2 ^ 32" "exact_ints (concat css)"
    and "\<And>t. CellText t \<in> set (concat css) \<Longrightarrow> valid_utf8 t"
  shows "\<exists>acc. merge_col (map scan_col css) = Ok acc \<and> same_col acc (scan_col (concat css))"
proof -
  obtain acc where acc: "merge_col (map scan_col css) = Ok acc"
    "acol_rep acc (infer_class (concat css)) (column_slots (concat css))"
    "promoted acc = promoted (scan_col (concat css))" "saw_blob acc = saw_blob (scan_col (concat css))"
    "text_valid acc = text_valid (scan_col (concat css))"
    using merge_scan_valid [OF assms] by blast
  have "same_col acc (scan_col (concat css))"
    using acc scan_col_rep [OF assms(2)] data_rep_unique by (intro same_colI) (auto simp: acol_rep_def)
  with acc(1) show ?thesis by blast
qed

text \<open>Rows a table can have: every row is as long as the names, and its cells satisfy what the merge needs.\<close>

definition good_rows :: "nat \<Rightarrow> sq_cell list list \<Rightarrow> bool" where
  "good_rows n rows \<longleftrightarrow>
     length rows < 2 ^ 32 \<and> (\<forall>r \<in> set rows. length r = n)
     \<and> (\<forall>c < n. exact_ints (map (\<lambda>r. r ! c) rows))
     \<and> (\<forall>r \<in> set rows. \<forall>t. CellText t \<in> set r \<longrightarrow> valid_utf8 t)"

lemma merge_built_chunks:
  assumes ne: "rss \<noteq> []" and good: "good_rows n (concat rss)"
  shows "\<exists>bs. merge_chunks (map (build_columns n) rss) = Ok bs
    \<and> list_all2 same_col bs (build_columns n (concat rss))"
proof -
  let ?chs = "map (build_columns n) rss"
  have rows: "length r = n" if "rs \<in> set rss" "r \<in> set rs" for rs r
    using good that unfolding good_rows_def by auto
  have built: "build_columns n rs = map (\<lambda>c. scan_col (map (\<lambda>r. r ! c) rs)) [0..<n]" if "rs \<in> set rss" for rs
    by (rule build_columns_scan) (rule rows [OF that])
  have built_all: "build_columns n (concat rss) = map (\<lambda>c. scan_col (map (\<lambda>r. r ! c) (concat rss))) [0..<n]"
    by (rule build_columns_scan) (use rows in auto)
  have lens: "length ch = n" if "ch \<in> set ?chs" for ch using that built by auto
  have all: "filter (\<lambda>ch. c < length ch) ?chs = ?chs" if "c < n" for c
    by (rule filter_True) (use that lens in auto)
  have cols: "map (\<lambda>ch. ch ! c) ?chs = map scan_col (map (map (\<lambda>r. r ! c)) rss)" if "c < n" for c
    using that built by simp
  have conc: "concat (map (map (\<lambda>r. r ! c)) rss) = map (\<lambda>r. r ! c) (concat rss)" for c
    by (simp add: map_concat)
  have one: "\<exists>acc. merge_col (map (\<lambda>ch. ch ! c) ?chs) = Ok acc
      \<and> same_col acc (scan_col (map (\<lambda>r. r ! c) (concat rss)))" if c: "c < n" for c
    unfolding cols [OF c] conc [symmetric]
  proof (rule merge_same_col)
    show "map (map (\<lambda>r. r ! c)) rss \<noteq> []" using ne by simp
    show "length (concat (map (map (\<lambda>r. r ! c)) rss)) < 2 ^ 32"
      using good unfolding conc good_rows_def by simp
    show "exact_ints (concat (map (map (\<lambda>r. r ! c)) rss))"
      using good c unfolding conc good_rows_def by blast
    show "valid_utf8 t" if t: "CellText t \<in> set (concat (map (map (\<lambda>r. r ! c)) rss))" for t
    proof -
      from t obtain r where r: "r \<in> set (concat rss)" "CellText t = r ! c" unfolding conc by auto
      then have "length r = n" using good unfolding good_rows_def by blast
      with r c have "CellText t \<in> set r" by simp
      with good r(1) show ?thesis unfolding good_rows_def by blast
    qed
  qed
  then obtain g where g: "\<And>c. c < n \<Longrightarrow> merge_col (map (\<lambda>ch. ch ! c) ?chs) = Ok (g c)
      \<and> same_col (g c) (scan_col (map (\<lambda>r. r ! c) (concat rss)))" by metis
  have nc: "(case ?chs of [] \<Rightarrow> 0 | ch # _ \<Rightarrow> length ch) = n"
    using ne lens by (cases rss) auto
  have "map_r (\<lambda>c. merge_col (map (\<lambda>ch. ch ! c) (filter (\<lambda>ch. c < length ch) ?chs))) [0..<n] = Ok (map g [0..<n])"
    by (rule map_r_all_ok) (simp only: atLeastLessThan_iff set_upt all g)
  moreover have "list_all (\<lambda>ch. length ch \<le> n) ?chs" using lens by (simp only: list_all_iff) simp
  ultimately have "merge_chunks ?chs = Ok (map g [0..<n])"
    unfolding merge_chunks_def Let_def nc by (simp only: if_True)
  moreover have "list_all2 same_col (map g [0..<n]) (build_columns n (concat rss))"
    using g by (simp add: built_all list_all2_conv_all_nth)
  ultimately show ?thesis by blast
qed

end
