(* ===== verification/ScanSerial.thy ===== *)
theory ScanSerial
  imports ScanProofs
begin

text \<open>
  The parallel scan answers like a serial one: on connections that see one state of a table, running a
  query with worker connections gives what running it on the caller's connection gives for some order of
  the rows. SQL leaves the order of a SELECT without ORDER BY open, so \<open>serves\<close> and \<open>snapshot\<close>, which state
  what SQLite is relied on for, fix the rows a statement returns and not their order.
\<close>

section \<open>What the connections answer\<close>

definition serves ::
  "conn \<Rightarrow> string \<Rightarrow> sql_value list \<Rightarrow> sq_cell list list \<Rightarrow> string list \<Rightarrow> bool" where
  "serves conn sql params rows names \<longleftrightarrow>
     (case conn sql of
        Prepared p \<Rightarrow>
          p_readonly p \<and> p_nparams p = length params \<and> p_bind p params = None \<and> p_names p = names
          \<and> p_step p params = (rows, None)
      | _ \<Rightarrow> False)"

definition in_range :: "i64 \<Rightarrow> i64 \<Rightarrow> i64 \<times> sq_cell list \<Rightarrow> bool" where
  "in_range lo hi r \<longleftrightarrow> sint lo \<le> sint (fst r) \<and> sint (fst r) \<le> sint hi"

text \<open>A worker returns the rows whose ids lie in the range it is asked for, in an order of its own.\<close>

definition scans_table :: "string \<Rightarrow> (i64 \<times> sq_cell list) list \<Rightarrow> string list \<Rightarrow> conn \<Rightarrow> bool" where
  "scans_table stmt rows names w \<longleftrightarrow>
     (\<forall>lo hi. \<exists>rs. mset rs = mset (map snd (filter (in_range lo hi) rows))
        \<and> serves w stmt [SInteger lo, SInteger hi] rs names)"

text \<open>
  The caller's connection and every worker see the rows of one table, here listed by row id; the caller's
  SELECT returns them in the order \<open>rs0\<close>, whichever it is. The endpoint query bounds the row ids, within a
  span of 63 bits.
\<close>

definition snapshot ::
  "scan_env \<Rightarrow> conn \<Rightarrow> string \<Rightarrow> string list \<Rightarrow> string \<Rightarrow> (i64 \<times> sq_cell list) list \<Rightarrow> string list \<Rightarrow>
   sq_cell list list \<Rightarrow> bool" where
  "snapshot env conn sql cols table rows names rs0 \<longleftrightarrow>
     sorted_wrt (\<lambda>x y. sint (fst x) \<le> sint (fst y)) rows
     \<and> good_rows (length names) (map snd rows)
     \<and> mset rs0 = mset (map snd rows) \<and> serves conn sql [] rs0 names
     \<and> CHR 0x00 \<notin> set sql \<and> CHR 0x00 \<notin> set (scan_statement cols table)
     \<and> (\<forall>i w. env_worker env i = Some w \<longrightarrow> scans_table (scan_statement cols table) rows names w)
     \<and> is_ok (rowid_shadowed (env_show env) conn table)
     \<and> (case scan_endpoints conn table of
          Some (Some mn, Some mx) \<Rightarrow>
            sint mx - sint mn < 2 ^ 63 - 1 \<and> list_all (in_range mn mx) rows
        | _ \<Rightarrow> True)"

text \<open>The connection that returns the rows of one statement in a given order and is otherwise the same.\<close>

definition reordered :: "conn \<Rightarrow> string \<Rightarrow> sq_cell list list \<Rightarrow> conn" where
  "reordered conn stmt rs = conn(stmt := (case conn stmt of
     Prepared p \<Rightarrow> Prepared (p\<lparr>p_step := (\<lambda>_. (rs, None))\<rparr>)
   | q \<Rightarrow> q))"

lemma good_rows_mset: "good_rows n rows \<Longrightarrow> mset rs = mset rows \<Longrightarrow> good_rows n rs"
proof -
  assume g: "good_rows n rows" and m: "mset rs = mset rows"
  have st: "set rs = set rows" and len: "length rs = length rows"
    using m mset_eq_setD mset_eq_length by blast+
  have "exact_ints (map (\<lambda>r. r ! c) rs)" if "exact_ints (map (\<lambda>r. r ! c) rows)" for c
    using that st by (simp add: exact_ints_def list_ex_iff)
  with g st len show ?thesis by (simp add: good_rows_def)
qed

lemma length_build_columns: "\<forall>r \<in> set rows. length r = n \<Longrightarrow> length (build_columns n rows) = n"
  using build_columns_scan [of rows n] by simp

lemma serves_stream:
  "serves conn sql params rows names \<Longrightarrow> CHR 0x00 \<notin> set sql \<Longrightarrow>
    stream_query conn sql params = Ok (build_columns (length names) rows, names, True)"
  by (auto simp: serves_def stream_query_def split: prep.splits)

section \<open>The worker connections\<close>

lemma open_more_set: "w \<in> set (open_more opener n ws) \<Longrightarrow> w \<in> set ws \<or> (\<exists>i. opener i = Some w)"
proof (induction opener n ws rule: open_more.induct)
  case (1 opener threads ws)
  show ?case
    using 1 by (subst (asm) (2) open_more.simps) (auto split: if_splits option.splits)
qed

lemma open_more_length: "length ws \<le> n \<Longrightarrow> length (open_more opener n ws) \<le> n"
proof (induction opener n ws rule: open_more.induct)
  case (1 opener threads ws)
  then show ?case by (subst open_more.simps) (auto split: option.splits)
qed

lemma collect_ok: "rs \<noteq> [] \<Longrightarrow> rs = map (\<lambda>x. Ok (f x, names, True)) xs \<Longrightarrow>
    collect_chunks rs = Ok (Some (map f xs, names, True))"
proof -
  assume ne: "rs \<noteq> []" and rs: "rs = map (\<lambda>x. Ok (f x, names, True)) xs"
  have "map_r (\<lambda>r. r) rs = Ok (map (\<lambda>x. (f x, names, True)) xs)"
    unfolding rs by (induction xs) simp_all
  moreover have "\<not> list_ex (\<lambda>r. r = Panicked) rs" "\<not> list_ex (\<lambda>r. \<not> is_ok r) rs"
    unfolding rs by (auto simp: list_ex_iff)
  ultimately show ?thesis
    using ne rs by (cases xs) (auto simp: collect_chunks_def o_def list_all_iff)
qed


lemma clamp_id: "- (2 ^ 63) \<le> x \<Longrightarrow> x < 2 ^ 63 \<Longrightarrow> sint (clamp_i64 x) = x"
  by (simp add: clamp_i64_def sint_word_of_int)

lemma serves_reordered:
  "serves conn sql [] rs0 names \<Longrightarrow> serves (reordered conn sql rs) sql [] rs names"
  by (auto simp: serves_def reordered_def split: prep.splits)

lemma reordered_other: "other \<noteq> sql \<Longrightarrow> stream_query (reordered conn sql rs) other ps = stream_query conn other ps"
  by (simp add: stream_query_def reordered_def)

lemma stream_reordered:
  "serves conn sql [] rs0 names \<Longrightarrow> CHR 0x00 \<notin> set sql \<Longrightarrow>
    stream_query (reordered conn sql rs) sql [] = Ok (build_columns (length names) rs, names, True)"
  by (blast intro: serves_stream serves_reordered)

lemma length_trim_end: "length (trim_end s) \<le> length s"
proof (induction s rule: trim_end.induct)
  case (1 s)
  show ?case
  proof (cases "s = [] \<or> ws_back s = 0")
    case True
    then show ?thesis by (subst trim_end.simps) (auto simp: Let_def)
  next
    case False
    have "length (trim_end (take (length s - ws_back s) s)) \<le> length (take (length s - ws_back s) s)"
      by (rule 1) (use False in auto)
    with False show ?thesis by (subst trim_end.simps) (simp add: Let_def)
  qed
qed

lemma trim_Nil [simp]: "trim [] = []"
  by (simp add: trim_def trim_start.simps trim_end.simps)

lemma rsplit_token_shorter: "rsplit_token s = Some (rest, tok) \<Longrightarrow> length rest < length s"
proof -
  assume a: "rsplit_token s = Some (rest, tok)"
  then obtain at where at: "rest = take at (trim_end s)" "trim (drop at (trim_end s)) \<noteq> []"
    by (auto simp: rsplit_token_def Let_def split: option.splits if_splits)
  have "drop at (trim_end s) \<noteq> []" using at(2) by auto
  with at(1) have "length rest < length (trim_end s)" by simp
  also have "\<dots> \<le> length s" by (rule length_trim_end)
  finally show ?thesis .
qed

lemma split_order_shorter:
  assumes "split_order sql = (inner, Some kd)"
  shows "length inner < length sql"
proof -
  define s where "s = option_or (strip_suffix (trim_end sql) '';'') (trim_end sql)"
  obtain key desc where "split_simple_order_by sql = Some (inner, key, desc)"
    using assms by (auto simp: split_order_def split: option.splits)
  then obtain r1 t1 r2 t2 r3 t3 r4 t4 where r: "rsplit_token s = Some (r1, t1)" "rsplit_token r1 = Some (r2, t2)"
    "rsplit_token r2 = Some (r3, t3)" "rsplit_token r3 = Some (r4, t4)" "inner = trim_end r4"
    unfolding split_simple_order_by_def s_def [symmetric] Let_def
    by (auto split: option.splits if_splits)
  have "length s \<le> length sql"
    using length_trim_end [of sql] by (auto simp: s_def option_or_def strip_suffix_def split: option.splits)
  with length_trim_end [of r4] r(5) r(1-4) [THEN rsplit_token_shorter] show ?thesis by simp
qed

text \<open>What a serial run returns, by the order in which the statement without its ORDER BY gave its rows.\<close>

definition serial_answer ::
  "usort \<Rightarrow> conn \<Rightarrow> string \<Rightarrow> (string \<times> bool) option \<Rightarrow> string list \<Rightarrow> sq_cell list list \<Rightarrow>
   (record_batch \<times> bool) result" where
  "serial_answer usort conn sql order names rs =
     (let bs = build_columns (length names) rs in
      case order of
        None \<Rightarrow> finish_ro bs names True
      | Some (key, desc) \<Rightarrow>
          (case sort_built usort bs names key desc of
             Some bs \<Rightarrow> finish_ro bs names True
           | None \<Rightarrow> run_whole conn sql []))"

lemma run_serial_answer:
  assumes so: "split_order sql = (scan_sql, order)" and sv: "serves conn scan_sql [] rs0 names"
    and nul: "CHR 0x00 \<notin> set scan_sql"
  shows "run_serial usort conn sql [] = serial_answer usort conn sql order names rs0"
    and "run_serial usort (reordered conn scan_sql rs) sql [] = serial_answer usort conn sql order names rs"
proof -
  note st = serves_stream [OF sv nul] stream_reordered [OF sv nul, of rs]
  have "run_serial usort conn sql [] = serial_answer usort conn sql order names rs0
    \<and> run_serial usort (reordered conn scan_sql rs) sql [] = serial_answer usort conn sql order names rs"
  proof (cases order)
    case None
    then have "scan_sql = sql" using so by (auto simp: split_order_def split: option.splits)
    with None so st show ?thesis by (simp add: run_serial_def run_whole_def serial_answer_def)
  next
    case (Some kd)
    have "sql \<noteq> scan_sql" using split_order_shorter [of sql scan_sql kd] so Some by auto
    then have "run_whole (reordered conn scan_sql rs) sql [] = run_whole conn sql []"
      by (simp add: run_whole_def reordered_other)
    with Some so st show ?thesis by (cases kd) (simp add: run_serial_def serial_answer_def split: option.split)
  qed
  then show "run_serial usort conn sql [] = serial_answer usort conn sql order names rs0"
    and "run_serial usort (reordered conn scan_sql rs) sql [] = serial_answer usort conn sql order names rs"
    by blast+
qed

text \<open>What the workers return: one list of rows for each range, in any order within the range.\<close>

definition range_rows :: "i64 \<Rightarrow> i64 \<Rightarrow> nat \<Rightarrow> (i64 \<times> sq_cell list) list \<Rightarrow> sq_cell list list list" where
  "range_rows mn mx parts rows =
     map (\<lambda>(lo, hi). map snd (filter (in_range lo hi) rows)) (scan_bounds mn mx parts)"

definition cut_rows ::
  "i64 \<Rightarrow> i64 \<Rightarrow> nat \<Rightarrow> (i64 \<times> sq_cell list) list \<Rightarrow> sq_cell list list list \<Rightarrow> bool" where
  "cut_rows mn mx parts rows rss \<longleftrightarrow> list_all2 (\<lambda>rs rs'. mset rs = mset rs') rss (range_rows mn mx parts rows)"

lemma mset_concat_cong: "list_all2 (\<lambda>rs rs'. mset rs = mset rs') rss rss' \<Longrightarrow> mset (concat rss) = mset (concat rss')"
  by (induction rule: list_all2_induct) auto

lemma scan_ranges_serve:
  assumes "\<And>w. w \<in> set ws \<Longrightarrow> scans_table stmt rows names w" and nul: "CHR 0x00 \<notin> set stmt" and len: "length bounds = length ws"
  shows "\<exists>rss. list_all2 (\<lambda>rs rs'. mset rs = mset rs') rss
      (map (\<lambda>(lo, hi). map snd (filter (in_range lo hi) rows)) bounds)
    \<and> scan_ranges ws stmt bounds = map (\<lambda>rs. Ok (build_columns (length names) rs, names, True)) rss"
  using len assms(1)
proof (induction bounds ws rule: list_induct2)
  case Nil
  show ?case by (intro exI [of _ "[]"]) (simp add: scan_ranges_def)
next
  case (Cons b bs w ws)
  obtain lo hi where b: "b = (lo, hi)" by fastforce
  obtain rs where rs: "mset rs = mset (map snd (filter (in_range lo hi) rows))"
    "serves w stmt [SInteger lo, SInteger hi] rs names"
    using Cons.prems [of w] unfolding scans_table_def by auto
  obtain rss where rss: "list_all2 (\<lambda>rs rs'. mset rs = mset rs') rss
      (map (\<lambda>(lo, hi). map snd (filter (in_range lo hi) rows)) bs)"
    "scan_ranges ws stmt bs = map (\<lambda>rs. Ok (build_columns (length names) rs, names, True)) rss"
    using Cons.IH Cons.prems by auto
  show ?case
    using rs(1) rss b serves_stream [OF rs(2) nul]
    by (intro exI [of _ "rs # rss"]) (simp add: scan_ranges_def)
qed

text \<open>The outcomes of the parallel scan: it is given up, or it returns the rows cut into ranges.\<close>

lemma parallel_scan_outcome:
  assumes snap: "snapshot env conn sql cols table rows names rs0"
    and pool: "\<And>w. w \<in> set pool \<Longrightarrow> scans_table (scan_statement cols table) rows names w"
  obtains pool' where "try_parallel_scan (Some env) pool conn cols table = (Ok None, pool')"
    "\<And>w. w \<in> set pool' \<Longrightarrow> scans_table (scan_statement cols table) rows names w"
  | pool' mn mx parts rss where "scan_endpoints conn table = Some (Some mn, Some mx)" "2 \<le> parts" "parts \<le> 12"
    "try_parallel_scan (Some env) pool conn cols table =
      (Ok (Some (map (build_columns (length names)) rss, names, True)), pool')"
    "cut_rows mn mx parts rows rss" "mset (concat rss) = mset (map snd rows)" "rss \<noteq> []"
proof -
  note none = that(1) and some = that(2)
  define threads where "threads = min (env_parallelism env) 12"
  let ?stmt = "scan_statement cols table"
  note scan = try_parallel_scan_def threads_def [symmetric]
  have giveup: thesis if "try_parallel_scan (Some env) pool conn cols table = (Ok None, pool)"
    using none that pool by blast
  show thesis
  proof (cases "2 \<le> threads \<and> (\<exists>mn mx. scan_endpoints conn table = Some (Some mn, Some mx)
      \<and> PARALLEL_MIN_SPAN \<le> sint (clamp_i64 (sint mx - sint mn)))")
    case False
    show thesis
    proof (cases "scan_endpoints conn table")
      case None
      then show thesis by (intro giveup) (simp add: scan Let_def)
    next
      case (Some ab)
      obtain a b where ab: "ab = (a, b)" by fastforce
      show thesis
      proof (cases "a = None \<or> b = None")
        case True
        with Some ab show thesis
          by (intro giveup) (auto simp: scan Let_def split: option.split)
      next
        case non: False
        then obtain mn mx where mm: "a = Some mn" "b = Some mx" by auto
        with False Some ab have "\<not> 2 \<le> threads \<or> sint (clamp_i64 (sint mx - sint mn)) < PARALLEL_MIN_SPAN"
          by auto
        with mm Some ab show thesis by (intro giveup) (auto simp: scan Let_def)
      qed
    qed
  next
    case True
    then obtain mn mx where e: "scan_endpoints conn table = Some (Some mn, Some mx)"
      "PARALLEL_MIN_SPAN \<le> sint (clamp_i64 (sint mx - sint mn))" and th: "2 \<le> threads" by blast
    have fit: "sint mx - sint mn < 2 ^ 63 - 1" and rng: "list_all (in_range mn mx) rows"
      using snap e(1) by (simp_all add: snapshot_def)
    obtain sh where sh: "rowid_shadowed (env_show env) conn table = Ok sh"
      using snap by (auto simp: snapshot_def is_ok_iff)
    show thesis
    proof (cases sh)
      case True
      with e th sh show thesis by (intro giveup) (simp add: scan Let_def)
    next
      case False
      define keep where "keep = length pool - min threads (length pool)"
      define ws where "ws = open_more (env_worker env) threads (drop keep pool)"
      have tps: "try_parallel_scan (Some env) pool conn cols table =
          (if length ws < 2 then (Ok None, take keep pool @ ws)
           else (collect_chunks (scan_ranges ws ?stmt (scan_bounds mn mx (length ws))), take keep pool @ ws))"
        using False e th sh by (simp add: scan Let_def keep_def ws_def)
      have ws: "scans_table ?stmt rows names w" if "w \<in> set ws" for w
        using open_more_set [of w] that snap pool unfolding ws_def snapshot_def
        by (blast dest: in_set_dropD)
      then have pool': "scans_table ?stmt rows names w" if "w \<in> set (take keep pool @ ws)" for w
        using that pool by (auto dest: in_set_takeD)
      show thesis
      proof (cases "length ws < 2")
        case True
        with tps pool' none show thesis by simp
      next
        case False
        have len: "length ws \<le> 12"
        proof -
          have "length (drop keep pool) \<le> threads" by (auto simp: keep_def min_def)
          moreover have "threads \<le> 12" by (simp add: threads_def)
          ultimately show ?thesis
            using open_more_length [of "drop keep pool" threads "env_worker env"]
            unfolding ws_def by linarith
        qed
        have "sint (clamp_i64 (sint mx - sint mn)) = sint mx - sint mn"
        proof (cases "- (2 ^ 63) \<le> sint mx - sint mn")
          case True
          with fit show ?thesis by (intro clamp_id) simp_all
        next
          case False
          then have "sint (clamp_i64 (sint mx - sint mn)) < 0"
            by (simp add: clamp_i64_def sint_word_of_int)
          with e(2) show ?thesis by (simp add: PARALLEL_MIN_SPAN_def)
        qed
        with e(2) have span: "65536 \<le> sint mx - sint mn" by (simp add: PARALLEL_MIN_SPAN_def)
        let ?rr = "range_rows mn mx (length ws) rows"
        have blen: "length (scan_bounds mn mx (length ws)) = length ws" by (simp add: scan_bounds_def Let_def)
        obtain rss where rss: "cut_rows mn mx (length ws) rows rss"
          "scan_ranges ws ?stmt (scan_bounds mn mx (length ws))
            = map (\<lambda>rs. Ok (build_columns (length names) rs, names, True)) rss"
          using scan_ranges_serve [of ws ?stmt rows names, OF ws _ blen] snap
          unfolding cut_rows_def range_rows_def by (auto simp: snapshot_def)
        have "length rss = length ws" using list_all2_lengthD [OF rss(1) [unfolded cut_rows_def]] blen
          by (simp add: range_rows_def)
        then have ne: "rss \<noteq> []" using False by auto
        have "collect_chunks (scan_ranges ws ?stmt (scan_bounds mn mx (length ws)))
            = Ok (Some (map (build_columns (length names)) rss, names, True))"
          by (rule collect_ok [OF _ rss(2)]) (use ne rss(2) in simp)
        moreover have "concat ?rr = map snd rows"
        proof -
          have "concat (map (\<lambda>(lo, hi). filter (\<lambda>x. sint lo \<le> sint (fst x) \<and> sint (fst x) \<le> sint hi) rows)
              (scan_bounds mn mx (length ws))) = rows"
          proof (rule bounds_partition)
            show "sorted_wrt (\<lambda>x y. sint (fst x) \<le> sint (fst y)) rows" using snap by (simp add: snapshot_def)
            show "sint mn \<le> sint (fst x) \<and> sint (fst x) \<le> sint mx" if "x \<in> set rows" for x
              using rng that by (auto simp: list_all_iff in_range_def)
          qed (use fit False len span in auto)
          then have "concat (map (\<lambda>(lo, hi). filter (in_range lo hi) rows) (scan_bounds mn mx (length ws))) = rows"
            unfolding in_range_def .
          then have "map snd (concat (map (\<lambda>(lo, hi). filter (in_range lo hi) rows)
              (scan_bounds mn mx (length ws)))) = map snd rows" by simp
          then show ?thesis by (simp add: range_rows_def map_concat o_def case_prod_unfold)
        qed
        then have "mset (concat rss) = mset (map snd rows)"
          using mset_concat_cong [OF rss(1) [unfolded cut_rows_def]] by simp
        ultimately show thesis
          using tps False len ne e(1) rss(1) by (intro some [of mn mx "length ws" rss]) simp_all
      qed
    qed
  qed
qed

section \<open>Same results\<close>

lemma same_cols_run:
  assumes "list_all2 same_col bs ds" "length names = length bs"
  shows "(case sort_built usort bs names key desc of Some bs \<Rightarrow> finish_ro bs names True | None \<Rightarrow> r)
    = (case sort_built usort ds names key desc of Some bs \<Rightarrow> finish_ro bs names True | None \<Rightarrow> r)"
  using same_cols_sort [OF assms, of usort key desc]
  by (auto simp: finish_ro_def same_cols_finish split: option.splits)

lemma run_whole_own:
  assumes "snapshot env conn (fst (split_order sql)) cols table rows names rs0"
  shows "run_whole (reordered conn (fst (split_order sql)) rs0) sql [] = run_whole conn sql []"
proof (cases "sql = fst (split_order sql)")
  case True
  have sv: "serves conn sql [] rs0 names" and nul: "CHR 0x00 \<notin> set sql"
    using assms True by (simp_all add: snapshot_def)
  show ?thesis
    unfolding True [symmetric] using serves_stream [OF sv nul] stream_reordered [OF sv nul, of rs0]
    by (simp add: run_whole_def)
next
  case False
  then show ?thesis by (simp add: run_whole_def reordered_other)
qed

lemma scan_unobservable:
  assumes shape: "parse_parallel_shape (fst (split_order sql)) = Ok (Some (cols, table))"
    and snap: "snapshot env conn (fst (split_order sql)) cols table rows names rs0"
    and pool: "\<And>w. w \<in> set pool \<Longrightarrow> scans_table (scan_statement cols table) rows names w"
    and sel: "is_select sql"
  shows "\<exists>rs. mset rs = mset (map snd rows) \<and>
    fst (run_query_params usort (Some env) pool conn sql []) =
      serial_answer usort conn sql (snd (split_order sql)) names rs"
proof -
  obtain scan_sql order where so: "split_order sql = (scan_sql, order)" by fastforce
  have sv: "serves conn scan_sql [] rs0 names" and nul: "CHR 0x00 \<notin> set scan_sql"
    and rs0: "mset rs0 = mset (map snd rows)" and good: "good_rows (length names) (map snd rows)"
    using snap so by (simp_all add: snapshot_def)
  note own = run_serial_answer(1) [OF so sv nul, of usort]
  show ?thesis
  proof (rule parallel_scan_outcome [OF snap pool])
    fix pool' assume "try_parallel_scan (Some env) pool conn cols table = (Ok None, pool')"
    with sel shape so own rs0 show ?thesis by (intro exI [of _ rs0]) (simp add: run_query_params_def)
  next
    fix pool' mn mx parts rss
    let ?n = "length names"
    assume tps: "try_parallel_scan (Some env) pool conn cols table =
        (Ok (Some (map (build_columns ?n) rss, names, True)), pool')"
      and cat: "mset (concat rss) = mset (map snd rows)" and ne: "rss \<noteq> []"
    note good' = good_rows_mset [OF good cat]
    obtain bs where bs: "merge_chunks (map (build_columns ?n) rss) = Ok bs"
      "list_all2 same_col bs (build_columns ?n (concat rss))"
      using merge_built_chunks [OF ne good'] by auto
    have len: "length names = length bs"
      using list_all2_lengthD [OF bs(2)] length_build_columns [of "concat rss" ?n] good'
      by (simp add: good_rows_def)
    note run = sel shape so tps bs(1) own
    show ?thesis
    proof (cases order)
      case None
      with run cat show ?thesis
        by (intro exI [of _ "concat rss"])
          (simp add: run_query_params_def serial_answer_def finish_ro_def same_cols_finish [OF bs(2)])
    next
      case (Some kd)
      obtain key desc where kd: "kd = (key, desc)" by fastforce
      show ?thesis
      proof (cases "sort_built usort bs names key desc")
        case None
        with Some kd run rs0 show ?thesis
          by (intro exI [of _ rs0]) (simp add: run_query_params_def)
      next
        case sorted: (Some cs)
        have "finish_ro cs names True = serial_answer usort conn sql order names (concat rss)"
          using same_cols_run [OF bs(2) len, where usort = usort and key = key and desc = desc and r = "run_whole conn sql []"] sorted Some kd
          by (simp add: serial_answer_def)
        with Some kd run sorted cat show ?thesis
          by (intro exI [of _ "concat rss"]) (simp add: run_query_params_def)
      qed
    qed
  qed
qed

lemma serial_run:
  assumes "parse_parallel_shape (fst (split_order sql)) = Ok (Some (cols, table))"
    and "snapshot env conn (fst (split_order sql)) cols table rows names rs0" "is_select sql"
  shows "fst (run_query_params usort None [] (reordered conn (fst (split_order sql)) rs) sql [])
    = serial_answer usort conn sql (snd (split_order sql)) names rs"
proof -
  obtain scan_sql order where so: "split_order sql = (scan_sql, order)" by fastforce
  have "serves conn scan_sql [] rs0 names" "CHR 0x00 \<notin> set scan_sql"
    using assms(2) so by (simp_all add: snapshot_def)
  from run_serial_answer(2) [OF so this] assms(1,3) so show ?thesis
    by (simp add: run_query_params_def try_parallel_scan_def)
qed

section \<open>A small table\<close>

definition sample_rows :: "(i64 \<times> sq_cell list) list" where
  "sample_rows = [(1, [CellInt 5]), (100000, [CellInt 3])]"

definition sample_prepared :: "nat \<Rightarrow> string list \<Rightarrow> (sql_value list \<Rightarrow> sq_cell list list) \<Rightarrow> prep" where
  "sample_prepared n names step = Prepared
    \<lparr>p_readonly = True, p_nparams = n, p_names = names, p_bind = (\<lambda>_. None), p_step = (\<lambda>ps. (step ps, None))\<rparr>"

text \<open>A connection to a table t with one column a; a scan of the whole table returns the rows backwards.\<close>

definition table_conn :: "(i64 \<times> sq_cell list) list \<Rightarrow> conn" where
  "table_conn rows sql =
    (if sql = ''SELECT a FROM t'' then sample_prepared 0 [''a''] (\<lambda>_. rev (map snd rows))
     else if sql = scan_statement [''a''] ''t'' then sample_prepared 2 [''a''] (\<lambda>ps. case ps of
        [SInteger lo, SInteger hi] \<Rightarrow> map snd (filter (in_range lo hi) rows) | _ \<Rightarrow> [])
     else if sql = ''PRAGMA table_info(t)'' then sample_prepared 0 [] (\<lambda>_. [[CellInt 0, CellText [97]]])
     else sample_prepared 0 [''a'', ''b''] (\<lambda>_. [[CellInt 1, CellInt 100000]]))"

definition sample_env :: scan_env where
  "sample_env = \<lparr>env_parallelism = 2, env_worker = (\<lambda>_. Some (table_conn sample_rows)), env_show = (\<lambda>m. m)\<rparr>"

lemma sample_shape:
  "split_order ''SELECT a FROM t'' = (''SELECT a FROM t'', None)"
  "parse_parallel_shape ''SELECT a FROM t'' = Ok (Some ([''a''], ''t''))"
  by code_simp+

lemma sample_scans: "scans_table (scan_statement [''a''] ''t'') rows [''a''] (table_conn rows)"
  by (simp add: scans_table_def serves_def table_conn_def sample_prepared_def scan_statement_def)

lemma sample_endpoints: "scan_endpoints (table_conn rows) ''t'' = Some (Some 1, Some 100000)"
  by (simp add: scan_endpoints_def table_conn_def sample_prepared_def scan_statement_def opt_int_cell_def)

lemma sample_snapshot:
  "snapshot sample_env (table_conn sample_rows) ''SELECT a FROM t'' [''a''] ''t'' sample_rows [''a'']
     [[CellInt 3], [CellInt 5]]"
  unfolding snapshot_def
proof (intro conjI allI impI)
  show "serves (table_conn sample_rows) ''SELECT a FROM t'' [] [[CellInt 3], [CellInt 5]] [''a'']"
    by (simp add: serves_def table_conn_def sample_prepared_def sample_rows_def)
  show "good_rows (length [''a'']) (map snd sample_rows)"
    by (simp add: good_rows_def sample_rows_def exact_ints_def)
  show "scans_table (scan_statement [''a''] ''t'') sample_rows [''a''] w" if "env_worker sample_env i = Some w" for i w
    using that sample_scans by (auto simp: sample_env_def)
  show "is_ok (rowid_shadowed (env_show sample_env) (table_conn sample_rows) ''t'')"
    by code_simp
qed (simp_all add: sample_rows_def sample_endpoints in_range_def scan_statement_def)

text \<open>
  Where the workers see another state the conclusion fails: a connection that has inserted a row and not
  committed it reads its three rows alone, and two rows through workers that see the committed ones.
\<close>

lemma uncommitted_row_missed:
  "(case fst (run_query_params insertion_sort None [] (table_conn ((50000, [CellInt 9]) # sample_rows))
      ''SELECT a FROM t'' []) of Inr (b, _) \<Rightarrow> num_rows b | _ \<Rightarrow> 0) = 3"
  "(case fst (run_query_params insertion_sort (Some sample_env) [] (table_conn ((50000, [CellInt 9]) # sample_rows))
      ''SELECT a FROM t'' []) of Inr (b, _) \<Rightarrow> num_rows b | _ \<Rightarrow> 0) = 2"
  by code_simp+

text \<open>
  C4: Running a SELECT with worker connections returns what a serial run returns: there is an order of the
  table's rows such that a connection giving the unsorted SELECT in that order, and otherwise like the
  caller's, returns the same batch and the same read-only flag without workers, sorted or not. Conditions: the
  workers see the state the caller's connection sees (nothing uncommitted on it, no write in between), row
  ids lie within a span of 63 bits, texts are UTF-8, and in a column mixing texts and floats every integer
  prints alike directly and through a float. No order is assumed of any connection.
\<close>

theorem parallel_scan_unobservable:
  assumes shape: "parse_parallel_shape (fst (split_order sql)) = Ok (Some (cols, table))"
    and snap: "snapshot env conn (fst (split_order sql)) cols table rows names rs0"
    and pool: "\<And>w. w \<in> set pool \<Longrightarrow> scans_table (scan_statement cols table) rows names w"
  shows "\<exists>rs. mset rs = mset (map snd rows)
    \<and> fst (run_query_params usort (Some env) pool conn sql []) =
      fst (run_query_params usort None [] (reordered conn (fst (split_order sql)) rs) sql [])"
proof (cases "is_select sql")
  case False
  with run_whole_own [OF snap] snap show ?thesis
    by (intro exI [of _ rs0]) (simp add: run_query_params_def snapshot_def)
next
  case True
  from scan_unobservable [OF shape snap pool True] serial_run [OF shape snap True] show ?thesis by metis
qed

lemma parallel_scan_unobservable_witness:
  "\<exists>rs. mset rs = mset [[CellInt 5], [CellInt 3]]
    \<and> fst (run_query_params insertion_sort (Some sample_env) [] (table_conn sample_rows) ''SELECT a FROM t'' []) =
      fst (run_query_params insertion_sort None [] (reordered (table_conn sample_rows) ''SELECT a FROM t'' rs)
        ''SELECT a FROM t'' [])"
proof -
  have "snapshot sample_env (table_conn sample_rows) (fst (split_order ''SELECT a FROM t'')) [''a''] ''t''
      sample_rows [''a''] [[CellInt 3], [CellInt 5]]"
    unfolding sample_shape fst_conv by (rule sample_snapshot)
  from parallel_scan_unobservable [OF _ this, of "[]" insertion_sort] show ?thesis
    by (simp add: sample_shape sample_rows_def)
qed

end
