(* ===== verification/DirectEncode.thy ===== *)
theory DirectEncode
  imports ScanSerial
begin

text \<open>
  The direct encoding of scan chunks. Its gates make every chunk of a column plain: without nulls, of
  one class and never promoted. The parts then stand for the very column the serial scan builds, so the
  chunked encoder writes the bytes the serial path would. A trailing ORDER BY is satisfied when every
  chunk has rows; with an empty chunk the test of the boundaries misses a pair, as
  \<open>boundary_check_skips_empty\<close> shows.
\<close>

section \<open>The column of plain chunks\<close>

lemma conv_own_class: "slot_class s = k \<Longrightarrow> conv k s = s"
  by (cases s) (auto simp: conv_def)

lemma same_col_rep: "same_col c d \<Longrightarrow> acol_rep c k vs \<longleftrightarrow> acol_rep d k vs"
  by (auto simp: acol_rep_def dest: same_colD)

lemma plain_merge_target:
  assumes "list_all (plain_part k) ps" "list_all2 part_rep ps rs"
  shows "ps \<noteq> [] \<Longrightarrow> merge_target ps = k" "\<not> merge_promoted ps"
proof -
  have cls: "data_class (a_data p) = k" "\<not> promoted p" if "p \<in> set ps" for p
    using assms(1) that by (auto simp: list_all_iff plain_part_def)
  have t: "merge_target ps = (if list_ex has_value ps then k else 0)"
  proof (cases "list_ex has_value ps")
    case True
    then have "k \<in> set (map (\<lambda>p. data_class (a_data p)) (filter has_value ps))"
      using cls by (force simp: list_ex_iff)
    then have "k \<le> merge_target ps" unfolding merge_target_def by (rule fold_max_le)
    moreover have "merge_target ps \<le> k" unfolding merge_target_def
      by (rule fold_max_bound) (auto simp: cls)
    ultimately show ?thesis using True by simp
  next
    case False
    then have "filter has_value ps = []" by (auto simp: list_ex_iff filter_empty_conv)
    with False show ?thesis by (simp add: merge_target_def)
  qed
  show "merge_target ps = k" if ne: "ps \<noteq> []"
  proof (cases "list_ex has_value ps")
    case False
    obtain p r where p: "p \<in> set ps" "part_rep p r"
      using ne assms(2) by (cases ps; cases rs) auto
    have "k = 0"
    proof (rule ccontr)
      assume "k \<noteq> 0"
      moreover have "fst r = k" using p cls data_class_rep by (fastforce simp: part_rep_def)
      ultimately have "has_value p" using p(2) has_value_rep by (auto simp: part_rep_def)
      with False p(1) show False by (auto simp: list_ex_iff)
    qed
    with t show ?thesis by simp
  qed (use t in simp)
  show "\<not> merge_promoted ps"
    using cls t unfolding merge_promoted_def by (auto simp: list_ex_iff split: if_splits)
qed

definition good_column :: "sq_cell list list \<Rightarrow> bool" where
  "good_column css \<longleftrightarrow>
     css \<noteq> [] \<and> length (concat css) < 2 ^ 32 \<and> exact_ints (concat css)
     \<and> (\<forall>t. CellText t \<in> set (concat css) \<longrightarrow> valid_utf8 t)"

lemma good_column_small: "good_column css \<Longrightarrow> cs \<in> set css \<Longrightarrow> length cs < 2 ^ 32"
  using length_chunk [of cs css] by (simp add: good_column_def)

lemma plain_column:
  assumes good: "good_column css" and plain: "list_all (\<lambda>cs. plain_part k (scan_col cs)) css"
  defines "S \<equiv> scan_col (concat css)"
  shows "acol_rep S k (concat (map column_slots css))" "nulls S = []" "\<not> promoted S" "text_valid S"
    "saw_blob S = list_ex (\<lambda>cs. saw_blob (scan_col cs)) css"
    "\<And>cs. cs \<in> set css \<Longrightarrow> acol_rep (scan_col cs) k (column_slots cs)"
proof -
  have gd: "css \<noteq> []" "length (concat css) < 2 ^ 32" "exact_ints (concat css)"
    "\<And>t. CellText t \<in> set (concat css) \<Longrightarrow> valid_utf8 t"
    using good by (simp_all add: good_column_def)
  have pl: "list_all (plain_part k) (map scan_col css)" using plain by (simp add: list.pred_map o_def)
  have parts: "list_all2 part_rep (map scan_col css) (map (\<lambda>cs. (infer_class cs, column_slots cs)) css)"
    using part_rep_scan good_column_small [OF good] by (simp add: list_all2_map1 list_all2_map2 list_all2_same)
  note t = plain_merge_target [OF pl parts]
  have k: "merge_target (map scan_col css) = k" using t(1) gd(1) by simp
  obtain acc where acc: "merge_col (map scan_col css) = Ok acc"
    "acol_rep acc (infer_class (concat css)) (column_slots (concat css))"
    "promoted acc = promoted S" "saw_blob acc = saw_blob S" "text_valid acc = text_valid S"
    using merge_scan_valid [OF gd] unfolding S_def by blast
  have Srep: "acol_rep S (infer_class (concat css)) (column_slots (concat css))"
    unfolding S_def by (rule scan_col_rep [OF gd(2)])
  have same: "same_col acc S"
    using acc Srep data_rep_unique by (intro same_colI) (auto simp: acol_rep_def)
  obtain acc' where acc': "merge_col (map scan_col css) = Ok acc'"
    "acol_rep acc' k (concat (map (\<lambda>r. map (map_option (conv k)) (snd r))
        (map (\<lambda>cs. (infer_class cs, column_slots cs)) css)))"
    "promoted acc' = merge_promoted (map scan_col css)" "saw_blob acc' = list_ex saw_blob (map scan_col css)"
    "text_valid acc' = list_all text_valid (map scan_col css)"
    using merge_col_rep [OF parts] gd(1) unfolding k by auto
  then have eq: "acc' = acc" using acc(1) by simp
  show rep: "acol_rep (scan_col cs) k (column_slots cs)" if "cs \<in> set css" for cs
  proof -
    have r: "acol_rep (scan_col cs) (infer_class cs) (column_slots cs)"
      by (rule scan_col_rep [OF good_column_small [OF good that]])
    moreover have "data_class (a_data (scan_col cs)) = k"
      using plain that by (auto simp: list_all_iff plain_part_def)
    ultimately show ?thesis using data_class_rep [OF r] by simp
  qed
  have "map (map_option (conv k)) (column_slots cs) = column_slots cs" if "cs \<in> set css" for cs
  proof (rule map_option_id)
    fix s assume "Some s \<in> set (column_slots cs)"
    with rep [OF that] show "conv k s = s" by (intro conv_own_class) (auto simp: acol_rep_def of_class_def)
  qed
  then have slots: "concat (map (\<lambda>r. map (map_option (conv k)) (snd r))
        (map (\<lambda>cs. (infer_class cs, column_slots cs)) css)) = concat (map column_slots css)"
    by (simp add: o_def cong: map_cong)
  from acc'(2) show Sk: "acol_rep S k (concat (map column_slots css))"
    unfolding eq slots same_col_rep [OF same] .
  have "None \<notin> set (column_slots cs)" if "cs \<in> set css" for cs
    using rep [OF that] plain that null_index_eq_Nil
    by (auto simp: list_all_iff plain_part_def acol_rep_def)
  then have "None \<notin> set (concat (map column_slots css))" by auto
  with Sk show "nulls S = []" by (simp add: acol_rep_def null_index_eq_Nil)
  show "\<not> promoted S" using acc'(3) t(2) acc(3) eq by simp
  show "saw_blob S = list_ex (\<lambda>cs. saw_blob (scan_col cs)) css"
    using acc'(4) acc(4) eq by (simp add: list_ex_iff)
  show "text_valid S" using acc'(5) plain acc(5) eq by (simp add: list_all_iff plain_part_def)
qed

section \<open>The parts stand for that column\<close>

lemma a_ascii_fold [simp]: "a_ascii (fold push_cell cells c) = a_ascii c"
proof (induction cells arbitrary: c)
  case (Cons x cells)
  have "a_ascii (push_cell x c) = a_ascii c"
    by (cases x) (auto simp: a_push_null_def a_push_int_def a_push_real_def a_push_text_def a_push_blob_def
        promote_to_float_def promote_to_str_def Let_def split: adaptive_data.splits prod.splits)
  with Cons show ?case by simp
qed simp

lemma a_ascii_scan:
  assumes "a_data (scan_col cs) = AStr offs data"
  shows "a_ascii (scan_col cs) = bytes_is_ascii data"
proof -
  have "a_data (fold push_cell cs acol_new) = AStr offs data"
    using assms by (auto simp: scan_col_def validate_text_def split: adaptive_data.splits if_splits)
  then show ?thesis by (simp add: scan_col_def validate_text_def acol_new_def)
qed

lemma shifted_offsets_segs:
  fixes pre :: "bytes list"
  shows "shifted_offsets (word_of_nat (length (concat pre))) (map (\<lambda>s. (offsets_of s, concat s)) segss)
    = map (\<lambda>k. k + word_of_nat (length (concat pre))) (tl (offsets_of (concat segss)))"
proof (induction segss arbitrary: pre)
  case Nil
  then show ?case by (simp add: offsets_of_def)
next
  case (Cons s segss)
  have r: "repr_segs (offsets_of s @ map (\<lambda>k. k + word_of_nat (length (concat s))) (tl (offsets_of (concat segss))))
      (concat s @ concat (concat segss)) (s @ concat segss)"
    by (rule repr_segs_append) (simp_all add: repr_segs_def)
  then have o: "offsets_of (s @ concat segss) =
      offsets_of s @ map (\<lambda>k. k + word_of_nat (length (concat s))) (tl (offsets_of (concat segss)))"
    by (simp add: repr_segs_def)
  have "offsets_of s \<noteq> []" by (metis repr_segs_def repr_segs_length list.size(3) nat.distinct(1))
  then have t: "tl (offsets_of (concat (s # segss))) =
      tl (offsets_of s) @ map (\<lambda>k. k + word_of_nat (length (concat s))) (tl (offsets_of (concat segss)))"
    using o by simp
  show ?case
    using Cons [of "pre @ s"] unfolding t
    by (simp add: u32_of_def algebra_simps)
qed


text \<open>The parts of one column, from the columns of its chunks.\<close>

definition parts_of :: "adaptive_col list \<Rightarrow> col_parts" where
  "parts_of cols =
     (case a_data (hd cols) of
        AInt _ \<Rightarrow> PInt (map (\<lambda>p. case a_data p of AInt v \<Rightarrow> v | _ \<Rightarrow> []) cols)
      | AFloat _ \<Rightarrow> PFloat (map (\<lambda>p. case a_data p of AFloat v \<Rightarrow> v | _ \<Rightarrow> []) cols)
      | AStr _ _ \<Rightarrow>
          PUtf8 (map (\<lambda>p. case a_data p of AStr offs data \<Rightarrow> (offs, data) | _ \<Rightarrow> ([], [])) cols)
                (list_all a_ascii cols))"

lemma chunk_parts_of: "chs \<noteq> [] \<Longrightarrow> chunk_parts chs c = parts_of (map (\<lambda>ch. ch ! c) chs)"
  by (cases chs) (simp_all add: chunk_parts_def parts_of_def o_def list.pred_map split: adaptive_data.split)

lemma data_rep_data:
  "data_rep d 0 vs \<longleftrightarrow> d = AInt (map int_of vs)"
  "data_rep d (Suc 0) vs \<longleftrightarrow> d = AFloat (map float_of vs)"
  "data_rep d 2 vs \<longleftrightarrow> d = AStr (offsets_of (map text_of vs)) (concat (map text_of vs))"
  by (cases d; auto simp: repr_segs_def)+

lemma offsets_of_tl: "0 # tl (offsets_of segs) = offsets_of segs"
  by (cases segs) (simp_all add: offsets_of_def)

lemma concat_concat: "concat (concat xsss) = concat (map concat xsss)"
  by (induction xsss) simp_all

lemma bytes_is_ascii_concat: "bytes_is_ascii (concat xss) \<longleftrightarrow> list_all bytes_is_ascii xss"
  by (induction xss) (auto simp: bytes_is_ascii_def)

lemma parts_of_plain:
  assumes good: "good_column css" and plain: "list_all (\<lambda>cs. plain_part k (scan_col cs)) css"
  shows "parts_ok (length (concat css)) (parts_of (map scan_col css))"
    and "a_finish nm (scan_col (concat css)) = parts_column (length (concat css)) nm (parts_of (map scan_col css))"
proof -
  let ?S = "scan_col (concat css)" and ?vss = "map column_slots css" and ?P = "parts_of (map scan_col css)"
  note pc = plain_column [OF good plain]
  have len: "length (column_slots cs) = length cs" if "cs \<in> set css" for cs
    by simp
  have lens: "length (concat ?vss) = length (concat css)"
    using len by (simp add: length_concat o_def cong: map_cong)
  have d: "data_rep (a_data (scan_col cs)) k (column_slots cs)" if "cs \<in> set css" for cs
    using pc(6) [OF that] by (simp add: acol_rep_def)
  have S: "data_rep (a_data ?S) k (concat ?vss)" "a_len ?S = length (concat css)"
    using pc(1) lens by (simp_all add: acol_rep_def)
  obtain c0 cs0 where css: "css = c0 # cs0" using good by (cases css) (auto simp: good_column_def)
  have "data_class (a_data (scan_col c0)) = k" using plain css by (simp add: plain_part_def)
  then have "k \<le> 2" by (cases "a_data (scan_col c0)") auto
  then consider "k = 0" | "k = 1" | "k = 2" by linarith
  then have "parts_ok (length (concat css)) ?P
    \<and> a_finish nm ?S = parts_column (length (concat css)) nm ?P"
  proof cases
    case 1
    have cols: "a_data (scan_col cs) = AInt (map int_of (column_slots cs))" if "cs \<in> set css" for cs
      using d [OF that] 1 data_rep_data by simp
    then have P: "?P = PInt (map (map int_of) ?vss)"
      using css by (auto simp: parts_of_def)
    have "a_data ?S = AInt (concat (map (map int_of) ?vss))" using S 1 data_rep_data by (simp add: map_concat)
    with P pc S lens show ?thesis
      by (simp add: a_finish_def parts_column_def field_new_def flip: map_concat)
  next
    case 2
    have cols: "a_data (scan_col cs) = AFloat (map float_of (column_slots cs))" if "cs \<in> set css" for cs
      using d [OF that] 2 data_rep_data by simp
    then have P: "?P = PFloat (map (map float_of) ?vss)"
      using css by (auto simp: parts_of_def)
    have "a_data ?S = AFloat (concat (map (map float_of) ?vss))" using S 2 data_rep_data by (simp add: map_concat)
    with P pc S lens show ?thesis
      by (simp add: a_finish_def parts_column_def field_new_def flip: map_concat)
  next
    case 3
    let ?segss = "map (map text_of) ?vss"
    have cols: "a_data (scan_col cs) = AStr (offsets_of (map text_of (column_slots cs))) (concat (map text_of (column_slots cs)))"
      if "cs \<in> set css" for cs
      using d [OF that] 3 data_rep_data by simp
    have asc: "a_ascii (scan_col cs) = bytes_is_ascii (concat (map text_of (column_slots cs)))" if "cs \<in> set css" for cs
      by (rule a_ascii_scan [OF cols [OF that]])
    have P: "?P = PUtf8 (map (\<lambda>s. (offsets_of s, concat s)) ?segss) (bytes_is_ascii (concat (concat ?segss)))"
    proof -
      have "list_all a_ascii (map scan_col css) = bytes_is_ascii (concat (concat ?segss))"
        using asc by (simp add: concat_concat bytes_is_ascii_concat list_all_iff)
      then show ?thesis using cols css by (auto simp: parts_of_def)
    qed
    have ok: "parts_ok (length (concat css)) ?P"
      unfolding P parts_ok.simps
    proof (intro conjI)
      show "list_all (\<lambda>(offsets, _). offsets \<noteq> []) (map (\<lambda>s. (offsets_of s, concat s)) ?segss)"
        by (auto simp: list_all_iff offsets_of_def)
      show "sum_list (map (\<lambda>(offsets, _). length offsets - 1) (map (\<lambda>s. (offsets_of s, concat s)) ?segss))
          = length (concat css)"
        using len by (simp add: o_def length_offsets_of length_concat cong: map_cong)
      show "bytes_is_ascii (concat (concat ?segss)) =
          bytes_is_ascii (concat (map snd (map (\<lambda>s. (offsets_of s, concat s)) ?segss)))"
        by (simp add: o_def concat_concat)
    qed
    have so: "0 # shifted_offsets 0 (map (\<lambda>s. (offsets_of s, concat s)) ?segss) = offsets_of (concat ?segss)"
      using shifted_offsets_segs [of "[]" ?segss] offsets_of_tl [of "concat ?segss"] by simp
    have Sd: "a_data ?S = AStr (offsets_of (concat ?segss)) (concat (concat ?segss))"
      using S 3 data_rep_data by (simp add: map_concat)
    have "parts_data ?P = DUtf8 (offsets_of (concat ?segss)) (concat (concat ?segss))"
      unfolding P parts_data.simps so by (simp add: o_def concat_concat)
    moreover have "parts_type ?P = Utf8" unfolding P by simp
    ultimately have "a_finish nm ?S = parts_column (length (concat css)) nm ?P"
      using Sd pc S by (simp add: a_finish_def parts_column_def field_new_def)
    with ok show ?thesis by blast
  qed
  then show "parts_ok (length (concat css)) ?P"
    "a_finish nm ?S = parts_column (length (concat css)) nm ?P" by blast+
qed


section \<open>The encoded chunks\<close>

lemma fold_push_row_0 [simp]: "fold push_row rows [] = []"
  by (induction rows) (simp_all add: push_row_def)

lemma gate_chunks_True:
  "gate_chunks c k chs = Inr True \<Longrightarrow> list_all (\<lambda>ch. c < length ch \<and> plain_part k (ch ! c)) chs"
  by (induction chs) (auto simp: bind_r_eq_Inr col_at_def split: if_splits)

lemma gate_columns_True:
  "gate_columns chs cs = Inr True \<Longrightarrow> c \<in> set cs \<Longrightarrow>
    \<exists>k. list_all (\<lambda>ch. c < length ch \<and> plain_part k (ch ! c)) chs"
proof (induction cs)
  case (Cons d cs)
  obtain ch rest where chs: "chs = ch # rest" using Cons.prems(1) by (cases chs) auto
  from Cons.prems(1) obtain first :: adaptive_col and ok where f: "gate_chunks d (data_class (a_data first)) chs = Inr ok"
    "(if ok then gate_columns chs cs else Ok False) = Inr True"
    unfolding gate_columns.simps chs list.case bind_r_eq_Inr by blast
  then have g: "gate_chunks d (data_class (a_data first)) chs = Inr True" "gate_columns chs cs = Inr True"
    by (simp_all split: if_splits)
  show ?case
  proof (cases "c = d")
    case True
    with gate_chunks_True [OF g(1)] show ?thesis by blast
  next
    case False
    with Cons.IH [OF g(2)] Cons.prems(2) show ?thesis by simp
  qed
qed simp

text \<open>The cells of one column of each chunk.\<close>

definition column_cells :: "sq_cell list list list \<Rightarrow> nat \<Rightarrow> sq_cell list list" where
  "column_cells rss c = map (map (\<lambda>r. r ! c)) rss"

lemma concat_column_cells: "concat (column_cells rss c) = map (\<lambda>r. r ! c) (concat rss)"
  by (simp add: column_cells_def map_concat)

lemma good_column_cells:
  assumes "rss \<noteq> []" "good_rows n (concat rss)" "c < n"
  shows "good_column (column_cells rss c)"
  unfolding good_column_def
proof (intro conjI allI impI)
  show "column_cells rss c \<noteq> []" using assms(1) by (simp add: column_cells_def)
  show "length (concat (column_cells rss c)) < 2 ^ 32" "exact_ints (concat (column_cells rss c))"
    using assms(2,3) unfolding concat_column_cells good_rows_def by simp_all
  fix t assume "CellText t \<in> set (concat (column_cells rss c))"
  then obtain r where r: "r \<in> set (concat rss)" "CellText t = r ! c" unfolding concat_column_cells by auto
  then have "length r = n" using assms(2) unfolding good_rows_def by blast
  with r assms(3) have "CellText t \<in> set r" by simp
  with r(1) assms(2) show "valid_utf8 t" unfolding good_rows_def by blast
qed

definition scanned :: "nat \<Rightarrow> sq_cell list list list \<Rightarrow> adaptive_col list list \<Rightarrow> bool" where
  "scanned n rss chs \<longleftrightarrow> rss \<noteq> [] \<and> good_rows n (concat rss) \<and> chs = map (build_columns n) rss"

lemma scanned_row: "scanned n rss chs \<Longrightarrow> rs \<in> set rss \<Longrightarrow> r \<in> set rs \<Longrightarrow> length r = n"
  unfolding scanned_def good_rows_def by auto

lemma chunk_built:
  "scanned n rss chs \<Longrightarrow> rs \<in> set rss \<Longrightarrow> build_columns n rs = map (\<lambda>c. scan_col (map (\<lambda>r. r ! c) rs)) [0..<n]"
  by (rule build_columns_scan) (rule scanned_row)

lemma serial_built:
  "scanned n rss chs \<Longrightarrow>
    build_columns n (concat rss) = map (\<lambda>c. scan_col (concat (column_cells rss c))) [0..<n]"
  unfolding concat_column_cells by (rule build_columns_scan) (auto dest: scanned_row)

lemma chunk_column:
  "scanned n rss chs \<Longrightarrow> c < n \<Longrightarrow> map (\<lambda>ch. ch ! c) chs = map scan_col (column_cells rss c)"
  using chunk_built [of n rss chs] by (auto simp: scanned_def column_cells_def)

lemma chunk_lengths:
  assumes sc: "scanned n rss chs" and n: "0 < n"
  shows "sum_list (map (\<lambda>ch. case ch of [] \<Rightarrow> 0 | c # _ \<Rightarrow> a_len c) chs) = length (concat rss)"
proof -
  have "(case build_columns n rs of [] \<Rightarrow> 0 | c # _ \<Rightarrow> a_len c) = length rs" if "rs \<in> set rss" for rs
  proof -
    have small: "length (map (\<lambda>r. r ! 0) rs) < 2 ^ 32"
      using sc length_chunk [OF that] by (simp add: scanned_def good_rows_def)
    have "build_columns n rs = scan_col (map (\<lambda>r. r ! 0) rs) # map (\<lambda>c. scan_col (map (\<lambda>r. r ! c) rs)) [1..<n]"
      unfolding chunk_built [OF sc that] using n by (simp add: upt_rec [of 0])
    then show ?thesis using scan_col_rep [OF small] by (simp add: acol_rep_def)
  qed
  then show ?thesis using sc by (simp add: scanned_def length_concat o_def cong: map_cong)
qed

lemma try_new_same:
  assumes "\<And>c. c \<in> set cs \<Longrightarrow> col_len c = n" "cs = [] \<Longrightarrow> n = 0"
  shows "try_new cs = Ok \<lparr>batch_schema = schema_new (map col_field cs), num_rows = n, columns = cs\<rparr>"
proof -
  have hd: "(case cs of [] \<Rightarrow> 0 | c # _ \<Rightarrow> col_len c) = n" using assms by (cases cs) auto
  have "List.find (\<lambda>c. col_len c \<noteq> n) cs = None" using assms(1) by (auto simp: find_None_iff)
  then show ?thesis unfolding try_new_def Let_def hd by simp
qed

lemma gate_plain:
  assumes sc: "scanned n rss chs" and gate: "gate_columns chs [0..<n] = Inr True" and c: "c < n"
  shows "\<exists>k. list_all (\<lambda>cs. plain_part k (scan_col cs)) (column_cells rss c)"
proof -
  obtain k where "list_all (\<lambda>ch. c < length ch \<and> plain_part k (ch ! c)) chs"
    using gate_columns_True [OF gate, of c] c by auto
  then have "list_all (plain_part k) (map (\<lambda>ch. ch ! c) chs)" by (simp add: list_all_iff)
  then show ?thesis unfolding chunk_column [OF sc c] by (auto simp: list.pred_map o_def)
qed

lemma plain_encode:
  fixes chs :: "adaptive_col list list"
  defines "N \<equiv> sum_list (map (\<lambda>ch. case ch of [] \<Rightarrow> 0 | c # _ \<Rightarrow> a_len c) chs)"
  assumes sc: "scanned n rss chs" and names: "length names = n" and sched: "\<And>ws. set (sched ws) = set ws"
    and gate: "gate_columns chs [0..<n] = Inr True"
  shows "\<exists>b. finish_batch (build_columns n (concat rss)) names = Ok b
    \<and> encode_parts sched junk names (map (chunk_parts chs) [0..<n]) N = Ok (encode b)"
proof -
  have ne: "rss \<noteq> []" and good: "good_rows n (concat rss)" and chs: "chs = map (build_columns n) rss"
    using sc by (simp_all add: scanned_def)
  let ?N = N and ?cols = "map (chunk_parts chs) [0..<n]"
  have N: "?N = length (concat (column_cells rss c))" if "c < n" for c
    unfolding concat_column_cells using that chunk_lengths [OF sc] by (simp add: N_def)
  have part: "chunk_parts chs c = parts_of (map scan_col (column_cells rss c))" if "c < n" for c
    using chunk_parts_of [of chs c] ne chunk_column [OF sc that] by (simp add: chs)
  have fin: "parts_ok ?N (chunk_parts chs c)"
    "a_finish nm (scan_col (concat (column_cells rss c))) = parts_column ?N nm (chunk_parts chs c)"
    if c: "c < n" for c nm
  proof -
    obtain k where k: "list_all (\<lambda>cs. plain_part k (scan_col cs)) (column_cells rss c)" using gate_plain [OF sc gate c] by blast
    show "parts_ok ?N (chunk_parts chs c)"
      "a_finish nm (scan_col (concat (column_cells rss c))) = parts_column ?N nm (chunk_parts chs c)"
      unfolding N [OF c] part [OF c] by (rule parts_of_plain [OF good_column_cells [OF ne good c] k])+
  qed
  have "encode_parts sched junk names ?cols ?N = Ok (encode (parts_batch names ?cols ?N))"
    using names fin(1) sched by (intro chunked_encode) (simp_all add: list_all_length)
  note enc = this
  have cols: "map (\<lambda>(b, nm). a_finish nm b) (zip (build_columns n (concat rss)) names)
      = map (\<lambda>(nm, p). parts_column ?N nm p) (zip names ?cols)"
    using names fin(2) by (intro nth_equalityI) (simp_all add: serial_built [OF sc])
  have "try_new (map (\<lambda>(nm, p). parts_column ?N nm p) (zip names ?cols)) = Ok (parts_batch names ?cols ?N)"
    unfolding parts_batch_def Let_def
  proof (rule try_new_same)
    show "col_len c = ?N" if "c \<in> set (map (\<lambda>(nm, p). parts_column ?N nm p) (zip names ?cols))" for c
      using that by (auto simp: parts_column_def)
    show "?N = 0" if "map (\<lambda>(nm, p). parts_column ?N nm p) (zip names ?cols) = []"
    proof -
      have "n = 0" using that names by (simp only: map_is_Nil_conv zip_eq_Nil_iff) auto
      then show ?thesis by (simp add: N_def chs build_columns_def)
    qed
  qed
  with cols enc show ?thesis unfolding finish_batch_def by metis
qed


lemma gate_chunks_ok: "\<forall>ch \<in> set chs. c < length ch \<Longrightarrow> \<exists>b. gate_chunks c k chs = Ok b"
  by (induction chs) (auto simp: col_at_def)

lemma gate_columns_ok:
  assumes "chs \<noteq> []" "\<forall>ch \<in> set chs. \<forall>c \<in> set cs. c < length ch"
  shows "\<exists>b. gate_columns chs cs = Ok b"
  using assms(2)
proof (induction cs)
  case (Cons c cs)
  obtain ch rest where chs: "chs = ch # rest" using assms(1) by (cases chs) auto
  obtain b where "gate_chunks c (data_class (a_data (ch ! c))) chs = Ok b"
    using gate_chunks_ok [of chs c "data_class (a_data (ch ! c))"] Cons.prems by auto
  moreover have "col_at ch c = Ok (ch ! c)" using Cons.prems chs by (simp add: col_at_def)
  moreover obtain b' where "gate_columns chs cs = Ok b'" using Cons by auto
  ultimately show ?case using chs by auto
qed auto

lemma direct_outcome:
  assumes sc: "scanned n rss chs" and names: "length names = n" and sched: "\<And>ws. set (sched ws) = set ws"
  obtains "encode_chunks_direct sched junk chs names order = Ok None"
  | b where "finish_batch (build_columns n (concat rss)) names = Ok b"
      "encode_chunks_direct sched junk chs names order = Ok (Some (encode b))"
      "gate_columns chs [0..<n] = Inr True" "order_satisfied chs names order"
proof -
  note none = that(1) and some = that(2)
  have "\<forall>ch \<in> set chs. length ch = n"
    using sc chunk_built [OF sc] by (auto simp: scanned_def)
  then obtain plain where g: "gate_columns chs [0..<n] = Ok plain"
    using gate_columns_ok [of chs "[0..<n]"] sc by (auto simp: scanned_def)
  show thesis
  proof (cases "plain \<and> order_satisfied chs names order")
    case False
    with g names show thesis by (intro none) (auto simp: encode_chunks_direct_def Let_def)
  next
    case True
    then have gate: "gate_columns chs [0..<n] = Inr True" using g by simp
    obtain b where b: "finish_batch (build_columns n (concat rss)) names = Ok b"
      "encode_parts sched junk names (map (chunk_parts chs) [0..<n])
        (sum_list (map (\<lambda>ch. case ch of [] \<Rightarrow> 0 | c # _ \<Rightarrow> a_len c) chs)) = Ok (encode b)"
      using plain_encode [OF sc names sched gate] by blast
    have "encode_chunks_direct sched junk chs names order = Ok (Some (encode b))"
      unfolding encode_chunks_direct_def Let_def names gate bind_r_simps
      using True b(2) by (simp del: bind_r_eq_Inr)
    with b gate True show thesis by (intro some) simp_all
  qed
qed


section \<open>A satisfied ORDER BY\<close>

lemma successively_concat:
  assumes "\<forall>xs \<in> set xss. xs \<noteq> [] \<and> successively R xs" "successively (\<lambda>a b. R (last a) (hd b)) xss"
  shows "successively R (concat xss)"
  using assms
proof (induction xss)
  case (Cons xs xss)
  show ?case
  proof (cases xss)
    case (Cons ys yss)
    with Cons.prems have "hd (concat xss) = hd ys" by simp
    with Cons Cons.IH Cons.prems show ?thesis by (auto simp: successively_append_iff)
  qed (use Cons.prems in simp)
qed simp

lemma windows_successively:
  "windows_ordered k desc chs \<longleftrightarrow>
    successively (\<lambda>p n. a_len (p ! k) = 0 \<or> a_len (n ! k) = 0
      \<or> boundary_ordered (a_data (p ! k)) (a_data (n ! k)) desc) chs"
  by (induction k desc chs rule: windows_ordered.induct) simp_all

lemma boundary_rep:
  assumes p: "acol_rep p k vs" and q: "acol_rep q k ws" and ne: "vs \<noteq> []" "ws \<noteq> []"
    and nn: "None \<notin> set vs" "None \<notin> set ws" and sz: "sized vs" "sized ws"
    and ord: "boundary_ordered (a_data p) (a_data q) desc"
  shows "flip desc slot_le (the (last vs)) (the (hd ws))"
proof -
  obtain s t where st: "last vs = Some s" "hd ws = Some t"
    using ne nn by (metis last_in_set list.set_sel(1) option.exhaust)
  then have "Some s \<in> set vs" "Some t \<in> set ws" using ne by (metis last_in_set list.set_sel(1))+
  then have cls: "slot_class s = k" "slot_class t = k" using p q by (auto simp: acol_rep_def of_class_def)
  show ?thesis
  proof (cases "a_data p")
    case (AInt v)
    with p q cls obtain a b where ab: "s = SlInt a" "t = SlInt b" "v = map int_of vs" "a_data q = AInt (map int_of ws)"
      by (cases s; cases t; cases "a_data q") (auto simp: acol_rep_def)
    with AInt ord st ne show ?thesis by (simp add: boundary_ordered_def flip_def last_map hd_map)
  next
    case (AFloat v)
    with p q cls obtain a b where ab: "s = SlFloat a" "t = SlFloat b" "v = map float_of vs"
      "a_data q = AFloat (map float_of ws)"
      by (cases s; cases t; cases "a_data q") (auto simp: acol_rep_def)
    with AFloat ord st ne show ?thesis by (simp add: boundary_ordered_def flip_def last_map hd_map)
  next
    case (AStr ao ad)
    with p q cls obtain a b bo bd where ab: "s = SlText a" "t = SlText b" "repr_segs ao ad (map text_of vs)"
      "a_data q = AStr bo bd" "repr_segs bo bd (map text_of ws)"
      by (cases s; cases t; cases "a_data q") (auto simp: acol_rep_def)
    have "length ad < 2 ^ 32" "length bd < 2 ^ 32"
      using ab(3,5) sz by (simp_all add: repr_segs_def sized_def)
    moreover have "length ao - 2 = length vs - 1" using repr_segs_length [OF ab(3)] by simp
    ultimately have "seg_at ao ad (length ao - 2) = a" "seg_at bo bd 0 = b"
      using seg_at_repr [OF ab(3)] seg_at_repr [OF ab(5)] ne st ab(1,2)
      by (simp_all add: last_conv_nth hd_conv_nth)
    moreover have "flip desc bytes_le (seg_at ao ad (length ao - 2)) (seg_at bo bd 0)"
      using AStr ab(4) ord by (simp add: boundary_ordered_def)
    ultimately show ?thesis using ab(1,2) st by (simp add: flip_def)
  qed
qed

lemma sized_plain:
  assumes "acol_rep S k vs" "acol_rep S k' ws" "sized ws"
  shows "sized vs"
proof -
  have len: "length vs = length ws" using assms(1,2) by (simp add: acol_rep_def)
  have "concat (map text_of vs) = []" if "k \<noteq> 2"
  proof -
    have "text_of v = []" if "v \<in> set vs" for v
      using assms(1) that \<open>k \<noteq> 2\<close> by (cases v rule: text_of.cases) (auto simp: acol_rep_def of_class_def)
    then have "map text_of vs = map (\<lambda>_. []) vs" by (intro map_cong) simp_all
    then show ?thesis by simp
  qed
  moreover have "concat (map text_of vs) = concat (map text_of ws)" if "k = 2"
    using assms(1,2) that data_class_rep [OF assms(1)] data_class_rep [OF assms(2)]
    by (cases "a_data S") (auto simp: acol_rep_def repr_segs_def)
  ultimately show ?thesis using assms(3) len by (cases "k = 2") (simp_all add: sized_def del: concat_eq_Nil_conv)
qed

lemma sized_part: "sized (concat vss) \<Longrightarrow> vs \<in> set vss \<Longrightarrow> sized vs"
proof -
  assume s: "sized (concat vss)" and v: "vs \<in> set vss"
  obtain a b where "vss = a @ vs # b" using v split_list by metis
  with s show ?thesis by (simp add: sized_def)
qed

lemma ordered_chunks:
  assumes good: "good_column css" and plain: "list_all (\<lambda>cs. plain_part k (scan_col cs)) css"
    and ne: "[] \<notin> set css" and sz: "sized (column_slots (concat css))"
    and sorted: "\<And>cs. cs \<in> set css \<Longrightarrow> is_sorted (a_data (scan_col cs)) desc"
    and bound: "successively (\<lambda>p n. boundary_ordered (a_data (scan_col p)) (a_data (scan_col n)) desc) css"
  shows "is_sorted (a_data (scan_col (concat css))) desc"
proof -
  let ?vss = "map column_slots css" and ?R = "\<lambda>a b. flip desc slot_le (the a) (the b)"
  note pc = plain_column [OF good plain]
  have "acol_rep (scan_col (concat css)) (infer_class (concat css)) (column_slots (concat css))"
    using good by (intro scan_col_rep) (simp add: good_column_def)
  from sized_plain [OF pc(1) this sz] have szc: "sized (concat ?vss)" .
  have nn: "None \<notin> set (concat ?vss)" using pc(1,2) by (simp add: acol_rep_def null_index_eq_Nil)
  have part: "sized (column_slots cs)" "None \<notin> set (column_slots cs)" "column_slots cs \<noteq> []" if "cs \<in> set css" for cs
  proof -
    show "sized (column_slots cs)" by (rule sized_part [OF szc]) (use that in simp)
    show "None \<notin> set (column_slots cs)" using nn that by auto
    have "cs \<noteq> []" using that ne by auto
    then show "column_slots cs \<noteq> []" by (metis length_0_conv length_column_slots)
  qed
  have tr: "transp ?R" by (rule transpI) (rule slot_order.flip_trans)
  have each: "successively ?R (column_slots cs)" if "cs \<in> set css" for cs
    using is_sorted_rep [OF pc(6) [OF that] part(1,2) [OF that], of desc] sorted [OF that]
    unfolding ordered_slots_def successively_conv_sorted_wrt [OF tr, symmetric] by simp
  have "successively (\<lambda>a b. ?R (last a) (hd b)) ?vss"
    unfolding successively_map
  proof (rule successively_mono [OF bound])
    fix p n assume pn: "p \<in> set css" "n \<in> set css"
      "boundary_ordered (a_data (scan_col p)) (a_data (scan_col n)) desc"
    show "?R (last (column_slots p)) (hd (column_slots n))"
      by (rule boundary_rep [OF pc(6) [OF pn(1)] pc(6) [OF pn(2)]]) (use pn part in auto)
  qed
  then have "successively ?R (concat ?vss)"
    using each part(3) by (intro successively_concat) auto
  then have "ordered_slots desc (concat ?vss)"
    unfolding ordered_slots_def successively_conv_sorted_wrt [OF tr] .
  with is_sorted_rep [OF pc(1) szc nn] show ?thesis by blast
qed


section \<open>The query front end\<close>

lemma order_sorted:
  assumes sc: "scanned n rss chs" and names: "length names = n" and gate: "gate_columns chs [0..<n] = Inr True"
    and ord: "order_satisfied chs names (Some (key, desc))" and ne: "[] \<notin> set rss"
    and sz: "\<And>c. c < n \<Longrightarrow> sized (column_slots (map (\<lambda>r. r ! c) (concat rss)))"
  shows "sort_built usort (build_columns n (concat rss)) names key desc = Some (build_columns n (concat rss))"
proof -
  from ord obtain j where j: "position (\<lambda>n. eq_ignore_ascii_case n key) names = Some j"
    "\<not> list_ex (\<lambda>ch. saw_blob (ch ! j)) chs" "list_all (\<lambda>ch. is_sorted (a_data (ch ! j)) desc) chs"
    "windows_ordered j desc chs"
    by (auto simp: order_satisfied_def split: option.splits)
  have jn: "j < n" using position_Some [OF j(1)] names by simp
  let ?css = "column_cells rss j"
  obtain k where k: "list_all (\<lambda>cs. plain_part k (scan_col cs)) ?css" using gate_plain [OF sc gate jn] by blast
  have good: "good_column ?css" using sc good_column_cells [OF _ _ jn] by (simp add: scanned_def)
  have at_j: "build_columns n rs ! j = scan_col (map (\<lambda>r. r ! j) rs)" if "rs \<in> set rss" for rs
    using chunk_built [OF sc that] jn by simp
  have chs: "chs = map (build_columns n) rss" using sc by (simp add: scanned_def)
  have nonempty: "[] \<notin> set ?css" using ne by (auto simp: column_cells_def)
  note pc = plain_column [OF good k]
  have sorted: "is_sorted (a_data (scan_col (concat ?css))) desc"
  proof (rule ordered_chunks [OF good k nonempty])
    show "sized (column_slots (concat ?css))" using sz [OF jn] by (simp add: concat_column_cells)
    show "is_sorted (a_data (scan_col cs)) desc" if "cs \<in> set ?css" for cs
      using that j(3) at_j by (auto simp: column_cells_def chs list_all_iff)
    have "a_len (build_columns n rs ! j) \<noteq> 0" if "rs \<in> set rss" for rs
    proof -
      have "map (\<lambda>r. r ! j) rs \<in> set ?css" using that by (simp add: column_cells_def)
      from pc(6) [OF this] have "a_len (scan_col (map (\<lambda>r. r ! j) rs)) = length rs"
        by (simp add: acol_rep_def)
      with at_j [OF that] that ne show ?thesis by auto
    qed
    then have pos: "a_len (build_columns n rs ! j) = 0 \<Longrightarrow> rs \<in> set rss \<Longrightarrow> False" for rs by blast
    show "successively (\<lambda>p n. boundary_ordered (a_data (scan_col p)) (a_data (scan_col n)) desc) ?css"
      using j(4) unfolding windows_successively chs column_cells_def successively_map
    proof (elim successively_mono)
      fix p n' assume pn: "p \<in> set rss" "n' \<in> set rss"
        "a_len (build_columns n p ! j) = 0 \<or> a_len (build_columns n n' ! j) = 0
          \<or> boundary_ordered (a_data (build_columns n p ! j)) (a_data (build_columns n n' ! j)) desc"
      with pos show "boundary_ordered (a_data (scan_col (map (\<lambda>r. r ! j) p)))
          (a_data (scan_col (map (\<lambda>r. r ! j) n'))) desc"
        unfolding at_j [OF pn(1), symmetric] at_j [OF pn(2), symmetric] by blast
    qed
  qed
  have S: "build_columns n (concat rss) ! j = scan_col (concat ?css)"
    using serial_built [OF sc] jn by simp
  have "\<not> saw_blob (scan_col (concat ?css))"
    using pc(5) j(2) at_j by (auto simp: list_ex_iff chs column_cells_def)
  with pc(2,3) sorted j(1) S show ?thesis by (simp add: sort_built_def)
qed

text \<open>The workers may split the row ids so that one of their ranges holds no row.\<close>

definition empty_range :: "conn \<Rightarrow> string \<Rightarrow> (i64 \<times> sq_cell list) list \<Rightarrow> bool" where
  "empty_range conn table rows \<longleftrightarrow>
     (\<exists>mn mx parts. scan_endpoints conn table = Some (Some mn, Some mx) \<and> 2 \<le> parts \<and> parts \<le> 12
        \<and> [] \<in> set (range_rows mn mx parts rows))"

lemma cut_rows_empty: "cut_rows mn mx parts rows rss \<Longrightarrow> [] \<in> set rss \<Longrightarrow> [] \<in> set (range_rows mn mx parts rows)"
  unfolding cut_rows_def by (induction rule: list_all2_induct) auto

lemma bytes_serial:
  assumes shape: "parse_parallel_shape (fst (split_order sql)) = Ok (Some (cols, table))"
    and snap: "snapshot env conn (fst (split_order sql)) cols table rows names rs0"
    and pool: "\<And>w. w \<in> set pool \<Longrightarrow> scans_table (scan_statement cols table) rows names w"
    and sched: "\<And>ws. set (sched ws) = set ws" and sel: "is_select sql"
    and size: "\<And>rs c. mset rs = mset (map snd rows) \<Longrightarrow> c < length names \<Longrightarrow>
        sized (column_slots (map (\<lambda>r. r ! c) rs))"
  obtains rs where "mset rs = mset (map snd rows)"
    "fst (run_query_bytes sched junk usort (Some env) pool conn sql []) =
      encode_ro (serial_answer usort conn sql (snd (split_order sql)) names rs)"
  | rs where "mset rs = mset (map snd rows)" "snd (split_order sql) \<noteq> None" "empty_range conn table rows"
    "fst (run_query_bytes sched junk usort (Some env) pool conn sql []) =
      encode_ro (finish_ro (build_columns (length names) rs) names True)"
proof -
  note serial = that(1) and unsorted = that(2)
  obtain scan_sql order where so: "split_order sql = (scan_sql, order)" by fastforce
  let ?n = "length names"
  show thesis
  proof (rule parallel_scan_outcome [OF snap pool])
    fix pool' assume tps: "try_parallel_scan (Some env) pool conn cols table = (Ok None, pool')"
      and pool': "\<And>w. w \<in> set pool' \<Longrightarrow> scans_table (scan_statement cols table) rows names w"
    obtain rs where rs: "mset rs = mset (map snd rows)"
      "fst (run_query_params usort (Some env) pool' conn sql []) = serial_answer usort conn sql order names rs"
      using scan_unobservable [OF shape snap pool' sel, where usort = usort] so by auto
    with sel shape so tps show thesis
      by (intro serial [OF rs(1)]) (simp add: run_query_bytes_def Let_def case_prod_unfold)
  next
    fix pool' mn mx parts rss
    let ?chs = "map (build_columns ?n) rss" and ?ds = "build_columns ?n (concat rss)"
    assume ep: "scan_endpoints conn table = Some (Some mn, Some mx)" "2 \<le> parts" "parts \<le> 12"
      and tps: "try_parallel_scan (Some env) pool conn cols table = (Ok (Some (?chs, names, True)), pool')"
      and cut: "cut_rows mn mx parts rows rss" and cat: "mset (concat rss) = mset (map snd rows)" and ne: "rss \<noteq> []"
    have good: "good_rows ?n (concat rss)"
      using snap by (intro good_rows_mset [OF _ cat]) (simp add: snapshot_def)
    have sc: "scanned ?n rss ?chs" using ne good by (simp add: scanned_def)
    obtain bs where bs: "merge_chunks ?chs = Ok bs" "list_all2 same_col bs ?ds"
      using merge_built_chunks [OF ne good] by auto
    have len: "length names = length bs"
      using list_all2_lengthD [OF bs(2)] length_build_columns [of "concat rss" ?n] good by (simp add: good_rows_def)
    note run = sel shape so tps
    show thesis
    proof (rule direct_outcome [OF sc refl sched, of junk order])
      assume "encode_chunks_direct sched junk ?chs names order = Ok None"
      with run bs(1) have "fst (run_query_bytes sched junk usort (Some env) pool conn sql []) =
          encode_ro (case order of None \<Rightarrow> finish_ro bs names True
            | Some (key, desc) \<Rightarrow> (case sort_built usort bs names key desc of
                Some bs \<Rightarrow> finish_ro bs names True | None \<Rightarrow> run_whole conn sql []))"
        by (auto simp: run_query_bytes_def Let_def split: option.split)
      also have "\<dots> = encode_ro (serial_answer usort conn sql order names (concat rss))"
        by (simp add: serial_answer_def same_cols_run [OF bs(2) len] finish_ro_def same_cols_finish [OF bs(2)]
            split: option.split)
      finally show thesis using so by (intro serial [OF cat]) simp
    next
      fix b
      assume fin: "finish_batch ?ds names = Ok b"
        and enc: "encode_chunks_direct sched junk ?chs names order = Ok (Some (encode b))"
        and gate: "gate_columns ?chs [0..<?n] = Inr True" and ord: "order_satisfied ?chs names order"
      have "fst (run_query_bytes sched junk usort (Some env) pool conn sql []) = Ok (encode b, True)"
        using run enc by (simp add: run_query_bytes_def)
      then have lhs: "fst (run_query_bytes sched junk usort (Some env) pool conn sql [])
          = encode_ro (finish_ro ?ds names True)"
        using fin by (simp add: finish_ro_def encode_ro_def)
      show thesis
      proof (cases "order \<noteq> None \<and> [] \<in> set rss")
        case True
        then have "empty_range conn table rows"
          using cut_rows_empty [OF cut] ep unfolding empty_range_def by blast
        with True so lhs show thesis by (intro unsorted [OF cat]) simp_all
      next
        case False
        have "sort_built usort ?ds names key desc = Some ?ds" if "order = Some (key, desc)" for key desc
        proof (rule order_sorted [OF sc refl gate ord [unfolded that]])
          show "[] \<notin> set rss" using False that by simp
          show "sized (column_slots (map (\<lambda>r. r ! c) (concat rss)))" if "c < ?n" for c
            using size [OF cat that] .
        qed
        then have "serial_answer usort conn sql order names (concat rss) = finish_ro ?ds names True"
          by (cases order) (auto simp: serial_answer_def Let_def)
        with so lhs show thesis by (intro serial [OF cat]) simp
      qed
    qed
  qed
qed

text \<open>
  C3: Asking for bytes gives the encoding of the batch a serial run returns for some order of the table's
  rows, whether the chunks are encoded directly, merged first, or the scan is given up. There is one
  exception, for a SELECT with a trailing ORDER BY whose workers may be given a range without a row: the bytes may
  hold the same rows unsorted. Conditions: the workers see the state the caller's connection sees, row ids
  lie within a span of 63 bits, texts are UTF-8 and stay below 4 GiB in a column, and in a column mixing
  texts and floats every integer prints alike directly and through a float. The writes of the encoder may
  arrive in any order, and no order of rows is assumed of any connection.
\<close>

theorem query_bytes_serial:
  assumes shape: "parse_parallel_shape (fst (split_order sql)) = Ok (Some (cols, table))"
    and snap: "snapshot env conn (fst (split_order sql)) cols table rows names rs0"
    and pool: "\<And>w. w \<in> set pool \<Longrightarrow> scans_table (scan_statement cols table) rows names w"
    and sched: "\<And>ws. set (sched ws) = set ws"
    and size: "\<And>rs c. mset rs = mset (map snd rows) \<Longrightarrow> c < length names \<Longrightarrow>
        sized (column_slots (map (\<lambda>r. r ! c) rs))"
  shows "\<exists>rs. mset rs = mset (map snd rows)
    \<and> (fst (run_query_bytes sched junk usort (Some env) pool conn sql []) =
        encode_ro (fst (run_query_params usort None [] (reordered conn (fst (split_order sql)) rs) sql []))
      \<or> snd (split_order sql) \<noteq> None \<and> empty_range conn table rows
        \<and> fst (run_query_bytes sched junk usort (Some env) pool conn sql []) =
          encode_ro (run_whole (reordered conn (fst (split_order sql)) rs) (fst (split_order sql)) []))"
proof (cases "is_select sql")
  case False
  with run_whole_own [OF snap] snap show ?thesis
    by (intro exI [of _ rs0]) (simp add: run_query_bytes_def run_query_params_def snapshot_def)
next
  case True
  have whole: "run_whole (reordered conn (fst (split_order sql)) rs) (fst (split_order sql)) []
      = finish_ro (build_columns (length names) rs) names True" for rs
    using snap stream_reordered [of conn "fst (split_order sql)" rs0 names rs]
    by (simp add: run_whole_def snapshot_def)
  show ?thesis
    by (rule bytes_serial [OF shape snap pool sched True size, where junk = junk and usort = usort])
      (use serial_run [OF shape snap True, of usort] whole in auto)
qed

lemma query_bytes_serial_witness:
  "\<exists>rs. mset rs = mset [[CellInt 5], [CellInt 3]]
    \<and> fst (run_query_bytes rev (\<lambda>_. 0) insertion_sort (Some sample_env) [] (table_conn sample_rows)
        ''SELECT a FROM t'' []) =
      encode_ro (fst (run_query_params insertion_sort None []
        (reordered (table_conn sample_rows) ''SELECT a FROM t'' rs) ''SELECT a FROM t'' []))"
proof -
  have snap: "snapshot sample_env (table_conn sample_rows) (fst (split_order ''SELECT a FROM t'')) [''a''] ''t''
      sample_rows [''a''] [[CellInt 3], [CellInt 5]]"
    unfolding sample_shape fst_conv by (rule sample_snapshot)
  have size: "sized (column_slots (map (\<lambda>r. r ! c) rs))"
    if m: "mset rs = mset (map snd sample_rows)" and c: "c < length [''a'']" for rs c
  proof -
    obtain x y where xy: "rs = [x, y]"
      using mset_eq_length [OF m] by (auto simp: sample_rows_def length_Suc_conv)
    have "column_slots [CellInt 5, CellInt 3] = [Some (SlInt 5), Some (SlInt 3)]"
      "column_slots [CellInt 3, CellInt 5] = [Some (SlInt 3), Some (SlInt 5)]" by code_simp+
    with m c xy show ?thesis by (auto simp: sample_rows_def sized_def add_eq_conv_ex)
  qed
  from query_bytes_serial [OF _ snap _ _ size, where pool = "[]" and sched = rev and junk = "\<lambda>_. 0" and usort = insertion_sort] show ?thesis
    by (simp add: sample_shape sample_rows_def)
qed

text \<open>
  Without rows in a middle range the gate accepts an unsorted result: with keys 5 in the first range
  and 3 in the last, ORDER BY id ASC is taken as satisfied and the bytes sent hold 5 before 3.
\<close>

theorem boundary_check_skips_empty:
  "encode_chunks_direct (\<lambda>ws. ws) (\<lambda>_. 0)
      (map (build_columns 1) [[[CellInt 5]], [], [[CellInt 3]]]) [''id''] (Some (''id'', False))
    = Ok (Some (encode (parts_batch [''id''] [PInt [[5], [], [3]]] 2)))
    \<and> \<not> is_sorted (AInt (concat [[5], [], [3]])) False"
  by code_simp

end
