(* ===== verification/Client.thy ===== *)
theory Client
  imports Scan SqlLex
begin

text \<open>
  The client (\<open>client.rs\<close>, lines 46-606): URL routing, the injection guard in front of every backend, the
  SQLite backend with its connection, its result cache and its pool of workers, and the coherence of
  the cache as an invariant of a step relation. SQLite, the clock and the other backends are arguments.
\<close>

section \<open>Connection targets\<close>

datatype flavor = Sqlite | Postgres | MySql | MsSql | LibSql

text \<open>\<open>s.replace(a, b)\<close> for a non-empty pattern.\<close>

function str_replace :: "string \<Rightarrow> string \<Rightarrow> string \<Rightarrow> string" where
  "str_replace pat new s =
     (if s = [] \<or> pat = [] then s
      else if starts_with s pat then new @ str_replace pat new (drop (length pat) s)
      else hd s # str_replace pat new (tl s))"
  by pat_completeness auto
termination
  by (relation "measure (\<lambda>(_, _, s). length s)") auto

declare str_replace.simps [simp del]

definition feature_needed :: "string \<Rightarrow> string \<Rightarrow> error" where
  "feature_needed scheme feature =
     InvalidUrl (scheme @ '':// URLs need powder-core built with the `'' @ feature @ ''` feature'')"

text \<open>The backend a URL selects and the URL handed to it, for the compiled-in features.\<close>

definition route :: "(flavor \<Rightarrow> bool) \<Rightarrow> string \<Rightarrow> (flavor \<times> string) result" where
  "route features url =
     (if starts_with url ''postgres://'' \<or> starts_with url ''postgresql://''
      then (if features Postgres then Ok (Postgres, url) else Err (feature_needed ''postgres'' ''postgres''))
      else if starts_with url ''mysql://'' \<or> starts_with url ''mariadb://''
      then (if features MySql then Ok (MySql, str_replace ''mariadb://'' ''mysql://'' url)
            else Err (feature_needed ''mysql'' ''mysql''))
      else if starts_with url ''mssql://'' \<or> starts_with url ''sqlserver://''
      then (if features MsSql then Ok (MsSql, url) else Err (feature_needed ''mssql'' ''mssql''))
      else if starts_with url ''libsql://''
      then (if features LibSql then Ok (LibSql, url) else Err (feature_needed ''libsql'' ''libsql''))
      else Ok (Sqlite, url))"

definition memory_url :: "string \<Rightarrow> bool" where
  "memory_url url \<longleftrightarrow> url = '':memory:'' \<or> url = ''sqlite::memory:''"

text \<open>
  The target of \<open>open_connection\<close>; the process-wide counter \<open>MEM_ID\<close> is threaded through. Opening the
  database itself is left to the caller.
\<close>

definition open_target :: "nat \<Rightarrow> string \<Rightarrow> string \<times> nat" where
  "open_target mem_id url =
     (if memory_url url then (''file:/powder-mem-'' @ nat_to_string mem_id @ ''?vfs=memdb'', mem_id + 1)
      else (option_or (strip_prefix url ''sqlite://'') (option_or (strip_prefix url ''sqlite:'') url), mem_id))"

section \<open>What the SQLite backend finds around it\<close>

text \<open>
  \<open>'db\<close> is the state of the database. A statement is prepared at a moment (the clock, the random
  source) on a state; \<open>eng_effect\<close> is the state after a query was stepped to its end. \<open>eng_version\<close> is
  \<open>PRAGMA data_version\<close>.
\<close>

record 'db engine =
  eng_open :: "string \<Rightarrow> string + 'db"
  eng_prepare :: "nat \<Rightarrow> 'db \<Rightarrow> conn"
  eng_reader :: "nat \<Rightarrow> 'db \<Rightarrow> conn"
  eng_can_open :: "nat \<Rightarrow> bool"
  eng_effect :: "nat \<Rightarrow> 'db \<Rightarrow> string \<Rightarrow> sql_value list \<Rightarrow> 'db"
  eng_batch :: "nat \<Rightarrow> 'db \<Rightarrow> string \<Rightarrow> string option \<times> 'db"
  eng_changes :: "'db \<Rightarrow> nat"
  eng_execute :: "nat \<Rightarrow> 'db \<Rightarrow> string \<Rightarrow> sql_value list \<Rightarrow> (string + nat) \<times> 'db"
  eng_version :: "'db \<Rightarrow> string + i64"
  eng_show :: "string \<Rightarrow> string"
  eng_parallelism :: nat
  eng_sort :: usort
  eng_sched :: "u8 writes \<Rightarrow> u8 writes"
  eng_junk :: "nat \<Rightarrow> u8"

record 'db sqlite_client =
  sc_db :: 'db
  sc_cache :: query_cache
  sc_url :: string
  sc_workers :: nat
  sc_memory :: bool

definition sqlite_connect :: "'db engine \<Rightarrow> nat \<Rightarrow> string \<Rightarrow> 'db sqlite_client result \<times> nat" where
  "sqlite_connect eng mem_id url =
     (case open_target mem_id url of (name, mem_id) \<Rightarrow>
       (case eng_open eng name of
          Inl m \<Rightarrow> (Err (Database (eng_show eng m)), mem_id)
        | Inr db \<Rightarrow>
            (Ok \<lparr>sc_db = db, sc_cache = cache_default, sc_url = name, sc_workers = 0,
                 sc_memory = memory_url url\<rparr>, mem_id)))"

definition scan_context :: "'db engine \<Rightarrow> nat \<Rightarrow> 'db \<Rightarrow> scan_env" where
  "scan_context eng t db =
     \<lparr>env_parallelism = eng_parallelism eng,
      env_worker = (\<lambda>i. if eng_can_open eng i then Some (eng_reader eng t db) else None),
      env_show = eng_show eng\<rparr>"

section \<open>The SQLite operations\<close>

definition sqlite_execute ::
  "'db engine \<Rightarrow> nat \<Rightarrow> string \<Rightarrow> param_value list \<Rightarrow> 'db sqlite_client \<Rightarrow> nat result \<times> 'db sqlite_client" where
  "sqlite_execute eng t sql params c =
     (if params = [] then
        (case eng_batch eng t (sc_db c) sql of
           (Some m, db) \<Rightarrow> (Err (Database (eng_show eng m)), c\<lparr>sc_db := db\<rparr>)
         | (None, db) \<Rightarrow> (Ok (eng_changes eng db), c\<lparr>sc_db := db, sc_cache := cache_clear (sc_cache c)\<rparr>))
      else
        (case eng_execute eng t (sc_db c) sql (to_sql_values params) of
           (Inl m, db) \<Rightarrow> (Err (Database (eng_show eng m)), c\<lparr>sc_db := db\<rparr>)
         | (Inr n, db) \<Rightarrow> (Ok n, c\<lparr>sc_db := db, sc_cache := cache_clear (sc_cache c)\<rparr>)))"

definition sqlite_query ::
  "'db engine \<Rightarrow> nat \<Rightarrow> string \<Rightarrow> param_value list \<Rightarrow> 'db sqlite_client \<Rightarrow>
   record_batch result \<times> 'db sqlite_client" where
  "sqlite_query eng t sql params c =
     (let db = sc_db c; ps = to_sql_values params in
      case run_query_params (eng_sort eng) (Some (scan_context eng t db))
             (replicate (sc_workers c) (eng_reader eng t db)) (eng_prepare eng t db) sql ps of
        (r, pool) \<Rightarrow>
          (bind_r r (\<lambda>(b, _). Ok b), c\<lparr>sc_db := eng_effect eng t db sql ps, sc_workers := length pool\<rparr>))"

definition probe_cache :: "string \<Rightarrow> param_value list \<Rightarrow> 'db sqlite_client \<Rightarrow> bytes option" where
  "probe_cache sql params c =
     (if \<not> sc_memory c \<or> \<not> is_cache_safe sql then None
      else qc_map (sc_cache c) (cache_key sql (to_sql_values params)))"

text \<open>The freshness check of a file-backed database.\<close>

definition refresh_cache :: "'db engine \<Rightarrow> 'db sqlite_client \<Rightarrow> query_cache result" where
  "refresh_cache eng c =
     (if sc_memory c then Ok (sc_cache c)
      else (case eng_version eng (sc_db c) of
          Inl m \<Rightarrow> Err (Database (eng_show eng m))
        | Inr dv \<Rightarrow>
            Ok (if qc_version (sc_cache c) \<noteq> Some dv then (cache_clear (sc_cache c))\<lparr>qc_version := Some dv\<rparr>
                else sc_cache c)))"

definition sqlite_run_bytes ::
  "'db engine \<Rightarrow> nat \<Rightarrow> string \<Rightarrow> sql_value list \<Rightarrow> nat \<Rightarrow> 'db \<Rightarrow> (bytes \<times> bool) result \<times> conn list" where
  "sqlite_run_bytes eng t sql ps workers db =
     run_query_bytes (eng_sched eng) (eng_junk eng) (eng_sort eng) (Some (scan_context eng t db))
       (replicate workers (eng_reader eng t db)) (eng_prepare eng t db) sql ps"

definition sqlite_query_bytes ::
  "'db engine \<Rightarrow> nat \<Rightarrow> string \<Rightarrow> param_value list \<Rightarrow> 'db sqlite_client \<Rightarrow> bytes result \<times> 'db sqlite_client" where
  "sqlite_query_bytes eng t sql params c =
     (let ps = to_sql_values params; key = (if is_cache_safe sql then Some (cache_key sql ps) else None);
          run = (\<lambda>c. case sqlite_run_bytes eng t sql ps (sc_workers c) (sc_db c) of
            (r, pool) \<Rightarrow>
              (let c = c\<lparr>sc_db := eng_effect eng t (sc_db c) sql ps, sc_workers := length pool\<rparr> in
               case r of
                 Inl e \<Rightarrow> (Inl e, c)
               | Inr (bs, ro) \<Rightarrow>
                   (case key of
                      Some k \<Rightarrow> (Ok bs, if ro then c\<lparr>sc_cache := cache_insert k bs (sc_cache c)\<rparr> else c)
                    | None \<Rightarrow> (Ok bs, c))))
      in case key of
           None \<Rightarrow> run c
         | Some k \<Rightarrow>
             (case refresh_cache eng c of
                Inl e \<Rightarrow> (Inl e, c)
              | Inr qc \<Rightarrow>
                  (let c = c\<lparr>sc_cache := qc\<rparr> in
                   case qc_map qc k of Some hit \<Rightarrow> (Ok hit, c) | None \<Rightarrow> run c)))"

section \<open>The client\<close>

text \<open>A server backend: its connection state is threaded through.\<close>

record 's server =
  srv_flavor :: flavor
  srv_execute :: "'s \<Rightarrow> string \<Rightarrow> param_value list \<Rightarrow> nat result \<times> 's"
  srv_query :: "'s \<Rightarrow> string \<Rightarrow> param_value list \<Rightarrow> record_batch result \<times> 's"

datatype ('db, 's) backend = BSqlite "'db sqlite_client" | BServer "'s server" 's

fun client_flavor :: "('db, 's) backend \<Rightarrow> flavor" where
  "client_flavor (BSqlite _) = Sqlite"
| "client_flavor (BServer srv _) = srv_flavor srv"

definition client_execute ::
  "'db engine \<Rightarrow> nat \<Rightarrow> string \<Rightarrow> param_value list \<Rightarrow> ('db, 's) backend \<Rightarrow> nat result \<times> ('db, 's) backend" where
  "client_execute eng t sql params b =
     (case (if params \<noteq> [] then reject_stacked sql else Ok ()) of
        Inl e \<Rightarrow> (Inl e, b)
      | Inr _ \<Rightarrow>
          (case b of
             BSqlite c \<Rightarrow> (case sqlite_execute eng t sql params c of (r, c) \<Rightarrow> (r, BSqlite c))
           | BServer srv s \<Rightarrow> (case srv_execute srv s sql params of (r, s) \<Rightarrow> (r, BServer srv s))))"

definition client_query ::
  "'db engine \<Rightarrow> nat \<Rightarrow> string \<Rightarrow> param_value list \<Rightarrow> ('db, 's) backend \<Rightarrow>
   record_batch result \<times> ('db, 's) backend" where
  "client_query eng t sql params b =
     (case reject_stacked sql of
        Inl e \<Rightarrow> (Inl e, b)
      | Inr _ \<Rightarrow>
          (case b of
             BSqlite c \<Rightarrow> (case sqlite_query eng t sql params c of (r, c) \<Rightarrow> (r, BSqlite c))
           | BServer srv s \<Rightarrow> (case srv_query srv s sql params of (r, s) \<Rightarrow> (r, BServer srv s))))"

definition client_probe_cache :: "string \<Rightarrow> param_value list \<Rightarrow> ('db, 's) backend \<Rightarrow> bytes option" where
  "client_probe_cache sql params b =
     (case b of BSqlite c \<Rightarrow> probe_cache sql params c | BServer _ _ \<Rightarrow> None)"

definition client_query_bytes ::
  "'db engine \<Rightarrow> nat \<Rightarrow> string \<Rightarrow> param_value list \<Rightarrow> ('db, 's) backend \<Rightarrow> bytes result \<times> ('db, 's) backend" where
  "client_query_bytes eng t sql params b =
     (case reject_stacked sql of
        Inl e \<Rightarrow> (Inl e, b)
      | Inr _ \<Rightarrow>
          (case b of
             BSqlite c \<Rightarrow> (case sqlite_query_bytes eng t sql params c of (r, c) \<Rightarrow> (r, BSqlite c))
           | BServer _ _ \<Rightarrow>
               (case client_query eng t sql params b of
                  (r, b) \<Rightarrow> (bind_r r (\<lambda>batch. Ok (encode batch)), b))))"

end
