(* ===== verification/ClientProofs.thy ===== *)
theory ClientProofs
  imports Client
begin

text \<open>
  The cache of the SQLite client is coherent: whatever it answers, running the statement on the present
  state of the database gives, as long as the cache has seen the writes since it was last emptied. The
  argument is an invariant of all the calls a client can take, proved once for the interface
  \<open>result_cache\<close>. Two writes that the code lets past the cache are shown to break it.
\<close>

section \<open>The interface of a result cache\<close>

locale result_cache =
  fixes lookup :: "'c \<Rightarrow> 'k \<Rightarrow> 'v option" and ins :: "'k \<Rightarrow> 'v \<Rightarrow> 'c \<Rightarrow> 'c"
    and wipe :: "'c \<Rightarrow> 'c" and inv :: "'c \<Rightarrow> bool"
  assumes inv_wipe: "inv (wipe c)" and lookup_wipe: "lookup (wipe c) k = None"
    and inv_ins: "inv c \<Longrightarrow> lookup c k = None \<Longrightarrow> inv (ins k v c)"
    and lookup_ins: "inv c \<Longrightarrow> lookup c k = None \<Longrightarrow> lookup (ins k v c) k' = Some w \<Longrightarrow>
      k' = k \<and> w = v \<or> lookup c k' = Some w"
begin

lemma entries_ins:
  assumes "inv c" "lookup c k = None" "\<And>k w. lookup c k = Some w \<Longrightarrow> P k w" "P k v"
    and "lookup (ins k v c) k' = Some w"
  shows "P k' w"
  using lookup_ins [OF assms(1,2,5)] assms(3,4) by blast

end

interpretation qc: result_cache qc_map cache_insert cache_clear cache_inv
proof
  fix c :: query_cache and k v k' w
  show "cache_inv (cache_clear c)" "qc_map (cache_clear c) k = None"
    by (simp_all add: cache_inv_clear) (simp add: cache_clear_def)
  assume "cache_inv c" "qc_map c k = None"
  note spec = cache_insert_spec [OF this, of v]
  show "cache_inv (cache_insert k v c)"
    using spec \<open>cache_inv c\<close> by (auto split: if_splits)
  show "k' = k \<and> w = v \<or> qc_map c k' = Some w" if "qc_map (cache_insert k v c) k' = Some w"
    using spec that by (auto simp: restrict_map_def split: if_splits)
qed

section \<open>Steps of a client\<close>

definition plain_call :: "string \<Rightarrow> param_value list \<Rightarrow> bool" where
  "plain_call sql params \<longleftrightarrow> 0 \<notin> set (as_bytes sql) \<and> list_all short_value (to_sql_values params)"

text \<open>
  The clients that calls lead to, whatever the calls are and however they end, with a mark that says
  whether the cache may have missed something since it was last emptied: a write through \<open>query\<close> or
  \<open>query_bytes\<close>, an \<open>execute\<close> that fails after it has changed the database, or a call whose cache key
  is not unambiguous. An \<open>execute\<close> that succeeds empties the cache and clears the mark. A worker
  connection may arrive in the pool, and another connection may commit to a file, which
  \<open>PRAGMA data_version\<close> reports.
\<close>

inductive history :: "'db engine \<Rightarrow> bool \<Rightarrow> 'db sqlite_client \<Rightarrow> bool" for eng where
  connected: "sqlite_connect eng n url = (Inr c, n') \<Longrightarrow> history eng False c"
| executed:
    "history eng missed c \<Longrightarrow> sqlite_execute eng t sql params c = (r, c') \<Longrightarrow>
     history eng (\<not> is_ok r \<and> (missed \<or> sc_db c' \<noteq> sc_db c)) c'"
| queried:
    "history eng missed c \<Longrightarrow> sqlite_query eng t sql params c = (r, c') \<Longrightarrow>
     history eng (missed \<or> sc_db c' \<noteq> sc_db c) c'"
| answered:
    "history eng missed c \<Longrightarrow> sqlite_query_bytes eng t sql params c = (r, c') \<Longrightarrow>
     history eng (missed \<or> sc_db c' \<noteq> sc_db c \<or> \<not> plain_call sql params) c'"
| worker_arrived: "history eng missed c \<Longrightarrow> history eng missed (c\<lparr>sc_workers := Suc (sc_workers c)\<rparr>)"
| committed_elsewhere:
    "history eng missed c \<Longrightarrow> \<not> sc_memory c \<Longrightarrow>
     (\<And>dv. qc_version (sc_cache c) = Some dv \<Longrightarrow> eng_version eng db \<noteq> Inr dv) \<Longrightarrow>
     history eng missed (c\<lparr>sc_db := db\<rparr>)"

section \<open>Coherence\<close>

definition run_answer :: "'db engine \<Rightarrow> 'db \<Rightarrow> string \<Rightarrow> sql_value list \<Rightarrow> bytes \<Rightarrow> bool" where
  "run_answer eng db sql ps v \<longleftrightarrow> (\<exists>t k ro. fst (sqlite_run_bytes eng t sql ps k db) = Ok (v, ro))"

definition entry_fresh :: "'db engine \<Rightarrow> 'db \<Rightarrow> bytes \<Rightarrow> bytes \<Rightarrow> bool" where
  "entry_fresh eng db k v \<longleftrightarrow>
     (\<forall>sql ps. 0 \<notin> set (as_bytes sql) \<longrightarrow> list_all short_value ps \<longrightarrow> cache_key sql ps = k \<longrightarrow>
        run_answer eng db sql ps v)"

definition current :: "'db engine \<Rightarrow> 'db sqlite_client \<Rightarrow> bool" where
  "current eng c \<longleftrightarrow>
     sc_memory c \<or> (\<exists>dv. qc_version (sc_cache c) = Some dv \<and> eng_version eng (sc_db c) = Inr dv)"

definition coherent :: "'db engine \<Rightarrow> 'db sqlite_client \<Rightarrow> bool" where
  "coherent eng c \<longleftrightarrow>
     cache_inv (sc_cache c)
     \<and> (current eng c \<longrightarrow> (\<forall>k v. qc_map (sc_cache c) k = Some v \<longrightarrow> entry_fresh eng (sc_db c) k v))"

lemma coherent_wiped: "sc_cache c = cache_clear q \<Longrightarrow> coherent eng c"
  by (simp add: coherent_def qc.inv_wipe qc.lookup_wipe)

lemma coherent_same:
  "coherent eng c \<Longrightarrow> sc_db c' = sc_db c \<Longrightarrow> sc_cache c' = sc_cache c \<Longrightarrow> sc_memory c' = sc_memory c \<Longrightarrow>
    coherent eng c'"
  by (simp add: coherent_def current_def)

lemma refreshed:
  assumes "coherent eng c" "refresh_cache eng c = Ok q"
  shows "cache_inv q" "\<And>k v. qc_map q k = Some v \<Longrightarrow> entry_fresh eng (sc_db c) k v"
    "current eng (c\<lparr>sc_cache := q\<rparr>)"
proof -
  have "cache_inv q \<and> (\<forall>k v. qc_map q k = Some v \<longrightarrow> entry_fresh eng (sc_db c) k v)
      \<and> current eng (c\<lparr>sc_cache := q\<rparr>)"
  proof (cases "sc_memory c")
    case True
    with assms show ?thesis by (simp add: refresh_cache_def coherent_def current_def)
  next
    case False
    with assms(2) obtain dv where dv: "eng_version eng (sc_db c) = Inr dv"
      by (auto simp: refresh_cache_def split: sum.splits)
    show ?thesis
    proof (cases "qc_version (sc_cache c) = Some dv")
      case True
      with False dv assms show ?thesis by (simp add: refresh_cache_def coherent_def current_def)
    next
      case new: False
      then have "q = (cache_clear (sc_cache c))\<lparr>qc_version := Some dv\<rparr>"
        using False dv assms(2) by (simp add: refresh_cache_def)
      with dv show ?thesis
        by (simp add: current_def cache_clear_def cache_inv_def)
    qed
  qed
  then show "cache_inv q" "\<And>k v. qc_map q k = Some v \<Longrightarrow> entry_fresh eng (sc_db c) k v"
    "current eng (c\<lparr>sc_cache := q\<rparr>)" by blast+
qed

lemma own_entry_fresh:
  assumes "fst (sqlite_run_bytes eng t sql ps k db) = Ok (v, ro)" "0 \<notin> set (as_bytes sql)" "list_all short_value ps"
  shows "entry_fresh eng db (cache_key sql ps) v"
  unfolding entry_fresh_def run_answer_def
proof (intro allI impI)
  fix sql' ps' assume "0 \<notin> set (as_bytes sql')" "list_all short_value ps'" "cache_key sql' ps' = cache_key sql ps"
  then have "sql' = sql \<and> ps' = ps" using key_injective assms(2,3) by blast
  with assms(1) show "\<exists>t k ro. fst (sqlite_run_bytes eng t sql' ps' k db) = Ok (v, ro)" by blast
qed

text \<open>The outcomes of \<open>query_bytes\<close>.\<close>

lemma query_bytes_cases:
  assumes "sqlite_query_bytes eng t sql params c = (r, c')"
  obtains (uncached) pool x where "\<not> is_cache_safe sql"
      "sqlite_run_bytes eng t sql (to_sql_values params) (sc_workers c) (sc_db c) = (x, pool)"
      "r = bind_r x (\<lambda>(bs, _). Ok bs)" "sc_cache c' = sc_cache c" "sc_memory c' = sc_memory c"
  | (version) e where "refresh_cache eng c = Inl e" "r = Inl e" "c' = c"
  | (hit) q bs where "refresh_cache eng c = Inr q" "r = Ok bs" "c' = c\<lparr>sc_cache := q\<rparr>"
      "qc_map q (cache_key sql (to_sql_values params)) = Some bs"
  | (miss) q pool x where "refresh_cache eng c = Inr q"
      "qc_map q (cache_key sql (to_sql_values params)) = None"
      "sqlite_run_bytes eng t sql (to_sql_values params) (sc_workers c) (sc_db c) = (x, pool)"
      "r = bind_r x (\<lambda>(bs, _). Ok bs)" "sc_memory c' = sc_memory c"
      "sc_cache c' = (case x of Inr (bs, True) \<Rightarrow> cache_insert (cache_key sql (to_sql_values params)) bs q | _ \<Rightarrow> q)"
proof (cases "is_cache_safe sql")
  case False
  obtain x pool where "sqlite_run_bytes eng t sql (to_sql_values params) (sc_workers c) (sc_db c) = (x, pool)"
    by fastforce
  with assms False show thesis
    by (intro uncached) (auto simp: sqlite_query_bytes_def Let_def split: sum.splits)
next
  case True
  note safe = True
  show thesis
  proof (cases "refresh_cache eng c")
    case (Inl e)
    with assms safe show thesis by (intro version) (auto simp: sqlite_query_bytes_def Let_def)
  next
    case (Inr q)
    show thesis
    proof (cases "qc_map q (cache_key sql (to_sql_values params))")
      case (Some bs)
      with Inr assms safe show thesis by (intro hit) (auto simp: sqlite_query_bytes_def Let_def)
    next
      case None
      obtain x pool where "sqlite_run_bytes eng t sql (to_sql_values params) (sc_workers c) (sc_db c) = (x, pool)"
        by fastforce
      note run = this
      show thesis
      proof (cases x)
        case (Inl e)
        with assms safe None Inr run show thesis
          by (intro miss [OF Inr None run]) (auto simp: sqlite_query_bytes_def Let_def)
      next
        case (Inr y)
        obtain bs ro where x: "x = Inr (bs, ro)" using Inr by (cases y) simp
        have "(r, c') = (Ok bs, c\<lparr>sc_cache := if ro then cache_insert (cache_key sql (to_sql_values params)) bs q else q,
            sc_db := eng_effect eng t (sc_db c) sql (to_sql_values params), sc_workers := length pool\<rparr>)"
          unfolding assms [symmetric] sqlite_query_bytes_def
          using safe None \<open>refresh_cache eng c = Inr q\<close> run x by (simp add: Let_def)
        then show thesis
          using x by (intro miss [OF \<open>refresh_cache eng c = Inr q\<close> None run]) simp_all
      qed
    qed
  qed
qed

lemma coherent_execute:
  assumes "sqlite_execute eng t sql params c = (r, c')" "\<not> (\<not> is_ok r \<and> (missed \<or> sc_db c' \<noteq> sc_db c))"
    "\<not> missed \<Longrightarrow> coherent eng c"
  shows "coherent eng c'"
proof (cases r)
  case (Inr n)
  with assms(1) have "sc_cache c' = cache_clear (sc_cache c)"
    by (auto simp: sqlite_execute_def split: if_splits prod.splits option.splits sum.splits)
  then show ?thesis by (rule coherent_wiped)
next
  case (Inl e)
  then have "sc_cache c' = sc_cache c" "sc_memory c' = sc_memory c"
    using assms(1) by (auto simp: sqlite_execute_def split: if_splits prod.splits option.splits sum.splits)
  with Inl assms(2,3) show ?thesis by (auto simp: is_ok_def intro: coherent_same)
qed

lemma coherent_query:
  assumes "sqlite_query eng t sql params c = (r, c')" "sc_db c' = sc_db c" "coherent eng c"
  shows "coherent eng c'"
proof -
  from assms(1) have "c' = snd (sqlite_query eng t sql params c)" by simp
  then have "sc_cache c' = sc_cache c" "sc_memory c' = sc_memory c"
    by (simp_all add: sqlite_query_def Let_def case_prod_unfold)
  with assms(2) show ?thesis by (auto intro: coherent_same [OF assms(3)])
qed

lemma coherent_query_bytes:
  assumes run: "sqlite_query_bytes eng t sql params c = (r, c')" and db: "sc_db c' = sc_db c"
    and plain: "plain_call sql params" and coh: "coherent eng c"
  shows "coherent eng c'"
  using run
proof (cases rule: query_bytes_cases)
  case (uncached pool x)
  with db show ?thesis by (auto intro: coherent_same [OF coh])
next
  case (version e)
  with coh show ?thesis by simp
next
  case (hit q bs)
  with refreshed [OF coh hit(1)] show ?thesis by (simp add: coherent_def)
next
  case (miss q pool x)
  note rf = refreshed [OF coh miss(1)]
  let ?k = "cache_key sql (to_sql_values params)"
  show ?thesis
  proof (cases "\<exists>bs. x = Inr (bs, True)")
    case True
    then obtain bs where x: "x = Inr (bs, True)" by blast
    have own: "entry_fresh eng (sc_db c) ?k bs"
      using miss(3) x plain
      by (intro own_entry_fresh [where t = t and k = "sc_workers c"]) (auto simp: plain_call_def)
    have "entry_fresh eng (sc_db c) k v" if "qc_map (cache_insert ?k bs q) k = Some v" for k v
      by (rule qc.entries_ins [where P = "entry_fresh eng (sc_db c)", OF rf(1) miss(2) rf(2) own that])
    with miss(6) x db rf(1) miss(2) show ?thesis
      by (simp add: coherent_def qc.inv_ins)
  next
    case False
    then have "sc_cache c' = q" using miss(6) by (auto split: sum.splits bool.splits)
    with db rf show ?thesis by (simp add: coherent_def)
  qed
qed

lemma history_coherent: "history eng missed c \<Longrightarrow> \<not> missed \<Longrightarrow> coherent eng c"
proof (induction rule: history.induct)
  case (connected n url c n')
  then have "sc_cache c = cache_default"
    by (auto simp: sqlite_connect_def split: prod.splits sum.splits)
  then show ?case by (simp add: coherent_def cache_inv_default) (simp add: cache_default_def)
next
  case (executed missed c t sql params r c')
  show ?case by (rule coherent_execute [OF executed.hyps(2) executed.prems executed.IH])
next
  case (queried missed c t sql params r c')
  then show ?case using coherent_query by blast
next
  case (answered missed c t sql params r c')
  then show ?case using coherent_query_bytes by blast
next
  case (worker_arrived missed c)
  then show ?case by (auto intro: coherent_same)
next
  case (committed_elsewhere missed c db)
  then have "\<not> current eng (c\<lparr>sc_db := db\<rparr>)" by (auto simp: current_def)
  with committed_elsewhere show ?case by (simp add: coherent_def)
qed

text \<open>
  C7: Cached answers are right: after any sequence of calls, successful or not, that since the cache was
  last emptied has no write the cache does not see (one through \<open>query\<close> or \<open>query_bytes\<close>, or by an
  \<open>execute\<close> that fails), what \<open>query_bytes\<close> returns is an answer that running the statement on the
  present database gives, whether it comes from the cache or not. Other connections may commit to a
  file at any moment, and an \<open>execute\<close> that succeeds empties the cache whatever came before.
\<close>

theorem cached_answers_fresh:
  assumes "history eng missed c" "\<not> missed" "plain_call sql params"
    and "sqlite_query_bytes eng t sql params c = (Inr v, c')"
  shows "run_answer eng (sc_db c) sql (to_sql_values params) v"
proof -
  note coh = history_coherent [OF assms(1,2)] and plain = assms(3) [unfolded plain_call_def]
  from assms(4) show ?thesis
  proof (cases rule: query_bytes_cases)
    case (uncached pool x)
    then show ?thesis
      unfolding run_answer_def by (intro exI [of _ t] exI [of _ "sc_workers c"]) (auto simp: bind_r_eq_Inr dest: sym)
  next
    case (hit q bs)
    with refreshed(2) [OF coh hit(1,4)] plain show ?thesis by (simp add: entry_fresh_def)
  next
    case (miss q pool x)
    then show ?thesis
      unfolding run_answer_def by (intro exI [of _ t] exI [of _ "sc_workers c"]) (auto simp: bind_r_eq_Inr dest: sym)
  qed simp
qed

section \<open>A small engine\<close>

text \<open>A database that is a counter: a SELECT returns it, an INSERT with RETURNING increments it.\<close>

definition insert_sql :: string where
  "insert_sql = ''insert into t values (1) returning n''"

definition select_sql :: string where
  "select_sql = ''select n from t where 1''"

definition counter_engine :: "nat engine" where
  "counter_engine =
     \<lparr>eng_open = (\<lambda>_. Inr 0),
      eng_prepare = (\<lambda>t n sql. Prepared
        \<lparr>p_readonly = (sql \<noteq> insert_sql), p_nparams = 0, p_names = [''n''], p_bind = (\<lambda>_. None),
         p_step = (\<lambda>_. ([[CellInt (word_of_nat (if sql = insert_sql then Suc n else n))]], None))\<rparr>),
      eng_reader = (\<lambda>_ _ _. PrepEmpty), eng_can_open = (\<lambda>_. False),
      eng_effect = (\<lambda>t n sql ps. if sql = insert_sql then Suc n else n),
      eng_batch = (\<lambda>t n sql. (if sql = ''insert; bad'' then Some ''syntax error'' else None, Suc n)),
      eng_changes = (\<lambda>_. 1), eng_execute = (\<lambda>t n sql ps. (Inr 1, Suc n)), eng_version = (\<lambda>_. Inr 1),
      eng_show = (\<lambda>m. m), eng_parallelism = 1, eng_sort = insertion_sort, eng_sched = (\<lambda>ws. ws),
      eng_junk = (\<lambda>_. 0)\<rparr>"

lemma select_parts:
  "is_select select_sql" "split_order select_sql = (select_sql, None)" "parse_parallel_shape select_sql = Ok None"
  "is_cache_safe select_sql" "CHR 0x00 \<notin> set select_sql" "select_sql \<noteq> insert_sql"
  by code_simp+

lemma counter_run:
  "sqlite_run_bytes counter_engine t select_sql [] k n =
    (encode_ro (finish_ro (build_columns 1 [[CellInt (word_of_nat n)]]) [''n''] True),
     replicate k (\<lambda>_. PrepEmpty))"
  by (simp add: sqlite_run_bytes_def run_query_bytes_def run_query_params_def run_serial_def run_whole_def
      stream_query_def select_parts counter_engine_def Let_def)

lemma counter_batch: "is_ok (encode_ro (finish_ro (build_columns 1 [[CellInt (word_of_nat n)]]) [''n''] True))"
  by (simp add: finish_ro_def encode_ro_def finish_batch_def build_columns_def push_row_def try_new_def Let_def is_ok_def
      split: sum.split)

definition counter_client :: "nat sqlite_client" where
  "counter_client = (case sqlite_connect counter_engine 0 '':memory:'' of (Inr c, _) \<Rightarrow> c)"

lemma counter_client_eq:
  "counter_client = \<lparr>sc_db = 0, sc_cache = cache_default, sc_url = ''file:/powder-mem-0?vfs=memdb'',
    sc_workers = 0, sc_memory = True\<rparr>"
proof -
  have "open_target 0 '':memory:'' = (''file:/powder-mem-0?vfs=memdb'', 1)" by code_simp
  then show ?thesis by (simp add: counter_client_def sqlite_connect_def counter_engine_def memory_url_def)
qed

text \<open>A write the cache does not see, then one that empties it.\<close>

definition written_client :: "nat sqlite_client" where
  "written_client = snd (sqlite_execute counter_engine 0 ''insert'' []
     (snd (sqlite_query counter_engine 0 insert_sql [] counter_client)))"

lemma written_client_eq:
  "sc_db written_client = 2" "sc_memory written_client" "qc_map (sc_cache written_client) = Map.empty"
  by (simp_all add: written_client_def sqlite_execute_def sqlite_query_def counter_engine_def counter_client_eq
      Let_def case_prod_unfold cache_clear_def)

lemma written_history: "history counter_engine False written_client"
proof -
  have "open_target 0 '':memory:'' = (''file:/powder-mem-0?vfs=memdb'', 1)" by code_simp
  then have "sqlite_connect counter_engine 0 '':memory:'' = (Inr counter_client, 1)"
    unfolding counter_client_eq by (simp add: sqlite_connect_def counter_engine_def memory_url_def)
  then have "history counter_engine False counter_client" by (rule history.connected)
  then obtain m where "history counter_engine m (snd (sqlite_query counter_engine 0 insert_sql [] counter_client))"
    using history.queried [OF _ surjective_pairing] by blast
  note h = history.executed [OF this surjective_pairing, of 0 "''insert''" "[]", folded written_client_def]
  have "is_ok (fst (sqlite_execute counter_engine 0 ''insert'' [] c))" for c
    by (simp add: sqlite_execute_def counter_engine_def is_ok_def)
  with h show ?thesis by simp
qed

lemma cached_answers_fresh_witness:
  "\<exists>v c'. sqlite_query_bytes counter_engine 0 select_sql [] written_client = (Inr v, c')
    \<and> run_answer counter_engine 2 select_sql (to_sql_values []) v"
proof -
  obtain v ro where v: "encode_ro (finish_ro (build_columns 1 [[CellInt (word_of_nat 2)]]) [''n''] True) = Inr (v, ro)"
    using counter_batch [of 2] by (cases "encode_ro (finish_ro (build_columns 1 [[CellInt (word_of_nat 2)]]) [''n''] True)")
      (auto simp: is_ok_def)
  have "\<exists>c'. sqlite_query_bytes counter_engine 0 select_sql [] written_client = (Inr v, c')"
    using v counter_run [of 0 "sc_workers written_client" 2]
    by (simp add: sqlite_query_bytes_def Let_def select_parts refresh_cache_def written_client_eq to_sql_values_def)
  then obtain c' where c': "sqlite_query_bytes counter_engine 0 select_sql [] written_client = (Inr v, c')" by blast
  have "plain_call select_sql []"
    by code_simp
  from cached_answers_fresh [OF written_history _ this c'] c' show ?thesis
    by (auto simp: written_client_eq)
qed

section \<open>Writes the cache does not see\<close>

lemma memory_hit:
  assumes "sc_memory c" "is_cache_safe sql" "qc_map (sc_cache c) (cache_key sql (to_sql_values params)) = Some v"
  shows "fst (sqlite_query_bytes eng t sql params c) = Ok v"
  using assms by (simp add: sqlite_query_bytes_def refresh_cache_def Let_def)

text \<open>
  C40: A write that runs through \<open>query\<close> (a statement with RETURNING), or a script that fails after some of its
  statements have run, leaves the cache as it was: the results cached before it are still returned.
\<close>

theorem unseen_writes_stale:
  assumes "sc_memory c" "is_cache_safe sql" "qc_map (sc_cache c) (cache_key sql (to_sql_values params)) = Some v"
    and "c' = snd (sqlite_query eng t w ws c)
      \<or> c' = snd (sqlite_execute eng t w ws c) \<and> \<not> is_ok (fst (sqlite_execute eng t w ws c))"
  shows "fst (sqlite_query_bytes eng t' sql params c') = Ok v"
proof -
  have "sc_cache c' = sc_cache c \<and> sc_memory c' = sc_memory c"
    using assms(4)
  proof
    assume "c' = snd (sqlite_query eng t w ws c)"
    then show ?thesis by (simp add: sqlite_query_def Let_def case_prod_unfold)
  next
    assume "c' = snd (sqlite_execute eng t w ws c) \<and> \<not> is_ok (fst (sqlite_execute eng t w ws c))"
    then show ?thesis
      by (auto simp: sqlite_execute_def split: if_splits prod.splits option.splits sum.splits)
  qed
  with assms(1-3) show ?thesis by (intro memory_hit) simp_all
qed

text \<open>The counter has moved on, the answer has not.\<close>

lemma unseen_writes_stale_witness:
  "let c = counter_client\<lparr>sc_cache := cache_insert (cache_key select_sql []) [7] cache_default\<rparr>;
       c1 = snd (sqlite_query counter_engine 0 insert_sql [] c);
       c2 = snd (sqlite_execute counter_engine 0 ''insert; bad'' [] c)
   in sc_db c1 = 1 \<and> fst (sqlite_query_bytes counter_engine 0 select_sql [] c1) = Ok [7]
     \<and> sc_db c2 = 1 \<and> fst (sqlite_query_bytes counter_engine 0 select_sql [] c2) = Ok [7]"
proof -
  let ?c = "counter_client\<lparr>sc_cache := cache_insert (cache_key select_sql []) [7] cache_default\<rparr>"
  have c: "sc_memory ?c" "qc_map (sc_cache ?c) (cache_key select_sql (to_sql_values [])) = Some [7]"
    by (simp_all add: counter_client_eq cache_insert_def to_sql_values_def CACHE_MAX_RESULT_BYTES_def Let_def)
  note stale = unseen_writes_stale [OF c(1) select_parts(4) c(2)]
  have "\<not> is_ok (fst (sqlite_execute counter_engine 0 ''insert; bad'' [] ?c))"
    by (simp add: sqlite_execute_def counter_engine_def)
  with stale have "fst (sqlite_query_bytes counter_engine 0 select_sql [] (snd (sqlite_execute counter_engine 0 ''insert; bad'' [] ?c))) = Ok [7]"
    by blast
  moreover have "fst (sqlite_query_bytes counter_engine 0 select_sql [] (snd (sqlite_query counter_engine 0 insert_sql [] ?c))) = Ok [7]"
    using stale by blast
  moreover have "sc_db (snd (sqlite_query counter_engine 0 insert_sql [] ?c)) = 1"
    by (simp add: sqlite_query_def counter_engine_def counter_client_eq Let_def case_prod_unfold)
  moreover have "sc_db (snd (sqlite_execute counter_engine 0 ''insert; bad'' [] ?c)) = 1"
    by (simp add: sqlite_execute_def counter_engine_def counter_client_eq)
  ultimately show ?thesis by (simp add: Let_def)
qed

section \<open>The guard and the connection targets\<close>

text \<open>
  C8: Stacked statements reach no backend: a query with one, or an execution with parameters, returns the
  guard's error and leaves the backend, whichever it is, as it was.
\<close>

theorem stacked_reaches_no_backend:
  assumes "has_stacked_statements sql"
  shows "client_query eng t sql params b = (Err (Database stacked_message), b)
    \<and> client_query_bytes eng t sql params b = (Err (Database stacked_message), b)
    \<and> client_execute eng t sql (p # params) b = (Err (Database stacked_message), b)"
  using assms by (simp add: client_query_def client_query_bytes_def client_execute_def reject_stacked_def)

lemma stacked_reaches_no_backend_witness:
  "client_query counter_engine 0 ''select 1; drop table t'' [] (BSqlite counter_client :: (nat, unit) backend)
    = (Err (Database stacked_message), BSqlite counter_client)"
proof -
  have "has_stacked_statements ''select 1; drop table t''" by code_simp
  from stacked_reaches_no_backend [OF this] show ?thesis by blast
qed

fun decimal_value :: "nat \<Rightarrow> string \<Rightarrow> nat" where
  "decimal_value a [] = a"
| "decimal_value a (c # cs) = decimal_value (10 * a + (code c - 48)) cs"

lemma decimal_value_append: "decimal_value a (xs @ ys) = decimal_value (decimal_value a xs) ys"
  by (induction a xs rule: decimal_value.induct) simp_all

lemma decimal_value_nat: "decimal_value 0 (nat_to_string n) = n"
proof (induction n rule: nat_to_string.induct)
  case (1 n)
  then show ?case by (subst nat_to_string.simps) (auto simp: decimal_value_append)
qed

lemma nat_to_string_inject [simp]: "nat_to_string m = nat_to_string n \<longleftrightarrow> m = n"
  by (metis decimal_value_nat)

text \<open>
  Two in-memory clients never share a database: the names they open differ, since every
  in-memory connection takes a new number from the process-wide counter.
\<close>

theorem memory_clients_isolated:
  assumes "memory_url u" "memory_url v" "m < n"
  shows "snd (open_target m u) = m + 1 \<and> fst (open_target m u) \<noteq> fst (open_target n v)"
  using assms by (simp add: open_target_def)

lemma memory_clients_isolated_witness:
  "fst (open_target 0 '':memory:'') \<noteq> fst (open_target 1 ''sqlite::memory:'')"
  using memory_clients_isolated [of "'':memory:''" "''sqlite::memory:''" 0 1] by (simp add: memory_url_def)

end
