(* ===== verification/Json.thy ===== *)
theory Json
  imports Query
begin

text \<open>
  The JSON values of \<open>serde_json\<close> as the object-relational layer and the command line use them. The
  crate is built with \<open>preserve_order\<close>, so an object is a list of entries in insertion order. Reading
  and printing JSON text is done by the library and is an argument of the definitions that use it.
\<close>

section \<open>Values\<close>

datatype number = PosInt u64 | NegInt i64 | FloatNum f64

datatype json =
    JNull
  | JBool bool
  | JNum number
  | JText string
  | JArr "json list"
  | JObj "(string \<times> json) list"

type_synonym json_object = "(string \<times> json) list"

text \<open>
  What the library provides: the reader of JSON text, the printer of compact JSON text, and the
  escaped form of a string that \<open>{:?}\<close> shows in an error message.
\<close>

record json_lib =
  json_read :: "string \<Rightarrow> string + json"
  json_text :: "json \<Rightarrow> string"
  str_debug :: "string \<Rightarrow> string"

section \<open>Numbers\<close>

text \<open>\<open>n as f64\<close> for an unsigned number below \<open>2 ^ 64\<close>, rounding to nearest, ties to even.\<close>

definition u64_as_f64 :: "u64 \<Rightarrow> f64" where
  "u64_as_f64 w =
     (let m = unat w; e = bit_len m - 1;
          q = (if e \<le> 52 then m * 2 ^ (52 - e)
               else (let s = e - 52; h = m div 2 ^ s; r = m mod 2 ^ s; half = 2 ^ (s - 1)
                     in if half < r \<or> r = half \<and> odd h then h + 1 else h))
      in if m = 0 then 0 else word_of_nat ((e + 1023) * 2 ^ 52 + q - 2 ^ 52))"

fun number_i64 :: "number \<Rightarrow> i64 option" where
  "number_i64 (PosInt n) = (if unat n < 2 ^ 63 then Some n else None)"
| "number_i64 (NegInt i) = Some i"
| "number_i64 (FloatNum _) = None"

fun number_u64 :: "number \<Rightarrow> u64 option" where
  "number_u64 (PosInt n) = Some n"
| "number_u64 _ = None"

fun number_f64 :: "number \<Rightarrow> f64 option" where
  "number_f64 (PosInt n) = Some (u64_as_f64 n)"
| "number_f64 (NegInt i) = Some (i64_as_f64 i)"
| "number_f64 (FloatNum f) = Some f"

text \<open>\<open>Number::from(i64)\<close> and \<open>Number::from_f64\<close>.\<close>

definition number_of_i64 :: "i64 \<Rightarrow> number" where
  "number_of_i64 i = (if sint i < 0 then NegInt i else PosInt i)"

definition number_of_f64 :: "f64 \<Rightarrow> number option" where
  "number_of_f64 f = (if f64_finite f then Some (FloatNum f) else None)"

section \<open>Readers\<close>

fun as_object :: "json \<Rightarrow> json_object option" where
  "as_object (JObj m) = Some m"
| "as_object _ = None"

fun as_array :: "json \<Rightarrow> json list option" where
  "as_array (JArr xs) = Some xs"
| "as_array _ = None"

fun as_str :: "json \<Rightarrow> string option" where
  "as_str (JText s) = Some s"
| "as_str _ = None"

fun as_bool :: "json \<Rightarrow> bool option" where
  "as_bool (JBool b) = Some b"
| "as_bool _ = None"

fun as_u64 :: "json \<Rightarrow> u64 option" where
  "as_u64 (JNum n) = number_u64 n"
| "as_u64 _ = None"

fun as_f64 :: "json \<Rightarrow> f64 option" where
  "as_f64 (JNum n) = number_f64 n"
| "as_f64 _ = None"

definition obj_get :: "json_object \<Rightarrow> string \<Rightarrow> json option" where
  "obj_get m k = map_of m k"

text \<open>\<open>v.get(k)\<close>: nothing when \<open>v\<close> is not an object.\<close>

definition jget :: "json \<Rightarrow> string \<Rightarrow> json option" where
  "jget v k = Option.bind (as_object v) (\<lambda>m. obj_get m k)"

text \<open>\<open>m.get(k).and_then(f)\<close>.\<close>

definition obj_get_as :: "(json \<Rightarrow> 'a option) \<Rightarrow> json_object \<Rightarrow> string \<Rightarrow> 'a option" where
  "obj_get_as f m k = Option.bind (obj_get m k) f"

definition jget_as :: "(json \<Rightarrow> 'a option) \<Rightarrow> json \<Rightarrow> string \<Rightarrow> 'a option" where
  "jget_as f v k = Option.bind (jget v k) f"

text \<open>\<open>m.insert(k, v)\<close>: the entry of a present key keeps its place.\<close>

fun obj_insert :: "string \<Rightarrow> json \<Rightarrow> json_object \<Rightarrow> json_object" where
  "obj_insert k v [] = [(k, v)]"
| "obj_insert k v ((k', v') # m) = (if k' = k then (k, v) # m else (k', v') # obj_insert k v m)"

section \<open>Lemmas\<close>

lemma obj_get_insert: "obj_get (obj_insert k v m) k' = (if k' = k then Some v else obj_get m k')"
  by (induction m) (auto simp: obj_get_def)

lemma obj_insert_keys: "fst ` set (obj_insert k v m) = insert k (fst ` set m)"
  by (induction k v m rule: obj_insert.induct) (auto simp: insert_commute)

lemma obj_insert_fresh: "k \<notin> fst ` set m \<Longrightarrow> obj_insert k v m = m @ [(k, v)]"
  by (induction m) auto

lemma obj_insert_distinct: "distinct (map fst m) \<Longrightarrow> distinct (map fst (obj_insert k v m))"
proof (induction m)
  case (Cons e m)
  then show ?case using obj_insert_keys [of k v m] by (cases e) (auto simp flip: image_set)
qed simp

text \<open>The parts of a value are smaller than the value.\<close>

lemma size_entry: "(k, v) \<in> set m \<Longrightarrow> size v < size (JObj m)"
  by (induction m) auto

lemma size_obj_get: "obj_get m k = Some v \<Longrightarrow> size v < size (JObj m)"
  using size_entry map_of_SomeD by (force simp: obj_get_def)

lemma size_element: "v \<in> set xs \<Longrightarrow> size v < size (JArr xs)"
  by (induction xs) auto

lemma map_r_source: "map_r f xs = Inr ys \<Longrightarrow> y \<in> set ys \<Longrightarrow> \<exists>x \<in> set xs. f x = Inr y"
  by (induction xs arbitrary: ys) (auto simp: bind_r_eq_Inr)

lemma as_object_Some: "as_object v = Some m \<longleftrightarrow> v = JObj m"
  by (cases v) auto

lemma as_array_Some: "as_array v = Some xs \<longleftrightarrow> v = JArr xs"
  by (cases v) auto

lemma as_str_Some: "as_str v = Some s \<longleftrightarrow> v = JText s"
  by (cases v) auto

lemma jget_Some: "jget v k = Some x \<longleftrightarrow> (\<exists>m. v = JObj m \<and> obj_get m k = Some x)"
  by (cases v) (auto simp: jget_def)

lemma obj_get_as_Some: "obj_get_as f m k = Some y \<longleftrightarrow> (\<exists>x. obj_get m k = Some x \<and> f x = Some y)"
  by (auto simp: obj_get_as_def bind_eq_Some_conv)

end
