(* ===== verification/OrmSchema.thy ===== *)
theory OrmSchema
  imports Json
begin

text \<open>
  The schema of the object-relational layer (\<open>orm.rs\<close>, lines 49-283): tables read from
  \<open>powder.schema.json\<close>, and the relations derived from their foreign keys, whose names are made
  distinct from the columns and from each other by appending underscores.
\<close>

section \<open>Data\<close>

datatype col_type = CtInt | CtFloat | CtText | CtBool

record orm_column =
  oc_name :: string
  oc_ty :: col_type
  oc_nullable :: bool
  oc_primary_key :: bool

record orm_relation =
  rel_name :: string
  rel_belongs_to :: bool
  rel_local_columns :: "string list"
  rel_foreign_columns :: "string list"
  rel_target :: string

record orm_table =
  ot_name :: string
  ot_columns :: "orm_column list"
  ot_relations :: "orm_relation list"

definition orm_err :: "string \<Rightarrow> error" where
  "orm_err m = OrmError m"

definition table_column :: "orm_table \<Rightarrow> string \<Rightarrow> orm_column option" where
  "table_column t nm = List.find (\<lambda>c. oc_name c = nm) (ot_columns t)"

definition table_relation :: "orm_table \<Rightarrow> string \<Rightarrow> orm_relation option" where
  "table_relation t nm = List.find (\<lambda>r. rel_name r = nm) (ot_relations t)"

definition table_ident :: "orm_table \<Rightarrow> string \<Rightarrow> string result" where
  "table_ident t nm =
     (case table_column t nm of
        Some c \<Rightarrow> Ok (oc_name c)
      | None \<Rightarrow> Err (orm_err (''unknown column `'' @ nm @ ''` on table `'' @ ot_name t @ ''`'')))"

definition select_all :: "orm_table \<Rightarrow> string" where
  "select_all t = ''SELECT '' @ intercalate '', '' (map oc_name (ot_columns t)) @ '' FROM '' @ ot_name t"

record orm_schema =
  os_tables :: "orm_table list"
  os_index :: "string \<rightharpoonup> nat"

definition is_ident :: "string \<Rightarrow> bool" where
  "is_ident s \<longleftrightarrow>
     s \<noteq> [] \<and> (is_ascii_alphabetic (hd s) \<or> hd s = CHR ''_'')
     \<and> list_all (\<lambda>c. is_ascii_alphanumeric c \<or> c = CHR ''_'') s"

section \<open>Reading the tables\<close>

text \<open>A foreign key: the table, its columns, the target table, the target's columns.\<close>

type_synonym fk = "string \<times> string list \<times> string \<times> string list"

fun debug_option :: "json_lib \<Rightarrow> string option \<Rightarrow> string" where
  "debug_option lib None = ''None''"
| "debug_option lib (Some s) = ''Some('' @ str_debug lib s @ '')''"

definition column_type :: "json_lib \<Rightarrow> string \<Rightarrow> string \<Rightarrow> json \<Rightarrow> col_type result" where
  "column_type lib tname cname cdef =
     (let t = jget_as as_str cdef ''type''
      in if t = Some ''int'' then Ok CtInt
         else if t = Some ''float'' then Ok CtFloat
         else if t = Some ''text'' then Ok CtText
         else if t = Some ''bool'' then Ok CtBool
         else Err (orm_err (''column `'' @ tname @ ''.'' @ cname @ ''` has unsupported type ''
                @ debug_option lib t @ '' (expected int, float, text, bool)'')))"

definition parse_column :: "json_lib \<Rightarrow> string \<Rightarrow> string \<times> json \<Rightarrow> (orm_column \<times> fk list) result" where
  "parse_column lib tname e =
     (case e of (cname, cdef) \<Rightarrow>
        if \<not> is_ident cname
        then Err (orm_err (''invalid column name `'' @ tname @ ''.'' @ cname @ ''`''))
        else bind_r (column_type lib tname cname cdef) (\<lambda>ty.
          let pk = option_or (jget_as as_bool cdef ''primaryKey'') False;
              nl = option_or (jget_as as_bool cdef ''nullable'') False \<and> \<not> pk;
              col = \<lparr>oc_name = cname, oc_ty = ty, oc_nullable = nl, oc_primary_key = pk\<rparr>
          in case jget cdef ''references'' of
               None \<Rightarrow> Ok (col, [])
             | Some r \<Rightarrow>
                 (let rt = option_or (jget_as as_str r ''table'') [];
                      rc = option_or (jget_as as_str r ''column'') []
                  in if \<not> is_ident rt \<or> \<not> is_ident rc
                     then Err (orm_err (''column `'' @ tname @ ''.'' @ cname @ ''` has a malformed `references`''))
                     else Ok (col, [(tname, [cname], rt, [rc])]))))"

text \<open>\<open>a.iter().filter_map(J::as_str)\<close>, the empty list when there is no array.\<close>

definition str_list :: "json option \<Rightarrow> string list" where
  "str_list v = (case Option.bind v as_array of None \<Rightarrow> [] | Some xs \<Rightarrow> List.map_filter as_str xs)"

definition parse_foreign_key :: "string \<Rightarrow> json \<Rightarrow> fk result" where
  "parse_foreign_key tname fk =
     (let cols = str_list (jget fk ''columns'');
          refs = jget fk ''references'';
          rt = option_or (Option.bind refs (\<lambda>r. jget_as as_str r ''table'')) [];
          rcols = str_list (Option.bind refs (\<lambda>r. jget r ''columns''))
      in if cols = [] \<or> length cols \<noteq> length rcols \<or> \<not> is_ident rt
         then Err (orm_err (''table `'' @ tname @ ''` has a malformed foreign key''))
         else Ok (tname, cols, rt, rcols))"

definition parse_table :: "json_lib \<Rightarrow> string \<times> json \<Rightarrow> (orm_table \<times> fk list) result" where
  "parse_table lib e =
     (case e of (tname, tdef) \<Rightarrow>
        if \<not> is_ident tname then Err (orm_err (''invalid table name `'' @ tname @ ''`''))
        else bind_r (ok_or (jget_as as_object tdef ''columns'')
                       (orm_err (''table `'' @ tname @ ''` needs a `columns` object''))) (\<lambda>cols.
          bind_r (map_r (parse_column lib tname) cols) (\<lambda>parsed.
          bind_r (map_r (parse_foreign_key tname) (option_or (jget_as as_array tdef ''foreignKeys'') [])) (\<lambda>fks.
            Ok (\<lparr>ot_name = tname, ot_columns = map fst parsed, ot_relations = []\<rparr>,
                concat (map snd parsed) @ fks)))))"

section \<open>Deriving the relations\<close>

text \<open>
  The closure \<open>claim\<close>: underscores are appended until the name is neither used nor a column. Every
  round uses up one of the finitely many taken names of its length or longer.
\<close>

definition name_taken :: "string list \<Rightarrow> orm_table \<Rightarrow> string \<Rightarrow> bool" where
  "name_taken used t nm \<longleftrightarrow> nm \<in> set used \<or> table_column t nm \<noteq> None"

lemma name_taken_iff: "name_taken used t nm \<longleftrightarrow> nm \<in> set used \<union> oc_name ` set (ot_columns t)"
  by (auto simp: name_taken_def table_column_def find_None_iff)

definition taken_names :: "string list \<Rightarrow> orm_table \<Rightarrow> nat \<Rightarrow> string set" where
  "taken_names used t n = {u \<in> set used \<union> oc_name ` set (ot_columns t). n \<le> length u}"

lemma taken_names_shrink:
  assumes "name_taken used t nm"
  shows "card (taken_names used t (length (nm @ ''_''))) < card (taken_names used t (length nm))"
proof (rule psubset_card_mono)
  show "finite (taken_names used t (length nm))" by (simp add: taken_names_def)
  show "taken_names used t (length (nm @ ''_'')) \<subset> taken_names used t (length nm)"
  proof
    show "taken_names used t (length (nm @ ''_'')) \<subseteq> taken_names used t (length nm)"
      by (auto simp: taken_names_def)
    have "nm \<in> taken_names used t (length nm)" "nm \<notin> taken_names used t (length (nm @ ''_''))"
      using assms by (auto simp: taken_names_def name_taken_iff)
    then show "taken_names used t (length (nm @ ''_'')) \<noteq> taken_names used t (length nm)" by blast
  qed
qed

function claim :: "string list \<Rightarrow> orm_table \<Rightarrow> string \<Rightarrow> string" where
  "claim used t nm = (if name_taken used t nm then claim used t (nm @ ''_'') else nm)"
  by pat_completeness auto
termination
  by (relation "measure (\<lambda>(used, t, nm). card (taken_names used t (length nm)))")
     (use taken_names_shrink in auto)

declare claim.simps [simp del]

definition belongs_to_base :: "fk \<Rightarrow> string" where
  "belongs_to_base f =
     (case f of (owner, cols, rt, rcols) \<Rightarrow>
        if length cols = 1
        then (case strip_suffix (hd cols) ''_id'' of
                Some s \<Rightarrow> if s = [] then rt else s
              | None \<Rightarrow> rt)
        else rt)"

definition add_belongs_to ::
  "orm_table \<Rightarrow> fk \<Rightarrow> string list \<times> orm_relation list \<Rightarrow> string list \<times> orm_relation list" where
  "add_belongs_to t f acc =
     (case (f, acc) of ((owner, cols, rt, rcols), (used, rels)) \<Rightarrow>
        let nm = claim used t (belongs_to_base f)
        in (used @ [nm],
            rels @ [\<lparr>rel_name = nm, rel_belongs_to = True, rel_local_columns = cols,
                     rel_foreign_columns = rcols, rel_target = rt\<rparr>]))"

definition add_has_many ::
  "orm_table \<Rightarrow> fk \<Rightarrow> string list \<times> orm_relation list \<Rightarrow> string list \<times> orm_relation list" where
  "add_has_many t f acc =
     (case (f, acc) of ((owner, cols, rt, rcols), (used, rels)) \<Rightarrow>
        if owner = ot_name t \<or> rt \<noteq> ot_name t then acc
        else
          (let nm = claim used t owner
           in (used @ [nm],
               rels @ [\<lparr>rel_name = nm, rel_belongs_to = False, rel_local_columns = rcols,
                        rel_foreign_columns = cols, rel_target = owner\<rparr>])))"

definition derive_relations :: "fk list \<Rightarrow> orm_table \<Rightarrow> orm_table" where
  "derive_relations fks t =
     (let acc = fold (add_belongs_to t) (filter (\<lambda>f. fst f = ot_name t) fks) ([], []);
          acc = fold (add_has_many t) fks acc
      in t\<lparr>ot_relations := snd acc\<rparr>)"

definition schema_of_tables :: "orm_table list \<Rightarrow> orm_schema" where
  "schema_of_tables ts =
     \<lparr>os_tables = ts, os_index = map_of (rev (zip (map ot_name ts) [0..<length ts]))\<rparr>"

definition orm_parse :: "json_lib \<Rightarrow> string \<Rightarrow> orm_schema result" where
  "orm_parse lib text =
     (case json_read lib text of
        Inl m \<Rightarrow> Err (orm_err (''schema is not valid JSON: '' @ m))
      | Inr root \<Rightarrow>
          bind_r (ok_or (jget_as as_object root ''tables'') (orm_err ''schema needs a `tables` object'')) (\<lambda>tabs.
          bind_r (map_r (parse_table lib) tabs) (\<lambda>parsed.
            Ok (schema_of_tables (map (derive_relations (concat (map snd parsed))) (map fst parsed))))))"

definition orm_table_of :: "orm_schema \<Rightarrow> string \<Rightarrow> orm_table result" where
  "orm_table_of s nm =
     ok_or (map_option (\<lambda>i. os_tables s ! i) (os_index s nm)) (orm_err (''unknown table `'' @ nm @ ''`''))"

end
