(* ===== verification/OrmWhere.thy ===== *)
theory OrmWhere
  imports OrmSchema Client
begin

text \<open>
  The WHERE compiler of the object-relational layer (\<open>orm.rs\<close>, lines 289-582): bound values and their
  coercion, cells read back as JSON, the recursive rendering of where groups, and the ORDER BY and
  LIMIT tail in the dialect of the backend.
\<close>

section \<open>Bound values and cells\<close>

definition to_param :: "json_lib \<Rightarrow> json \<Rightarrow> param_value result" where
  "to_param lib v =
     (case v of
        JNull \<Rightarrow> Ok VNull
      | JBool b \<Rightarrow> Ok (VBool b)
      | JNum n \<Rightarrow>
          (case number_i64 n of Some i \<Rightarrow> Ok (VInt i) | None \<Rightarrow> Ok (VFloat (option_or (number_f64 n) 0)))
      | JText s \<Rightarrow> Ok (VText s)
      | other \<Rightarrow> Err (orm_err (''unsupported bound value: '' @ json_text lib other)))"

fun coerce :: "col_type option \<Rightarrow> param_value \<Rightarrow> param_value" where
  "coerce (Some CtFloat) (VInt i) = VFloat (i64_as_f64 i)"
| "coerce (Some CtInt) (VFloat f) = (if f64_integral f then VInt (f64_as_i64 f) else VFloat f)"
| "coerce (Some CtBool) (VInt i) = VBool (i \<noteq> 0)"
| "coerce _ p = p"

definition to_param_as :: "json_lib \<Rightarrow> orm_table \<Rightarrow> string \<Rightarrow> json \<Rightarrow> param_value result" where
  "to_param_as lib t col v =
     bind_r (to_param lib v) (\<lambda>p. Ok (coerce (map_option oc_ty (table_column t col)) p))"

definition num_json :: "f64 \<Rightarrow> json" where
  "num_json f = (case number_of_f64 f of Some n \<Rightarrow> JNum n | None \<Rightarrow> JNull)"

definition int_json :: "i64 \<Rightarrow> json" where
  "int_json i = JNum (number_of_i64 i)"

text \<open>\<open>first(row).map(f).or_else(second)\<close> over readers that may panic.\<close>

definition try_read :: "'a option result \<Rightarrow> ('a \<Rightarrow> json) \<Rightarrow> json result \<Rightarrow> json result" where
  "try_read r f other = bind_r r (\<lambda>x. case x of Some v \<Rightarrow> Ok (f v) | None \<Rightarrow> other)"

fun cell_as :: "column \<Rightarrow> nat \<Rightarrow> col_type \<Rightarrow> json result" where
  "cell_as c row CtBool =
     try_read (get_bool c row) JBool (try_read (get_i64 c row) (\<lambda>v. JBool (v \<noteq> 0)) (Ok JNull))"
| "cell_as c row CtInt =
     try_read (get_i64 c row) int_json (try_read (get_f64 c row) num_json (Ok JNull))"
| "cell_as c row CtFloat =
     try_read (get_f64 c row) num_json (try_read (get_i64 c row) int_json (Ok JNull))"
| "cell_as c row CtText = try_read (get_str c row) JText (Ok JNull)"

definition cell_json :: "column \<Rightarrow> nat \<Rightarrow> col_type \<Rightarrow> json result" where
  "cell_json c row ty =
     bind_r (is_valid c row) (\<lambda>v. if \<not> v then Ok JNull else cell_as c row ty)"

definition cell_raw :: "column \<Rightarrow> nat \<Rightarrow> json result" where
  "cell_raw c row =
     bind_r (is_valid c row) (\<lambda>v.
       if \<not> v then Ok JNull
       else try_read (get_i64 c row) int_json
           (try_read (get_f64 c row) num_json
           (try_read (get_bool c row) JBool
           (try_read (get_str c row) JText (Ok JNull)))))"

section \<open>Where groups\<close>

definition sql_ops :: "(string \<times> string) list" where
  "sql_ops = [(''eq'', ''=''), (''ne'', ''<>''), (''gt'', ''>''), (''gte'', ''>=''), (''lt'', ''<''),
     (''lte'', ''<=''), (''like'', ''LIKE''), (''in'', ''IN'')]"

definition sql_op :: "string \<Rightarrow> string option" where
  "sql_op op = map_option snd (List.find (\<lambda>e. fst e = op) sql_ops)"

text \<open>A fragment: conditions to be joined with AND, and the values they bind, in order.\<close>

type_synonym fragment = "string list \<times> param_value list"

definition join_fragments :: "fragment list \<Rightarrow> fragment" where
  "join_fragments fs = (concat (map fst fs), concat (map snd fs))"

definition render_op ::
  "json_lib \<Rightarrow> orm_table \<Rightarrow> string \<Rightarrow> string \<Rightarrow> string \<times> json \<Rightarrow> fragment result" where
  "render_op lib t ident col e =
     (case e of (op, v) \<Rightarrow>
        (case sql_op op of
           None \<Rightarrow> Ok ([], [])
         | Some sop \<Rightarrow>
             if op = ''in'' then
               bind_r (ok_or (as_array v) (orm_err (''`in` on `'' @ col @ ''` needs an array''))) (\<lambda>xs.
                 if xs = [] then Ok ([''1 = 0''], [])
                 else bind_r (map_r (to_param_as lib t col) xs) (\<lambda>ps.
                   Ok ([ident @ '' IN ('' @ intercalate '', '' (replicate (length xs) ''?'') @ '')''], ps)))
             else if op = ''ne'' \<and> v = JNull then Ok ([ident @ '' IS NOT NULL''], [])
             else if op = ''eq'' \<and> v = JNull then Ok ([ident @ '' IS NULL''], [])
             else bind_r (to_param_as lib t col v) (\<lambda>p. Ok ([ident @ '' '' @ sop @ '' ?''], [p]))))"

definition render_cond ::
  "json_lib \<Rightarrow> orm_table \<Rightarrow> string \<Rightarrow> string \<times> json \<Rightarrow> fragment result" where
  "render_cond lib t q e =
     (case e of (col, cond) \<Rightarrow>
        bind_r (table_ident t col) (\<lambda>bare.
          let ident = q @ bare
          in case cond of
               JNull \<Rightarrow> Ok ([ident @ '' IS NULL''], [])
             | JObj ops \<Rightarrow> bind_r (map_r (render_op lib t ident col) ops) (\<lambda>fs. Ok (join_fragments fs))
             | other \<Rightarrow> bind_r (to_param_as lib t col other) (\<lambda>p. Ok ([ident @ '' = ?''], [p]))))"

definition logical_key :: "string \<Rightarrow> bool" where
  "logical_key k \<longleftrightarrow> k = ''AND'' \<or> k = ''OR'' \<or> k = ''NOT''"

definition group_object :: "json \<Rightarrow> json_object result" where
  "group_object w = ok_or (as_object w) (orm_err ''logical groups must be objects'')"

definition as_group_list :: "json \<Rightarrow> json_object list result" where
  "as_group_list v =
     (case v of
        JArr items \<Rightarrow> map_r group_object items
      | JObj m \<Rightarrow> Ok [m]
      | _ \<Rightarrow> Err (orm_err ''logical groups must be objects''))"

definition wrap_group :: "string \<Rightarrow> string \<times> param_value list \<Rightarrow> fragment" where
  "wrap_group prefix r =
     (case r of (s, ps) \<Rightarrow> (if s = [] then [] else [prefix @ ''('' @ s @ '')''], ps))"

text \<open>The groups of one key, rendered one after another.\<close>

definition or_fragment :: "(string \<times> param_value list) list \<Rightarrow> fragment" where
  "or_fragment rs =
     (case join_fragments (map (wrap_group []) rs) of (subs, ps) \<Rightarrow>
        (if subs = [] then [] else [''('' @ intercalate '' OR '' subs @ '')''], ps))"

text \<open>The groups are parts of the object, so the recursion stops.\<close>

lemma group_list_smaller:
  assumes v: "obj_get w k = Some v" and gs: "as_group_list v = Inr gs" and g: "g \<in> set gs"
  shows "size (JObj g) < size (JObj w)"
proof (cases v)
  case (JArr items)
  from gs JArr have "map_r group_object items = Inr gs" by (simp add: as_group_list_def)
  from map_r_source [OF this g] obtain x where x: "x \<in> set items" "group_object x = Inr g" by blast
  then have "x = JObj g" by (simp add: group_object_def ok_or_eq_Ok as_object_Some)
  with x have "size (JObj g) < size v" using size_element JArr by blast
  with size_obj_get [OF v] show ?thesis by linarith
next
  case (JObj m)
  with gs have "gs = [m]" by (simp add: as_group_list_def)
  with g JObj have "v = JObj g" by simp
  with size_obj_get [OF v] show ?thesis by simp
qed (use gs in \<open>simp_all add: as_group_list_def\<close>)

lemma or_group_smaller:
  assumes v: "obj_get w k = Some v" and xs: "as_array v = Some xs" and x: "x \<in> set xs"
    and g: "group_object x = Inr g"
  shows "size (JObj g) < size (JObj w)"
proof -
  from xs have "v = JArr xs" by (simp add: as_array_Some)
  moreover from g have "x = JObj g" by (simp add: group_object_def ok_or_eq_Ok as_object_Some)
  ultimately have "size (JObj g) < size v" using size_element x by blast
  with size_obj_get [OF v] show ?thesis by linarith
qed

function render_group ::
  "json_lib \<Rightarrow> orm_table \<Rightarrow> string \<Rightarrow> json_object \<Rightarrow> (string \<times> param_value list) result" where
  "render_group lib t q w =
     bind_r (map_r (render_cond lib t q) (filter (\<lambda>e. \<not> logical_key (fst e)) w)) (\<lambda>conds.
     bind_r (case obj_get w ''AND'' of
          None \<Rightarrow> Ok []
        | Some v \<Rightarrow>
            bind_r (as_group_list v) (\<lambda>gs.
            bind_r (map_r (\<lambda>g. render_group lib t q g) gs) (\<lambda>rs. Ok (map (wrap_group []) rs)))) (\<lambda>ands.
     bind_r (case obj_get w ''OR'' of
          None \<Rightarrow> Ok []
        | Some v \<Rightarrow>
            (case as_array v of
               None \<Rightarrow> Err (orm_err ''`OR` takes an array of groups'')
             | Some xs \<Rightarrow>
                 if xs = [] then Ok [([''1 = 0''], [])]
                 else bind_r (map_r (\<lambda>x. bind_r (group_object x) (\<lambda>g. render_group lib t q g)) xs)
                        (\<lambda>rs. Ok [or_fragment rs]))) (\<lambda>ors.
     bind_r (case obj_get w ''NOT'' of
          None \<Rightarrow> Ok []
        | Some v \<Rightarrow>
            bind_r (as_group_list v) (\<lambda>gs.
            bind_r (map_r (\<lambda>g. render_group lib t q g) gs) (\<lambda>rs. Ok (map (wrap_group ''NOT '') rs)))) (\<lambda>nots.
     (case join_fragments (conds @ ands @ ors @ nots) of
        (parts, params) \<Rightarrow> Ok (intercalate '' AND '' parts, params))))))"
  by pat_completeness auto
termination
  by (relation "measure (\<lambda>(lib, t, q, w). size (JObj w))")
     (auto intro: group_list_smaller or_group_smaller simp del: json.size)

declare render_group.simps [simp del]

text \<open>The parts of a group by key, for the proofs about it.\<close>

definition and_groups :: "json_lib \<Rightarrow> orm_table \<Rightarrow> string \<Rightarrow> string \<Rightarrow> json option \<Rightarrow> fragment list result" where
  "and_groups lib t q prefix v =
     (case v of
        None \<Rightarrow> Ok []
      | Some v \<Rightarrow>
          bind_r (as_group_list v) (\<lambda>gs.
          bind_r (map_r (\<lambda>g. render_group lib t q g) gs) (\<lambda>rs. Ok (map (wrap_group prefix) rs))))"

definition or_groups :: "json_lib \<Rightarrow> orm_table \<Rightarrow> string \<Rightarrow> json option \<Rightarrow> fragment list result" where
  "or_groups lib t q v =
     (case v of
        None \<Rightarrow> Ok []
      | Some v \<Rightarrow>
          (case as_array v of
             None \<Rightarrow> Err (orm_err ''`OR` takes an array of groups'')
           | Some xs \<Rightarrow>
               if xs = [] then Ok [([''1 = 0''], [])]
               else bind_r (map_r (\<lambda>x. bind_r (group_object x) (\<lambda>g. render_group lib t q g)) xs)
                      (\<lambda>rs. Ok [or_fragment rs])))"

lemma render_group_unfold:
  "render_group lib t q w =
     bind_r (map_r (render_cond lib t q) (filter (\<lambda>e. \<not> logical_key (fst e)) w)) (\<lambda>conds.
     bind_r (and_groups lib t q [] (obj_get w ''AND'')) (\<lambda>ands.
     bind_r (or_groups lib t q (obj_get w ''OR'')) (\<lambda>ors.
     bind_r (and_groups lib t q ''NOT '' (obj_get w ''NOT'')) (\<lambda>nots.
     (case join_fragments (conds @ ands @ ors @ nots) of
        (parts, params) \<Rightarrow> Ok (intercalate '' AND '' parts, params))))))"
  by (subst render_group.simps) (simp only: and_groups_def or_groups_def)

lemma render_group_parts:
  assumes "render_group lib t q w = Inr (s, ps)"
  obtains conds ands ors nots parts where
    "map_r (render_cond lib t q) (filter (\<lambda>e. \<not> logical_key (fst e)) w) = Inr conds"
    "and_groups lib t q [] (obj_get w ''AND'') = Inr ands" "or_groups lib t q (obj_get w ''OR'') = Inr ors"
    "and_groups lib t q ''NOT '' (obj_get w ''NOT'') = Inr nots"
    "join_fragments (conds @ ands @ ors @ nots) = (parts, ps)" "s = intercalate '' AND '' parts"
proof -
  from assms obtain conds ands ors nots where
    r: "map_r (render_cond lib t q) (filter (\<lambda>e. \<not> logical_key (fst e)) w) = Inr conds"
      "and_groups lib t q [] (obj_get w ''AND'') = Inr ands" "or_groups lib t q (obj_get w ''OR'') = Inr ors"
      "and_groups lib t q ''NOT '' (obj_get w ''NOT'') = Inr nots"
    and p: "(case join_fragments (conds @ ands @ ors @ nots) of
        (parts, params) \<Rightarrow> Ok (intercalate '' AND '' parts, params)) = Inr (s, ps)"
    unfolding render_group_unfold bind_r_eq_Inr by blast
  from p obtain parts where "join_fragments (conds @ ands @ ors @ nots) = (parts, ps)"
    "s = intercalate '' AND '' parts" by (cases "join_fragments (conds @ ands @ ors @ nots)") simp
  with r that show thesis by blast
qed

lemma and_groups_source:
  assumes "and_groups lib t q prefix (obj_get w k) = Inr fs" and "f \<in> set fs"
  obtains g r where "size (JObj g) < size (JObj w)" "render_group lib t q g = Inr r" "f = wrap_group prefix r"
proof -
  from assms obtain v gs rs where v: "obj_get w k = Some v" "as_group_list v = Inr gs"
    and rs: "map_r (\<lambda>g. render_group lib t q g) gs = Inr rs" and fs: "fs = map (wrap_group prefix) rs"
    by (auto simp: and_groups_def bind_r_eq_Inr split: option.splits)
  from assms(2) fs obtain r where r: "r \<in> set rs" "f = wrap_group prefix r" by auto
  from map_r_source [OF rs r(1)] obtain g where "g \<in> set gs" "render_group lib t q g = Inr r" by blast
  with group_list_smaller [OF v] r(2) that show thesis by blast
qed

lemma or_groups_source:
  assumes "or_groups lib t q (obj_get w k) = Inr fs"
  obtains (none) "fs = []" | (empty) "fs = [([''1 = 0''], [])]"
  | (groups) rs where "fs = [or_fragment rs]"
      "\<And>r. r \<in> set rs \<Longrightarrow> \<exists>g. size (JObj g) < size (JObj w) \<and> render_group lib t q g = Inr r"
proof (cases "obj_get w k")
  case None
  with assms none show thesis by (simp add: or_groups_def)
next
  case (Some v)
  show thesis
  proof (cases "as_array v")
    case None
    with assms Some show thesis by (simp add: or_groups_def)
  next
    case xs: (Some xs)
    show thesis
    proof (cases "xs = []")
      case True
      with assms Some xs empty show thesis by (simp add: or_groups_def)
    next
      case False
      with assms Some xs obtain rs where
        rs: "map_r (\<lambda>x. bind_r (group_object x) (\<lambda>g. render_group lib t q g)) xs = Inr rs"
        and fs: "fs = [or_fragment rs]"
        by (auto simp: or_groups_def bind_r_eq_Inr)
      have "\<exists>g. size (JObj g) < size (JObj w) \<and> render_group lib t q g = Inr r" if "r \<in> set rs" for r
        using map_r_source [OF rs that] or_group_smaller [OF Some xs] by (auto simp: bind_r_eq_Inr)
      with fs groups show thesis by blast
    qed
  qed
qed

definition qualifier :: "string option \<Rightarrow> string" where
  "qualifier qualify = (case qualify of None \<Rightarrow> [] | Some t \<Rightarrow> t @ ''.'')"

definition compile_where ::
  "json_lib \<Rightarrow> orm_table \<Rightarrow> json option \<Rightarrow> string option \<Rightarrow> (string \<times> param_value list) result" where
  "compile_where lib t wh qualify =
     (case wh of
        None \<Rightarrow> Ok ([], [])
      | Some w \<Rightarrow>
          if w = JNull then Ok ([], [])
          else bind_r (ok_or (as_object w) (orm_err ''`where` must be an object'')) (\<lambda>obj.
            bind_r (render_group lib t (qualifier qualify) obj) (\<lambda>(frag, params).
              if frag = [] then Ok ([], params) else Ok ('' WHERE '' @ frag, params))))"

section \<open>The tail of a statement\<close>

definition sort_direction :: "json \<Rightarrow> string" where
  "sort_direction dir =
     (if eq_ignore_ascii_case (option_or (as_str dir) ''asc'') ''desc'' then ''DESC'' else ''ASC'')"

definition order_fragments :: "orm_table \<Rightarrow> string \<Rightarrow> json_object \<Rightarrow> string list result" where
  "order_fragments t q ob =
     map_r (\<lambda>(col, dir). bind_r (table_ident t col) (\<lambda>bare. Ok (q @ bare @ '' '' @ sort_direction dir))) ob"

definition row_count_key :: "json_object \<Rightarrow> string \<Rightarrow> i64 option" where
  "row_count_key op k = map_option f64_floor_as_i64 (obj_get_as as_f64 op k)"

definition offset_needs_order :: error where
  "offset_needs_order =
     orm_err ''SQL Server requires `orderBy` together with `offset` (OFFSET .. FETCH)''"

definition compile_tail ::
  "orm_table \<Rightarrow> json_object \<Rightarrow> string option \<Rightarrow> flavor \<Rightarrow> (string \<times> string) result" where
  "compile_tail t op qualify flavor =
     bind_r (case obj_get_as as_object op ''orderBy'' of
          None \<Rightarrow> Ok []
        | Some ob \<Rightarrow> order_fragments t (qualifier qualify) ob) (\<lambda>frags.
     let tail = (if frags = [] then [] else '' ORDER BY '' @ intercalate '', '' frags);
         lim = row_count_key op ''limit''; off = row_count_key op ''offset''
     in if flavor = MsSql then
          (case off of
             Some n \<Rightarrow>
               if frags = [] then Err offset_needs_order
               else Ok (tail @ '' OFFSET '' @ i64_to_string n @ '' ROWS''
                   @ (case lim of None \<Rightarrow> [] | Some l \<Rightarrow> '' FETCH NEXT '' @ i64_to_string l @ '' ROWS ONLY''), [])
           | None \<Rightarrow>
               Ok (tail, case lim of None \<Rightarrow> [] | Some l \<Rightarrow> ''TOP ('' @ i64_to_string l @ '') ''))
        else
          Ok (tail @ (case lim of None \<Rightarrow> [] | Some l \<Rightarrow> '' LIMIT '' @ i64_to_string l)
                @ (case off of None \<Rightarrow> [] | Some n \<Rightarrow> '' OFFSET '' @ i64_to_string n), []))"

text \<open>\<open>s.replacen(a, b, 1)\<close>.\<close>

definition replace_first :: "string \<Rightarrow> string \<Rightarrow> string \<Rightarrow> string" where
  "replace_first pat new s = (case split_once pat s of None \<Rightarrow> s | Some (a, b) \<Rightarrow> a @ new @ b)"

definition with_top :: "string \<Rightarrow> string \<Rightarrow> string" where
  "with_top sql prefix = (if prefix = [] then sql else replace_first ''SELECT '' (''SELECT '' @ prefix) sql)"

definition column_keys :: "orm_table \<Rightarrow> json_object \<Rightarrow> string list" where
  "column_keys t data = filter (\<lambda>k. table_relation t k = None) (map fst data)"

end
