(* ===== verification/Io.thy ===== *)
theory Io
  imports Prelude
begin

text \<open>
  Computations that thread the state of a client or a database connection and stop at the first error;
  what happened before the error stays done.
\<close>

section \<open>Computations\<close>

type_synonym ('c, 'e, 'a) eio = "'c \<Rightarrow> ('e + 'a) \<times> 'c"

definition io_lift :: "'e + 'a \<Rightarrow> ('c, 'e, 'a) eio" where
  "io_lift r s = (r, s)"

definition io_bind :: "('c, 'e, 'a) eio \<Rightarrow> ('a \<Rightarrow> ('c, 'e, 'b) eio) \<Rightarrow> ('c, 'e, 'b) eio" where
  "io_bind m f s = (case m s of (Inl e, s) \<Rightarrow> (Inl e, s) | (Inr x, s) \<Rightarrow> f x s)"

abbreviation io_return :: "'a \<Rightarrow> ('c, 'e, 'a) eio" where
  "io_return x \<equiv> io_lift (Inr x)"

text \<open>A loop that threads a value and the state through a list, stopping at the first fault.\<close>

fun io_fold :: "('a \<Rightarrow> 'b \<Rightarrow> ('c, 'e, 'b) eio) \<Rightarrow> 'a list \<Rightarrow> 'b \<Rightarrow> ('c, 'e, 'b) eio" where
  "io_fold f [] acc = io_return acc"
| "io_fold f (x # xs) acc = io_bind (f x acc) (io_fold f xs)"

text \<open>Running a computation and looking at its result, whatever it is.\<close>

definition io_try :: "('c, 'e, 'a) eio \<Rightarrow> ('c, 'e, 'e + 'a) eio" where
  "io_try m s = (case m s of (r, s) \<Rightarrow> (Inr r, s))"

lemma io_bind_lift [simp]: "io_bind (io_lift (Inr x)) f = f x" "io_bind (io_lift (Inl e)) f = io_lift (Inl e)"
  by (rule ext; simp add: io_bind_def io_lift_def)+

lemma io_bind_return [simp]: "io_bind m (\<lambda>x. io_return x) = m"
  by (rule ext) (simp add: io_bind_def io_lift_def split: prod.split sum.split)

lemma io_bind_assoc: "io_bind (io_bind m f) g = io_bind m (\<lambda>x. io_bind (f x) g)"
  by (rule ext) (simp add: io_bind_def split: prod.split sum.split)

lemma io_bind_eq_Inr:
  "io_bind m f s = (Inr y, s') \<longleftrightarrow> (\<exists>x s1. m s = (Inr x, s1) \<and> f x s1 = (Inr y, s'))"
  by (auto simp: io_bind_def split: prod.splits sum.splits)

lemma io_lift_eq [simp]: "io_lift r s = (r', s') \<longleftrightarrow> r = r' \<and> s = s'"
  by (auto simp: io_lift_def)

lemma io_fold_append: "io_fold f (xs @ ys) acc = io_bind (io_fold f xs acc) (io_fold f ys)"
proof (induction xs arbitrary: acc)
  case (Cons x xs)
  have "io_fold f (xs @ ys) = (\<lambda>acc. io_bind (io_fold f xs acc) (io_fold f ys))" by (rule ext) (rule Cons)
  then show ?case by (simp add: io_bind_assoc)
qed simp

end
