(* ===== verification/OrmExec.thy ===== *)
theory OrmExec
  imports OrmWhere Io
begin

text \<open>
  The mutations of the object-relational layer (\<open>orm.rs\<close>, lines 613-776): create, createMany, update,
  delete, deleteAll and count, each one rendered to SQL and run through the client. The state of the
  client is threaded through every call, so what ran before an error stays done.
\<close>

type_synonym ('c, 'a) io = "('c, fault, 'a) eio"

section \<open>Clients\<close>

text \<open>What the layer needs of a client, and the clients of the engine as such.\<close>

record 'c db_client =
  cl_flavor :: flavor
  cl_execute :: "string \<Rightarrow> param_value list \<Rightarrow> ('c, nat) io"
  cl_query :: "string \<Rightarrow> param_value list \<Rightarrow> ('c, record_batch) io"

text \<open>Every call happens at its own moment, which the state counts.\<close>

definition engine_client :: "'db engine \<Rightarrow> flavor \<Rightarrow> (nat \<times> ('db, 's) backend) db_client" where
  "engine_client eng fl =
     \<lparr>cl_flavor = fl,
      cl_execute = (\<lambda>sql ps (t, b). case client_execute eng t sql ps b of (r, b) \<Rightarrow> (r, (t + 1, b))),
      cl_query = (\<lambda>sql ps (t, b). case client_query eng t sql ps b of (r, b) \<Rightarrow> (r, (t + 1, b)))\<rparr>"

section \<open>Operations\<close>

definition max_vars :: nat where
  "max_vars = 32000"

definition chunk_rows :: nat where
  "chunk_rows = 500"

definition op_parts :: "orm_schema \<Rightarrow> json \<Rightarrow> (json_object \<times> orm_table) result" where
  "op_parts schema op =
     bind_r (ok_or (as_object op) (orm_err ''op must be a JSON object'')) (\<lambda>obj.
     bind_r (ok_or (obj_get_as as_str obj ''table'') (orm_err ''op needs a `table` string'')) (\<lambda>tname.
     bind_r (orm_table_of schema tname) (\<lambda>t. Ok (obj, t))))"

definition op_name :: "json_object \<Rightarrow> string" where
  "op_name obj = option_or (obj_get_as as_str obj ''op'') []"

text \<open>\<open>["?"; n].join(", ")\<close>.\<close>

definition question_marks :: "nat \<Rightarrow> string" where
  "question_marks n = intercalate '', '' (replicate n ''?'')"

text \<open>The value of a key that is present; indexing a missing key panics.\<close>

definition data_at :: "json_object \<Rightarrow> string \<Rightarrow> json result" where
  "data_at data k = (case obj_get data k of None \<Rightarrow> Panicked | Some v \<Rightarrow> Ok v)"

definition bind_key :: "json_lib \<Rightarrow> orm_table \<Rightarrow> json_object \<Rightarrow> string \<Rightarrow> param_value result" where
  "bind_key lib t data k = bind_r (data_at data k) (to_param_as lib t k)"

definition ident_and_param ::
  "json_lib \<Rightarrow> orm_table \<Rightarrow> json_object \<Rightarrow> string \<Rightarrow> (string \<times> param_value) result" where
  "ident_and_param lib t data k =
     bind_r (table_ident t k) (\<lambda>i. bind_r (bind_key lib t data k) (\<lambda>p. Ok (i, p)))"

definition create_statement ::
  "json_lib \<Rightarrow> orm_table \<Rightarrow> json_object \<Rightarrow> (string \<times> param_value list) result" where
  "create_statement lib t obj =
     bind_r (ok_or (obj_get_as as_object obj ''data'') (orm_err ''create needs a `data` object'')) (\<lambda>data.
     let keys = column_keys t data
     in if keys = [] then Err (orm_err ''create() has no insertable columns'')
        else bind_r (map_r (ident_and_param lib t data) keys) (\<lambda>ips.
          Ok (''INSERT INTO '' @ ot_name t @ '' ('' @ intercalate '', '' (map fst ips) @ '') VALUES (''
                @ question_marks (length keys) @ '')'', map snd ips)))"

definition chunk_size_of :: "json_object \<Rightarrow> nat \<Rightarrow> nat" where
  "chunk_size_of obj nkeys =
     (let wanted = (case obj_get_as as_u64 obj ''chunkSize'' of Some n \<Rightarrow> unat n | None \<Rightarrow> chunk_rows)
      in min (max wanted 1) (max (max_vars div nkeys) 1))"

definition row_shape_error :: "nat \<Rightarrow> error" where
  "row_shape_error i =
     orm_err (''createMany() row '' @ nat_to_string i
       @ '' has a different column set than row 0; all rows must share one shape'')"

definition row_params ::
  "json_lib \<Rightarrow> orm_table \<Rightarrow> string list \<Rightarrow> nat \<times> json \<Rightarrow> param_value list result" where
  "row_params lib t keys e =
     (case e of (i, row) \<Rightarrow>
        bind_r (ok_or (as_object row) (orm_err ''createMany rows must be objects'')) (\<lambda>r.
          let row_keys = column_keys t r
          in if length row_keys \<noteq> length keys \<or> \<not> list_all (\<lambda>k. k \<in> set keys) row_keys
             then Err (row_shape_error i)
             else map_r (bind_key lib t r) keys))"

definition chunk_statement ::
  "json_lib \<Rightarrow> orm_table \<Rightarrow> string list \<Rightarrow> string list \<Rightarrow> nat \<Rightarrow> json list \<Rightarrow>
   (string \<times> param_value list) result" where
  "chunk_statement lib t keys idents start chunk =
     bind_r (map_r (row_params lib t keys) (zip [start..<start + length chunk] chunk)) (\<lambda>pss.
       Ok (''INSERT INTO '' @ ot_name t @ '' ('' @ intercalate '', '' idents @ '') VALUES ''
            @ intercalate '', '' (replicate (length chunk) (''('' @ question_marks (length keys) @ '')'')),
           concat pss))"

definition create_many ::
  "json_lib \<Rightarrow> 'c db_client \<Rightarrow> orm_table \<Rightarrow> json_object \<Rightarrow> ('c, i64) io" where
  "create_many lib cl t obj =
     io_bind (io_lift (ok_or (obj_get_as as_array obj ''rows'') (orm_err ''createMany needs a `rows` array''))) (\<lambda>rows.
     if rows = [] then io_return 0
     else io_bind (io_lift (ok_or (as_object (hd rows)) (orm_err ''createMany rows must be objects''))) (\<lambda>first.
       let keys = column_keys t first
       in if keys = [] then io_lift (Err (orm_err ''createMany() rows have no insertable columns''))
          else io_bind (io_lift (map_r (table_ident t) keys)) (\<lambda>idents.
            let n = chunk_size_of obj (length keys)
            in io_fold (\<lambda>(i, chunk) affected.
                 io_bind (io_lift (chunk_statement lib t keys idents (i * n) chunk)) (\<lambda>(sql, params).
                 io_bind (cl_execute cl sql params) (\<lambda>k. io_return (affected + word_of_nat k))))
               (zip [0..<length (chunks n rows)] (chunks n rows)) 0)))"

definition update_statement ::
  "json_lib \<Rightarrow> orm_table \<Rightarrow> json_object \<Rightarrow> (string \<times> param_value list) option result" where
  "update_statement lib t obj =
     bind_r (ok_or (obj_get_as as_object obj ''data'') (orm_err ''update needs a `data` object'')) (\<lambda>data.
     let sets = column_keys t data
     in if sets = [] then Ok None
        else bind_r (map_r (ident_and_param lib t data) sets) (\<lambda>ips.
          bind_r (compile_where lib t (obj_get obj ''where'') None) (\<lambda>(clause, wparams).
            Ok (Some (''UPDATE '' @ ot_name t @ '' SET ''
                  @ intercalate '', '' (map (\<lambda>ip. fst ip @ '' = ?'') ips) @ clause,
                map snd ips @ wparams)))))"

definition delete_statement ::
  "json_lib \<Rightarrow> orm_table \<Rightarrow> json_object \<Rightarrow> (string \<times> param_value list) result" where
  "delete_statement lib t obj =
     bind_r (compile_where lib t (obj_get obj ''where'') None) (\<lambda>(clause, params).
       if clause = []
       then Err (orm_err ''delete() requires a non-empty where clause; use deleteAll() to clear the table'')
       else Ok (''DELETE FROM '' @ ot_name t @ clause, params))"

definition count_statement ::
  "json_lib \<Rightarrow> orm_table \<Rightarrow> json_object \<Rightarrow> (string \<times> param_value list) result" where
  "count_statement lib t obj =
     bind_r (compile_where lib t (obj_get obj ''where'') None) (\<lambda>(clause, params).
       Ok (''SELECT COUNT(*) AS n FROM '' @ ot_name t @ clause, params))"

definition run_statement :: "'c db_client \<Rightarrow> string \<times> param_value list \<Rightarrow> ('c, i64) io" where
  "run_statement cl st =
     io_bind (cl_execute cl (fst st) (snd st)) (\<lambda>n. io_return (word_of_nat n))"

definition count_result :: "record_batch \<Rightarrow> i64 result" where
  "count_result b =
     (case batch_column b ''n'' of
        None \<Rightarrow> Ok 0
      | Some c \<Rightarrow> bind_r (get_i64 c 0) (\<lambda>v. Ok (option_or v 0)))"

definition orm_execute :: "json_lib \<Rightarrow> 'c db_client \<Rightarrow> orm_schema \<Rightarrow> json \<Rightarrow> ('c, i64) io" where
  "orm_execute lib cl schema op =
     io_bind (io_lift (op_parts schema op)) (\<lambda>(obj, t).
       let nm = op_name obj
       in if nm = ''create'' then io_bind (io_lift (create_statement lib t obj)) (run_statement cl)
          else if nm = ''createMany'' then create_many lib cl t obj
          else if nm = ''update'' then
            io_bind (io_lift (update_statement lib t obj)) (\<lambda>st.
              case st of None \<Rightarrow> io_return 0 | Some st \<Rightarrow> run_statement cl st)
          else if nm = ''delete'' then io_bind (io_lift (delete_statement lib t obj)) (run_statement cl)
          else if nm = ''deleteAll'' then run_statement cl (''DELETE FROM '' @ ot_name t, [])
          else if nm = ''count'' then
            io_bind (io_lift (count_statement lib t obj)) (\<lambda>(sql, params).
            io_bind (cl_query cl sql params) (\<lambda>b. io_lift (count_result b)))
          else io_lift (Err (orm_err (''unknown execute op `'' @ nm
                 @ ''` (expected create, createMany, update, delete, deleteAll, count)''))))"

end
