(* ===== verification/OrmFind.thy ===== *)
theory OrmFind
  imports OrmExec
begin

text \<open>
  The reading operations of the object-relational layer (\<open>orm.rs\<close>, lines 780-1229): findMany and
  findFirst with joins and nested includes, aggregate and groupBy, and the rows they return as JSON.
\<close>

section \<open>Rows\<close>

fun truthy :: "json \<Rightarrow> bool" where
  "truthy (JBool b) = b"
| "truthy JNull = False"
| "truthy (JObj _) = True"
| "truthy _ = False"

definition object_of :: "(string \<times> json) list \<Rightarrow> json_object" where
  "object_of es = fold (\<lambda>(k, v) m. obj_insert k v m) es []"

text \<open>The cell of a column that may be missing from the batch.\<close>

definition batch_cell :: "record_batch \<Rightarrow> string \<Rightarrow> nat \<Rightarrow> col_type \<Rightarrow> json result" where
  "batch_cell b nm r ty = (case batch_column b nm of None \<Rightarrow> Ok JNull | Some c \<Rightarrow> cell_json c r ty)"

definition row_cells :: "record_batch \<Rightarrow> (string \<Rightarrow> string) \<Rightarrow> orm_table \<Rightarrow> nat \<Rightarrow> (string \<times> json) list result" where
  "row_cells b name_of t r =
     map_r (\<lambda>c. bind_r (batch_cell b (name_of (oc_name c)) r (oc_ty c)) (\<lambda>v. Ok (oc_name c, v))) (ot_columns t)"

definition materialize :: "record_batch \<Rightarrow> orm_table \<Rightarrow> json list result" where
  "materialize b t =
     map_r (\<lambda>r. bind_r (row_cells b (\<lambda>c. c) t r) (\<lambda>cells. Ok (JObj (object_of cells)))) [0..<num_rows b]"

section \<open>Joins\<close>

definition joined_relation :: "orm_table \<Rightarrow> string \<Rightarrow> orm_relation result" where
  "joined_relation t nm =
     bind_r (ok_or (table_relation t nm) (orm_err (''unknown relation `'' @ nm @ ''`''))) (\<lambda>rel.
       if \<not> rel_belongs_to rel
       then Err (orm_err (''relation `'' @ nm @ ''` is hasMany; use include (a JOIN would multiply rows)''))
       else Ok rel)"

definition join_alias :: "orm_relation \<Rightarrow> string" where
  "join_alias rel = ''j_'' @ rel_name rel"

definition nested_alias :: "orm_relation \<Rightarrow> string \<Rightarrow> string" where
  "nested_alias rel c = rel_name rel @ ''__'' @ c"

definition join_selects :: "orm_relation \<Rightarrow> orm_table \<Rightarrow> string list" where
  "join_selects rel target =
     map (\<lambda>c. join_alias rel @ ''.'' @ oc_name c @ '' AS '' @ nested_alias rel (oc_name c)) (ot_columns target)"

definition join_clause :: "orm_table \<Rightarrow> orm_relation \<Rightarrow> orm_table \<Rightarrow> string" where
  "join_clause t rel target =
     ''LEFT JOIN '' @ ot_name target @ '' AS '' @ join_alias rel @ '' ON ''
     @ intercalate '' AND ''
         (map (\<lambda>(lc, fc). ot_name t @ ''.'' @ lc @ '' = '' @ join_alias rel @ ''.'' @ fc)
              (zip (rel_local_columns rel) (rel_foreign_columns rel)))"

definition join_targets ::
  "orm_schema \<Rightarrow> orm_relation list \<Rightarrow> (orm_relation \<times> orm_table) list result" where
  "join_targets schema rels =
     map_r (\<lambda>rel. bind_r (orm_table_of schema (rel_target rel)) (\<lambda>target. Ok (rel, target))) rels"

definition join_statement ::
  "json_lib \<Rightarrow> flavor \<Rightarrow> orm_table \<Rightarrow> (orm_relation \<times> orm_table) list \<Rightarrow> json_object \<Rightarrow>
   (string \<times> param_value list) result" where
  "join_statement lib fl t rts obj =
     bind_r (compile_where lib t (obj_get obj ''where'') (Some (ot_name t))) (\<lambda>(clause, params).
     bind_r (compile_tail t obj (Some (ot_name t)) fl) (\<lambda>(tail, top).
       Ok (''SELECT '' @ top
            @ intercalate '', ''
                (map (\<lambda>c. ot_name t @ ''.'' @ oc_name c @ '' AS '' @ oc_name c) (ot_columns t)
                 @ concat (map (\<lambda>(rel, target). join_selects rel target) rts))
            @ '' FROM '' @ ot_name t @ '' ''
            @ intercalate '' '' (map (\<lambda>(rel, target). join_clause t rel target) rts) @ clause @ tail,
           params)))"

text \<open>A LEFT JOIN without a match leaves every column of the target null.\<close>

definition nested_row :: "record_batch \<Rightarrow> nat \<Rightarrow> orm_relation \<times> orm_table \<Rightarrow> (string \<times> json) result" where
  "nested_row b r rt =
     (case rt of (rel, target) \<Rightarrow>
        bind_r (row_cells b (nested_alias rel) target r) (\<lambda>cells.
          Ok (rel_name rel,
              if list_all (\<lambda>e. snd e = JNull) cells then JNull else JObj (object_of cells))))"

definition joined_rows ::
  "record_batch \<Rightarrow> orm_table \<Rightarrow> (orm_relation \<times> orm_table) list \<Rightarrow> json list result" where
  "joined_rows b t rts =
     map_r (\<lambda>r. bind_r (row_cells b (\<lambda>c. c) t r) (\<lambda>cells.
                 bind_r (map_r (nested_row b r) rts) (\<lambda>nested.
                   Ok (JObj (object_of (cells @ nested)))))) [0..<num_rows b]"

definition find_many_joined ::
  "json_lib \<Rightarrow> 'c db_client \<Rightarrow> orm_schema \<Rightarrow> json_object \<Rightarrow> orm_table \<Rightarrow> json_object \<Rightarrow> ('c, json list) io" where
  "find_many_joined lib cl schema obj t join =
     io_bind (io_lift (map_r (\<lambda>e. joined_relation t (fst e)) (filter (\<lambda>e. truthy (snd e)) join))) (\<lambda>rels.
     io_bind (io_lift (join_targets schema rels)) (\<lambda>rts.
     io_bind (io_lift (join_statement lib (cl_flavor cl) t rts obj)) (\<lambda>(sql, params).
     io_bind (cl_query cl sql params) (\<lambda>b. io_lift (joined_rows b t rts)))))"

section \<open>Includes\<close>

text \<open>The key of a row: nothing when a key column is missing or null.\<close>

definition key_value :: "json_object \<Rightarrow> string \<Rightarrow> json option" where
  "key_value m c = Option.bind (obj_get m c) (\<lambda>v. if v = JNull then None else Some v)"

definition tuple_of :: "json \<Rightarrow> string list \<Rightarrow> json list option" where
  "tuple_of row cols = Option.bind (as_object row) (\<lambda>m. those (map (key_value m) cols))"

definition tuple_key :: "json_lib \<Rightarrow> json list \<Rightarrow> string" where
  "tuple_key lib t = json_text lib (JArr t)"

definition add_tuple ::
  "json_lib \<Rightarrow> string list \<Rightarrow> json \<Rightarrow> string list \<times> json list list \<Rightarrow> string list \<times> json list list" where
  "add_tuple lib cols row acc =
     (case (tuple_of row cols, acc) of
        (None, _) \<Rightarrow> acc
      | (Some t, (seen, tuples)) \<Rightarrow>
          if tuple_key lib t \<in> set seen then acc else (seen @ [tuple_key lib t], tuples @ [t]))"

definition distinct_tuples :: "json_lib \<Rightarrow> string list \<Rightarrow> json list \<Rightarrow> json list list" where
  "distinct_tuples lib cols rows = snd (fold (add_tuple lib cols) rows ([], []))"

text \<open>\<open>xs[i]\<close>.\<close>

definition index_r :: "'a list \<Rightarrow> nat \<Rightarrow> 'a result" where
  "index_r xs i = (if i < length xs then Ok (xs ! i) else Panicked)"

definition tuple_params ::
  "json_lib \<Rightarrow> orm_table \<Rightarrow> string list \<Rightarrow> json list \<Rightarrow> param_value list result" where
  "tuple_params lib target fcols t =
     map_r (\<lambda>(i, v). bind_r (index_r fcols i) (\<lambda>c. to_param_as lib target c v)) (zip [0..<length t] t)"

definition include_statement ::
  "json_lib \<Rightarrow> orm_table \<Rightarrow> orm_relation \<Rightarrow> string list \<Rightarrow> json list list \<Rightarrow>
   (string \<times> param_value list) result" where
  "include_statement lib target rel fidents chunk =
     (if length fidents = 1 then
        bind_r (map_r (\<lambda>t. bind_r (index_r (rel_foreign_columns rel) 0) (\<lambda>c.
                            bind_r (index_r t 0) (to_param_as lib target c))) chunk) (\<lambda>ps.
          Ok (select_all target @ '' WHERE '' @ hd fidents @ '' IN ('' @ question_marks (length chunk) @ '')'', ps))
      else
        bind_r (map_r (tuple_params lib target (rel_foreign_columns rel)) chunk) (\<lambda>pss.
          Ok (select_all target @ '' WHERE ('' @ intercalate '', '' fidents @ '') IN (''
                @ intercalate '', '' (replicate (length chunk) (''('' @ question_marks (length fidents) @ '')''))
                @ '')'', concat pss)))"

definition load_related ::
  "json_lib \<Rightarrow> 'c db_client \<Rightarrow> orm_table \<Rightarrow> orm_relation \<Rightarrow> json list \<Rightarrow> ('c, json list) io" where
  "load_related lib cl target rel rows =
     io_bind (io_lift (map_r (table_ident target) (rel_foreign_columns rel))) (\<lambda>fidents.
       io_fold (\<lambda>chunk loaded.
           io_bind (io_lift (include_statement lib target rel fidents chunk)) (\<lambda>(sql, params).
           io_bind (cl_query cl sql params) (\<lambda>b.
           io_bind (io_lift (materialize b target)) (\<lambda>more. io_return (loaded @ more)))))
         (chunks chunk_rows (distinct_tuples lib (rel_local_columns rel) rows)) [])"

definition add_grouped ::
  "json_lib \<Rightarrow> string list \<Rightarrow> json \<Rightarrow> (string \<rightharpoonup> json list) \<Rightarrow> (string \<rightharpoonup> json list)" where
  "add_grouped lib fcols row g =
     (case tuple_of row fcols of
        None \<Rightarrow> g
      | Some t \<Rightarrow> g(tuple_key lib t \<mapsto> option_or (g (tuple_key lib t)) [] @ [row]))"

definition group_by_key :: "json_lib \<Rightarrow> string list \<Rightarrow> json list \<Rightarrow> (string \<rightharpoonup> json list)" where
  "group_by_key lib fcols loaded = fold (add_grouped lib fcols) loaded (\<lambda>_. None)"

definition relation_value :: "json_lib \<Rightarrow> orm_relation \<Rightarrow> (string \<rightharpoonup> json list) \<Rightarrow> json \<Rightarrow> json" where
  "relation_value lib rel g row =
     (let matches = Option.bind (tuple_of row (rel_local_columns rel)) (\<lambda>t. g (tuple_key lib t))
      in if rel_belongs_to rel
         then (case option_or matches [] of [] \<Rightarrow> JNull | m # _ \<Rightarrow> m)
         else JArr (option_or matches []))"

definition attach_row :: "json_lib \<Rightarrow> orm_relation \<Rightarrow> (string \<rightharpoonup> json list) \<Rightarrow> json \<Rightarrow> json" where
  "attach_row lib rel g row =
     (case row of JObj m \<Rightarrow> JObj (obj_insert (rel_name rel) (relation_value lib rel g row) m) | _ \<Rightarrow> row)"

definition included_relation ::
  "orm_schema \<Rightarrow> orm_table \<Rightarrow> string \<Rightarrow> (orm_relation \<times> orm_table) result" where
  "included_relation schema t nm =
     bind_r (ok_or (table_relation t nm)
       (orm_err (''unknown relation `'' @ nm @ ''` (no foreign key on '' @ ot_name t @ '' defines it)''))) (\<lambda>rel.
     bind_r (orm_table_of schema (rel_target rel)) (\<lambda>target. Ok (rel, target)))"

lemma nested_include_smaller:
  assumes "jget_as as_object spec k = Some nested"
  shows "size (JObj nested) < size (JObj ((nm, spec) # rest))"
proof -
  from assms obtain v where v: "jget spec k = Some v" "as_object v = Some nested"
    by (auto simp: jget_as_def bind_eq_Some_conv)
  from v(1) obtain m where m: "spec = JObj m" "obj_get m k = Some v" by (auto simp: jget_Some)
  from v(2) have "v = JObj nested" by (simp only: as_object_Some)
  with size_obj_get [OF m(2)] m(1) have "size (JObj nested) < size spec" by (simp only:)
  then show ?thesis by simp
qed

function attach_relations ::
  "json_lib \<Rightarrow> 'c db_client \<Rightarrow> orm_schema \<Rightarrow> json_object \<Rightarrow> orm_table \<Rightarrow> json list \<Rightarrow> ('c, json list) io" where
  "attach_relations lib cl schema [] t rows = io_return rows"
| "attach_relations lib cl schema ((nm, spec) # rest) t rows =
     (if \<not> truthy spec then attach_relations lib cl schema rest t rows
      else io_bind (io_lift (included_relation schema t nm)) (\<lambda>(rel, target).
        io_bind (load_related lib cl target rel rows) (\<lambda>loaded.
        io_bind (case jget_as as_object spec ''include'' of
             Some nested \<Rightarrow>
               if loaded \<noteq> [] then attach_relations lib cl schema nested target loaded else io_return loaded
           | None \<Rightarrow> io_return loaded) (\<lambda>loaded.
        attach_relations lib cl schema rest t
          (map (attach_row lib rel (group_by_key lib (rel_foreign_columns rel) loaded)) rows)))))"
  by pat_completeness auto
termination
  by (relation "measure (\<lambda>(lib, cl, schema, inc, t, rows). size (JObj inc))")
     (auto intro: nested_include_smaller simp del: json.size, auto)

declare attach_relations.simps [simp del]

section \<open>findMany and findFirst\<close>

definition find_statement ::
  "json_lib \<Rightarrow> flavor \<Rightarrow> orm_table \<Rightarrow> json_object \<Rightarrow> (string \<times> param_value list) result" where
  "find_statement lib fl t obj =
     bind_r (compile_where lib t (obj_get obj ''where'') None) (\<lambda>(clause, params).
     bind_r (compile_tail t obj None fl) (\<lambda>(tail, top).
       Ok (with_top (select_all t) top @ clause @ tail, params)))"

definition wanted_join :: "json_object \<Rightarrow> json_object option" where
  "wanted_join obj =
     (case obj_get_as as_object obj ''join'' of
        Some m \<Rightarrow> if list_ex (\<lambda>e. truthy (snd e)) m then Some m else None
      | None \<Rightarrow> None)"

definition find_many ::
  "json_lib \<Rightarrow> 'c db_client \<Rightarrow> orm_schema \<Rightarrow> json_object \<Rightarrow> orm_table \<Rightarrow> ('c, json list) io" where
  "find_many lib cl schema obj t =
     io_bind
       (case wanted_join obj of
          Some join \<Rightarrow> find_many_joined lib cl schema obj t join
        | None \<Rightarrow>
            io_bind (io_lift (find_statement lib (cl_flavor cl) t obj)) (\<lambda>(sql, params).
            io_bind (cl_query cl sql params) (\<lambda>b. io_lift (materialize b t)))) (\<lambda>rows.
     case obj_get_as as_object obj ''include'' of
       None \<Rightarrow> io_return rows
     | Some inc \<Rightarrow> attach_relations lib cl schema inc t rows)"

section \<open>aggregate and groupBy\<close>

definition aggregate_names :: "string list" where
  "aggregate_names = [''sum'', ''avg'', ''min'', ''max'']"

definition upper :: "string \<Rightarrow> string" where
  "upper s = map to_ascii_upper s"

definition aggregate_statement ::
  "json_lib \<Rightarrow> orm_table \<Rightarrow> json_object \<Rightarrow> (string \<times> param_value list) result" where
  "aggregate_statement lib t obj =
     bind_r (ok_or (obj_get_as as_str obj ''fn'') (orm_err ''aggregate needs `fn` (sum, avg, min, max)'')) (\<lambda>f.
     if f \<notin> set aggregate_names then Err (orm_err (''unknown aggregate fn `'' @ f @ ''`''))
     else bind_r (ok_or (obj_get_as as_str obj ''column'') (orm_err ''aggregate needs a `column`'')) (\<lambda>col.
       bind_r (table_ident t col) (\<lambda>ident.
       bind_r (compile_where lib t (obj_get obj ''where'') None) (\<lambda>(clause, params).
         Ok (''SELECT '' @ upper f @ ''('' @ ident @ '') AS v FROM '' @ ot_name t @ clause, params)))))"

definition aggregate :: "json_lib \<Rightarrow> 'c db_client \<Rightarrow> json_object \<Rightarrow> orm_table \<Rightarrow> ('c, json) io" where
  "aggregate lib cl obj t =
     io_bind (io_lift (aggregate_statement lib t obj)) (\<lambda>(sql, params).
     io_bind (cl_query cl sql params) (\<lambda>b.
       io_lift (case batch_column b ''v'' of None \<Rightarrow> Ok JNull | Some c \<Rightarrow> cell_raw c 0)))"

text \<open>An aggregate: its alias, its expression, its type; the last of equal aliases counts.\<close>

type_synonym agg = "string \<times> string \<times> col_type"

definition agg_of :: "orm_table \<Rightarrow> string \<Rightarrow> json \<Rightarrow> agg result" where
  "agg_of t f v =
     bind_r (ok_or (as_str v) (orm_err (''`'' @ f @ ''` takes column names''))) (\<lambda>c.
     bind_r (table_ident t c) (\<lambda>ident.
       Ok (''_'' @ f @ ''_'' @ c, upper f @ ''('' @ ident @ '')'',
           if f = ''avg'' then CtFloat
           else (case table_column t c of Some col \<Rightarrow> oc_ty col | None \<Rightarrow> CtFloat))))"

definition aggs_of :: "orm_table \<Rightarrow> json_object \<Rightarrow> agg list result" where
  "aggs_of t obj =
     bind_r (map_r (\<lambda>f. map_r (agg_of t f) (option_or (obj_get_as as_array obj f) [])) aggregate_names) (\<lambda>ass.
       Ok ((if option_or (obj_get_as as_bool obj ''count'') False
            then [(''_count'', ''COUNT(*)'', CtInt)] else []) @ concat ass))"

definition agg_lookup :: "agg list \<Rightarrow> string \<Rightarrow> (string \<times> col_type) option" where
  "agg_lookup as alias = map_of (rev as) alias"

definition having_op :: "string \<Rightarrow> string result" where
  "having_op op =
     (case List.find (\<lambda>e. fst e = op) (take 6 sql_ops) of
        Some e \<Rightarrow> Ok (snd e)
      | None \<Rightarrow> Err (orm_err (''having supports only comparison operators, got `'' @ op @ ''`'')))"

definition having_cond ::
  "json_lib \<Rightarrow> agg list \<Rightarrow> string \<times> json \<Rightarrow> fragment result" where
  "having_cond lib as e =
     (case e of (alias, cond) \<Rightarrow>
        bind_r (ok_or (agg_lookup as alias)
          (orm_err (''having references unknown aggregate `'' @ alias @ ''`''))) (\<lambda>(expr, ty).
        bind_r (ok_or (as_object cond) (orm_err ''having conditions must be objects'')) (\<lambda>ops.
        bind_r (map_r (\<lambda>(op, v).
            bind_r (having_op op) (\<lambda>sop.
            bind_r (to_param lib v) (\<lambda>p. Ok ([expr @ '' '' @ sop @ '' ?''], [coerce (Some ty) p])))) ops) (\<lambda>fs.
          Ok (join_fragments fs)))))"

definition group_order :: "orm_table \<Rightarrow> agg list \<Rightarrow> string \<times> json \<Rightarrow> string result" where
  "group_order t as e =
     (case e of (key, dir) \<Rightarrow>
        bind_r (if agg_lookup as key \<noteq> None then Ok key else table_ident t key) (\<lambda>target.
          Ok (target @ '' '' @ sort_direction dir)))"

text \<open>The limit clause, the TOP prefix and the values bound in it.\<close>

definition group_tail ::
  "flavor \<Rightarrow> bool \<Rightarrow> json_object \<Rightarrow> (string \<times> string \<times> param_value list) result" where
  "group_tail fl ordered obj =
     (let lim = row_count_key obj ''limit''; off = row_count_key obj ''offset''
      in if fl = MsSql then
           (case off of
              Some n \<Rightarrow>
                if \<not> ordered then Err offset_needs_order
                else Ok ('' OFFSET '' @ i64_to_string n @ '' ROWS''
                    @ (case lim of None \<Rightarrow> [] | Some l \<Rightarrow> '' FETCH NEXT '' @ i64_to_string l @ '' ROWS ONLY''), [], [])
            | None \<Rightarrow> Ok ([], case lim of None \<Rightarrow> [] | Some l \<Rightarrow> ''TOP ('' @ i64_to_string l @ '') '', []))
         else
           Ok ((case lim of None \<Rightarrow> [] | Some _ \<Rightarrow> '' LIMIT ?'') @ (case off of None \<Rightarrow> [] | Some _ \<Rightarrow> '' OFFSET ?''),
               [], (case lim of None \<Rightarrow> [] | Some l \<Rightarrow> [VInt l]) @ (case off of None \<Rightarrow> [] | Some n \<Rightarrow> [VInt n])))"

definition group_statement ::
  "json_lib \<Rightarrow> flavor \<Rightarrow> orm_table \<Rightarrow> json_object \<Rightarrow> (string \<times> param_value list) result" where
  "group_statement lib fl t obj =
     (let by = str_list (obj_get obj ''by'')
      in if by = [] then Err (orm_err ''groupBy requires at least one column'')
         else bind_r (map_r (table_ident t) by) (\<lambda>idents.
           bind_r (aggs_of t obj) (\<lambda>as.
           bind_r (compile_where lib t (obj_get obj ''where'') None) (\<lambda>(clause, params).
           bind_r (map_r (having_cond lib as) (option_or (obj_get_as as_object obj ''having'') [])) (\<lambda>hs.
           bind_r (map_r (group_order t as) (option_or (obj_get_as as_object obj ''orderBy'') [])) (\<lambda>orders.
           bind_r (group_tail fl (orders \<noteq> []) obj) (\<lambda>(limits, top, lps).
             let having = fst (join_fragments hs)
             in Ok (''SELECT '' @ top
                  @ intercalate '', '' (idents @ map (\<lambda>(alias, expr, _). expr @ '' AS '' @ alias) as)
                  @ '' FROM '' @ ot_name t @ clause @ '' GROUP BY '' @ intercalate '', '' idents
                  @ (if having = [] then [] else '' HAVING '' @ intercalate '' AND '' having)
                  @ (if orders = [] then [] else '' ORDER BY '' @ intercalate '', '' orders) @ limits,
                 params @ snd (join_fragments hs) @ lps))))))))"

definition group_rows :: "record_batch \<Rightarrow> orm_table \<Rightarrow> json list result" where
  "group_rows b t =
     map_r (\<lambda>r. bind_r (map_r (\<lambda>col.
                 let nm = field_name (col_field col)
                 in bind_r (case table_column t nm of Some cm \<Rightarrow> cell_json col r (oc_ty cm) | None \<Rightarrow> cell_raw col r)
                      (\<lambda>v. Ok (nm, v))) (columns b)) (\<lambda>cells. Ok (JObj (object_of cells)))) [0..<num_rows b]"

definition group_by :: "json_lib \<Rightarrow> 'c db_client \<Rightarrow> json_object \<Rightarrow> orm_table \<Rightarrow> ('c, json) io" where
  "group_by lib cl obj t =
     io_bind (io_lift (group_statement lib (cl_flavor cl) t obj)) (\<lambda>(sql, params).
     io_bind (cl_query cl sql params) (\<lambda>b.
     io_bind (io_lift (group_rows b t)) (\<lambda>rows. io_return (JArr rows))))"

section \<open>The row-returning operations\<close>

definition find_json :: "json_lib \<Rightarrow> 'c db_client \<Rightarrow> orm_schema \<Rightarrow> json \<Rightarrow> ('c, json) io" where
  "find_json lib cl schema op =
     io_bind (io_lift (op_parts schema op)) (\<lambda>(obj, t).
       let nm = op_name obj
       in if nm = ''findMany'' then
            io_bind (find_many lib cl schema obj t) (\<lambda>rows. io_return (JArr rows))
          else if nm = ''findFirst'' then
            io_bind (find_many lib cl schema (obj_insert ''limit'' (JNum (PosInt 1)) obj) t) (\<lambda>rows.
              io_return (case rows of [] \<Rightarrow> JNull | r # _ \<Rightarrow> r))
          else if nm = ''groupBy'' then group_by lib cl obj t
          else if nm = ''aggregate'' then aggregate lib cl obj t
          else io_lift (Err (orm_err (''unknown find op `'' @ nm
                 @ ''` (expected findMany, findFirst, groupBy, aggregate)''))))"

end
