(* ===== verification/OrmSafety.thy ===== *)
theory OrmSafety
  imports OrmFind
begin

text \<open>
  Every statement of the object-relational layer is text the scanners read character by character, with
  as many placeholders as bound values: the guard never rejects one and no value is left over. The
  lemmas follow the rendering functions; the properties state it for whole operations, by comparing the
  client with one that fails on any other statement.
\<close>

section \<open>Calm text\<close>

text \<open>Plain text in which a dash may stand in front of a digit, as in a negative LIMIT.\<close>

fun calm :: "string \<Rightarrow> bool" where
  "calm [] = True"
| "calm (c # s) =
     (if c = CHR ''-'' then s \<noteq> [] \<and> is_ascii_digit (hd s) \<and> calm s else c \<notin> set special_chars \<and> calm s)"

definition bound_text :: "nat \<Rightarrow> string \<Rightarrow> bool" where
  "bound_text n s \<longleftrightarrow> calm s \<and> qmarks s = n"

definition safe_statement :: "string \<times> param_value list \<Rightarrow> bool" where
  "safe_statement st \<longleftrightarrow> bound_text (length (snd st)) (fst st)"

lemma calm_append: "calm a \<Longrightarrow> calm b \<Longrightarrow> calm (a @ b)"
  by (induction a) (auto simp: hd_append)

lemma dash_special: "CHR ''-'' \<in> set special_chars"
  by (simp add: special_chars_def)

lemma plain_calm: "plain s \<Longrightarrow> calm s"
proof (induction s)
  case (Cons c s)
  with dash_special show ?case by (auto simp: plain_simps)
qed simp

lemma calm_lexemes: "calm s \<Longrightarrow> lexemes ph_closer s = map LChar s"
proof (induction s)
  case (Cons c s)
  then have "\<not> at_line_comment (c # s)" "\<not> at_block_comment (c # s)" "ph_closer c = None"
    by (cases s; auto simp: special_chars_def at_line_comment_def at_block_comment_def ph_closer_def
        is_ascii_digit_def split: if_splits)+
  with Cons show ?case by (subst lexemes.simps) (auto split: if_splits)
qed simp

lemma calm_no_semicolon: "calm s \<Longrightarrow> CHR '';'' \<notin> set s"
  by (induction s) (auto simp: special_chars_def split: if_splits)

lemma safe_statement_sound:
  assumes "safe_statement (sql, ps)"
  shows "placeholders (lexemes ph_closer sql) = length ps \<and> reject_stacked sql = Ok ()"
proof -
  from assms have c: "calm sql" and q: "qmarks sql = length ps"
    by (simp_all add: safe_statement_def bound_text_def)
  have "placeholders (lexemes ph_closer sql) = qmarks sql"
    by (simp add: calm_lexemes [OF c] placeholders_def qmarks_def filter_map o_def)
  with q no_semicolon_passes [OF calm_no_semicolon [OF c]] show ?thesis by simp
qed

lemma bound_text_append: "bound_text m a \<Longrightarrow> bound_text n b \<Longrightarrow> bound_text (m + n) (a @ b)"
  by (simp add: bound_text_def calm_append plain_simps)

text \<open>Reading a text from its front: literals character by character, other parts as a whole.\<close>

named_theorems bound_simps "the question marks of a text that starts with a known part"

lemma bound_text_Cons [bound_simps]:
  "c \<notin> set special_chars \<Longrightarrow> c \<noteq> CHR ''?'' \<Longrightarrow> bound_text n (c # s) \<longleftrightarrow> bound_text n s"
  using dash_special by (auto simp: bound_text_def plain_simps)

lemma bound_text_mark [bound_simps]: "bound_text n (CHR ''?'' # s) \<longleftrightarrow> 0 < n \<and> bound_text (n - 1) s"
  by (auto simp: bound_text_def plain_simps special_chars_def)

lemma bound_text_end [bound_simps]: "bound_text n [] \<longleftrightarrow> n = 0"
  by (auto simp: bound_text_def plain_simps)

lemma bound_text_part [bound_simps]: "bound_text 0 a \<Longrightarrow> bound_text n (a @ b) \<longleftrightarrow> bound_text n b"
proof -
  assume a: "bound_text 0 a"
  have "calm (a @ b) \<Longrightarrow> calm b" by (induction a) (auto split: if_splits)
  with a show ?thesis by (auto simp: bound_text_def calm_append plain_simps)
qed

lemmas bound_literal = bound_simps special_chars_def

lemma bound_text_Nil: "bound_text 0 []"
  by (simp add: bound_text_def plain_simps)

lemma bound_text_append0: "bound_text 0 a \<Longrightarrow> bound_text n b \<Longrightarrow> bound_text n (a @ b)"
  using bound_text_append [of 0 a n b] by simp

lemma bound_text_after0: "bound_text n a \<Longrightarrow> bound_text 0 b \<Longrightarrow> bound_text n (a @ b)"
  using bound_text_append [of n a 0 b] by simp

lemma bound_text_intercalate:
  "bound_text 0 sep \<Longrightarrow> list_all2 bound_text ns xs \<Longrightarrow> bound_text (sum_list ns) (intercalate sep xs)"
proof (induction sep xs arbitrary: ns rule: intercalate.induct)
  case (3 sep x y ys)
  from 3(3) obtain n ns' where n: "ns = n # ns'" "bound_text n x" "list_all2 bound_text ns' (y # ys)"
    by (auto simp: list_all2_Cons2)
  from bound_text_append0 [OF 3(2) 3(1) [OF 3(2) n(3)]] n show ?case by (simp add: bound_text_append)
qed (auto simp: bound_text_Nil list_all2_Cons2)

lemma bound_text_list0:
  assumes "bound_text 0 sep" "\<And>x. x \<in> set xs \<Longrightarrow> bound_text 0 x"
  shows "bound_text 0 (intercalate sep xs)"
proof -
  have "list_all2 bound_text (replicate (length xs) 0) xs"
    using assms(2) by (auto simp: list_all2_conv_all_nth)
  from bound_text_intercalate [OF assms(1) this] show ?thesis by (simp add: sum_list_replicate)
qed

lemma bound_text_replicate:
  "bound_text 0 sep \<Longrightarrow> bound_text m x \<Longrightarrow> bound_text (n * m) (intercalate sep (replicate n x))"
  using bound_text_intercalate [of sep "replicate n m" "replicate n x"]
  by (auto simp: list_all2_conv_all_nth sum_list_replicate)

lemma bound_text_question: "bound_text 1 ''?''" "bound_text 0 '', ''"
  by (simp_all add: bound_text_def plain_simps special_chars_def)

lemma bound_text_questions: "bound_text n (question_marks n)"
  using bound_text_replicate [OF bound_text_question(2,1), of n] by (simp add: question_marks_def)

lemma ident_bound: "is_ident s \<Longrightarrow> bound_text 0 s"
proof -
  assume "is_ident s"
  then have a: "\<forall>c \<in> set s. is_ascii_alphanumeric c \<or> c = CHR ''_''"
    by (simp add: is_ident_def list_all_iff)
  have "c \<notin> set special_chars \<and> c \<noteq> CHR ''?''" if "c \<in> set s" for c
    using a that by (auto simp: is_ascii_alphanumeric_def is_ascii_alphabetic_def is_ascii_digit_def special_chars_def)
  then have "plain s" "qmarks s = 0"
    by (auto simp: plain_def qmarks_def list_all_iff filter_empty_conv)
  then show ?thesis by (simp add: bound_text_def plain_calm)
qed

lemma int_bound: "bound_text 0 (i64_to_string i)"
proof -
  have d: "bound_text 0 (nat_to_string n)" for n by (simp add: bound_text_def plain_simps plain_calm)
  have "nat_to_string n \<noteq> []" for n by (subst nat_to_string.simps) simp
  then have "bound_text 0 (''-'' @ nat_to_string n)" for n
    using d [of n] decimal_digits [of "hd (nat_to_string n)" n] by (simp add: bound_text_def plain_simps)
  with d show ?thesis by (simp add: i64_to_string_def int_to_string_def)
qed

section \<open>Well-formed schemas\<close>

definition table_wf :: "orm_table \<Rightarrow> bool" where
  "table_wf t \<longleftrightarrow> is_ident (ot_name t) \<and> list_all (\<lambda>c. is_ident (oc_name c)) (ot_columns t)"

definition relation_wf :: "orm_relation \<Rightarrow> bool" where
  "relation_wf rel \<longleftrightarrow> is_ident (rel_name rel)
     \<and> list_all is_ident (rel_local_columns rel @ rel_foreign_columns rel)
     \<and> length (rel_local_columns rel) = length (rel_foreign_columns rel)"

definition schema_wf :: "orm_schema \<Rightarrow> bool" where
  "schema_wf s \<longleftrightarrow> list_all (\<lambda>t. table_wf t \<and> list_all relation_wf (ot_relations t)) (os_tables s)
     \<and> (\<forall>k i. os_index s k = Some i \<longrightarrow> i < length (os_tables s))"

lemma table_ident_wf: "table_wf t \<Longrightarrow> table_ident t c = Inr i \<Longrightarrow> i = c \<and> is_ident i"
  by (auto simp: table_ident_def table_column_def find_Some_iff table_wf_def list_all_length split: option.splits)

section \<open>Fragments\<close>

definition fragment_safe :: "fragment \<Rightarrow> bool" where
  "fragment_safe f \<longleftrightarrow> list_all (\<lambda>p. p \<noteq> [] \<and> calm p) (fst f) \<and> sum_list (map qmarks (fst f)) = length (snd f)"

lemma fragment_single: "p \<noteq> [] \<Longrightarrow> bound_text (length ps) p \<Longrightarrow> fragment_safe ([p], ps)"
  by (simp add: fragment_safe_def bound_text_def)

lemma fragment_Nil: "fragment_safe ([], [])"
  by (simp add: fragment_safe_def)

lemma join_fragments_safe: "(\<And>f. f \<in> set fs \<Longrightarrow> fragment_safe f) \<Longrightarrow> fragment_safe (join_fragments fs)"
  by (induction fs) (auto simp: join_fragments_def fragment_safe_def)

lemma fragment_text:
  assumes f: "fragment_safe (parts, ps)" and sep: "bound_text 0 sep"
  shows "bound_text (length ps) (intercalate sep parts)"
proof -
  have "list_all2 bound_text (map qmarks parts) parts"
    using f by (auto simp: fragment_safe_def bound_text_def list_all2_conv_all_nth list_all_length)
  from bound_text_intercalate [OF sep this] f show ?thesis by (simp add: fragment_safe_def)
qed

lemma map_r_all: "map_r f xs = Inr ys \<Longrightarrow> (\<And>x y. x \<in> set xs \<Longrightarrow> f x = Inr y \<Longrightarrow> P y) \<Longrightarrow> y \<in> set ys \<Longrightarrow> P y"
  using map_r_source by fastforce

section \<open>Where clauses\<close>

lemma sql_op_bound:
  assumes "sql_op op = Some sop"
  shows "bound_text 0 sop"
proof -
  from assms obtain e where "List.find (\<lambda>e. fst e = op) sql_ops = Some e" "sop = snd e"
    by (auto simp: sql_op_def)
  then have "sop \<in> snd ` set sql_ops" by (auto simp: find_Some_iff intro!: imageI nth_mem)
  then show ?thesis by (auto simp: sql_ops_def bound_literal)
qed

lemma render_op_safe:
  assumes i: "bound_text 0 ident" and r: "render_op lib t ident col e = Inr f"
  shows "fragment_safe f"
proof -
  obtain op v where e: "e = (op, v)" by (cases e)
  show ?thesis
  proof (cases "sql_op op")
    case None
    with r e show ?thesis by (auto simp: render_op_def fragment_Nil)
  next
    case (Some sop)
    note sop = sql_op_bound [OF Some]
    show ?thesis
    proof (cases "op = ''in''")
      case True
      with r e Some obtain xs where xs: "v = JArr xs"
        by (auto simp: render_op_def bind_r_eq_Inr ok_or_eq_Ok as_array_Some)
      show ?thesis
      proof (cases "xs = []")
        case True
        with r e Some xs \<open>op = ''in''\<close> have "f = ([''1 = 0''], [])" by (auto simp: render_op_def)
        then show ?thesis by (auto intro!: fragment_single simp: bound_literal)
      next
        case False
        with r e Some xs \<open>op = ''in''\<close> obtain ps where ps: "map_r (to_param_as lib t col) xs = Inr ps"
          and f: "f = ([ident @ '' IN ('' @ question_marks (length xs) @ '')''], ps)"
          by (auto simp: render_op_def bind_r_eq_Inr question_marks_def)
        have "bound_text (length ps) (question_marks (length xs) @ '')'')"
          using map_r_length [OF ps] by (auto intro!: bound_text_after0 bound_text_questions simp: bound_literal)
        then show ?thesis using i by (auto simp: f bound_literal intro!: fragment_single)
      qed
    next
      case False
      then consider "f = ([ident @ '' IS NOT NULL''], [])" | "f = ([ident @ '' IS NULL''], [])"
        | p where "f = ([ident @ '' '' @ sop @ '' ?''], [p])"
        using r e Some by (auto simp: render_op_def bind_r_eq_Inr split: if_splits)
      then show ?thesis using i sop by cases (auto simp: bound_literal intro!: fragment_single)
    qed
  qed
qed

lemma render_cond_safe:
  assumes t: "table_wf t" and q: "bound_text 0 q" and r: "render_cond lib t q e = Inr f"
  shows "fragment_safe f"
proof -
  obtain col cond where e: "e = (col, cond)" by (cases e)
  from r e obtain bare where bare: "table_ident t col = Inr bare" by (auto simp: render_cond_def bind_r_eq_Inr)
  from table_ident_wf [OF t bare] have i: "bound_text 0 (q @ bare)"
    using q bound_text_append0 ident_bound by blast
  show ?thesis
  proof (cases "\<exists>ops. cond = JObj ops")
    case True
    then obtain ops fs where "map_r (render_op lib t (q @ bare) col) ops = Inr fs" "f = join_fragments fs"
      using r e bare by (auto simp: render_cond_def bind_r_eq_Inr)
    with map_r_all [where P = fragment_safe] render_op_safe [OF i] show ?thesis
      by (metis join_fragments_safe)
  next
    case False
    with r e bare consider "f = ([(q @ bare) @ '' IS NULL''], [])" | p where "f = ([(q @ bare) @ '' = ?''], [p])"
      by (cases cond) (auto simp: render_cond_def bind_r_eq_Inr)
    then show ?thesis
    proof cases
      case 1
      have "bound_text 0 ((q @ bare) @ '' IS NULL'')" using i by (simp only: bound_text_part) (simp add: bound_literal)
      with 1 show ?thesis by (auto intro: fragment_single)
    next
      case (2 p)
      have "bound_text 1 ((q @ bare) @ '' = ?'')" using i by (simp only: bound_text_part) (simp add: bound_literal)
      with 2 show ?thesis by (auto intro: fragment_single)
    qed
  qed
qed

lemma wrap_group_safe:
  assumes "bound_text 0 prefix" "bound_text (length (snd r)) (fst r)"
  shows "fragment_safe (wrap_group prefix r)"
proof (cases "fst r = []")
  case True
  with assms show ?thesis by (cases r) (auto simp: wrap_group_def bound_text_end fragment_safe_def)
next
  case False
  have "bound_text (length (snd r)) (prefix @ ''('' @ fst r @ '')'')"
    using assms by (auto simp: bound_literal intro!: bound_text_after0)
  with False show ?thesis by (cases r) (auto simp: wrap_group_def intro!: fragment_single)
qed

lemma or_fragment_safe:
  assumes "\<And>r. r \<in> set rs \<Longrightarrow> bound_text (length (snd r)) (fst r)"
  shows "fragment_safe (or_fragment rs)"
proof -
  obtain subs ps where f: "join_fragments (map (wrap_group []) rs) = (subs, ps)" by fastforce
  have "fragment_safe (join_fragments (map (wrap_group []) rs))"
    using assms by (auto intro!: join_fragments_safe wrap_group_safe bound_text_Nil)
  then have s: "fragment_safe (subs, ps)" by (simp add: f)
  show ?thesis
  proof (cases "subs = []")
    case True
    with s f show ?thesis by (simp add: or_fragment_def)
  next
    case False
    have "bound_text 0 '' OR ''" by (simp add: bound_literal)
    from fragment_text [OF s this] have "bound_text (length ps) (''('' @ intercalate '' OR '' subs @ '')'')"
      by (auto simp: bound_literal intro!: bound_text_after0)
    with False show ?thesis by (auto simp: or_fragment_def f intro!: fragment_single)
  qed
qed

lemma render_group_safe:
  assumes t: "table_wf t" and q: "bound_text 0 q"
  shows "render_group lib t q w = Inr (s, ps) \<Longrightarrow> bound_text (length ps) s"
proof (induction "size (JObj w)" arbitrary: w s ps rule: less_induct)
  case less
  from less.prems obtain conds ands ors nots parts where
    conds: "map_r (render_cond lib t q) (filter (\<lambda>e. \<not> logical_key (fst e)) w) = Inr conds"
    and ands: "and_groups lib t q [] (obj_get w ''AND'') = Inr ands"
    and ors: "or_groups lib t q (obj_get w ''OR'') = Inr ors"
    and nots: "and_groups lib t q ''NOT '' (obj_get w ''NOT'') = Inr nots"
    and parts: "join_fragments (conds @ ands @ ors @ nots) = (parts, ps)" "s = intercalate '' AND '' parts"
    by (rule render_group_parts)
  have IH: "bound_text (length (snd r)) (fst r)"
    if "size (JObj g) < size (JObj w)" "render_group lib t q g = Inr r" for g r
    using less.hyps [OF that(1), of "fst r" "snd r"] that(2) by simp
  have c: "fragment_safe f" if "f \<in> set conds" for f
    using map_r_all [OF conds _ that] render_cond_safe [OF t q] by blast
  have g: "fragment_safe f" if "and_groups lib t q prefix (obj_get w k) = Inr fs" "bound_text 0 prefix"
    "f \<in> set fs" for f fs prefix k
    using that(1,3) by (rule and_groups_source) (use IH wrap_group_safe [OF that(2)] in blast)
  have o: "fragment_safe f" if "f \<in> set ors" for f
    using ors
  proof (cases rule: or_groups_source)
    case (groups rs)
    have "fragment_safe (or_fragment rs)" by (rule or_fragment_safe) (use groups(2) IH in blast)
    with that groups(1) show ?thesis by simp
  qed (use that in \<open>auto intro!: fragment_single simp: bound_literal\<close>)
  have "fragment_safe (join_fragments (conds @ ands @ ors @ nots))"
    using c o g [OF ands] g [OF nots] by (intro join_fragments_safe) (auto simp: bound_literal)
  with parts show ?case by (auto intro!: fragment_text simp: bound_literal)
qed

lemma qualifier_bound: "(\<And>s. qualify = Some s \<Longrightarrow> is_ident s) \<Longrightarrow> bound_text 0 (qualifier qualify)"
  by (cases qualify) (auto simp: qualifier_def bound_literal ident_bound intro!: bound_text_after0)

lemma compile_where_safe:
  assumes t: "table_wf t" and q: "\<And>s. qualify = Some s \<Longrightarrow> is_ident s"
    and r: "compile_where lib t wh qualify = Inr (clause, ps)"
  shows "bound_text (length ps) clause"
proof (cases "\<exists>m. wh = Some (JObj m)")
  case True
  with r obtain m frag params where m: "render_group lib t (qualifier qualify) m = Inr (frag, params)"
    and c: "clause = (if frag = [] then [] else '' WHERE '' @ frag)" "ps = params"
    by (auto simp: compile_where_def bind_r_eq_Inr split: if_splits)
  from render_group_safe [OF t qualifier_bound [OF q] m] c show ?thesis
    by (auto simp: bound_literal)
next
  case False
  with r show ?thesis
    by (auto simp: compile_where_def bind_r_eq_Inr ok_or_eq_Ok as_object_Some bound_text_Nil
        split: option.splits if_splits)
qed

lemmas where_safe = compile_where_safe [where qualify = None, simplified]

section \<open>The tail of a statement\<close>

lemma sort_direction_bound: "bound_text 0 (sort_direction d)"
  by (simp add: sort_direction_def bound_literal)

lemma order_fragments_bound:
  assumes t: "table_wf t" and q: "bound_text 0 q" and r: "order_fragments t q ob = Inr frags" "x \<in> set frags"
  shows "bound_text 0 x"
proof -
  from map_r_source [OF r [unfolded order_fragments_def]] obtain col dir bare
    where "table_ident t col = Inr bare" "x = q @ bare @ '' '' @ sort_direction dir"
    by (auto simp: bind_r_eq_Inr)
  with table_ident_wf [OF t] ident_bound q sort_direction_bound show ?thesis by (auto simp: bound_literal)
qed

lemma order_clause_bound:
  "(\<And>x. x \<in> set frags \<Longrightarrow> bound_text 0 x) \<Longrightarrow> bound_text 0 ('' ORDER BY '' @ intercalate '', '' frags)"
  by (simp add: bound_literal bound_text_list0)

lemma compile_tail_safe:
  assumes t: "table_wf t" and q: "\<And>s. qualify = Some s \<Longrightarrow> is_ident s"
    and r: "compile_tail t op qualify fl = Inr (tail, pre)"
  shows "bound_text 0 tail" "bound_text 0 pre"
proof -
  from r obtain frags where f: "(case obj_get_as as_object op ''orderBy'' of
       None \<Rightarrow> Ok [] | Some ob \<Rightarrow> order_fragments t (qualifier qualify) ob) = Inr frags"
    by (auto simp: compile_tail_def bind_r_eq_Inr)
  have "bound_text 0 x" if "x \<in> set frags" for x
    using f that order_fragments_bound [OF t qualifier_bound [OF q]] by (auto split: option.splits)
  then have o: "bound_text 0 (if frags = [] then [] else '' ORDER BY '' @ intercalate '', '' frags)"
    using order_clause_bound [of frags] bound_text_Nil by auto
  have "bound_text 0 tail \<and> bound_text 0 pre"
    using r o int_bound
    by (auto simp: compile_tail_def f Let_def bound_literal split: if_splits option.splits
        intro!: bound_text_after0)
  then show "bound_text 0 tail" "bound_text 0 pre" by auto
qed

lemma str_find_front: "str_find pat (pat @ s) = Some 0"
proof -
  have "[0..<length (pat @ s) + 1 - length pat] = 0 # [1..<Suc (length s)]"
    by (simp add: upt_conv_Cons del: upt_Suc)
  then show ?thesis by (simp add: str_find_def slice_at_def)
qed

lemma with_top_select: "with_top (''SELECT '' @ s) pre = ''SELECT '' @ pre @ s"
  using str_find_front [of "''SELECT ''" s]
  by (simp add: with_top_def replace_first_def split_once_def)

section \<open>Statements\<close>

lemma table_name_bound: "table_wf t \<Longrightarrow> bound_text 0 (ot_name t)"
  by (simp add: table_wf_def ident_bound)

lemma column_name_bound: "table_wf t \<Longrightarrow> c \<in> set (ot_columns t) \<Longrightarrow> bound_text 0 (oc_name c)"
  by (simp add: table_wf_def list_all_iff ident_bound)

lemma idents_bound:
  assumes "table_wf t" "map_r (table_ident t) keys = Inr idents"
  shows "bound_text 0 (intercalate '', '' idents)"
  using map_r_all [OF assms(2), where P = "bound_text 0"] table_ident_wf [OF assms(1)] ident_bound bound_text_question(2)
  by (metis bound_text_list0)

lemma select_list_bound: "table_wf t \<Longrightarrow> bound_text 0 (intercalate '', '' (map oc_name (ot_columns t)))"
  by (rule bound_text_list0) (auto simp: bound_text_question intro: column_name_bound)

lemma ident_and_param_wf:
  assumes "table_wf t" "map_r (ident_and_param lib t data) keys = Inr ips"
  shows "length ips = length keys" "\<And>ip. ip \<in> set ips \<Longrightarrow> bound_text 0 (fst ip)"
proof -
  show "length ips = length keys" using map_r_length [OF assms(2)] .
  show "bound_text 0 (fst ip)" if "ip \<in> set ips" for ip
    using map_r_source [OF assms(2) that] table_ident_wf [OF assms(1)] ident_bound
    by (auto simp: ident_and_param_def bind_r_eq_Inr)
qed

lemma create_statement_safe:
  assumes t: "table_wf t" and r: "create_statement lib t obj = Inr st"
  shows "safe_statement st"
proof -
  from r obtain data ips where ips: "map_r (ident_and_param lib t data) (column_keys t data) = Inr ips"
    and st: "st = (''INSERT INTO '' @ ot_name t @ '' ('' @ intercalate '', '' (map fst ips) @ '') VALUES (''
          @ question_marks (length (column_keys t data)) @ '')'', map snd ips)"
    by (auto simp: create_statement_def bind_r_eq_Inr Let_def split: if_splits)
  have "bound_text 0 (intercalate '', '' (map fst ips))"
    using ident_and_param_wf(2) [OF t ips] by (auto intro!: bound_text_list0 simp: bound_text_question)
  with ident_and_param_wf(1) [OF t ips] table_name_bound [OF t] show ?thesis
    by (auto simp: st safe_statement_def bound_literal intro!: bound_text_after0 bound_text_questions)
qed

lemma chunk_statement_safe:
  assumes t: "table_wf t" and i: "map_r (table_ident t) keys = Inr idents"
    and r: "chunk_statement lib t keys idents start chunk = Inr st"
  shows "safe_statement st" "length (snd st) = length chunk * length keys"
proof -
  from r obtain pss where pss: "map_r (row_params lib t keys) (zip [start..<start + length chunk] chunk) = Inr pss"
    and st: "st = (''INSERT INTO '' @ ot_name t @ '' ('' @ intercalate '', '' idents @ '') VALUES ''
          @ intercalate '', '' (replicate (length chunk) (''('' @ question_marks (length keys) @ '')'')), concat pss)"
    by (auto simp: chunk_statement_def bind_r_eq_Inr)
  have "length ps = length keys" if "ps \<in> set pss" for ps
    using map_r_source [OF pss that] map_r_length
    by (fastforce simp: row_params_def bind_r_eq_Inr Let_def split: if_splits prod.splits)
  then have "length (concat pss) = length pss * length keys" by (induction pss) auto
  moreover have "length pss = length chunk" using map_r_length [OF pss] by simp
  ultimately show len: "length (snd st) = length chunk * length keys" by (simp add: st)
  have "bound_text (length keys) (''('' @ question_marks (length keys) @ '')'')"
    by (auto simp: bound_literal intro!: bound_text_after0 bound_text_questions)
  from bound_text_replicate [OF bound_text_question(2) this, of "length chunk"]
  show "safe_statement st"
    using len idents_bound [OF t i] table_name_bound [OF t]
    by (auto simp: st safe_statement_def bound_literal)
qed

lemma update_statement_safe:
  assumes t: "table_wf t" and r: "update_statement lib t obj = Inr (Some st)"
  shows "safe_statement st"
proof -
  from r obtain data ips clause wparams where
    ips: "map_r (ident_and_param lib t data) (column_keys t data) = Inr ips"
    and w: "compile_where lib t (obj_get obj ''where'') None = Inr (clause, wparams)"
    and st: "st = (''UPDATE '' @ ot_name t @ '' SET '' @ intercalate '', '' (map (\<lambda>ip. fst ip @ '' = ?'') ips) @ clause,
          map snd ips @ wparams)"
    by (auto simp: update_statement_def bind_r_eq_Inr Let_def split: if_splits)
  have "bound_text 1 (fst ip @ '' = ?'')" if "ip \<in> set ips" for ip
    using ident_and_param_wf(2) [OF t ips that] by (simp add: bound_literal)
  then have "list_all2 bound_text (replicate (length ips) 1) (map (\<lambda>ip. fst ip @ '' = ?'') ips)"
    by (auto simp: list_all2_conv_all_nth)
  from bound_text_append [OF bound_text_intercalate [OF bound_text_question(2) this] where_safe [OF t w]]
  show ?thesis using table_name_bound [OF t] by (simp add: st safe_statement_def bound_literal sum_list_replicate)
qed

lemma where_statement_safe:
  assumes t: "table_wf t" and w: "compile_where lib t wh None = Inr (clause, ps)" and h: "bound_text 0 h"
  shows "safe_statement (h @ ot_name t @ clause, ps)"
  using where_safe [OF t w] table_name_bound [OF t] h by (simp add: safe_statement_def bound_literal)

lemma delete_statement_safe:
  assumes t: "table_wf t" and r: "delete_statement lib t obj = Inr st"
  shows "safe_statement st"
proof -
  from r obtain clause ps where "compile_where lib t (obj_get obj ''where'') None = Inr (clause, ps)"
    "st = (''DELETE FROM '' @ ot_name t @ clause, ps)"
    by (auto simp: delete_statement_def bind_r_eq_Inr split: if_splits)
  with where_statement_safe [OF t, where h = "''DELETE FROM ''"] show ?thesis by (simp add: bound_literal)
qed

lemma count_statement_safe:
  assumes t: "table_wf t" and r: "count_statement lib t obj = Inr st"
  shows "safe_statement st"
proof -
  from r obtain clause ps where "compile_where lib t (obj_get obj ''where'') None = Inr (clause, ps)"
    "st = (''SELECT COUNT(*) AS n FROM '' @ ot_name t @ clause, ps)"
    by (auto simp: count_statement_def bind_r_eq_Inr)
  with where_statement_safe [OF t, where h = "''SELECT COUNT(*) AS n FROM ''"] show ?thesis
    by (simp add: bound_literal)
qed

lemma find_statement_safe:
  assumes t: "table_wf t" and r: "find_statement lib fl t obj = Inr st"
  shows "safe_statement st"
proof -
  from r obtain clause ps tail pre where w: "compile_where lib t (obj_get obj ''where'') None = Inr (clause, ps)"
    and ct: "compile_tail t obj None fl = Inr (tail, pre)"
    and st: "st = (with_top (select_all t) pre @ clause @ tail, ps)"
    by (auto simp: find_statement_def bind_r_eq_Inr)
  have "with_top (select_all t) pre
      = ''SELECT '' @ pre @ intercalate '', '' (map oc_name (ot_columns t)) @ '' FROM '' @ ot_name t"
    unfolding select_all_def by (rule with_top_select)
  with where_safe [OF t w] compile_tail_safe [OF t _ ct] select_list_bound [OF t] table_name_bound [OF t]
  show ?thesis by (auto simp: st safe_statement_def bound_literal intro!: bound_text_after0)
qed

lemma orm_table_of_wf:
  assumes "schema_wf s" "orm_table_of s nm = Inr t"
  shows "table_wf t" "list_all relation_wf (ot_relations t)"
proof -
  from assms(2) obtain i where "os_index s nm = Some i" "t = os_tables s ! i"
    by (auto simp: orm_table_of_def ok_or_eq_Ok)
  with assms(1) show "table_wf t" "list_all relation_wf (ot_relations t)"
    by (auto simp: schema_wf_def list_all_length)
qed

lemma join_clause_bound:
  assumes "table_wf t" "table_wf target" "relation_wf rel"
  shows "bound_text 0 (join_clause t rel target)"
proof -
  have "bound_text 0 (rel_name rel)" using assms(3) by (simp add: relation_wf_def ident_bound)
  moreover have "bound_text 0 lc \<and> bound_text 0 fc"
    if "(lc, fc) \<in> set (zip (rel_local_columns rel) (rel_foreign_columns rel))" for lc fc
    using assms(3) that ident_bound by (auto simp: relation_wf_def list_all_iff dest: set_zip_leftD set_zip_rightD)
  ultimately show ?thesis using assms(1,2)
    by (auto simp: join_clause_def join_alias_def bound_literal table_name_bound intro!: bound_text_list0)
qed

lemma join_selects_bound:
  assumes "table_wf target" "relation_wf rel" "x \<in> set (join_selects rel target)"
  shows "bound_text 0 x"
  using assms column_name_bound [OF assms(1)] ident_bound [of "rel_name rel"]
  by (auto simp: join_selects_def join_alias_def nested_alias_def relation_wf_def bound_literal)

lemma join_statement_safe:
  assumes t: "table_wf t" and rts: "\<And>rel target. (rel, target) \<in> set rts \<Longrightarrow> relation_wf rel \<and> table_wf target"
    and r: "join_statement lib fl t rts obj = Inr st"
  shows "safe_statement st"
proof -
  have nm: "is_ident s" if "Some (ot_name t) = Some s" for s using t that by (simp add: table_wf_def)
  let ?sel = "map (\<lambda>c. ot_name t @ ''.'' @ oc_name c @ '' AS '' @ oc_name c) (ot_columns t)
      @ concat (map (\<lambda>(rel, target). join_selects rel target) rts)"
  let ?joins = "map (\<lambda>(rel, target). join_clause t rel target) rts"
  from r obtain clause ps tail pre where
    w: "compile_where lib t (obj_get obj ''where'') (Some (ot_name t)) = Inr (clause, ps)"
    and ct: "compile_tail t obj (Some (ot_name t)) fl = Inr (tail, pre)"
    and st: "st = (''SELECT '' @ pre @ intercalate '', '' ?sel @ '' FROM '' @ ot_name t @ '' ''
          @ intercalate '' '' ?joins @ clause @ tail, ps)"
    by (auto simp: join_statement_def bind_r_eq_Inr)
  have "bound_text 0 x" if "(rel, target) \<in> set rts" "x \<in> set (join_selects rel target)" for x rel target
    using rts [OF that(1)] join_selects_bound that(2) by blast
  moreover have "bound_text 0 (ot_name t @ ''.'' @ oc_name c @ '' AS '' @ oc_name c)" if "c \<in> set (ot_columns t)" for c
    using column_name_bound [OF t that] table_name_bound [OF t] by (simp add: bound_literal)
  ultimately have "bound_text 0 x" if "x \<in> set ?sel" for x
    using that by auto
  then have sel: "bound_text 0 (intercalate '', '' ?sel)" by (rule bound_text_list0 [OF bound_text_question(2)])
  have "bound_text 0 x" if "x \<in> set ?joins" for x
    using that rts join_clause_bound [OF t] by auto
  then have joins: "bound_text 0 (intercalate '' '' ?joins)"
    by (intro bound_text_list0) (auto simp: bound_literal)
  have "bound_text (length ps) (clause @ tail)"
    by (rule bound_text_after0 [OF compile_where_safe [OF t nm w] compile_tail_safe(1) [OF t nm ct]]) simp_all
  with sel joins compile_tail_safe(2) [OF t nm ct] table_name_bound [OF t] show ?thesis
    by (simp add: st safe_statement_def bound_literal)
qed

lemma include_statement_safe:
  assumes t: "table_wf target" and i: "map_r (table_ident target) (rel_foreign_columns rel) = Inr fidents"
    and keys: "\<And>k. k \<in> set chunk \<Longrightarrow> length k = length fidents"
    and r: "include_statement lib target rel fidents chunk = Inr st"
  shows "safe_statement st"
proof -
  have sel: "bound_text 0 (select_all target)"
    using select_list_bound [OF t] table_name_bound [OF t] by (simp add: select_all_def bound_literal)
  show ?thesis
  proof (cases "length fidents = 1")
    case True
    from r True obtain ps where ps: "length ps = length chunk"
      and st: "st = (select_all target @ '' WHERE '' @ hd fidents @ '' IN ('' @ question_marks (length chunk) @ '')'', ps)"
      by (auto simp: include_statement_def bind_r_eq_Inr dest: map_r_length)
    from True obtain x where "fidents = [x]" by (auto simp: length_Suc_conv)
    with idents_bound [OF t i] have "bound_text 0 (hd fidents)" by simp
    with sel show ?thesis
      by (auto simp: st ps safe_statement_def bound_literal intro!: bound_text_after0 bound_text_questions)
  next
    case False
    with r obtain pss where pss: "map_r (tuple_params lib target (rel_foreign_columns rel)) chunk = Inr pss"
      and st: "st = (select_all target @ '' WHERE ('' @ intercalate '', '' fidents @ '') IN (''
          @ intercalate '', '' (replicate (length chunk) (''('' @ question_marks (length fidents) @ '')'')) @ '')'',
          concat pss)"
      by (auto simp: include_statement_def bind_r_eq_Inr)
    have "length ps = length fidents" if "ps \<in> set pss" for ps
      using map_r_source [OF pss that] keys by (auto simp: tuple_params_def dest: map_r_length)
    then have "length (concat pss) = length pss * length fidents" by (induction pss) auto
    then have len: "length (concat pss) = length chunk * length fidents" using map_r_length [OF pss] by simp
    have "bound_text (length fidents) (''('' @ question_marks (length fidents) @ '')'')"
      by (auto simp: bound_literal intro!: bound_text_after0 bound_text_questions)
    from bound_text_replicate [OF bound_text_question(2) this, of "length chunk"]
    show ?thesis using len sel idents_bound [OF t i]
      by (auto simp: st safe_statement_def bound_literal intro!: bound_text_after0)
  qed
qed

lemma upper_names: "upper ''sum'' = ''SUM''" "upper ''avg'' = ''AVG''" "upper ''min'' = ''MIN''" "upper ''max'' = ''MAX''"
  by code_simp+

lemma aggregate_name_bound: "f \<in> set aggregate_names \<Longrightarrow> bound_text 0 (upper f) \<and> bound_text 0 f"
  by (auto simp: aggregate_names_def upper_names bound_literal)

lemma aggregate_statement_safe:
  assumes t: "table_wf t" and r: "aggregate_statement lib t obj = Inr st"
  shows "safe_statement st"
proof -
  from r obtain f col ident clause ps where f: "f \<in> set aggregate_names" and i: "table_ident t col = Inr ident"
    and w: "compile_where lib t (obj_get obj ''where'') None = Inr (clause, ps)"
    and st: "st = (''SELECT '' @ upper f @ ''('' @ ident @ '') AS v FROM '' @ ot_name t @ clause, ps)"
    by (auto simp: aggregate_statement_def bind_r_eq_Inr split: if_splits)
  have "bound_text 0 ident" using table_ident_wf [OF t i] ident_bound by blast
  then have "bound_text 0 (''SELECT '' @ upper f @ ''('' @ ident @ '') AS v FROM '')"
    using aggregate_name_bound [OF f] by (simp add: bound_literal)
  from where_statement_safe [OF t w this] show ?thesis by (simp add: st)
qed

definition agg_bound :: "agg \<Rightarrow> bool" where
  "agg_bound a \<longleftrightarrow> bound_text 0 (fst a) \<and> bound_text 0 (fst (snd a))"

lemma aggs_of_bound:
  assumes t: "table_wf t" and r: "aggs_of t obj = Inr aggs" and a: "a \<in> set aggs"
  shows "agg_bound a"
proof -
  from r obtain ass where ass: "map_r (\<lambda>f. map_r (agg_of t f) (option_or (obj_get_as as_array obj f) []))
      aggregate_names = Inr ass"
    and aggs: "aggs = (if option_or (obj_get_as as_bool obj ''count'') False
            then [(''_count'', ''COUNT(*)'', CtInt)] else []) @ concat ass"
    by (auto simp: aggs_of_def bind_r_eq_Inr)
  have "agg_bound a" if "x \<in> set ass" "a \<in> set x" for x
  proof -
    from map_r_source [OF ass that(1)] obtain f where f: "f \<in> set aggregate_names"
      "map_r (agg_of t f) (option_or (obj_get_as as_array obj f) []) = Inr x" by blast
    from map_r_source [OF f(2) that(2)] obtain c i ty where i: "table_ident t c = Inr i"
      "a = (''_'' @ f @ ''_'' @ c, upper f @ ''('' @ i @ '')'', ty)"
      by (auto simp: agg_of_def bind_r_eq_Inr)
    with table_ident_wf [OF t i(1)] aggregate_name_bound [OF f(1)] ident_bound show ?thesis
      by (auto simp: agg_bound_def bound_literal)
  qed
  with a aggs show ?thesis by (auto simp: agg_bound_def bound_literal split: if_splits)
qed

lemma agg_lookup_bound:
  assumes "agg_lookup aggs k = Some e" "\<And>a. a \<in> set aggs \<Longrightarrow> agg_bound a"
  shows "bound_text 0 k \<and> bound_text 0 (fst e)"
  using assms(2) [of "(k, e)"] map_of_SomeD [OF assms(1) [unfolded agg_lookup_def]] by (simp add: agg_bound_def)

lemma having_cond_safe:
  assumes aggs: "\<And>a. a \<in> set aggs \<Longrightarrow> agg_bound a" and r: "having_cond lib aggs e = Inr f"
  shows "fragment_safe f"
proof -
  obtain k cond where e: "e = (k, cond)" by (cases e)
  let ?one = "\<lambda>expr ty. \<lambda>(op, v). bind_r (having_op op) (\<lambda>sop.
      bind_r (to_param lib v) (\<lambda>p. Ok ([expr @ '' '' @ sop @ '' ?''], [coerce (Some ty) p])))"
  from r e obtain expr ty ops fs where l: "agg_lookup aggs k = Some (expr, ty)"
    and fs: "map_r (?one expr ty) ops = Inr fs" and f: "f = join_fragments fs"
    by (auto simp: having_cond_def bind_r_eq_Inr ok_or_eq_Ok)
  have x: "bound_text 0 expr" using agg_lookup_bound [OF l aggs] by simp
  have "fragment_safe g" if "g \<in> set fs" for g
  proof -
    from map_r_source [OF fs that] obtain op sop p where h: "having_op op = Inr sop"
      and g: "g = ([expr @ '' '' @ sop @ '' ?''], [coerce (Some ty) p])" by (auto simp: bind_r_eq_Inr)
    from h obtain i where "i < length (take 6 sql_ops)" "sop = snd (take 6 sql_ops ! i)"
      by (auto simp: having_op_def find_Some_iff split: option.splits)
    then have "sop \<in> snd ` set (take 6 sql_ops)" by (auto simp del: length_take nth_take intro!: imageI nth_mem)
    then have "bound_text 0 sop" by (auto simp: sql_ops_def bound_literal)
    with x g show ?thesis by (auto simp: bound_literal intro!: fragment_single)
  qed
  with f join_fragments_safe show ?thesis by blast
qed

lemma group_order_bound:
  assumes t: "table_wf t" and aggs: "\<And>a. a \<in> set aggs \<Longrightarrow> agg_bound a" and r: "group_order t aggs e = Inr x"
  shows "bound_text 0 x"
proof -
  obtain k d where e: "e = (k, d)" by (cases e)
  from r e obtain target where x: "x = target @ '' '' @ sort_direction d"
    and target: "agg_lookup aggs k \<noteq> None \<and> target = k \<or> table_ident t k = Inr target"
    by (auto simp: group_order_def bind_r_eq_Inr split: if_splits)
  have "bound_text 0 target"
    using target agg_lookup_bound [OF _ aggs] table_ident_wf [OF t] ident_bound by blast
  with x sort_direction_bound show ?thesis by (simp add: bound_literal)
qed

lemma group_tail_safe:
  assumes "group_tail fl ordered obj = Inr (limits, pre, lps)"
  shows "bound_text (length lps) limits" "bound_text 0 pre"
proof -
  have "bound_text (length lps) limits \<and> bound_text 0 pre"
    using assms int_bound
    by (auto simp: group_tail_def Let_def bound_literal split: if_splits option.splits intro!: bound_text_after0)
  then show "bound_text (length lps) limits" "bound_text 0 pre" by auto
qed

lemma group_statement_safe:
  assumes t: "table_wf t" and r: "group_statement lib fl t obj = Inr st"
  shows "safe_statement st"
proof -
  let ?by = "str_list (obj_get obj ''by'')"
  from r obtain idents aggs clause ps hs orders limits pre lps where
    i: "map_r (table_ident t) ?by = Inr idents" and aggs: "aggs_of t obj = Inr aggs"
    and w: "compile_where lib t (obj_get obj ''where'') None = Inr (clause, ps)"
    and hs: "map_r (having_cond lib aggs) (option_or (obj_get_as as_object obj ''having'') []) = Inr hs"
    and orders: "map_r (group_order t aggs) (option_or (obj_get_as as_object obj ''orderBy'') []) = Inr orders"
    and gt: "group_tail fl (orders \<noteq> []) obj = Inr (limits, pre, lps)"
    and st: "st = (''SELECT '' @ pre
        @ intercalate '', '' (idents @ map (\<lambda>(alias, expr, _). expr @ '' AS '' @ alias) aggs)
        @ '' FROM '' @ ot_name t @ clause @ '' GROUP BY '' @ intercalate '', '' idents
        @ (if fst (join_fragments hs) = [] then [] else '' HAVING '' @ intercalate '' AND '' (fst (join_fragments hs)))
        @ (if orders = [] then [] else '' ORDER BY '' @ intercalate '', '' orders) @ limits,
        ps @ snd (join_fragments hs) @ lps)"
    unfolding group_statement_def Let_def by (auto simp: bind_r_eq_Inr split: if_splits)
  note ab = aggs_of_bound [OF t aggs]
  have sel: "bound_text 0 (intercalate '', '' (idents @ map (\<lambda>(alias, expr, _). expr @ '' AS '' @ alias) aggs))"
    using ab table_ident_wf [OF t] ident_bound map_r_all [OF i, where P = "bound_text 0"]
    by (intro bound_text_list0 [OF bound_text_question(2)]) (auto simp: agg_bound_def bound_literal)
  have having: "bound_text (length (snd (join_fragments hs)))
      (if fst (join_fragments hs) = [] then [] else '' HAVING '' @ intercalate '' AND '' (fst (join_fragments hs)))"
  proof -
    have "fragment_safe (join_fragments hs)"
      using map_r_all [OF hs, where P = fragment_safe] having_cond_safe [OF ab] by (blast intro: join_fragments_safe)
    then have h: "fragment_safe (fst (join_fragments hs), snd (join_fragments hs))" by simp
    show ?thesis
    proof (cases "fst (join_fragments hs) = []")
      case True
      with h show ?thesis by (simp add: fragment_safe_def bound_literal)
    next
      case False
      from fragment_text [OF h, of "'' AND ''"] False show ?thesis by (simp add: bound_literal)
    qed
  qed
  have "bound_text 0 x" if "x \<in> set orders" for x
    using map_r_all [OF orders _ that] group_order_bound [OF t ab] by blast
  then have order: "bound_text 0 (if orders = [] then [] else '' ORDER BY '' @ intercalate '', '' orders)"
    using order_clause_bound [of orders] bound_text_Nil by auto
  have "bound_text (length (snd (join_fragments hs)) + length lps)
      ((if fst (join_fragments hs) = [] then [] else '' HAVING '' @ intercalate '' AND '' (fst (join_fragments hs)))
       @ (if orders = [] then [] else '' ORDER BY '' @ intercalate '', '' orders) @ limits)"
    using bound_text_append [OF having bound_text_append0 [OF order group_tail_safe(1) [OF gt]]] .
  then have "bound_text (length (snd (join_fragments hs)) + length lps)
      ('' GROUP BY '' @ intercalate '', '' idents
       @ (if fst (join_fragments hs) = [] then [] else '' HAVING '' @ intercalate '' AND '' (fst (join_fragments hs)))
       @ (if orders = [] then [] else '' ORDER BY '' @ intercalate '', '' orders) @ limits)"
    using idents_bound [OF t i] by (simp add: bound_literal)
  from bound_text_append [OF where_safe [OF t w] this] sel group_tail_safe(2) [OF gt] table_name_bound [OF t]
  show ?thesis by (simp add: st safe_statement_def bound_literal del: append_assoc)
qed

end
