(* ===== verification/OrmCalls.thy ===== *)
theory OrmCalls
  imports OrmSafety
begin

text \<open>
  Whole operations of the object-relational layer. A client that fails on every statement whose
  placeholders are not as many as its values, or that the guard rejects, makes no difference to any of
  them, so no operation ever issues such a statement.
\<close>

section \<open>The checked client\<close>

definition well_bound :: "string \<Rightarrow> param_value list \<Rightarrow> bool" where
  "well_bound sql ps \<longleftrightarrow>
     placeholders (lexemes ph_closer sql) = length ps \<and> reject_stacked sql = Ok ()"

definition checked_client :: "'c db_client \<Rightarrow> 'c db_client" where
  "checked_client cl =
     \<lparr>cl_flavor = cl_flavor cl,
      cl_execute = (\<lambda>sql ps. if well_bound sql ps then cl_execute cl sql ps else io_lift Panicked),
      cl_query = (\<lambda>sql ps. if well_bound sql ps then cl_query cl sql ps else io_lift Panicked)\<rparr>"

lemma checked_flavor [simp]: "cl_flavor (checked_client cl) = cl_flavor cl"
  by (simp add: checked_client_def)

lemma checked_calls:
  assumes "safe_statement (sql, ps)"
  shows "cl_execute (checked_client cl) sql ps = cl_execute cl sql ps"
    "cl_query (checked_client cl) sql ps = cl_query cl sql ps"
  using safe_statement_sound [OF assms] by (simp_all add: checked_client_def well_bound_def)

lemma io_bind_cong: "(\<And>x. f x = g x) \<Longrightarrow> io_bind m f = io_bind m g"
  by (rule arg_cong [where f = "io_bind m"]) (rule ext)

lemma io_bind_lift_cong:
  assumes "\<And>x. r = Inr x \<Longrightarrow> f x = g x"
  shows "io_bind (io_lift r) f = io_bind (io_lift r) g"
  using assms by (cases r) auto

lemma io_fold_cong:
  "(\<And>x acc. x \<in> set xs \<Longrightarrow> f x acc = g x acc) \<Longrightarrow> io_fold f xs acc = io_fold g xs acc"
proof (induction xs arbitrary: acc)
  case (Cons x xs)
  then have "io_bind (f x acc) (io_fold f xs) = io_bind (f x acc) (io_fold g xs)"
    by (intro io_bind_cong) auto
  with Cons.prems show ?case by simp
qed simp

section \<open>The mutations\<close>

lemma run_statement_checked:
  "safe_statement st \<Longrightarrow> run_statement (checked_client cl) st = run_statement cl st"
  by (cases st) (simp add: run_statement_def checked_calls)

lemma create_many_checked:
  assumes t: "table_wf t"
  shows "create_many lib (checked_client cl) t obj = create_many lib cl t obj"
proof -
  have "io_fold (\<lambda>(i, chunk) affected.
          io_bind (io_lift (chunk_statement lib t keys idents (i * n) chunk)) (\<lambda>(sql, params).
          io_bind (cl_execute (checked_client cl) sql params) (\<lambda>k. io_return (affected + word_of_nat k)))) xs acc
      = io_fold (\<lambda>(i, chunk) affected.
          io_bind (io_lift (chunk_statement lib t keys idents (i * n) chunk)) (\<lambda>(sql, params).
          io_bind (cl_execute cl sql params) (\<lambda>k. io_return (affected + word_of_nat k)))) xs acc"
    if i: "map_r (table_ident t) keys = Inr idents" for keys idents n xs and acc :: i64
    using chunk_statement_safe(1) [OF t i]
    by (intro io_fold_cong) (auto intro!: io_bind_lift_cong simp: checked_calls)
  then show ?thesis
    unfolding create_many_def by (auto intro!: io_bind_lift_cong simp: Let_def)
qed

lemma op_parts_wf: "schema_wf s \<Longrightarrow> op_parts s op = Inr (obj, t) \<Longrightarrow> table_wf t \<and> list_all relation_wf (ot_relations t)"
  using orm_table_of_wf by (auto simp: op_parts_def bind_r_eq_Inr)

text \<open>The calls of one operation, each with the statement it runs.\<close>

lemma lifted_checked:
  assumes "\<And>st. r = Inr st \<Longrightarrow> safe_statement st"
  shows "io_bind (io_lift r) (run_statement (checked_client cl)) = io_bind (io_lift r) (run_statement cl)"
    "io_bind (io_lift r) (\<lambda>(sql, params). io_bind (cl_query (checked_client cl) sql params) f)
     = io_bind (io_lift r) (\<lambda>(sql, params). io_bind (cl_query cl sql params) f)"
  by (rule io_bind_lift_cong; use assms in \<open>auto simp: run_statement_checked checked_calls\<close>)+

lemma update_checked:
  assumes "table_wf t"
  shows "io_bind (io_lift (update_statement lib t obj)) (\<lambda>st.
      case st of None \<Rightarrow> io_return 0 | Some st \<Rightarrow> run_statement (checked_client cl) st)
    = io_bind (io_lift (update_statement lib t obj)) (\<lambda>st.
      case st of None \<Rightarrow> io_return 0 | Some st \<Rightarrow> run_statement cl st)"
  using update_statement_safe [OF assms]
  by (auto intro!: io_bind_lift_cong simp: run_statement_checked split: option.split)

lemma delete_all_safe: "table_wf t \<Longrightarrow> safe_statement (''DELETE FROM '' @ ot_name t, [])"
  using table_name_bound by (simp add: safe_statement_def bound_literal)

lemmas mutation_checked = create_many_checked update_checked
  lifted_checked [OF create_statement_safe] lifted_checked [OF delete_statement_safe]
  lifted_checked [OF count_statement_safe] run_statement_checked [OF delete_all_safe]

text \<open>
  C15: Every statement a mutation of the object-relational layer issues has as many placeholders as
  bound values and passes the guard: with a client that fails on any other statement the operation
  does exactly the same, for every operation and every schema whose tables and columns are identifiers.
\<close>

theorem orm_execute_well_bound:
  assumes s: "schema_wf s"
  shows "orm_execute lib (checked_client cl) s op = orm_execute lib cl s op"
proof -
  have "table_wf t" if "op_parts s op = Inr (obj, t)" for obj t
    using op_parts_wf [OF s that] by simp
  then show ?thesis
    unfolding orm_execute_def
    by (intro io_bind_lift_cong) (auto simp: Let_def mutation_checked simp del: append.simps)
qed

section \<open>The reading operations\<close>

lemma those_length: "those xs = Some ys \<Longrightarrow> length ys = length xs"
  by (induction xs arbitrary: ys) (auto split: option.splits)

lemma tuple_of_length: "tuple_of row cols = Some k \<Longrightarrow> length k = length cols"
  by (auto simp: tuple_of_def bind_eq_Some_conv dest: those_length)

lemma add_tuple_length:
  assumes "\<forall>k \<in> set (snd acc). length k = length cols"
  shows "\<forall>k \<in> set (snd (fold (add_tuple lib cols) rows acc)). length k = length cols"
  using assms
proof (induction rows arbitrary: acc)
  case (Cons row rows)
  have "\<forall>k \<in> set (snd (add_tuple lib cols row acc)). length k = length cols"
    using Cons.prems tuple_of_length by (auto simp: add_tuple_def split: option.splits prod.splits)
  then show ?case by (simp add: Cons.IH)
qed simp

lemma distinct_tuples_length: "k \<in> set (distinct_tuples lib cols rows) \<Longrightarrow> length k = length cols"
  using add_tuple_length [of "([], [])" cols lib rows] by (simp add: distinct_tuples_def)

lemma chunks_elements: "c \<in> set (chunks n xs) \<Longrightarrow> set c \<subseteq> set xs"
proof (induction n xs rule: chunks.induct)
  case (1 n xs)
  show ?case
  proof (cases "n = 0 \<or> xs = []")
    case True
    with 1(2) show ?thesis by (subst (asm) chunks.simps) simp
  next
    case False
    with 1(2) have "c = take n xs \<or> c \<in> set (chunks n (drop n xs))" by (subst (asm) chunks.simps) simp
    with 1(1) [OF False] show ?thesis using set_take_subset set_drop_subset by (metis subset_trans)
  qed
qed

lemma load_related_checked:
  assumes t: "table_wf target" and rel: "relation_wf rel"
  shows "load_related lib (checked_client cl) target rel rows = load_related lib cl target rel rows"
proof -
  have "safe_statement st"
    if i: "map_r (table_ident target) (rel_foreign_columns rel) = Inr fidents"
      and c: "chunk \<in> set (chunks chunk_rows (distinct_tuples lib (rel_local_columns rel) rows))"
      and st: "include_statement lib target rel fidents chunk = Inr st" for fidents chunk st
  proof (rule include_statement_safe [OF t i _ st])
    fix k assume "k \<in> set chunk"
    with chunks_elements [OF c] have "length k = length (rel_local_columns rel)"
      by (intro distinct_tuples_length) blast
    with rel map_r_length [OF i] show "length k = length fidents" by (simp add: relation_wf_def)
  qed
  then show ?thesis unfolding load_related_def
    by (intro io_bind_lift_cong io_fold_cong) (auto simp: checked_calls)
qed

lemma table_relation_wf:
  "list_all relation_wf (ot_relations t) \<Longrightarrow> table_relation t nm = Some rel \<Longrightarrow> relation_wf rel"
  by (auto simp: table_relation_def find_Some_iff list_all_length)

lemma included_relation_wf:
  assumes "schema_wf s" "list_all relation_wf (ot_relations t)" "included_relation s t nm = Inr (rel, target)"
  shows "relation_wf rel" "table_wf target" "list_all relation_wf (ot_relations target)"
  using assms orm_table_of_wf [OF assms(1)] table_relation_wf [OF assms(2)]
  by (auto simp: included_relation_def bind_r_eq_Inr ok_or_eq_Ok)

lemma attach_relations_checked:
  assumes s: "schema_wf s"
  shows "list_all relation_wf (ot_relations t) \<Longrightarrow>
    attach_relations lib (checked_client cl) s inc t rows = attach_relations lib cl s inc t rows"
proof (induction "size (JObj inc)" arbitrary: inc t rows rule: less_induct)
  case less
  show ?case
  proof (cases inc)
    case Nil
    then show ?thesis by (simp add: attach_relations.simps)
  next
    case (Cons e rest)
    obtain nm spec where e: "e = (nm, spec)" by (cases e)
    have rest: "attach_relations lib (checked_client cl) s rest t rows = attach_relations lib cl s rest t rows" for rows
      using less Cons by simp
    have nested: "attach_relations lib (checked_client cl) s inner target rows
        = attach_relations lib cl s inner target rows"
      if "jget_as as_object spec k = Some inner" "list_all relation_wf (ot_relations target)" for inner k target rows
      using less.hyps [OF _ that(2)] nested_include_smaller [OF that(1), of nm rest] Cons e by blast
    have inner: "(case jget_as as_object spec ''include'' of
          Some inner \<Rightarrow> if loaded \<noteq> [] then attach_relations lib (checked_client cl) s inner target loaded else io_return loaded
        | None \<Rightarrow> io_return loaded) = (case jget_as as_object spec ''include'' of
          Some inner \<Rightarrow> if loaded \<noteq> [] then attach_relations lib cl s inner target loaded else io_return loaded
        | None \<Rightarrow> io_return loaded)" if "list_all relation_wf (ot_relations target)" for target loaded
      using nested [OF _ that] by (auto split: option.split)
    show ?thesis
    proof (cases "truthy spec")
      case False
      with rest show ?thesis by (simp add: Cons e attach_relations.simps)
    next
      case True
      have step: "io_bind (load_related lib (checked_client cl) target rel rows) (\<lambda>loaded.
          io_bind (case jget_as as_object spec ''include'' of
               Some inner \<Rightarrow> if loaded \<noteq> [] then attach_relations lib (checked_client cl) s inner target loaded
                             else io_return loaded
             | None \<Rightarrow> io_return loaded) f)
        = io_bind (load_related lib cl target rel rows) (\<lambda>loaded.
          io_bind (case jget_as as_object spec ''include'' of
               Some inner \<Rightarrow> if loaded \<noteq> [] then attach_relations lib cl s inner target loaded
                             else io_return loaded
             | None \<Rightarrow> io_return loaded) f)"
        if "included_relation s t nm = Inr (rel, target)" for rel target and f :: "_ \<Rightarrow> ('a, json list) io"
        using included_relation_wf [OF s less.prems that] by (simp only: load_related_checked inner)
      show ?thesis unfolding Cons e attach_relations.simps rest
        by (rule if_cong [OF refl refl], rule io_bind_lift_cong) (clarsimp simp only: prod.case step)
    qed
  qed
qed

lemma query_checked:
  assumes "\<And>st. r = Inr st \<Longrightarrow> safe_statement st"
  shows "io_bind (io_lift r) (\<lambda>(sql, params). io_bind (cl_query (checked_client cl) sql params) f)
     = io_bind (io_lift r) (\<lambda>(sql, params). io_bind (cl_query cl sql params) f)"
  by (rule io_bind_lift_cong) (use assms in \<open>auto simp: checked_calls\<close>)

lemma find_many_joined_checked:
  assumes s: "schema_wf s" and t: "table_wf t" and rels: "list_all relation_wf (ot_relations t)"
  shows "find_many_joined lib (checked_client cl) s obj t join = find_many_joined lib cl s obj t join"
proof -
  have "safe_statement st"
    if r: "map_r (\<lambda>e. joined_relation t (fst e)) (filter (\<lambda>e. truthy (snd e)) join) = Inr rs"
      and rts: "join_targets s rs = Inr rts" and st: "join_statement lib fl t rts obj = Inr st" for rs rts fl st
  proof (rule join_statement_safe [OF t _ st])
    fix rel target assume "(rel, target) \<in> set rts"
    from map_r_source [OF rts [unfolded join_targets_def] this] have
      "rel \<in> set rs" "orm_table_of s (rel_target rel) = Inr target" by (auto simp: bind_r_eq_Inr)
    moreover from map_r_source [OF r this(1)] have "relation_wf rel"
      using table_relation_wf [OF rels] by (auto simp: joined_relation_def bind_r_eq_Inr ok_or_eq_Ok split: if_splits)
    ultimately show "relation_wf rel \<and> table_wf target" using orm_table_of_wf [OF s] by blast
  qed
  then show ?thesis unfolding find_many_joined_def checked_flavor
    by (intro io_bind_lift_cong query_checked) blast
qed

lemma find_many_checked:
  assumes s: "schema_wf s" and t: "table_wf t" and rels: "list_all relation_wf (ot_relations t)"
  shows "find_many lib (checked_client cl) s obj t = find_many lib cl s obj t"
proof -
  have q: "io_bind (io_lift (find_statement lib (cl_flavor cl) t obj)) (\<lambda>(sql, params).
        io_bind (cl_query (checked_client cl) sql params) (\<lambda>b. io_lift (materialize b t)))
      = io_bind (io_lift (find_statement lib (cl_flavor cl) t obj)) (\<lambda>(sql, params).
        io_bind (cl_query cl sql params) (\<lambda>b. io_lift (materialize b t)))"
    by (rule query_checked) (rule find_statement_safe [OF t])
  show ?thesis
    unfolding find_many_def checked_flavor q find_many_joined_checked [OF s t rels]
      attach_relations_checked [OF s rels] ..
qed

lemma aggregate_checked:
  "table_wf t \<Longrightarrow> aggregate lib (checked_client cl) obj t = aggregate lib cl obj t"
  unfolding aggregate_def by (rule query_checked) (rule aggregate_statement_safe)

lemma group_by_checked: "table_wf t \<Longrightarrow> group_by lib (checked_client cl) obj t = group_by lib cl obj t"
  unfolding group_by_def checked_flavor by (rule query_checked) (rule group_statement_safe)

text \<open>
  C16: The same holds of every statement a reading operation issues, through joins and to any depth of
  nested includes, when the columns of the schema's relations are identifiers too.
\<close>

theorem find_json_well_bound:
  assumes s: "schema_wf s"
  shows "find_json lib (checked_client cl) s op = find_json lib cl s op"
proof -
  have "table_wf t" "list_all relation_wf (ot_relations t)" if "op_parts s op = Inr (obj, t)" for obj t
    using op_parts_wf [OF s that] by simp_all
  then show ?thesis
    unfolding find_json_def
    by (intro io_bind_lift_cong)
      (auto simp: Let_def find_many_checked [OF s] aggregate_checked group_by_checked simp del: append.simps)
qed

section \<open>A schema\<close>

text \<open>The schema of the tests of \<open>orm.rs\<close>, as the parser builds it.\<close>

definition sample_users :: orm_table where
  "sample_users =
     \<lparr>ot_name = ''users'',
      ot_columns = [\<lparr>oc_name = ''id'', oc_ty = CtInt, oc_nullable = False, oc_primary_key = True\<rparr>,
        \<lparr>oc_name = ''name'', oc_ty = CtText, oc_nullable = False, oc_primary_key = False\<rparr>,
        \<lparr>oc_name = ''score'', oc_ty = CtFloat, oc_nullable = True, oc_primary_key = False\<rparr>,
        \<lparr>oc_name = ''active'', oc_ty = CtBool, oc_nullable = False, oc_primary_key = False\<rparr>],
      ot_relations = [\<lparr>rel_name = ''posts'', rel_belongs_to = False, rel_local_columns = [''id''],
        rel_foreign_columns = [''user_id''], rel_target = ''posts''\<rparr>]\<rparr>"

definition sample_posts :: orm_table where
  "sample_posts =
     \<lparr>ot_name = ''posts'',
      ot_columns = [\<lparr>oc_name = ''id'', oc_ty = CtInt, oc_nullable = False, oc_primary_key = True\<rparr>,
        \<lparr>oc_name = ''user_id'', oc_ty = CtInt, oc_nullable = False, oc_primary_key = False\<rparr>,
        \<lparr>oc_name = ''title'', oc_ty = CtText, oc_nullable = False, oc_primary_key = False\<rparr>],
      ot_relations = [\<lparr>rel_name = ''user'', rel_belongs_to = True, rel_local_columns = [''user_id''],
        rel_foreign_columns = [''id''], rel_target = ''users''\<rparr>]\<rparr>"

definition sample_schema :: orm_schema where
  "sample_schema = schema_of_tables [sample_users, sample_posts]"

lemmas sample_defs = sample_users_def sample_posts_def sample_schema_def

lemma schema_of_tables_wf:
  assumes "list_all (\<lambda>t. table_wf t \<and> list_all relation_wf (ot_relations t)) ts"
  shows "schema_wf (schema_of_tables ts)"
proof -
  have "i < length ts" if "map_of (rev (zip (map ot_name ts) [0..<length ts])) k = Some i" for k i
    using map_of_SomeD [OF that] by (auto dest: set_zip_rightD)
  with assms show ?thesis by (simp add: schema_wf_def schema_of_tables_def)
qed

lemma sample_schema_wf: "schema_wf sample_schema"
  unfolding sample_schema_def by (rule schema_of_tables_wf) code_simp

text \<open>A client that logs every statement and answers with a count and an empty batch.\<close>

definition log_client ::
  "flavor \<Rightarrow> (string \<Rightarrow> param_value list \<Rightarrow> nat) \<Rightarrow> (string \<times> param_value list) list db_client" where
  "log_client fl answer =
     \<lparr>cl_flavor = fl,
      cl_execute = (\<lambda>sql ps log. (Ok (answer sql ps), log @ [(sql, ps)])),
      cl_query = (\<lambda>sql ps log.
        (Ok \<lparr>batch_schema = schema_new [], num_rows = 0, columns = []\<rparr>, log @ [(sql, ps)]))\<rparr>"

lemma orm_execute_well_bound_witness:
  "\<forall>lib. orm_execute lib (checked_client (log_client Sqlite (\<lambda>_ _. 1))) sample_schema
      (JObj [(''op'', JText ''deleteAll''), (''table'', JText ''users'')]) []
    = (Ok 1, [(''DELETE FROM users'', [])])"
proof
  fix lib
  let ?op = "JObj [(''op'', JText ''deleteAll''), (''table'', JText ''users'')]"
  have "orm_execute lib (checked_client (log_client Sqlite (\<lambda>_ _. 1))) sample_schema ?op
      = orm_execute lib (log_client Sqlite (\<lambda>_ _. 1)) sample_schema ?op"
    by (rule orm_execute_well_bound [OF sample_schema_wf])
  then show "orm_execute lib (checked_client (log_client Sqlite (\<lambda>_ _. 1))) sample_schema ?op []
      = (Ok 1, [(''DELETE FROM users'', [])])"
    by (simp add: orm_execute_def op_parts_def obj_get_as_def obj_get_def orm_table_of_def sample_defs
        schema_of_tables_def op_name_def option_or_def Let_def run_statement_def log_client_def io_bind_def io_lift_def)
qed

lemma find_json_well_bound_witness:
  "\<forall>lib. find_json lib (checked_client (log_client Sqlite (\<lambda>_ _. 1))) sample_schema
      (JObj [(''op'', JText ''findMany''), (''table'', JText ''posts'')]) []
    = (Ok (JArr []), [(''SELECT id, user_id, title FROM posts'', [])])"
proof
  fix lib
  let ?op = "JObj [(''op'', JText ''findMany''), (''table'', JText ''posts'')]"
  have "find_json lib (checked_client (log_client Sqlite (\<lambda>_ _. 1))) sample_schema ?op
      = find_json lib (log_client Sqlite (\<lambda>_ _. 1)) sample_schema ?op"
    by (rule find_json_well_bound [OF sample_schema_wf])
  then show "find_json lib (checked_client (log_client Sqlite (\<lambda>_ _. 1))) sample_schema ?op []
      = (Ok (JArr []), [(''SELECT id, user_id, title FROM posts'', [])])"
    by (simp add: find_json_def find_many_def wanted_join_def find_statement_def compile_where_def
        compile_tail_def select_all_def with_top_def materialize_def row_count_key_def
        op_parts_def obj_get_as_def obj_get_def orm_table_of_def sample_defs
        schema_of_tables_def op_name_def option_or_def Let_def log_client_def io_bind_def io_lift_def)
qed

end
