(* ===== verification/OrmCond.thy ===== *)
theory OrmCond
  imports OrmCalls
begin

text \<open>
  The meaning of a rendered where clause. A condition text is read as SQL reads it: OR binds weaker than
  AND, AND weaker than NOT, parentheses group, and the question marks take the bound values in order.
  Reading what the where compiler wrote gives back the condition the JSON object describes, so the
  parentheses it adds preserve the nesting and every value reaches the comparison it was meant for.
\<close>

section \<open>Reading a condition\<close>

datatype token = Word string | Bound param_value

text \<open>Words are separated by spaces; parentheses and commas are words of their own.\<close>

definition emit :: "string \<Rightarrow> string list" where
  "emit acc = (if acc = [] then [] else [acc])"

fun sql_words :: "string \<Rightarrow> string \<Rightarrow> string list" where
  "sql_words acc [] = emit acc"
| "sql_words acc (c # s) =
     (if c = CHR '' '' then emit acc @ sql_words [] s
      else if c = CHR ''('' \<or> c = CHR '')'' \<or> c = CHR '','' then emit acc @ [c] # sql_words [] s
      else sql_words (acc @ [c]) s)"

fun bind_marks :: "string list \<Rightarrow> param_value list \<Rightarrow> token list" where
  "bind_marks [] ps = []"
| "bind_marks (w # ws) ps =
     (if w = ''?'' then (case ps of [] \<Rightarrow> Word w # bind_marks ws [] | p # ps \<Rightarrow> Bound p # bind_marks ws ps)
      else Word w # bind_marks ws ps)"

definition tokens :: "string \<Rightarrow> param_value list \<Rightarrow> token list" where
  "tokens s ps = bind_marks (sql_words [] s) ps"

text \<open>Keywords are compared without regard to case.\<close>

fun is_word :: "string \<Rightarrow> token \<Rightarrow> bool" where
  "is_word k (Word w) \<longleftrightarrow> upper w = k"
| "is_word k (Bound _) \<longleftrightarrow> False"

definition deeper :: "nat \<Rightarrow> token \<Rightarrow> nat" where
  "deeper d t = (if t = Word ''('' then Suc d else if t = Word '')'' then d - 1 else d)"

text \<open>The pieces between the occurrences of a keyword outside all parentheses.\<close>

fun split_top :: "string \<Rightarrow> nat \<Rightarrow> token list \<Rightarrow> token list list" where
  "split_top k d [] = [[]]"
| "split_top k d (t # ts) =
     (if d = 0 \<and> is_word k t then [] # split_top k 0 ts
      else (case split_top k (deeper d t) ts of p # ps \<Rightarrow> (t # p) # ps | [] \<Rightarrow> [[t]]))"

datatype 'a cond = Atom 'a | Not "'a cond" | All "'a cond list" | Any "'a cond list"

lemma split_top_nonempty [simp]: "split_top k d ts \<noteq> []"
  by (induction k d ts rule: split_top.induct) (auto split: list.splits)

lemma split_top_lengths: "sum_list (map length (split_top k d ts)) + length (split_top k d ts) = Suc (length ts)"
proof (induction k d ts rule: split_top.induct)
  case (2 k d t ts)
  then show ?case by (cases "split_top k (deeper d t) ts") auto
qed simp

lemma split_top_shorter:
  assumes "p \<in> set (split_top k d ts)" "1 < length (split_top k d ts)"
  shows "length p < length ts"
proof -
  have "length p \<le> sum_list (map length (split_top k d ts))" using assms(1) by (intro member_le_sum_list) auto
  with split_top_lengths [of k d ts] assms(2) show ?thesis by linarith
qed

function cond_of :: "token list \<Rightarrow> token list cond" where
  "cond_of ts =
     (if 1 < length (split_top ''OR'' 0 ts) then Any (map cond_of (split_top ''OR'' 0 ts))
      else if 1 < length (split_top ''AND'' 0 ts) then All (map cond_of (split_top ''AND'' 0 ts))
      else (case ts of
          [] \<Rightarrow> Atom []
        | t # rest \<Rightarrow>
            if is_word ''NOT'' t then Not (cond_of rest)
            else if t = Word ''('' \<and> rest \<noteq> [] \<and> last rest = Word '')'' then cond_of (butlast rest)
            else Atom ts))"
  by pat_completeness auto
termination
  by (relation "measure length") (auto dest: split_top_shorter)

declare cond_of.simps [simp del]

section \<open>The condition of a where object\<close>

datatype test =
    Compare string string param_value
  | InList string "param_value list"
  | IsNull string
  | NotNull string
  | Never

fun test_tokens :: "test \<Rightarrow> token list" where
  "test_tokens (Compare c sop v) = [Word c, Word sop, Bound v]"
| "test_tokens (InList c vs) = [Word c, Word ''IN'', Word ''(''] @ intercalate [Word '',''] (map (\<lambda>v. [Bound v]) vs) @ [Word '')'']"
| "test_tokens (IsNull c) = [Word c, Word ''IS'', Word ''NULL'']"
| "test_tokens (NotNull c) = [Word c, Word ''IS'', Word ''NOT'', Word ''NULL'']"
| "test_tokens Never = [Word ''1'', Word ''='', Word ''0'']"

fun all_of :: "'a cond list \<Rightarrow> 'a cond" where
  "all_of [c] = c"
| "all_of cs = All cs"

fun any_of :: "'a cond list \<Rightarrow> 'a cond" where
  "any_of [c] = c"
| "any_of cs = Any cs"

definition value_of :: "json_lib \<Rightarrow> orm_table \<Rightarrow> string \<Rightarrow> json \<Rightarrow> param_value" where
  "value_of lib t col v = (case to_param_as lib t col v of Inr p \<Rightarrow> p | Inl _ \<Rightarrow> VNull)"

text \<open>An operator object is the conjunction of its known operators.\<close>

definition op_spec :: "json_lib \<Rightarrow> orm_table \<Rightarrow> string \<Rightarrow> string \<Rightarrow> string \<times> json \<Rightarrow> test list" where
  "op_spec lib t ident col e =
     (case e of (op, v) \<Rightarrow>
        (case sql_op op of
           None \<Rightarrow> []
         | Some sop \<Rightarrow>
             [if op = ''in'' then
                (case as_array v of
                   Some xs \<Rightarrow> if xs = [] then Never else InList ident (map (value_of lib t col) xs)
                 | None \<Rightarrow> Never)
              else if op = ''ne'' \<and> v = JNull then NotNull ident
              else if op = ''eq'' \<and> v = JNull then IsNull ident
              else Compare ident sop (value_of lib t col v)]))"

definition column_spec :: "json_lib \<Rightarrow> orm_table \<Rightarrow> string \<Rightarrow> string \<times> json \<Rightarrow> test list" where
  "column_spec lib t q e =
     (case e of (col, v) \<Rightarrow>
        (case v of
           JNull \<Rightarrow> [IsNull (q @ col)]
         | JObj ops \<Rightarrow> concat (map (op_spec lib t (q @ col) col) ops)
         | _ \<Rightarrow> [Compare (q @ col) ''='' (value_of lib t col v)]))"

definition groups_of :: "json option \<Rightarrow> json_object list" where
  "groups_of v = (case v of None \<Rightarrow> [] | Some v \<Rightarrow> (case as_group_list v of Inr gs \<Rightarrow> gs | Inl _ \<Rightarrow> []))"

definition or_objects :: "json option \<Rightarrow> json_object list option" where
  "or_objects v =
     (case Option.bind v as_array of
        None \<Rightarrow> None
      | Some xs \<Rightarrow> Some (List.map_filter as_object xs))"

lemma groups_smaller:
  assumes "g \<in> set (groups_of (obj_get w k))"
  shows "size (JObj g) < size (JObj w)"
proof -
  from assms obtain v gs where "obj_get w k = Some v" "as_group_list v = Inr gs" "g \<in> set gs"
    by (cases "obj_get w k"; cases "as_group_list (the (obj_get w k))") (simp_all add: groups_of_def)
  then show ?thesis by (rule group_list_smaller)
qed

lemma or_objects_smaller:
  assumes "or_objects (obj_get w k) = Some gs" "g \<in> set gs"
  shows "size (JObj g) < size (JObj w)"
proof -
  from assms obtain v xs where v: "obj_get w k = Some v" "as_array v = Some xs" and gs: "gs = List.map_filter as_object xs"
    by (auto simp: or_objects_def bind_eq_Some_conv split: option.splits)
  from assms(2) gs obtain x where "x \<in> set xs" "as_object x = Some g" by (auto simp: List.map_filter_def)
  with or_group_smaller [OF v] show ?thesis by (simp add: group_object_def)
qed

text \<open>
  The conditions whose conjunction a where object is: those of its columns, then the groups of AND, the
  disjunction of the groups of OR, and the negated groups of NOT. A group without conditions says nothing.
\<close>

function where_spec :: "json_lib \<Rightarrow> orm_table \<Rightarrow> string \<Rightarrow> json_object \<Rightarrow> test cond list" where
  "where_spec lib t q w =
     map Atom (concat (map (column_spec lib t q) (filter (\<lambda>e. \<not> logical_key (fst e)) w)))
     @ map all_of (filter (\<lambda>cs. cs \<noteq> []) (map (where_spec lib t q) (groups_of (obj_get w ''AND''))))
     @ (case or_objects (obj_get w ''OR'') of
          None \<Rightarrow> []
        | Some gs \<Rightarrow>
            if gs = [] then [Atom Never]
            else (case filter (\<lambda>cs. cs \<noteq> []) (map (where_spec lib t q) gs) of
                [] \<Rightarrow> []
              | css \<Rightarrow> [any_of (map all_of css)]))
     @ map (\<lambda>cs. Not (all_of cs)) (filter (\<lambda>cs. cs \<noteq> []) (map (where_spec lib t q) (groups_of (obj_get w ''NOT''))))"
  by pat_completeness auto
termination
  by (relation "measure (\<lambda>(lib, t, q, w). size (JObj w))")
    (auto intro: groups_smaller or_objects_smaller simp del: json.size)

declare where_spec.simps [simp del]

section \<open>Words of composed text\<close>

lemma words_space: "sql_words acc (a @ CHR '' '' # b) = sql_words acc a @ sql_words [] b"
  by (induction acc a rule: sql_words.induct) (auto simp: emit_def)

lemma words_paren:
  "c = CHR ''('' \<or> c = CHR '')'' \<or> c = CHR '','' \<Longrightarrow>
   sql_words acc (a @ c # b) = sql_words acc a @ [c] # sql_words [] b"
  by (induction acc a rule: sql_words.induct) (auto simp: emit_def)

definition one_word :: "string \<Rightarrow> bool" where
  "one_word s \<longleftrightarrow> s \<noteq> [] \<and> list_all (\<lambda>c. c \<noteq> CHR '' '' \<and> c \<noteq> CHR ''('' \<and> c \<noteq> CHR '')'' \<and> c \<noteq> CHR '','') s"

lemma words_one_acc:
  "list_all (\<lambda>c. c \<noteq> CHR '' '' \<and> c \<noteq> CHR ''('' \<and> c \<noteq> CHR '')'' \<and> c \<noteq> CHR '','') s \<Longrightarrow> sql_words acc s = emit (acc @ s)"
  by (induction acc s rule: sql_words.induct) auto

lemma words_one: "one_word s \<Longrightarrow> sql_words [] s = [s]"
  using words_one_acc [of s "[]"] by (simp add: one_word_def emit_def)

lemma words_one_space: "one_word s \<Longrightarrow> sql_words [] (s @ CHR '' '' # b) = s # sql_words [] b"
  by (simp add: words_space words_one)

definition marks :: "string list \<Rightarrow> nat" where
  "marks ws = length (filter (\<lambda>w. w = ''?'') ws)"

lemma marks_simps [simp]:
  "marks [] = 0" "marks (w # ws) = (if w = ''?'' then 1 else 0) + marks ws" "marks (u @ v) = marks u + marks v"
  by (simp_all add: marks_def)

lemma bind_marks_append:
  "marks u = length ps \<Longrightarrow> bind_marks (u @ v) (ps @ qs) = bind_marks u ps @ bind_marks v qs"
proof (induction u ps rule: bind_marks.induct)
  case (2 w ws ps)
  then show ?case by (cases ps) auto
qed simp

text \<open>A text whose words are known and take exactly the given values.\<close>

definition reads :: "string \<Rightarrow> param_value list \<Rightarrow> token list \<Rightarrow> bool" where
  "reads s ps ts \<longleftrightarrow> marks (sql_words [] s) = length ps \<and> tokens s ps = ts"

lemma reads_space: "reads a ps A \<Longrightarrow> reads b qs B \<Longrightarrow> reads (a @ CHR '' '' # b) (ps @ qs) (A @ B)"
  by (simp add: reads_def tokens_def words_space bind_marks_append)

lemma reads_word: "one_word s \<Longrightarrow> s \<noteq> ''?'' \<Longrightarrow> reads s [] [Word s]"
  by (simp add: reads_def tokens_def words_one)

lemma reads_mark: "reads ''?'' [p] [Bound p]"
  by (simp add: reads_def tokens_def emit_def)

lemma reads_paren: "reads a ps A \<Longrightarrow> reads (''('' @ a @ '')'') ps (Word ''('' # A @ [Word '')''])"
  using bind_marks_append [of "sql_words [] a" ps "['')'']" "[]"] words_paren [of "CHR '')''" "[]" a "[]"]
  by (simp add: reads_def tokens_def emit_def)

lemma reads_words:
  "one_word s \<Longrightarrow> s \<noteq> ''?'' \<Longrightarrow> reads b qs B \<Longrightarrow> reads (s @ CHR '' '' # b) qs (Word s # B)"
  using reads_space [OF reads_word] by fastforce

lemma reads_joined:
  assumes k: "one_word k" "k \<noteq> ''?''"
  shows "list_all2 (\<lambda>s (ps, ts). reads s ps ts) parts ptss \<Longrightarrow> parts \<noteq> [] \<Longrightarrow>
    reads (intercalate ('' '' @ k @ '' '') parts) (concat (map fst ptss)) (intercalate [Word k] (map snd ptss))"
proof (induction parts arbitrary: ptss)
  case (Cons s parts)
  then obtain ps ts rest where p: "ptss = (ps, ts) # rest" "reads s ps ts"
    and r: "list_all2 (\<lambda>s (ps, ts). reads s ps ts) parts rest" by (auto simp: list_all2_Cons1)
  show ?case
  proof (cases "parts = []")
    case True
    with r p show ?thesis by simp
  next
    case False
    with r have "rest \<noteq> []" by auto
    have "reads (s @ CHR '' '' # k @ CHR '' '' # intercalate ('' '' @ k @ '' '') parts)
        (ps @ concat (map fst rest)) (ts @ Word k # intercalate [Word k] (map snd rest))"
      by (rule reads_space [OF p(2) reads_words [OF k Cons.IH [OF r False]]])
    with p(1) False \<open>rest \<noteq> []\<close> show ?thesis by (simp add: intercalate_Cons)
  qed
qed simp

section \<open>Reading joined and grouped conditions\<close>

text \<open>No keyword outside parentheses, and the parentheses match.\<close>

fun opaque :: "string \<Rightarrow> nat \<Rightarrow> token list \<Rightarrow> bool" where
  "opaque k d [] \<longleftrightarrow> d = 0"
| "opaque k d (t # ts) \<longleftrightarrow>
     (d = 0 \<longrightarrow> \<not> is_word k t) \<and> (t = Word '')'' \<longrightarrow> 0 < d) \<and> opaque k (deeper d t) ts"

lemma opaque_split: "opaque k d p \<Longrightarrow> split_top k d (p @ ts) = (p @ hd (split_top k 0 ts)) # tl (split_top k 0 ts)"
  by (induction k d p rule: opaque.induct) (auto split: list.splits)

lemma opaque_alone: "opaque k 0 p \<Longrightarrow> split_top k 0 p = [p]"
  using opaque_split [of k 0 p "[]"] by simp

lemma split_joined:
  assumes "\<And>p. p \<in> set ps \<Longrightarrow> opaque k 0 p" "is_word k (Word k)" "ps \<noteq> []"
  shows "split_top k 0 (intercalate [Word k] ps) = ps"
  using assms
proof (induction ps)
  case (Cons p ps)
  show ?case
  proof (cases "ps = []")
    case True
    with Cons.prems opaque_alone show ?thesis by simp
  next
    case False
    with Cons have "split_top k 0 (intercalate [Word k] ps) = ps" by simp
    with opaque_split [of k 0 p "Word k # intercalate [Word k] ps"] Cons.prems False
    show ?thesis by (simp add: intercalate_Cons)
  qed
qed simp

lemma opaque_append: "opaque k d a \<Longrightarrow> opaque k 0 b \<Longrightarrow> opaque k d (a @ b)"
  by (induction k d a rule: opaque.induct) auto

lemma opaque_joined:
  assumes "\<And>p. p \<in> set ps \<Longrightarrow> opaque k 0 p" "\<not> is_word k (Word w)" "w \<noteq> ''(''" "w \<noteq> '')''"
  shows "opaque k 0 (intercalate [Word w] ps)"
  using assms by (induction "[Word w]" ps rule: intercalate.induct) (auto simp: deeper_def intro!: opaque_append)

text \<open>Matching parentheses hide every keyword.\<close>

lemma opaque_inside: "opaque k' d ts \<Longrightarrow> opaque k (Suc d) (ts @ [Word '')''])"
proof (induction k' d ts rule: opaque.induct)
  case (1 k' d)
  then show ?case by (simp add: deeper_def)
next
  case (2 k' d t ts)
  have "deeper (Suc d) t = Suc (deeper d t)" using 2(2) by (auto simp: deeper_def)
  with 2 show ?case by simp
qed

lemma opaque_paren: "opaque k' 0 ts \<Longrightarrow> k \<noteq> ''('' \<Longrightarrow> opaque k 0 (Word ''('' # ts @ [Word '')''])"
  using opaque_inside [of k' 0 ts k] by (simp add: deeper_def upper_def to_ascii_upper_def)

text \<open>A piece that can be joined with AND and OR.\<close>

definition piece :: "token list \<Rightarrow> token list cond \<Rightarrow> bool" where
  "piece ts c \<longleftrightarrow> opaque ''AND'' 0 ts \<and> opaque ''OR'' 0 ts \<and> cond_of ts = c"

lemma upper_keywords:
  "upper ''AND'' = ''AND''" "upper ''OR'' = ''OR''" "upper ''NOT'' = ''NOT''" "upper ''('' = ''(''" "upper '')'' = '')''"
  by code_simp+

lemma piece_paren:
  assumes "opaque ''OR'' 0 ts \<or> opaque ''AND'' 0 ts" "cond_of ts = c"
  shows "piece (Word ''('' # ts @ [Word '')'']) c"
proof -
  have o: "opaque k 0 (Word ''('' # ts @ [Word '')''])" if "k \<noteq> ''(''" for k
    using assms(1) opaque_paren that by blast
  have "cond_of (Word ''('' # ts @ [Word '')'']) = c"
    using assms(2) opaque_alone [OF o [of "''OR''"]] opaque_alone [OF o [of "''AND''"]]
    by (subst cond_of.simps) (simp add: upper_keywords)
  with o show ?thesis by (simp add: piece_def)
qed

lemma piece_not:
  assumes "piece ts c"
  shows "piece (Word ''NOT'' # ts) (Not c)"
proof -
  have o: "opaque ''AND'' 0 (Word ''NOT'' # ts)" "opaque ''OR'' 0 (Word ''NOT'' # ts)"
    using assms by (auto simp: piece_def upper_keywords deeper_def)
  moreover have "cond_of (Word ''NOT'' # ts) = Not c"
    using assms opaque_alone [OF o(1)] opaque_alone [OF o(2)]
    by (subst cond_of.simps) (simp add: upper_keywords piece_def)
  ultimately show ?thesis by (simp add: piece_def)
qed

lemma all_of_map: "all_of (map (map_cond f) cs) = map_cond f (all_of cs)"
  by (cases cs rule: all_of.cases) auto

lemma any_of_map: "any_of (map (map_cond f) cs) = map_cond f (any_of cs)"
  by (cases cs rule: any_of.cases) auto

lemma all_of_many: "1 < length cs \<Longrightarrow> all_of cs = All cs"
  by (cases cs rule: all_of.cases) auto

lemma any_of_many: "1 < length cs \<Longrightarrow> any_of cs = Any cs"
  by (cases cs rule: any_of.cases) auto

lemma conjunction:
  assumes "list_all2 piece tss cs" "tss \<noteq> []"
  shows "opaque ''OR'' 0 (intercalate [Word ''AND''] tss)" "cond_of (intercalate [Word ''AND''] tss) = all_of cs"
proof -
  have p: "opaque ''AND'' 0 ts" "opaque ''OR'' 0 ts" if "ts \<in> set tss" for ts
    using assms(1) that by (auto simp: list_all2_conv_all_nth in_set_conv_nth piece_def)
  show o: "opaque ''OR'' 0 (intercalate [Word ''AND''] tss)"
    using p(2) by (rule opaque_joined) (simp_all add: upper_keywords)
  have s: "split_top ''AND'' 0 (intercalate [Word ''AND''] tss) = tss"
    using p(1) assms(2) by (intro split_joined) (simp_all add: upper_keywords)
  have m: "map cond_of tss = cs"
    using assms(1) by (auto simp: list_all2_conv_all_nth piece_def intro: nth_equalityI)
  show "cond_of (intercalate [Word ''AND''] tss) = all_of cs"
  proof (cases "1 < length tss")
    case True
    have "length cs = length tss" using assms(1) by (simp add: list_all2_lengthD)
    with True m s opaque_alone [OF o] show ?thesis by (subst cond_of.simps) (simp add: all_of_many)
  next
    case False
    with assms(2) obtain ts where "tss = [ts]" by (cases tss) auto
    with m show ?thesis by auto
  qed
qed

lemma disjunction:
  assumes "list_all2 piece tss cs" "tss \<noteq> []"
  shows "opaque ''AND'' 0 (intercalate [Word ''OR''] tss)" "cond_of (intercalate [Word ''OR''] tss) = any_of cs"
proof -
  have p: "opaque ''AND'' 0 ts" "opaque ''OR'' 0 ts" if "ts \<in> set tss" for ts
    using assms(1) that by (auto simp: list_all2_conv_all_nth in_set_conv_nth piece_def)
  show "opaque ''AND'' 0 (intercalate [Word ''OR''] tss)"
    using p(1) by (rule opaque_joined) (simp_all add: upper_keywords)
  have s: "split_top ''OR'' 0 (intercalate [Word ''OR''] tss) = tss"
    using p(2) assms(2) by (intro split_joined) (simp_all add: upper_keywords)
  have m: "map cond_of tss = cs"
    using assms(1) by (auto simp: list_all2_conv_all_nth piece_def intro: nth_equalityI)
  show "cond_of (intercalate [Word ''OR''] tss) = any_of cs"
  proof (cases "1 < length tss")
    case True
    have "length cs = length tss" using assms(1) by (simp add: list_all2_lengthD)
    with True m s show ?thesis by (subst cond_of.simps) (simp add: any_of_many)
  next
    case False
    with assms(2) obtain ts where "tss = [ts]" by (cases tss) auto
    with m show ?thesis by auto
  qed
qed

section \<open>Comparisons\<close>

text \<open>A column name that is one word and no keyword of a condition.\<close>

definition column_word :: "string \<Rightarrow> bool" where
  "column_word s \<longleftrightarrow> one_word s \<and> s \<noteq> ''?'' \<and> upper s \<noteq> ''AND'' \<and> upper s \<noteq> ''OR'' \<and> upper s \<noteq> ''NOT''"

definition part_reads :: "string \<Rightarrow> param_value list \<Rightarrow> test cond \<Rightarrow> bool" where
  "part_reads s ps c \<longleftrightarrow> s \<noteq> [] \<and> (\<exists>ts. reads s ps ts \<and> piece ts (map_cond test_tokens c))"

lemma column_word_token: "column_word s \<Longrightarrow> Word s \<noteq> Word ''('' \<and> Word s \<noteq> Word '')''"
  by (auto simp: column_word_def one_word_def)

lemma piece_column:
  assumes "column_word s" "opaque ''AND'' 0 rest" "opaque ''OR'' 0 rest"
  shows "piece (Word s # rest) (Atom (Word s # rest))"
proof -
  have o: "opaque ''AND'' 0 (Word s # rest)" "opaque ''OR'' 0 (Word s # rest)"
    using assms column_word_token [OF assms(1)] by (auto simp: column_word_def deeper_def)
  have "cond_of (Word s # rest) = Atom (Word s # rest)"
    using assms(1) column_word_token [OF assms(1)] opaque_alone [OF o(1)] opaque_alone [OF o(2)]
    by (subst cond_of.simps) (simp add: column_word_def)
  with o show ?thesis by (simp add: piece_def)
qed

lemma reads_marks: "ps \<noteq> [] \<Longrightarrow>
    reads (question_marks (length ps)) ps (intercalate [Word '','']  (map (\<lambda>v. [Bound v]) ps))"
proof (induction ps)
  case (Cons p ps)
  show ?case
  proof (cases "ps = []")
    case True
    then show ?thesis by (simp add: question_marks_def reads_mark)
  next
    case False
    then obtain n where n: "length ps = Suc n" by (cases ps) auto
    have q: "question_marks (length (p # ps)) = ''?'' @ CHR '','' # CHR '' '' # question_marks (length ps)"
      by (simp add: question_marks_def n)
    have "sql_words [] (''?'' @ CHR '','' # CHR '' '' # question_marks (length ps))
        = sql_words [] ''?'' @ '','' # sql_words [] (CHR '' '' # question_marks (length ps))"
      by (rule words_paren) simp
    then have w: "sql_words [] (question_marks (length (p # ps))) = ''?'' # '','' # sql_words [] (question_marks (length ps))"
      unfolding q by (simp add: emit_def)
    from Cons.IH [OF False] False show ?thesis unfolding reads_def tokens_def w
      by (simp add: intercalate_Cons)
  qed
qed simp

lemma opaque_values: "k \<noteq> '','' \<Longrightarrow> opaque k 0 (intercalate [Word '','']  (map (\<lambda>v. [Bound v]) ps))"
  by (rule opaque_joined) (auto simp: upper_def to_ascii_upper_def deeper_def)

lemma one_word_ops: "sql_op op = Some sop \<Longrightarrow> one_word sop \<and> sop \<noteq> ''?'' \<and> opaque ''AND'' 0 [Word sop] \<and> opaque ''OR'' 0 [Word sop]"
proof -
  assume "sql_op op = Some sop"
  then obtain e where "List.find (\<lambda>e. fst e = op) sql_ops = Some e" "sop = snd e" by (auto simp: sql_op_def)
  then have "sop \<in> snd ` set sql_ops" by (auto simp: find_Some_iff intro!: imageI nth_mem)
  moreover have "\<forall>x \<in> snd ` set sql_ops. one_word x \<and> x \<noteq> ''?'' \<and> opaque ''AND'' 0 [Word x] \<and> opaque ''OR'' 0 [Word x]"
    by code_simp
  ultimately show ?thesis by blast
qed

lemma part_null: "column_word c \<Longrightarrow> part_reads (c @ '' IS NULL'') [] (Atom (IsNull c))"
proof -
  assume c: "column_word c"
  have "reads (c @ CHR '' '' # ''IS'' @ CHR '' '' # ''NULL'') [] [Word c, Word ''IS'', Word ''NULL'']"
    using c by (intro reads_words reads_word) (auto simp: column_word_def one_word_def)
  moreover have "piece [Word c, Word ''IS'', Word ''NULL''] (Atom [Word c, Word ''IS'', Word ''NULL''])"
    using c by (rule piece_column) code_simp+
  ultimately show ?thesis by (auto simp: part_reads_def)
qed

lemma part_not_null: "column_word c \<Longrightarrow> part_reads (c @ '' IS NOT NULL'') [] (Atom (NotNull c))"
proof -
  assume c: "column_word c"
  have "reads (c @ CHR '' '' # ''IS'' @ CHR '' '' # ''NOT'' @ CHR '' '' # ''NULL'') []
      [Word c, Word ''IS'', Word ''NOT'', Word ''NULL'']"
    using c by (intro reads_words reads_word) (auto simp: column_word_def one_word_def)
  moreover have "piece [Word c, Word ''IS'', Word ''NOT'', Word ''NULL''] (Atom [Word c, Word ''IS'', Word ''NOT'', Word ''NULL''])"
    using c by (rule piece_column) code_simp+
  ultimately show ?thesis by (auto simp: part_reads_def)
qed

lemma part_never: "part_reads ''1 = 0'' [] (Atom Never)"
proof -
  have "reads (''1'' @ CHR '' '' # ''='' @ CHR '' '' # ''0'') [] [Word ''1'', Word ''='', Word ''0'']"
    by (intro reads_words reads_word) (auto simp: one_word_def)
  moreover have "column_word ''1''" by code_simp
  then have "piece [Word ''1'', Word ''='', Word ''0''] (Atom [Word ''1'', Word ''='', Word ''0''])"
    by (rule piece_column) code_simp+
  ultimately show ?thesis by (auto simp: part_reads_def)
qed

lemma part_compare:
  assumes c: "column_word c" and sop: "one_word sop" "sop \<noteq> ''?''" "opaque ''AND'' 0 [Word sop]" "opaque ''OR'' 0 [Word sop]"
  shows "part_reads (c @ '' '' @ sop @ '' ?'') [p] (Atom (Compare c sop p))"
proof -
  have r: "reads (c @ CHR '' '' # sop @ CHR '' '' # ''?'') [p] [Word c, Word sop, Bound p]"
    using c sop by (intro reads_words reads_mark) (auto simp: column_word_def)
  have "piece (Word c # [Word sop, Bound p]) (Atom (Word c # [Word sop, Bound p]))"
    using c by (rule piece_column) (use sop(3,4) in \<open>auto simp: deeper_def\<close>)
  with r show ?thesis by (auto simp: part_reads_def)
qed

lemma part_in:
  assumes c: "column_word c" and ps: "ps \<noteq> []"
  shows "part_reads (c @ '' IN ('' @ question_marks (length ps) @ '')'') ps (Atom (InList c ps))"
proof -
  let ?vs = "intercalate [Word '','']  (map (\<lambda>v. [Bound v]) ps)"
  have r: "reads (c @ CHR '' '' # ''IN'' @ CHR '' '' # ''('' @ question_marks (length ps) @ '')'') ps
      (Word c # Word ''IN'' # Word ''('' # ?vs @ [Word '')''])"
    using c by (intro reads_words reads_paren reads_marks [OF ps]) (auto simp: column_word_def one_word_def)
  have g: "opaque k 0 (Word ''('' # ?vs @ [Word '')''])" if "k \<noteq> ''(''" for k
    using opaque_paren [OF opaque_values [of "''AND''"] that] by simp
  have "piece (Word c # Word ''IN'' # Word ''('' # ?vs @ [Word '')''])
      (Atom (Word c # Word ''IN'' # Word ''('' # ?vs @ [Word '')'']))"
    using c by (rule piece_column) (use g in \<open>simp_all add: deeper_def upper_def to_ascii_upper_def\<close>)
  with r show ?thesis by (auto simp: part_reads_def)
qed

section \<open>Fragments\<close>

text \<open>The parts of a fragment, each with the values it takes and the condition it states.\<close>

inductive frag_reads :: "string list \<Rightarrow> param_value list \<Rightarrow> test cond list \<Rightarrow> bool" where
  none: "frag_reads [] [] []"
| part: "part_reads p ps c \<Longrightarrow> frag_reads parts qs cs \<Longrightarrow> frag_reads (p # parts) (ps @ qs) (c # cs)"

lemma frag_single: "part_reads p ps c \<Longrightarrow> frag_reads [p] ps [c]"
  using frag_reads.part [OF _ frag_reads.none] by fastforce

lemma frag_append:
  "frag_reads a ps cs \<Longrightarrow> frag_reads b qs ds \<Longrightarrow> frag_reads (a @ b) (ps @ qs) (cs @ ds)"
  by (induction rule: frag_reads.induct) (auto intro: frag_reads.part)

lemma frag_join:
  "list_all2 (\<lambda>f cs. frag_reads (fst f) (snd f) cs) fs css \<Longrightarrow>
   frag_reads (fst (join_fragments fs)) (snd (join_fragments fs)) (concat css)"
  by (induction rule: list_all2_induct) (auto simp: join_fragments_def intro: frag_append frag_reads.none)

lemma frag_pieces:
  "frag_reads parts ps cs \<Longrightarrow> \<exists>ptss. list_all2 (\<lambda>s (ps, ts). reads s ps ts) parts ptss
    \<and> ps = concat (map fst ptss) \<and> list_all2 piece (map snd ptss) (map (map_cond test_tokens) cs)"
proof (induction rule: frag_reads.induct)
  case (part p ps c parts qs cs)
  then obtain ptss ts where "list_all2 (\<lambda>s (ps, ts). reads s ps ts) parts ptss" "qs = concat (map fst ptss)"
    "list_all2 piece (map snd ptss) (map (map_cond test_tokens) cs)" "reads p ps ts" "piece ts (map_cond test_tokens c)"
    by (auto simp: part_reads_def)
  then show ?case by (intro exI [of _ "(ps, ts) # ptss"]) simp
qed simp

lemma frag_length: "frag_reads parts ps cs \<Longrightarrow> length parts = length cs"
  by (induction rule: frag_reads.induct) auto

lemma frag_nonempty: "frag_reads parts ps cs \<Longrightarrow> s \<in> set parts \<Longrightarrow> s \<noteq> []"
  by (induction rule: frag_reads.induct) (auto simp: part_reads_def)

lemma frag_empty: "frag_reads [] ps cs \<Longrightarrow> ps = [] \<and> cs = []"
  by (auto elim: frag_reads.cases)

text \<open>A rendered group: no text when it states nothing, and otherwise its conjunction.\<close>

definition group_reads :: "string \<times> param_value list \<Rightarrow> test cond list \<Rightarrow> bool" where
  "group_reads r cs \<longleftrightarrow>
     (if cs = [] then r = ([], [])
      else fst r \<noteq> [] \<and> (\<exists>ts. reads (fst r) (snd r) ts \<and> opaque ''OR'' 0 ts
             \<and> cond_of ts = map_cond test_tokens (all_of cs)))"

lemma and_word: "one_word ''AND'' \<and> ''AND'' \<noteq> ''?''" "one_word ''OR'' \<and> ''OR'' \<noteq> ''?''"
  by code_simp+

lemma group_conjunction:
  assumes "frag_reads parts ps cs"
  shows "group_reads (intercalate '' AND '' parts, ps) cs"
proof (cases "parts = []")
  case True
  with assms frag_empty show ?thesis by (simp add: group_reads_def)
next
  case False
  from frag_pieces [OF assms] obtain ptss where p: "list_all2 (\<lambda>s (ps, ts). reads s ps ts) parts ptss"
    "ps = concat (map fst ptss)" "list_all2 piece (map snd ptss) (map (map_cond test_tokens) cs)" by blast
  from p(1) False have n: "map snd ptss \<noteq> []" by auto
  from frag_length [OF assms] False have cs: "cs \<noteq> []" by auto
  have "reads (intercalate ('' '' @ ''AND'' @ '' '') parts) ps (intercalate [Word ''AND''] (map snd ptss))"
    unfolding p(2) using and_word(1) by (intro reads_joined p(1) False) auto
  moreover have "intercalate '' AND '' parts \<noteq> []"
    using False frag_nonempty [OF assms] by (cases "('' AND '', parts)" rule: intercalate.cases) auto
  ultimately show ?thesis using conjunction [OF p(3) n] cs
    by (auto simp: group_reads_def all_of_map)
qed

lemma wrap_reads:
  assumes "group_reads r cs"
  shows "frag_reads (fst (wrap_group [] r)) (snd (wrap_group [] r)) (if cs = [] then [] else [all_of cs])"
    "frag_reads (fst (wrap_group ''NOT '' r)) (snd (wrap_group ''NOT '' r)) (if cs = [] then [] else [Not (all_of cs)])"
proof -
  obtain s ps where r: "r = (s, ps)" by (cases r)
  have "part_reads (''('' @ s @ '')'') ps (all_of cs)" "part_reads (''NOT'' @ CHR '' '' # ''('' @ s @ '')'') ps (Not (all_of cs))"
    if "cs \<noteq> []"
  proof -
    from assms that r obtain ts where ts: "reads s ps ts" "opaque ''OR'' 0 ts" "cond_of ts = map_cond test_tokens (all_of cs)"
      by (auto simp: group_reads_def)
    have p: "piece (Word ''('' # ts @ [Word '')'']) (map_cond test_tokens (all_of cs))"
      using ts by (intro piece_paren) auto
    with reads_paren [OF ts(1)] show "part_reads (''('' @ s @ '')'') ps (all_of cs)" by (auto simp: part_reads_def)
    have "one_word ''NOT''" by code_simp
    with reads_paren [OF ts(1)] have "reads (''NOT'' @ CHR '' '' # ''('' @ s @ '')'') ps (Word ''NOT'' # Word ''('' # ts @ [Word '')''])"
      by (intro reads_words) auto
    with piece_not [OF p] show "part_reads (''NOT'' @ CHR '' '' # ''('' @ s @ '')'') ps (Not (all_of cs))"
      by (auto simp: part_reads_def)
  qed
  then show "frag_reads (fst (wrap_group [] r)) (snd (wrap_group [] r)) (if cs = [] then [] else [all_of cs])"
    "frag_reads (fst (wrap_group ''NOT '' r)) (snd (wrap_group ''NOT '' r)) (if cs = [] then [] else [Not (all_of cs)])"
    using assms by (auto simp: r wrap_group_def group_reads_def intro: frag_single frag_reads.none split: if_splits)
qed

lemma concat_singles: "concat (map (\<lambda>cs. if cs = [] then [] else [f cs]) css) = map f (filter (\<lambda>cs. cs \<noteq> []) css)"
  by (induction css) auto

lemma wraps_read:
  assumes w: "\<And>r cs. group_reads r cs \<Longrightarrow> frag_reads (fst (w r)) (snd (w r)) (if cs = [] then [] else [f cs])"
    and g: "list_all2 group_reads rs css"
  shows "frag_reads (fst (join_fragments (map w rs))) (snd (join_fragments (map w rs)))
      (map f (filter (\<lambda>cs. cs \<noteq> []) css))"
  unfolding concat_singles [symmetric]
  by (rule frag_join) (use g in \<open>simp only: list_all2_map1 list_all2_map2, rule list_all2_mono, use w in blast\<close>)

lemma or_fragment_reads:
  assumes "list_all2 group_reads rs css"
  shows "frag_reads (fst (or_fragment rs)) (snd (or_fragment rs))
      (case filter (\<lambda>cs. cs \<noteq> []) css of [] \<Rightarrow> [] | css \<Rightarrow> [any_of (map all_of css)])"
proof -
  obtain subs ps where f: "join_fragments (map (wrap_group []) rs) = (subs, ps)" by fastforce
  let ?cs = "map all_of (filter (\<lambda>cs. cs \<noteq> []) css)"
  from wraps_read [where w = "wrap_group []" and f = all_of, OF wrap_reads(1) assms] f have fr: "frag_reads subs ps ?cs" by simp
  show ?thesis
  proof (cases "subs = []")
    case True
    with frag_empty fr have "ps = []" "?cs = []" by auto
    with True f show ?thesis by (auto simp: or_fragment_def intro: frag_reads.none)
  next
    case False
    with frag_length [OF fr] have ne: "filter (\<lambda>cs. cs \<noteq> []) css \<noteq> []" by auto
    from frag_pieces [OF fr] obtain ptss where p: "list_all2 (\<lambda>s (ps, ts). reads s ps ts) subs ptss"
      "ps = concat (map fst ptss)" "list_all2 piece (map snd ptss) (map (map_cond test_tokens) ?cs)" by blast
    from p(1) False have n: "map snd ptss \<noteq> []" by auto
    have "reads (intercalate ('' '' @ ''OR'' @ '' '') subs) ps (intercalate [Word ''OR''] (map snd ptss))"
      unfolding p(2) using and_word(2) by (intro reads_joined p(1) False) auto
    from reads_paren [OF this] piece_paren [OF _ disjunction(2) [OF p(3) n]] disjunction(1) [OF p(3) n]
    have "part_reads (''('' @ intercalate '' OR '' subs @ '')'') ps (any_of ?cs)"
      by (auto simp: part_reads_def any_of_map simp del: map_map)
    with False f ne show ?thesis
      by (auto simp: or_fragment_def intro: frag_single split: list.splits)
  qed
qed

section \<open>The where compiler\<close>

text \<open>The columns of a table, qualified, are words and no keywords.\<close>

definition names_ok :: "orm_table \<Rightarrow> string \<Rightarrow> bool" where
  "names_ok t q \<longleftrightarrow> list_all (\<lambda>c. column_word (q @ oc_name c)) (ot_columns t)"

lemma table_ident_name: "table_ident t col = Inr bare \<Longrightarrow> bare = col \<and> (\<exists>c \<in> set (ot_columns t). oc_name c = col)"
  by (auto simp: table_ident_def table_column_def find_Some_iff split: option.splits)

lemma value_of_ok: "to_param_as lib t col v = Inr p \<Longrightarrow> value_of lib t col v = p"
  by (simp add: value_of_def)

lemma values_of_ok: "map_r (to_param_as lib t col) xs = Inr ps \<Longrightarrow> map (value_of lib t col) xs = ps"
  by (induction xs arbitrary: ps) (auto simp: bind_r_eq_Inr value_of_ok)

lemma render_op_reads:
  assumes c: "column_word ident" and r: "render_op lib t ident col e = Inr f"
  shows "frag_reads (fst f) (snd f) (map Atom (op_spec lib t ident col e))"
proof -
  obtain op v where e: "e = (op, v)" by (cases e)
  show ?thesis
  proof (cases "sql_op op")
    case None
    with r e show ?thesis by (auto simp: render_op_def op_spec_def intro: frag_reads.none)
  next
    case (Some sop)
    note sop = one_word_ops [OF Some]
    show ?thesis
    proof (cases "op = ''in''")
      case True
      with r e Some obtain xs where xs: "v = JArr xs"
        by (auto simp: render_op_def bind_r_eq_Inr ok_or_eq_Ok as_array_Some)
      show ?thesis
      proof (cases "xs = []")
        case True
        with r e Some xs \<open>op = ''in''\<close> show ?thesis
          by (auto simp: render_op_def op_spec_def intro!: frag_single part_never)
      next
        case False
        with r e Some xs \<open>op = ''in''\<close> obtain ps where ps: "map_r (to_param_as lib t col) xs = Inr ps"
          and f: "f = ([ident @ '' IN ('' @ question_marks (length xs) @ '')''], ps)"
          by (auto simp: render_op_def bind_r_eq_Inr question_marks_def)
        from map_r_length [OF ps] False have "ps \<noteq> []" "length xs = length ps" by auto
        with part_in [OF c] f e Some xs False \<open>op = ''in''\<close> values_of_ok [OF ps] show ?thesis
          by (auto simp: op_spec_def intro: frag_single)
      qed
    next
      case False
      with r e Some consider "op = ''ne'' \<and> v = JNull" "f = ([ident @ '' IS NOT NULL''], [])"
        | "\<not> (op = ''ne'' \<and> v = JNull)" "op = ''eq'' \<and> v = JNull" "f = ([ident @ '' IS NULL''], [])"
        | p where "\<not> (op = ''ne'' \<and> v = JNull)" "\<not> (op = ''eq'' \<and> v = JNull)" "to_param_as lib t col v = Inr p"
          "f = ([ident @ '' '' @ sop @ '' ?''], [p])"
        by (auto simp: render_op_def bind_r_eq_Inr split: if_splits)
      then show ?thesis
      proof cases
        case 1
        with False e Some part_not_null [OF c] show ?thesis by (auto simp: op_spec_def intro: frag_single)
      next
        case 2
        with False e Some part_null [OF c] show ?thesis by (auto simp: op_spec_def intro: frag_single)
      next
        case (3 p)
        have "op_spec lib t ident col e = [Compare ident sop p]"
          using 3(1-3) False by (simp add: op_spec_def e Some value_of_ok)
        with 3(4) part_compare [OF c] sop frag_single show ?thesis by fastforce
      qed
    qed
  qed
qed

lemma render_cond_reads:
  assumes n: "names_ok t q" and r: "render_cond lib t q e = Inr f"
  shows "frag_reads (fst f) (snd f) (map Atom (column_spec lib t q e))"
proof -
  obtain col cond where e: "e = (col, cond)" by (cases e)
  from r e obtain bare where bare: "table_ident t col = Inr bare" by (auto simp: render_cond_def bind_r_eq_Inr)
  from table_ident_name [OF bare] n have b: "bare = col" and c: "column_word (q @ col)"
    by (auto simp: names_ok_def list_all_iff)
  show ?thesis
  proof (cases "\<exists>ops. cond = JObj ops")
    case True
    then obtain ops fs where ops: "cond = JObj ops" "map_r (render_op lib t (q @ col) col) ops = Inr fs"
      and f: "f = join_fragments fs"
      using r e bare b by (auto simp: render_cond_def bind_r_eq_Inr)
    from ops(2) have "list_all2 (\<lambda>f cs. frag_reads (fst f) (snd f) cs) fs
        (map (\<lambda>e. map Atom (op_spec lib t (q @ col) col e)) ops)"
      by (auto simp: map_r_eq_Inr list_all2_conv_all_nth intro: render_op_reads [OF c])
    from frag_join [OF this] show ?thesis
      by (simp add: f e column_spec_def ops(1) map_concat o_def)
  next
    case False
    show ?thesis
    proof (cases "cond = JNull")
      case True
      with r e bare b part_null [OF c] show ?thesis
        by (auto simp: render_cond_def column_spec_def intro: frag_single)
    next
      case nn: False
      with False r e bare b obtain p where p: "to_param_as lib t col cond = Inr p" "f = ([(q @ col) @ '' = ?''], [p])"
        by (cases cond) (auto simp: render_cond_def bind_r_eq_Inr)
      have "one_word ''=''" "opaque ''AND'' 0 [Word ''='']" "opaque ''OR'' 0 [Word ''='']" by code_simp+
      then have "part_reads ((q @ col) @ '' '' @ ''='' @ '' ?'') [p] (Atom (Compare (q @ col) ''='' p))"
        by (intro part_compare [OF c]) auto
      moreover have "column_spec lib t q e = [Compare (q @ col) ''='' p]"
        using False nn value_of_ok [OF p(1)] by (cases cond) (auto simp: column_spec_def e)
      ultimately show ?thesis by (auto simp: p(2) intro: frag_single)
    qed
  qed
qed

lemma groups_read:
  assumes IH: "\<And>g r. size (JObj g) < size (JObj w) \<Longrightarrow> render_group lib t q g = Inr r \<Longrightarrow> group_reads r (where_spec lib t q g)"
    and gs: "\<And>g. g \<in> set gs \<Longrightarrow> size (JObj g) < size (JObj w)"
    and rs: "map_r (\<lambda>g. render_group lib t q g) gs = Inr rs"
  shows "list_all2 group_reads rs (map (where_spec lib t q) gs)"
  using rs IH [OF gs] by (auto simp: map_r_eq_Inr list_all2_conv_all_nth)

lemma and_groups_read:
  assumes IH: "\<And>g r. size (JObj g) < size (JObj w) \<Longrightarrow> render_group lib t q g = Inr r \<Longrightarrow> group_reads r (where_spec lib t q g)"
    and r: "and_groups lib t q prefix (obj_get w k) = Inr fs"
  obtains rs where "fs = map (wrap_group prefix) rs"
    "list_all2 group_reads rs (map (where_spec lib t q) (groups_of (obj_get w k)))"
proof (cases "obj_get w k")
  case None
  with r that [of "[]"] show thesis by (simp add: and_groups_def groups_of_def)
next
  case (Some v)
  with r obtain gs rs where gs: "as_group_list v = Inr gs" and rs: "map_r (\<lambda>g. render_group lib t q g) gs = Inr rs"
    and fs: "fs = map (wrap_group prefix) rs" by (auto simp: and_groups_def bind_r_eq_Inr)
  have "groups_of (obj_get w k) = gs" by (simp add: groups_of_def Some gs)
  with groups_read [OF IH group_list_smaller [OF Some gs] rs] fs that show thesis by simp
qed

lemma group_objects:
  "map_r (\<lambda>x. bind_r (group_object x) f) xs = Inr rs \<Longrightarrow>
    map_r f (List.map_filter as_object xs) = Inr rs \<and> length (List.map_filter as_object xs) = length xs"
  by (induction xs arbitrary: rs)
    (auto simp: bind_r_eq_Inr group_object_def ok_or_eq_Ok List.map_filter_simps)

lemma or_groups_read:
  assumes IH: "\<And>g r. size (JObj g) < size (JObj w) \<Longrightarrow> render_group lib t q g = Inr r \<Longrightarrow> group_reads r (where_spec lib t q g)"
    and r: "or_groups lib t q (obj_get w k) = Inr fs"
  shows "frag_reads (fst (join_fragments fs)) (snd (join_fragments fs))
    (case or_objects (obj_get w k) of
       None \<Rightarrow> []
     | Some gs \<Rightarrow>
         if gs = [] then [Atom Never]
         else (case filter (\<lambda>cs. cs \<noteq> []) (map (where_spec lib t q) gs) of
             [] \<Rightarrow> []
           | css \<Rightarrow> [any_of (map all_of css)]))"
proof (cases "obj_get w k")
  case None
  with r show ?thesis by (simp add: or_groups_def or_objects_def join_fragments_def frag_reads.none)
next
  case (Some v)
  with r obtain xs where xs: "as_array v = Some xs" by (auto simp: or_groups_def split: option.splits)
  have obj: "or_objects (obj_get w k) = Some (List.map_filter as_object xs)" by (simp add: or_objects_def Some xs)
  show ?thesis
  proof (cases "xs = []")
    case True
    with r Some xs obj frag_single [OF part_never] show ?thesis
      by (auto simp: or_groups_def join_fragments_def List.map_filter_simps)
  next
    case False
    with r Some xs obtain rs where
      rs: "map_r (\<lambda>x. bind_r (group_object x) (\<lambda>g. render_group lib t q g)) xs = Inr rs" and fs: "fs = [or_fragment rs]"
      by (auto simp: or_groups_def bind_r_eq_Inr)
    note go = group_objects [OF rs]
    have "list_all2 group_reads rs (map (where_spec lib t q) (List.map_filter as_object xs))"
    proof (rule groups_read [OF IH])
      fix g assume "g \<in> set (List.map_filter as_object xs)"
      with obj show "size (JObj g) < size (JObj w)" by (rule or_objects_smaller)
    qed (use go in simp_all)
    from or_fragment_reads [OF this] go False show ?thesis
      by (auto simp: obj fs join_fragments_def)
  qed
qed

lemma joined_append:
  "fst (join_fragments (fs @ gs)) = fst (join_fragments fs) @ fst (join_fragments gs)"
  "snd (join_fragments (fs @ gs)) = snd (join_fragments fs) @ snd (join_fragments gs)"
  by (simp_all add: join_fragments_def)

lemma render_group_reads:
  assumes n: "names_ok t q"
  shows "render_group lib t q w = Inr r \<Longrightarrow> group_reads r (where_spec lib t q w)"
proof (induction "size (JObj w)" arbitrary: w r rule: less_induct)
  case less
  obtain s ps where r: "r = (s, ps)" by (cases r)
  from less.prems r obtain conds ands ors nots parts where
    conds: "map_r (render_cond lib t q) (filter (\<lambda>e. \<not> logical_key (fst e)) w) = Inr conds"
    and ands: "and_groups lib t q [] (obj_get w ''AND'') = Inr ands"
    and ors: "or_groups lib t q (obj_get w ''OR'') = Inr ors"
    and nots: "and_groups lib t q ''NOT '' (obj_get w ''NOT'') = Inr nots"
    and parts: "join_fragments (conds @ ands @ ors @ nots) = (parts, ps)" "s = intercalate '' AND '' parts"
    by (auto elim: render_group_parts)
  note IH = less.hyps
  have "list_all2 (\<lambda>f cs. frag_reads (fst f) (snd f) cs) conds
      (map (\<lambda>e. map Atom (column_spec lib t q e)) (filter (\<lambda>e. \<not> logical_key (fst e)) w))"
    using conds render_cond_reads [OF n] by (auto simp: map_r_eq_Inr list_all2_conv_all_nth)
  from frag_join [OF this] have 1: "frag_reads (fst (join_fragments conds)) (snd (join_fragments conds))
      (map Atom (concat (map (column_spec lib t q) (filter (\<lambda>e. \<not> logical_key (fst e)) w))))"
    by (simp add: map_concat o_def)
  from and_groups_read [OF IH ands] obtain rs where "ands = map (wrap_group []) rs"
    "list_all2 group_reads rs (map (where_spec lib t q) (groups_of (obj_get w ''AND'')))" by blast
  with wraps_read [where w = "wrap_group []" and f = all_of, OF wrap_reads(1)]
  have 2: "frag_reads (fst (join_fragments ands)) (snd (join_fragments ands))
      (map all_of (filter (\<lambda>cs. cs \<noteq> []) (map (where_spec lib t q) (groups_of (obj_get w ''AND'')))))" by blast
  note 3 = or_groups_read [OF IH ors]
  from and_groups_read [OF IH nots] obtain ns where "nots = map (wrap_group ''NOT '') ns"
    "list_all2 group_reads ns (map (where_spec lib t q) (groups_of (obj_get w ''NOT'')))" by blast
  with wraps_read [where w = "wrap_group ''NOT ''" and f = "\<lambda>cs. Not (all_of cs)", OF wrap_reads(2)]
  have 4: "frag_reads (fst (join_fragments nots)) (snd (join_fragments nots))
      (map (\<lambda>cs. Not (all_of cs)) (filter (\<lambda>cs. cs \<noteq> []) (map (where_spec lib t q) (groups_of (obj_get w ''NOT'')))))"
    by blast
  from frag_append [OF 1 frag_append [OF 2 frag_append [OF 3 4]]]
  have "frag_reads parts ps (where_spec lib t q w)"
    using parts(1) by (subst where_spec.simps) (simp flip: joined_append)
  from group_conjunction [OF this] show ?case by (simp add: r parts(2))
qed

text \<open>Words of the SQL grammar a column must not be called when it is not qualified.\<close>

definition reserved :: "string \<Rightarrow> bool" where
  "reserved c \<longleftrightarrow> upper c = ''AND'' \<or> upper c = ''OR'' \<or> upper c = ''NOT''"

lemma ident_one_word: "is_ident s \<Longrightarrow> one_word s \<and> s \<noteq> ''?''"
  by (auto simp: is_ident_def one_word_def list_all_iff is_ascii_alphanumeric_def is_ascii_alphabetic_def is_ascii_digit_def)

lemma upper_dot: "upper (a @ ''.'' @ b) = upper a @ CHR ''.'' # upper b"
  by (simp add: upper_def to_ascii_upper_def)

lemma names_ok_table:
  assumes t: "table_wf t" and q: "qualify = None \<and> list_all (\<lambda>c. \<not> reserved (oc_name c)) (ot_columns t) \<or> qualify = Some (ot_name t)"
  shows "names_ok t (qualifier qualify)"
proof -
  have "column_word (qualifier qualify @ oc_name c)" if c: "c \<in> set (ot_columns t)" for c
  proof -
    have i: "one_word (oc_name c)" "oc_name c \<noteq> ''?''" "one_word (ot_name t)"
      using t c ident_one_word by (auto simp: table_wf_def list_all_iff)
    from q show ?thesis
    proof
      assume "qualify = None \<and> list_all (\<lambda>c. \<not> reserved (oc_name c)) (ot_columns t)"
      with c i show ?thesis by (auto simp: qualifier_def column_word_def reserved_def list_all_iff)
    next
      assume "qualify = Some (ot_name t)"
      then have e: "qualifier qualify @ oc_name c = ot_name t @ ''.'' @ oc_name c" by (simp add: qualifier_def)
      have "CHR ''.'' \<in> set (upper (ot_name t @ ''.'' @ oc_name c))" unfolding upper_dot by simp
      then have "upper (ot_name t @ ''.'' @ oc_name c) \<notin> {''AND'', ''OR'', ''NOT''}" by auto
      moreover have "ot_name t @ ''.'' @ oc_name c \<noteq> ''?''" by (cases "ot_name t") auto
      ultimately show ?thesis using i unfolding e by (auto simp: column_word_def one_word_def)
    qed
  qed
  then show ?thesis by (simp add: names_ok_def list_all_iff)
qed

text \<open>The text of a clause, as the code composes it, reads as the conditions of \<open>where_spec\<close>.\<close>

lemma where_text_reads:
  assumes "table_wf t"
    and "qualify = None \<and> list_all (\<lambda>c. \<not> reserved (oc_name c)) (ot_columns t) \<or> qualify = Some (ot_name t)"
    and r: "compile_where lib t (Some (JObj w)) qualify = Inr (clause, ps)"
  shows "if where_spec lib t (qualifier qualify) w = [] then clause = [] \<and> ps = []
    else \<exists>frag. clause = '' WHERE '' @ frag
      \<and> cond_of (tokens frag ps) = map_cond test_tokens (all_of (where_spec lib t (qualifier qualify) w))"
proof -
  from r obtain frag where f: "render_group lib t (qualifier qualify) w = Inr (frag, ps)"
    and c: "clause = (if frag = [] then [] else '' WHERE '' @ frag)"
    by (auto simp: compile_where_def bind_r_eq_Inr split: if_splits)
  from render_group_reads [OF names_ok_table [OF assms(1,2)] f] c show ?thesis
    by (auto simp: group_reads_def reads_def split: if_splits)
qed

end
