(* ===== verification/OrmMeaning.thy ===== *)
theory OrmMeaning
  imports OrmCond
begin

text \<open>
  What a where object means, written from the documentation of the object-relational layer and not from
  its code: the documented operators and their SQL comparison, the value a JSON value stands for in a
  column of a declared type, the known columns of the table and the logical groups. An object outside
  the documented language has no meaning. The where compiler accepts every object that has one, and
  the clause it writes reads back as that meaning.
\<close>

section \<open>The documented language\<close>

datatype rel = Equal | Unequal | Greater | AtLeast | Less | AtMost | Resembles

fun rel_symbol :: "rel \<Rightarrow> string" where
  "rel_symbol Equal = ''=''"
| "rel_symbol Unequal = ''<>''"
| "rel_symbol Greater = ''>''"
| "rel_symbol AtLeast = ''>=''"
| "rel_symbol Less = ''<''"
| "rel_symbol AtMost = ''<=''"
| "rel_symbol Resembles = ''LIKE''"

definition documented_rel :: "string \<Rightarrow> rel option" where
  "documented_rel op =
     (if op = ''eq'' then Some Equal
      else if op = ''ne'' then Some Unequal
      else if op = ''gt'' then Some Greater
      else if op = ''gte'' then Some AtLeast
      else if op = ''lt'' then Some Less
      else if op = ''lte'' then Some AtMost
      else if op = ''like'' then Some Resembles
      else None)"

text \<open>
  Scalars are values as they are, numbers take the declared type of the column: a whole number is a
  float in a float column and a truth value in a bool column, a float without a fraction is whole in
  an int column.
\<close>

fun whole_number :: "number \<Rightarrow> int option" where
  "whole_number (PosInt n) = (if unat n < 2 ^ 63 then Some (int (unat n)) else None)"
| "whole_number (NegInt i) = Some (sint i)"
| "whole_number (FloatNum _) = None"

fun float_number :: "number \<Rightarrow> f64" where
  "float_number (FloatNum f) = f"
| "float_number (PosInt n) = u64_as_f64 n"
| "float_number (NegInt i) = i64_as_f64 i"

definition number_value :: "col_type \<Rightarrow> number \<Rightarrow> param_value" where
  "number_value ty n =
     (case whole_number n of
        Some z \<Rightarrow>
          (case ty of
             CtFloat \<Rightarrow> VFloat (i64_as_f64 (word_of_int z))
           | CtBool \<Rightarrow> VBool (z \<noteq> 0)
           | _ \<Rightarrow> VInt (word_of_int z))
      | None \<Rightarrow>
          if ty = CtInt \<and> f64_integral (float_number n) then VInt (f64_as_i64 (float_number n))
          else VFloat (float_number n))"

fun json_value :: "col_type \<Rightarrow> json \<Rightarrow> param_value option" where
  "json_value ty JNull = Some VNull"
| "json_value ty (JBool b) = Some (VBool b)"
| "json_value ty (JText s) = Some (VText s)"
| "json_value ty (JNum n) = Some (number_value ty n)"
| "json_value ty _ = None"

definition declared_type :: "orm_table \<Rightarrow> string \<Rightarrow> col_type option" where
  "declared_type t col = map_of (map (\<lambda>c. (oc_name c, oc_ty c)) (ot_columns t)) col"

fun op_meaning :: "col_type \<Rightarrow> string \<Rightarrow> string \<times> json \<Rightarrow> test option" where
  "op_meaning ty ident (op, v) =
     (if op = ''in'' then
        (case v of
           JArr xs \<Rightarrow> if xs = [] then Some Never else map_option (InList ident) (those (map (json_value ty) xs))
         | _ \<Rightarrow> None)
      else (case documented_rel op of
          None \<Rightarrow> None
        | Some r \<Rightarrow>
            if v = JNull \<and> r = Equal then Some (IsNull ident)
            else if v = JNull \<and> r = Unequal then Some (NotNull ident)
            else map_option (Compare ident (rel_symbol r)) (json_value ty v)))"

definition column_meaning :: "orm_table \<Rightarrow> string \<Rightarrow> string \<times> json \<Rightarrow> test list option" where
  "column_meaning t q e =
     (case declared_type t (fst e) of
        None \<Rightarrow> None
      | Some ty \<Rightarrow>
          (case snd e of
             JNull \<Rightarrow> Some [IsNull (q @ fst e)]
           | JObj ops \<Rightarrow> those (map (op_meaning ty (q @ fst e)) ops)
           | v \<Rightarrow> map_option (\<lambda>p. [Compare (q @ fst e) (rel_symbol Equal) p]) (json_value ty v)))"

text \<open>AND and NOT take one group or an array of groups, OR an array.\<close>

fun json_group :: "json \<Rightarrow> json_object option" where
  "json_group (JObj g) = Some g"
| "json_group _ = None"

fun array_groups :: "json option \<Rightarrow> json_object list option" where
  "array_groups (Some (JArr xs)) = those (map json_group xs)"
| "array_groups None = Some []"
| "array_groups _ = None"

fun listed_groups :: "json option \<Rightarrow> json_object list option" where
  "listed_groups (Some (JObj g)) = Some [g]"
| "listed_groups v = array_groups v"

lemma those_map: "those (map f xs) = Some ys \<longleftrightarrow> list_all2 (\<lambda>x y. f x = Some y) xs ys"
proof (induction xs arbitrary: ys)
  case (Cons x xs)
  then show ?case by (cases ys) (auto split: option.splits)
qed (auto)

lemma json_groups: "those (map json_group xs) = Some gs \<longleftrightarrow> xs = map JObj gs"
proof (induction xs arbitrary: gs)
  case (Cons x xs)
  then show ?case by (cases x; cases gs) (auto split: option.splits)
qed auto

lemma array_groups_get:
  "array_groups v = Some gs \<longleftrightarrow> v = None \<and> gs = [] \<or> v = Some (JArr (map JObj gs))"
  by (cases v rule: array_groups.cases) (auto simp: json_groups dest: map_injective)

lemma listed_groups_get:
  "listed_groups v = Some gs \<longleftrightarrow>
     v = None \<and> gs = [] \<or> v = Some (JArr (map JObj gs)) \<or> (\<exists>g. v = Some (JObj g) \<and> gs = [g])"
  by (cases v rule: listed_groups.cases) (auto simp: json_groups dest: map_injective)

lemma listed_group_smaller:
  assumes "listed_groups (obj_get w k) = Some gs" "g \<in> set gs"
  shows "size (JObj g) < size (JObj w)"
  using assms group_list_smaller [of w k _ gs g]
  by (auto simp: listed_groups_get as_group_list_def map_r_eq_Inr group_object_def list_all2_conv_all_nth)

lemma array_group_smaller:
  assumes "array_groups (obj_get w k) = Some gs" "g \<in> set gs"
  shows "size (JObj g) < size (JObj w)"
  using assms listed_group_smaller [of w k gs g] by (auto simp: listed_groups_get array_groups_get)

text \<open>
  The conditions whose conjunction the object is. A group without conditions is true: it drops out of
  a conjunction, but a disjunction with it or the negation of it is not a condition the language has.
  A disjunction of nothing matches nothing.
\<close>

function where_meaning :: "orm_table \<Rightarrow> string \<Rightarrow> json_object \<Rightarrow> test cond list option" where
  "where_meaning t q w =
     (case those (map (column_meaning t q) (filter (\<lambda>e. fst e \<notin> {''AND'', ''OR'', ''NOT''}) w)) of
        None \<Rightarrow> None
      | Some cols \<Rightarrow>
     (case (case listed_groups (obj_get w ''AND'') of
              None \<Rightarrow> None | Some gs \<Rightarrow> those (map (\<lambda>g. where_meaning t q g) gs)) of
        None \<Rightarrow> None
      | Some ands \<Rightarrow>
     (case (case array_groups (obj_get w ''OR'') of
              None \<Rightarrow> None | Some gs \<Rightarrow> those (map (\<lambda>g. where_meaning t q g) gs)) of
        None \<Rightarrow> None
      | Some ors \<Rightarrow>
     (case (case listed_groups (obj_get w ''NOT'') of
              None \<Rightarrow> None | Some gs \<Rightarrow> those (map (\<lambda>g. where_meaning t q g) gs)) of
        None \<Rightarrow> None
      | Some nots \<Rightarrow>
          if [] \<in> set ors \<or> [] \<in> set nots then None
          else Some (map Atom (concat cols) @ map all_of (filter (\<lambda>cs. cs \<noteq> []) ands)
            @ (if obj_get w ''OR'' = None then [] else if ors = [] then [Atom Never] else [any_of (map all_of ors)])
            @ map (\<lambda>cs. Not (all_of cs)) nots)))))"
  by pat_completeness auto
termination
  by (relation "measure (\<lambda>(t, q, w). size (JObj w))")
    (auto intro: listed_group_smaller array_group_smaller simp del: json.size)

declare where_meaning.simps [simp del]

section \<open>The tables and coercions of the code are the documented ones\<close>

lemma sql_op_documented: "op \<noteq> ''in'' \<Longrightarrow> sql_op op = map_option rel_symbol (documented_rel op)"
  by (simp add: sql_op_def sql_ops_def documented_rel_def)

lemma documented_codes:
  "documented_rel op = Some Equal \<longleftrightarrow> op = ''eq''" "documented_rel op = Some Unequal \<longleftrightarrow> op = ''ne''"
  by (auto simp: documented_rel_def split: if_splits)

lemma declared_type_column: "declared_type t col = map_option oc_ty (table_column t col)"
proof -
  have "map_of (map (\<lambda>c. (oc_name c, oc_ty c)) cs) col = map_option oc_ty (List.find (\<lambda>c. oc_name c = col) cs)" for cs
    by (induction cs) auto
  then show ?thesis by (simp add: declared_type_def table_column_def)
qed

lemma whole_number_i64: "map_option word_of_int (whole_number n) = number_i64 n"
  by (cases n) auto

lemma sint_zero: "sint (i :: i64) = 0 \<longleftrightarrow> i = 0"
  by (metis signed_0 signed_word_eqI)

lemma coerce_scalar: "coerce ty VNull = VNull" "coerce ty (VBool b) = VBool b" "coerce ty (VText s) = VText s"
  by (cases ty; cases "the ty"; simp)+

lemma json_value_param:
  assumes "declared_type t col = Some ty" "json_value ty v = Some p"
  shows "to_param_as lib t col v = Inr p"
proof (cases v)
  case (JNum n)
  have c: "map_option oc_ty (table_column t col) = Some ty" using assms(1) by (simp add: declared_type_column)
  have p: "p = number_value ty n" using assms(2) JNum by simp
  show ?thesis
  proof (cases n)
    case (PosInt k)
    then show ?thesis by (cases ty) (simp_all add: JNum p c to_param_as_def to_param_def number_value_def option_or_def uint_0_iff)
  next
    case (NegInt i)
    then show ?thesis by (cases ty) (simp_all add: JNum p c to_param_as_def to_param_def number_value_def option_or_def sint_zero)
  next
    case (FloatNum f)
    then show ?thesis by (cases ty) (simp_all add: JNum p c to_param_as_def to_param_def number_value_def option_or_def)
  qed
qed (use assms in \<open>auto simp: to_param_as_def to_param_def coerce_scalar\<close>)

lemma op_meaning_renders:
  assumes ty: "declared_type t col = Some ty" and m: "op_meaning ty ident e = Some x"
  shows "(\<exists>f. render_op lib t ident col e = Inr f) \<and> op_spec lib t ident col e = [x]"
proof -
  obtain op v where e: "e = (op, v)" by (cases e)
  show ?thesis
  proof (cases "op = ''in''")
    case True
    have s: "sql_op ''in'' = Some ''IN''" by code_simp
    from True m e obtain xs where v: "v = JArr xs" by (auto split: json.splits)
    show ?thesis
    proof (cases "xs = []")
      case True
      with \<open>op = ''in''\<close> s m e v show ?thesis by (simp add: render_op_def op_spec_def ok_or_def as_array.simps)
    next
      case False
      with \<open>op = ''in''\<close> m e v obtain ps where ps: "those (map (json_value ty) xs) = Some ps" "x = InList ident ps" by auto
      then have "map_r (to_param_as lib t col) xs = Inr ps"
        by (auto simp: those_map map_r_eq_Inr list_all2_conv_all_nth intro: json_value_param [OF ty])
      with values_of_ok [OF this] \<open>op = ''in''\<close> False s e v ps(2) show ?thesis
        by (simp add: render_op_def op_spec_def ok_or_def)
    qed
  next
    case False
    with m e obtain r where r: "documented_rel op = Some r" by (auto split: option.splits)
    note s = sql_op_documented [OF False]
    consider "v = JNull" "r = Equal" | "v = JNull" "r = Unequal" | "\<not> (v = JNull \<and> (r = Equal \<or> r = Unequal))" by blast
    then show ?thesis
    proof cases
      case 1
      with m e r documented_codes(1) [of op] s show ?thesis by (simp add: render_op_def op_spec_def)
    next
      case 2
      with m e r documented_codes(2) [of op] s show ?thesis by (simp add: render_op_def op_spec_def)
    next
      case 3
      with m e r False obtain p where p: "json_value ty v = Some p" "x = Compare ident (rel_symbol r) p"
        by (auto split: if_splits)
      have "\<not> (op = ''ne'' \<and> v = JNull)" "\<not> (op = ''eq'' \<and> v = JNull)" using 3 r documented_codes [of op] by auto
      with False e r s p(2) json_value_param [OF ty p(1), of lib] show ?thesis
        by (auto simp: render_op_def op_spec_def value_of_ok)
    qed
  qed
qed

lemma column_meaning_renders:
  assumes m: "column_meaning t q e = Some xs"
  shows "(\<exists>f. render_cond lib t q e = Inr f) \<and> column_spec lib t q e = xs"
proof -
  obtain col v where e: "e = (col, v)" by (cases e)
  from m e obtain ty where ty: "declared_type t col = Some ty" by (auto simp: column_meaning_def split: option.splits)
  then obtain c where c: "table_column t col = Some c" by (auto simp: declared_type_column)
  then have "oc_name c = col" by (auto simp: table_column_def find_Some_iff)
  with c have i: "table_ident t col = Inr col" by (simp add: table_ident_def)
  show ?thesis
  proof (cases "\<exists>ops. v = JObj ops")
    case True
    then obtain ops where v: "v = JObj ops" by blast
    with m e ty have l: "list_all2 (\<lambda>e x. op_meaning ty (q @ col) e = Some x) ops xs"
      by (simp add: column_meaning_def those_map)
    then have "\<exists>fs. map_r (render_op lib t (q @ col) col) ops = Inr fs
        \<and> concat (map (op_spec lib t (q @ col) col) ops) = xs"
    proof (induction rule: list_all2_induct)
      case (Cons e es x xs)
      with op_meaning_renders [OF ty Cons.hyps(1), of lib] show ?case by (auto simp: bind_r_eq_Inr)
    qed simp
    with i show ?thesis by (auto simp: render_cond_def column_spec_def e v)
  next
    case False
    show ?thesis
    proof (cases "v = JNull")
      case True
      with m i ty show ?thesis by (simp add: render_cond_def column_spec_def column_meaning_def e)
    next
      case nn: False
      with False m ty e obtain p where p: "json_value ty v = Some p" "xs = [Compare (q @ col) ''='' p]"
        by (cases v) (auto simp: column_meaning_def)
      with False nn json_value_param [OF ty p(1), of lib] i show ?thesis
        by (cases v) (auto simp: render_cond_def column_spec_def e value_of_ok)
    qed
  qed
qed

section \<open>Every documented object compiles to its meaning\<close>

lemma logical_keys: "logical_key k \<longleftrightarrow> k \<in> {''AND'', ''OR'', ''NOT''}"
  by (simp add: logical_key_def)

lemma groups_render:
  assumes IH: "\<And>g cs. g \<in> set gs \<Longrightarrow> where_meaning t q g = Some cs
      \<Longrightarrow> (\<exists>r. render_group lib t q g = Inr r) \<and> where_spec lib t q g = cs"
    and m: "those (map (\<lambda>g. where_meaning t q g) gs) = Some css"
  shows "(\<exists>rs. map_r (\<lambda>g. render_group lib t q g) gs = Inr rs) \<and> map (where_spec lib t q) gs = css"
proof -
  from m have "list_all2 (\<lambda>g cs. where_meaning t q g = Some cs) gs css" by (simp add: those_map)
  then have "list_all2 (\<lambda>g cs. (\<exists>r. render_group lib t q g = Inr r) \<and> where_spec lib t q g = cs) gs css"
    using IH by (auto simp: list_all2_conv_all_nth)
  then show ?thesis by (induction rule: list_all2_induct) (auto simp: bind_r_eq_Inr)
qed

lemma groups_as_objects: "map_r group_object (map JObj gs) = Inr gs"
  by (induction gs) (simp_all add: group_object_def)

lemma objects_of_groups: "List.map_filter as_object (map JObj gs) = gs"
  by (induction gs) (simp_all add: List.map_filter_simps)

lemma listed_groups_code:
  assumes "listed_groups v = Some gs"
  shows "groups_of v = gs" "v \<noteq> None \<Longrightarrow> as_group_list (the v) = Inr gs" "v = None \<Longrightarrow> gs = []"
  using assms by (auto simp: listed_groups_get groups_of_def as_group_list_def groups_as_objects)

lemma listed_groups_render:
  assumes gs: "listed_groups v = Some gs" and r: "map_r (\<lambda>g. render_group lib t q g) gs = Inr rs"
  shows "\<exists>fs. and_groups lib t q prefix v = Inr fs"
  using listed_groups_code(2) [OF gs] r by (cases v) (auto simp: and_groups_def)

lemma array_groups_render:
  assumes gs: "array_groups v = Some gs" and r: "map_r (\<lambda>g. render_group lib t q g) gs = Inr rs"
  shows "\<exists>fs. or_groups lib t q v = Inr fs"
proof -
  have "map_r (\<lambda>x. bind_r (group_object x) (\<lambda>g. render_group lib t q g)) (map JObj gs) = Inr rs"
    using r by (auto simp: map_r_eq_Inr list_all2_conv_all_nth group_object_def)
  with gs show ?thesis by (auto simp: array_groups_get or_groups_def)
qed

lemma array_groups_code:
  assumes "array_groups v = Some gs"
  shows "or_objects v = (if v = None then None else Some gs)"
  using assms by (auto simp: array_groups_get or_objects_def objects_of_groups)

lemma no_empty: "[] \<notin> set css \<Longrightarrow> filter (\<lambda>cs. cs \<noteq> []) css = css"
  by (induction css) auto

lemma where_meaning_renders:
  "where_meaning t q w = Some cs \<Longrightarrow> (\<exists>r. render_group lib t q w = Inr r) \<and> where_spec lib t q w = cs"
proof (induction "size (JObj w)" arbitrary: w cs rule: less_induct)
  case less
  let ?cols = "filter (\<lambda>e. \<not> logical_key (fst e)) w"
  from less.prems obtain cols as ands os ors ns nots where
    cols: "those (map (column_meaning t q) ?cols) = Some cols"
    and as: "listed_groups (obj_get w ''AND'') = Some as" "those (map (\<lambda>g. where_meaning t q g) as) = Some ands"
    and os: "array_groups (obj_get w ''OR'') = Some os" "those (map (\<lambda>g. where_meaning t q g) os) = Some ors"
    and ns: "listed_groups (obj_get w ''NOT'') = Some ns" "those (map (\<lambda>g. where_meaning t q g) ns) = Some nots"
    and ne: "[] \<notin> set ors" "[] \<notin> set nots"
    and cs: "cs = map Atom (concat cols) @ map all_of (filter (\<lambda>cs. cs \<noteq> []) ands)
      @ (if obj_get w ''OR'' = None then [] else if ors = [] then [Atom Never] else [any_of (map all_of ors)])
      @ map (\<lambda>cs. Not (all_of cs)) nots"
    by (subst (asm) where_meaning.simps) (auto simp: logical_keys split: option.splits if_splits)
  have IH: "(\<exists>r. render_group lib t q g = Inr r) \<and> where_spec lib t q g = cs"
    if "size (JObj g) < size (JObj w)" "where_meaning t q g = Some cs" for g cs
    using less.hyps that by blast
  from cols have "list_all2 (\<lambda>e xs. column_meaning t q e = Some xs) ?cols cols" by (simp add: those_map)
  then have c: "(\<exists>fs. map_r (render_cond lib t q) ?cols = Inr fs) \<and> map (column_spec lib t q) ?cols = cols"
  proof (induction rule: list_all2_induct)
    case (Cons e es x xs)
    with column_meaning_renders [OF Cons.hyps(1), of lib] show ?case by (auto simp: bind_r_eq_Inr)
  qed simp
  from groups_render [OF IH [OF listed_group_smaller [OF as(1)]] as(2)] obtain ra where
    a: "map_r (\<lambda>g. render_group lib t q g) as = Inr ra" "map (where_spec lib t q) as = ands" by blast
  from groups_render [OF IH [OF array_group_smaller [OF os(1)]] os(2)] obtain ro where
    o: "map_r (\<lambda>g. render_group lib t q g) os = Inr ro" "map (where_spec lib t q) os = ors" by blast
  from groups_render [OF IH [OF listed_group_smaller [OF ns(1)]] ns(2)] obtain rn where
    n: "map_r (\<lambda>g. render_group lib t q g) ns = Inr rn" "map (where_spec lib t q) ns = nots" by blast
  from c listed_groups_render [OF as(1) a(1), of "[]"] array_groups_render [OF os(1) o(1)]
    listed_groups_render [OF ns(1) n(1), of "''NOT ''"]
  obtain fc fa fo fn where "map_r (render_cond lib t q) ?cols = Inr fc"
    "and_groups lib t q [] (obj_get w ''AND'') = Inr fa" "or_groups lib t q (obj_get w ''OR'') = Inr fo"
    "and_groups lib t q ''NOT '' (obj_get w ''NOT'') = Inr fn" by blast
  then have r: "\<exists>r. render_group lib t q w = Inr r" by (simp add: render_group_unfold split: prod.splits)
  have oe: "ors = [] \<longleftrightarrow> os = []" using o(2) by auto
  have "where_spec lib t q w = cs"
    unfolding cs using c a(2) o(2) n(2) no_empty [OF ne(1)] no_empty [OF ne(2)] oe
    by (subst where_spec.simps)
      (auto simp: listed_groups_code(1) [OF as(1)] listed_groups_code(1) [OF ns(1)] array_groups_code [OF os(1)]
        split: list.splits)
  with r show ?case by blast
qed

text \<open>
  C14: Every where object of the documented language compiles, and the clause means what the object
  says: read with the precedence of SQL, and with the bound values put in for the question marks from
  left to right, the text after WHERE is exactly the conjunction of the object's column tests, its AND
  groups, the disjunction of its OR groups and its negated NOT groups, to any depth, where the SQL
  comparison of each operator and the value of each JSON value are those of the documentation. There
  is no clause exactly when the object states no condition. Objects outside the language have no
  meaning here: an operator that is not documented, an unknown column, an OR or NOT group without a
  condition. An unqualified column must not be called AND, OR or NOT.
\<close>

theorem compile_where_reads_back:
  assumes "table_wf t"
    and "qualify = None \<and> list_all (\<lambda>c. \<not> reserved (oc_name c)) (ot_columns t) \<or> qualify = Some (ot_name t)"
    and "where_meaning t (case qualify of None \<Rightarrow> [] | Some n \<Rightarrow> n @ ''.'') w = Some cs"
  shows "\<exists>clause ps. compile_where lib t (Some (JObj w)) qualify = Ok (clause, ps)
    \<and> (if cs = [] then clause = [] \<and> ps = []
       else \<exists>frag. clause = '' WHERE '' @ frag
         \<and> cond_of (tokens frag ps) = map_cond test_tokens (all_of cs))"
proof -
  from where_meaning_renders [OF assms(3), of lib] obtain frag ps where
    f: "render_group lib t (qualifier qualify) w = Ok (frag, ps)"
    and cs: "where_spec lib t (qualifier qualify) w = cs"
    by (fastforce simp: qualifier_def)
  then have c: "compile_where lib t (Some (JObj w)) qualify = Ok (if frag = [] then [] else '' WHERE '' @ frag, ps)"
    by (simp add: compile_where_def ok_or_def)
  note reads = where_text_reads [OF assms(1,2) c, unfolded cs]
  show ?thesis
    by (rule exI, rule exI, rule conjI, rule c, rule reads)
qed

lemma compile_where_reads_back_witness:
  "\<forall>lib. \<exists>frag. compile_where lib sample_users
      (Some (JObj [(''id'', JObj [(''gt'', JNum (PosInt 1))]), (''NOT'', JObj [(''name'', JNull)])])) None
        = Ok ('' WHERE '' @ frag, [VInt 1])
    \<and> cond_of (tokens frag [VInt 1])
      = All [Atom [Word ''id'', Word ''>'', Bound (VInt 1)], Not (Atom [Word ''name'', Word ''IS'', Word ''NULL''])]"
proof
  fix lib
  let ?w = "[(''id'', JObj [(''gt'', JNum (PosInt 1))]), (''NOT'', JObj [(''name'', JNull)])]"
  have t: "table_wf sample_users" "list_all (\<lambda>c. \<not> reserved (oc_name c)) (ot_columns sample_users)" by code_simp+
  have i: "table_ident sample_users ''id'' = Inr ''id''" "table_ident sample_users ''name'' = Inr ''name''"
    "map_option oc_ty (table_column sample_users ''id'') = Some CtInt"
    "declared_type sample_users ''id'' = Some CtInt" "declared_type sample_users ''name'' = Some CtText"
    "sql_op ''gt'' = Some ''>''" "documented_rel ''gt'' = Some Greater" by code_simp+
  have n: "render_group lib sample_users [] [(''name'', JNull)] = Inr (''name IS NULL'', [])"
    by (simp add: render_group_unfold and_groups_def or_groups_def logical_key_def obj_get_def render_cond_def i
        join_fragments_def)
  have p: "to_param_as lib sample_users ''id'' (JNum (PosInt 1)) = Inr (VInt 1)"
    by (simp add: to_param_as_def to_param_def i)
  have c: "compile_where lib sample_users (Some (JObj ?w)) None = Inr ('' WHERE '' @ ''id > ? AND NOT (name IS NULL)'', [VInt 1])"
    by (simp add: compile_where_def qualifier_def render_group_unfold [of lib sample_users "[]" ?w] and_groups_def
        or_groups_def logical_key_def obj_get_def render_cond_def render_op_def i as_group_list_def n wrap_group_def p
        join_fragments_def)
  have s: "where_meaning sample_users [] [(''name'', JNull)] = Some [Atom (IsNull ''name'')]"
    by (subst where_meaning.simps) (simp add: obj_get_def column_meaning_def i)
  have w: "where_meaning sample_users (case None of None \<Rightarrow> [] | Some n \<Rightarrow> n @ ''.'') ?w
      = Some [Atom (Compare ''id'' ''>'' (VInt 1)), Not (Atom (IsNull ''name''))]"
    by (subst where_meaning.simps) (simp add: obj_get_def column_meaning_def i s number_value_def)
  from compile_where_reads_back [OF t(1) _ w, of lib] t(2) c
  show "\<exists>frag. compile_where lib sample_users (Some (JObj ?w)) None = Ok ('' WHERE '' @ frag, [VInt 1])
    \<and> cond_of (tokens frag [VInt 1])
      = All [Atom [Word ''id'', Word ''>'', Bound (VInt 1)], Not (Atom [Word ''name'', Word ''IS'', Word ''NULL''])]"
    by auto
qed

text \<open>
  Two objects without a meaning that the compiler takes for no condition at all: an operator that is
  not documented, and a disjunction whose only group is empty.
\<close>

lemma meaningless_where_unfiltered:
  "where_meaning sample_users [] [(''id'', JObj [(''equals'', JNum (PosInt 3))])] = None"
  "compile_where lib sample_users (Some (JObj [(''id'', JObj [(''equals'', JNum (PosInt 3))])])) None = Ok ([], [])"
  "where_meaning sample_users [] [(''OR'', JArr [JObj []])] = None"
  "compile_where lib sample_users (Some (JObj [(''OR'', JArr [JObj []])])) None = Ok ([], [])"
proof -
  have i: "table_ident sample_users ''id'' = Inr ''id''" "declared_type sample_users ''id'' = Some CtInt"
    "sql_op ''equals'' = None" "documented_rel ''equals'' = None" by code_simp+
  have e: "render_group lib sample_users [] [] = Inr ([], [])"
    by (simp add: render_group_unfold and_groups_def or_groups_def obj_get_def join_fragments_def)
  have m: "where_meaning sample_users [] [] = Some []"
    by (subst where_meaning.simps) (simp add: obj_get_def)
  show "where_meaning sample_users [] [(''id'', JObj [(''equals'', JNum (PosInt 3))])] = None"
    by (subst where_meaning.simps) (simp add: column_meaning_def i)
  show "compile_where lib sample_users (Some (JObj [(''id'', JObj [(''equals'', JNum (PosInt 3))])])) None = Ok ([], [])"
    by (simp add: compile_where_def qualifier_def render_group_unfold and_groups_def or_groups_def logical_key_def
        obj_get_def render_cond_def render_op_def i join_fragments_def)
  show "where_meaning sample_users [] [(''OR'', JArr [JObj []])] = None"
    by (subst where_meaning.simps) (simp add: obj_get_def m)
  show "compile_where lib sample_users (Some (JObj [(''OR'', JArr [JObj []])])) None = Ok ([], [])"
    by (simp add: compile_where_def qualifier_def render_group_unfold [of lib sample_users "[]" "[(''OR'', JArr [JObj []])]"]
        and_groups_def or_groups_def logical_key_def obj_get_def group_object_def e or_fragment_def wrap_group_def
        join_fragments_def)
qed

end
