(* ===== verification/OrmCreate.thy ===== *)
theory OrmCreate
  imports OrmCalls
begin

text \<open>
  createMany of the object-relational layer, statement by statement: the chunks cover all rows in
  order, no statement binds more values than the database allows (SQL Server apart, whose limit the
  code does not know), and what an error in a later row leaves behind.
\<close>

lemma chunk_size_positive: "0 < chunk_size_of obj k"
  by (simp add: chunk_size_of_def Let_def less_max_iff_disj)

text \<open>One step of the loop over the chunks, and its run with the logging client.\<close>

definition create_step ::
  "json_lib \<Rightarrow> 'c db_client \<Rightarrow> orm_table \<Rightarrow> string list \<Rightarrow> string list \<Rightarrow> nat \<Rightarrow> nat \<times> json list \<Rightarrow> i64 \<Rightarrow>
   ('c, i64) io" where
  "create_step lib cl t keys idents n = (\<lambda>(i, chunk) affected.
     io_bind (io_lift (chunk_statement lib t keys idents (i * n) chunk)) (\<lambda>(sql, params).
     io_bind (cl_execute cl sql params) (\<lambda>k. io_return (affected + word_of_nat k))))"

definition answers :: "(string \<Rightarrow> param_value list \<Rightarrow> nat) \<Rightarrow> (string \<times> param_value list) list \<Rightarrow> nat" where
  "answers f log = sum_list (map (\<lambda>(sql, ps). f sql ps) log)"

lemma map_r_append: "map_r f (xs @ ys) = bind_r (map_r f xs) (\<lambda>as. bind_r (map_r f ys) (\<lambda>bs. Inr (as @ bs)))"
  by (induction xs) (simp_all add: bind_r_assoc)

text \<open>The statement that inserts \<open>n\<close> rows, and what one group of rows sends.\<close>

definition insert_text :: "string \<Rightarrow> string list \<Rightarrow> nat \<Rightarrow> string" where
  "insert_text table cols n =
     ''INSERT INTO '' @ table @ '' ('' @ intercalate '', '' cols @ '') VALUES ''
       @ intercalate '', '' (replicate n (''('' @ intercalate '', '' (replicate (length cols) ''?'') @ '')''))"

definition group_insert :: "orm_table \<Rightarrow> string list \<Rightarrow> param_value list list \<Rightarrow> string \<times> param_value list" where
  "group_insert t cols g = (insert_text (ot_name t) cols (length g), concat g)"

lemma chunk_statement_insert:
  assumes i: "map_r (table_ident t) keys = Inr idents"
    and ps: "map_r (row_params lib t keys) (zip [start..<start + length chunk] chunk) = Inr ps"
  shows "chunk_statement lib t keys idents start chunk = Inr (group_insert t idents ps)"
  using ps map_r_length [OF ps] map_r_length [OF i]
  by (simp add: chunk_statement_def group_insert_def insert_text_def question_marks_def)

lemma create_loop:
  assumes i: "map_r (table_ident t) keys = Inr idents" and n: "0 < n"
  shows "map_r (row_params lib t keys) (zip [a * n..<a * n + length rows] rows) = Inr pss \<Longrightarrow>
    io_fold (create_step lib (log_client fl f) t keys idents n)
        (zip [a..<a + length (chunks n rows)] (chunks n rows)) acc log
      = (Ok (acc + word_of_nat (answers f (map (group_insert t idents) (chunks n pss)))),
         log @ map (group_insert t idents) (chunks n pss))"
proof (induction "length rows" arbitrary: a rows pss acc log rule: less_induct)
  case less
  show ?case
  proof (cases "rows = []")
    case True
    with less.prems show ?thesis by (auto simp: io_lift_def answers_def)
  next
    case False
    let ?c = "take n rows" and ?r = "drop n rows"
    have chs: "chunks n rows = ?c # chunks n ?r" using False n by (subst chunks.simps) simp
    have split: "zip [a * n..<a * n + length rows] rows
        = zip [a * n..<a * n + length ?c] ?c @ zip [Suc a * n..<Suc a * n + length ?r] ?r"
    proof (cases "n \<le> length rows")
      case True
      have "[a * n..<a * n + length rows] = [a * n..<a * n + n] @ [a * n + n..<a * n + length rows]"
        using True upt_add_eq_append [of "a * n" "a * n + n" "length rows - n"] by simp
      moreover have "zip ([a * n..<a * n + n] @ [a * n + n..<a * n + length rows]) (?c @ ?r)
          = zip [a * n..<a * n + n] ?c @ zip [a * n + n..<a * n + length rows] ?r"
        using True by (intro zip_append) simp
      ultimately show ?thesis using True by (simp add: add.commute)
    qed simp
    obtain ps1 ps2 where ps: "map_r (row_params lib t keys) (zip [a * n..<a * n + length ?c] ?c) = Inr ps1"
      "map_r (row_params lib t keys) (zip [Suc a * n..<Suc a * n + length ?r] ?r) = Inr ps2" "pss = ps1 @ ps2"
      using less.prems unfolding split map_r_append by (auto simp: bind_r_eq_Inr)
    have "length ps1 = length ?c" using map_r_length [OF ps(1)] by simp
    moreover have "length ps2 = length ?r" using map_r_length [OF ps(2)] by simp
    ultimately have pchs: "chunks n pss = ps1 # chunks n ps2"
      using False n ps(3) by (cases "length rows \<le> n"; subst chunks.simps) auto
    have "length ?r < length rows" using False n by simp
    note IH = less.hyps [OF this ps(2)]
    have "[a..<a + length (chunks n rows)] = a # [Suc a..<Suc a + length (chunks n ?r)]"
      by (simp add: chs upt_conv_Cons del: upt_Suc)
    then have "zip [a..<a + length (chunks n rows)] (chunks n rows)
        = (a, ?c) # zip [Suc a..<Suc a + length (chunks n ?r)] (chunks n ?r)" by (simp add: chs)
    moreover have "create_step lib (log_client fl f) t keys idents n (a, ?c) acc log
        = (Ok (acc + word_of_nat (answers f [group_insert t idents ps1])), log @ [group_insert t idents ps1])"
      using chunk_statement_insert [OF i ps(1)]
      by (simp add: create_step_def log_client_def io_bind_def io_lift_def answers_def group_insert_def)
    ultimately show ?thesis
      using IH [of "acc + word_of_nat (answers f [group_insert t idents ps1])" "log @ [group_insert t idents ps1]"]
      by (simp add: io_bind_def answers_def add.assoc pchs)
  qed
qed

lemma table_ident_known:
  assumes "set keys \<subseteq> oc_name ` set (ot_columns t)"
  shows "map_r (table_ident t) keys = Inr keys"
proof -
  have "table_ident t k = Inr k" if k: "k \<in> oc_name ` set (ot_columns t)" for k
  proof -
    from k obtain c where c: "table_column t k = Some c" by (cases "table_column t k") (auto simp: table_column_def find_None_iff)
    then have "oc_name c = k" by (auto simp: table_column_def find_Some_iff)
    with c show ?thesis by (simp add: table_ident_def)
  qed
  with assms map_r_all_ok [of keys "table_ident t" "\<lambda>k. k"] show ?thesis by auto
qed

lemma create_many_chunks:
  assumes rows: "obj_get obj ''rows'' = Some (JArr rows)" "rows \<noteq> []" "hd rows = JObj first"
    and keys: "column_keys t first = keys" "keys \<noteq> []" "set keys \<subseteq> oc_name ` set (ot_columns t)"
    and pss: "map_r (row_params lib t keys) (zip [0..<length rows] rows) = Inr pss"
  shows "let log' = map (group_insert t keys) (chunks (chunk_size_of obj (length keys)) pss)
    in create_many lib (log_client fl f) t obj log = (Ok (word_of_nat (answers f log')), log @ log')"
proof -
  let ?n = "chunk_size_of obj (length keys)"
  note i = table_ident_known [OF keys(3)]
  have "create_many lib (log_client fl f) t obj = io_fold (create_step lib (log_client fl f) t keys keys ?n)
      (zip [0..<length (chunks ?n rows)] (chunks ?n rows)) 0"
    by (simp add: create_many_def obj_get_as_def rows keys(1,2) i create_step_def Let_def)
  with create_loop [OF i chunk_size_positive, where a = 0 and acc = 0 and log = log and fl = fl and f = f and
      lib = lib and rows = rows and pss = pss] pss
  show ?thesis by simp
qed

lemma chunks_concat: "0 < n \<Longrightarrow> concat (chunks n xs) = xs"
  by (induction n xs rule: chunks.induct) (subst chunks.simps, simp)

lemma chunks_sizes: "0 < n \<Longrightarrow> g \<in> set (chunks n xs) \<Longrightarrow> g \<noteq> [] \<and> length g \<le> n \<and> set g \<subseteq> set xs"
proof (induction n xs rule: chunks.induct)
  case (1 n xs)
  from 1(3,2) 1(1) show ?case
    by (subst (asm) chunks.simps) (auto split: if_splits dest: in_set_takeD in_set_dropD)
qed

lemma row_params_length:
  assumes "map_r (row_params lib t keys) xs = Inr pss" "ps \<in> set pss"
  shows "length ps = length keys"
  using map_r_source [OF assms] map_r_length
  by (fastforce simp: row_params_def bind_r_eq_Inr Let_def split: if_splits prod.splits)

lemma concat_length_all: "(\<And>x. x \<in> set xs \<Longrightarrow> length x = k) \<Longrightarrow> length (concat xs) = length xs * k"
  by (induction xs) auto

text \<open>How many values one statement may bind, as the databases document it.\<close>

fun bind_limit :: "flavor \<Rightarrow> nat" where
  "bind_limit Sqlite = 32766"
| "bind_limit LibSql = 32766"
| "bind_limit Postgres = 65535"
| "bind_limit MySql = 65535"
| "bind_limit MsSql = 2100"

text \<open>
  C17: createMany inserts every row exactly once and in order: when all rows share the columns of the
  first, the columns are known and the values can be bound, it executes one INSERT per group of
  consecutive rows, each naming the columns once, with a tuple of placeholders for every row and the
  rows' values one after another, and answers the sum of the counts the client answers. Every group
  but a single row stays below 32000 values; so, on every database but SQL Server, a statement never
  binds more values than the database documents as its limit, as long as one row alone does not.
\<close>

theorem create_many_covers_rows:
  assumes rows: "obj_get obj ''rows'' = Some (JArr rows)" "rows \<noteq> []" "hd rows = JObj first"
    and keys: "column_keys t first = keys" "keys \<noteq> []" "set keys \<subseteq> oc_name ` set (ot_columns t)"
    and pss: "map_r (row_params lib t keys) (zip [0..<length rows] rows) = Ok pss"
  shows "\<exists>groups. concat groups = pss \<and> [] \<notin> set groups
    \<and> create_many lib (log_client fl f) t obj log
      = (Ok (word_of_nat (sum_list (map (\<lambda>g. f (insert_text (ot_name t) keys (length g)) (concat g)) groups))),
         log @ map (\<lambda>g. (insert_text (ot_name t) keys (length g), concat g)) groups)
    \<and> (\<forall>g \<in> set groups. length g = 1 \<or> length (concat g) \<le> 32000)
    \<and> (fl \<noteq> MsSql \<and> length keys \<le> bind_limit fl \<longrightarrow> (\<forall>g \<in> set groups. length (concat g) \<le> bind_limit fl))"
proof -
  let ?n = "chunk_size_of obj (length keys)" and ?k = "length keys"
  let ?gs = "chunks ?n pss"
  have len: "length (concat g) = length g * ?k" if "g \<in> set ?gs" for g
    using chunks_sizes [OF chunk_size_positive that] row_params_length [OF pss]
    by (intro concat_length_all) auto
  have one: "length g = 1 \<or> length (concat g) \<le> 32000" if g: "g \<in> set ?gs" for g
  proof (cases "length g = 1")
    case False
    have g': "g \<noteq> []" "length g \<le> ?n" using chunks_sizes [OF chunk_size_positive g] by blast+
    from g'(1) False have "1 < length g" by (cases g) auto
    moreover have "?n \<le> max (max_vars div ?k) 1" by (simp only: chunk_size_of_def Let_def min.cobounded2)
    ultimately have "length g \<le> max_vars div ?k" using g'(2) by linarith
    then have "length g * ?k \<le> max_vars div ?k * ?k" by (rule mult_le_mono1)
    also have "\<dots> \<le> max_vars" by (rule div_times_less_eq_dividend)
    finally show ?thesis using len [OF g] by (simp add: max_vars_def)
  qed simp
  have "\<forall>g \<in> set ?gs. length (concat g) \<le> bind_limit fl" if "fl \<noteq> MsSql" "?k \<le> bind_limit fl"
  proof
    fix g assume g: "g \<in> set ?gs"
    have "32000 \<le> bind_limit fl" using that(1) by (cases fl) simp_all
    with one [OF g] len [OF g] that(2) show "length (concat g) \<le> bind_limit fl" by auto
  qed
  then have limit: "fl \<noteq> MsSql \<and> ?k \<le> bind_limit fl \<longrightarrow> (\<forall>g \<in> set ?gs. length (concat g) \<le> bind_limit fl)" by blast
  have insert: "group_insert t keys = (\<lambda>g. (insert_text (ot_name t) keys (length g), concat g))"
    by (simp add: fun_eq_iff group_insert_def)
  have run: "create_many lib (log_client fl f) t obj log
      = (Ok (word_of_nat (sum_list (map (\<lambda>g. f (insert_text (ot_name t) keys (length g)) (concat g)) ?gs))),
         log @ map (\<lambda>g. (insert_text (ot_name t) keys (length g), concat g)) ?gs)"
    using create_many_chunks [OF rows keys pss, of fl f log]
    by (simp only: Let_def answers_def insert map_map o_def prod.case)
  have ne: "[] \<notin> set ?gs" using chunks_sizes [OF chunk_size_positive [of obj ?k]] by blast
  have all: "\<forall>g \<in> set ?gs. length g = 1 \<or> length (concat g) \<le> 32000" using one by blast
  show ?thesis
    by (rule exI [of _ ?gs], intro conjI chunks_concat [OF chunk_size_positive] ne run all limit)
qed

lemma sample_users_wf: "table_wf sample_users"
  by code_simp

lemma sample_users_facts:
  "ot_name sample_users = ''users''" "map_option oc_ty (table_column sample_users ''id'') = Some CtInt"
  "table_ident sample_users ''id'' = Inr ''id''"
  by code_simp+

lemma sample_users_keys: "s \<noteq> ''posts'' \<Longrightarrow> column_keys sample_users [(s, v)] = [s]"
  by (simp add: column_keys_def table_relation_def sample_users_def)

lemma sample_users_bind:
  "unat x < 2 ^ 63 \<Longrightarrow> bind_key lib sample_users [(''id'', JNum (PosInt x))] ''id'' = Inr (VInt x)"
  by (simp add: bind_key_def data_at_def obj_get_def to_param_as_def to_param_def sample_users_facts)

lemma create_many_covers_rows_witness:
  "\<forall>lib. \<exists>groups. concat groups = [[VInt 1], [VInt 2]] \<and> [] \<notin> set groups
    \<and> snd (create_many lib (log_client Sqlite (\<lambda>_ _. 1)) sample_users
        [(''rows'', JArr [JObj [(''id'', JNum (PosInt 1))], JObj [(''id'', JNum (PosInt 2))]])] [])
      = map (\<lambda>g. (insert_text ''users'' [''id''] (length g), concat g)) groups"
proof
  fix lib
  let ?a = "JObj [(''id'', JNum (PosInt 1))]" and ?b = "JObj [(''id'', JNum (PosInt 2))]"
  have r: "row_params lib sample_users [''id''] (m, JObj [(''id'', JNum (PosInt x))]) = Inr [VInt x]"
    if "unat x < 2 ^ 63" for m x
    using that by (simp add: row_params_def sample_users_keys Let_def sample_users_bind)
  have pss: "map_r (row_params lib sample_users [''id'']) (zip [0..<length [?a, ?b]] [?a, ?b]) = Ok [[VInt 1], [VInt 2]]"
    by (simp add: r)
  have k: "set [''id''] \<subseteq> oc_name ` set (ot_columns sample_users)" by code_simp
  have o: "obj_get [(''rows'', JArr [?a, ?b])] ''rows'' = Some (JArr [?a, ?b])" by (simp add: obj_get_def)
  have ne: "[?a, ?b] \<noteq> []" "hd [?a, ?b] = JObj [(''id'', JNum (PosInt 1))]" by simp_all
  have key: "column_keys sample_users [(''id'', JNum (PosInt 1))] = [''id'']" "[''id''] \<noteq> []"
    by (simp_all add: sample_users_keys)
  from create_many_covers_rows [OF o ne key k pss, where fl = Sqlite and f = "\<lambda>_ _. 1" and log = "[]"]
  show "\<exists>groups. concat groups = [[VInt 1], [VInt 2]] \<and> [] \<notin> set groups
    \<and> snd (create_many lib (log_client Sqlite (\<lambda>_ _. 1)) sample_users [(''rows'', JArr [?a, ?b])] [])
      = map (\<lambda>g. (insert_text ''users'' [''id''] (length g), concat g)) groups"
    by (elim exE conjE) (intro exI conjI, assumption, assumption, simp add: sample_users_facts)
qed

text \<open>
  On SQL Server the limit is not kept: with five columns, the default chunk of 500 rows binds 2500 values.
\<close>

lemma create_many_exceeds_ms_limit:
  assumes "obj_get_as as_u64 obj ''chunkSize'' = None" "length pss = 500" "\<And>ps. ps \<in> set pss \<Longrightarrow> length ps = 5"
  shows "chunks (chunk_size_of obj 5) pss = [pss]" "bind_limit MsSql < length (concat pss)"
proof -
  have "chunk_size_of obj 5 = 500" using assms(1) by (simp add: chunk_size_of_def chunk_rows_def max_vars_def)
  with assms(2) show "chunks (chunk_size_of obj 5) pss = [pss]"
    by (subst chunks.simps) (auto simp: chunks.simps [of _ "[]"])
  show "bind_limit MsSql < length (concat pss)" using assms(2) concat_length_all [OF assms(3)] by simp
qed

text \<open>
  createMany is not atomic: when a row of a later chunk has another set of columns the operation
  returns an error after the earlier chunks have been inserted.
\<close>

theorem create_many_keeps_earlier_chunks:
  "create_many lib (log_client Sqlite (\<lambda>_ _. 1)) sample_users
     [(''rows'', JArr [JObj [(''id'', JNum (PosInt 1))], JObj [(''name'', JText ''x'')]]),
      (''chunkSize'', JNum (PosInt 1))] []
   = (Err (row_shape_error 1), [(''INSERT INTO users (id) VALUES (?)'', [VInt 1])])"
proof -
  let ?a = "JObj [(''id'', JNum (PosInt 1))]" and ?b = "JObj [(''name'', JText ''x'')]"
  have c: "chunks (Suc 0) [x, y] = [[x], [y]]" for x y :: json by (simp add: chunks.simps)
  have n: "chunk_size_of [(''rows'', r), (''chunkSize'', JNum (PosInt 1))] (Suc 0) = Suc 0" for r
    by (simp add: chunk_size_of_def obj_get_as_def obj_get_def max_vars_def)
  have st: "chunk_statement lib sample_users [''id''] [''id''] 0 [?a] = Inr (''INSERT INTO users (id) VALUES (?)'', [VInt 1])"
    by (simp add: chunk_statement_def row_params_def sample_users_keys Let_def sample_users_bind sample_users_facts
        question_marks_def)
  have bad: "chunk_statement lib sample_users [''id''] [''id''] (Suc 0) [?b] = Err (row_shape_error 1)"
    by (simp add: chunk_statement_def row_params_def sample_users_keys Let_def)
  show ?thesis
    by (simp add: create_many_def obj_get_as_def obj_get_def sample_users_keys
        sample_users_facts Let_def n c st bad io_bind_def io_lift_def log_client_def)
qed

end
