(* ===== verification/OrmRelations.thy ===== *)
theory OrmRelations
  imports OrmCalls
begin

text \<open>
  What reading a schema guarantees: relation names are identifiers, distinct from the columns and from
  each other and as close to the wanted name as possible; every foreign key gives its relation on both
  sides; and the schema is well-formed unless a composite foreign key names something else than columns.
\<close>

section \<open>Claiming a name\<close>

lemma claim_fresh: "\<not> name_taken used t (claim used t nm)"
proof (induction used t nm rule: claim.induct)
  case (1 used t nm)
  then show ?case by (subst claim.simps) simp
qed

lemma claim_shape:
  "\<exists>k \<le> card (taken_names used t (length nm)). claim used t nm = nm @ replicate k CHR ''_''
    \<and> (\<forall>j < k. name_taken used t (nm @ replicate j CHR ''_''))"
proof (induction used t nm rule: claim.induct)
  case (1 used t nm)
  show ?case
  proof (cases "name_taken used t nm")
    case False
    then show ?thesis by (intro exI [of _ 0]) (simp add: claim.simps)
  next
    case True
    from 1 [OF True] obtain k where k: "k \<le> card (taken_names used t (length (nm @ ''_'')))"
      "claim used t (nm @ ''_'') = (nm @ ''_'') @ replicate k CHR ''_''"
      "\<And>j. j < k \<Longrightarrow> name_taken used t ((nm @ ''_'') @ replicate j CHR ''_'')" by blast
    have "claim used t nm = nm @ replicate (Suc k) CHR ''_''"
      using True k(2) by (subst claim.simps) simp
    moreover have "name_taken used t (nm @ replicate j CHR ''_'')" if "j < Suc k" for j
      using that True k(3) by (cases j) auto
    moreover have "Suc k \<le> card (taken_names used t (length nm))"
      using k(1) taken_names_shrink [OF True] by simp
    ultimately show ?thesis by blast
  qed
qed

lemma taken_names_card: "card (taken_names used t n) \<le> length used + length (ot_columns t)"
proof -
  have "card (taken_names used t n) \<le> card (set used \<union> oc_name ` set (ot_columns t))"
    by (rule card_mono) (auto simp: taken_names_def)
  also have "\<dots> \<le> card (set used) + card (oc_name ` set (ot_columns t))" by (rule card_Un_le)
  also have "\<dots> \<le> length used + length (ot_columns t)"
    using card_length [of used] card_length [of "map oc_name (ot_columns t)"] by simp
  finally show ?thesis .
qed

text \<open>
  C19: The loop that makes a relation's name unique stops after at most as many rounds as there are
  names already in use and columns together; its result is the wanted name followed by the fewest
  underscores that make it a name no column and no other relation has.
\<close>

theorem claim_terminates:
  "\<exists>k \<le> length used + length (ot_columns t). claim used t nm = nm @ replicate k CHR ''_''
    \<and> \<not> name_taken used t (nm @ replicate k CHR ''_'')
    \<and> list_all (\<lambda>j. name_taken used t (nm @ replicate j CHR ''_'')) [0..<k]"
proof -
  from claim_shape [of used t nm] obtain k where k: "k \<le> card (taken_names used t (length nm))"
    "claim used t nm = nm @ replicate k CHR ''_''" "\<forall>j < k. name_taken used t (nm @ replicate j CHR ''_'')" by blast
  from k(1) taken_names_card have "k \<le> length used + length (ot_columns t)" by (rule order_trans)
  with k claim_fresh [of used t nm] show ?thesis by (intro exI [of _ k]) (simp add: list_all_iff)
qed

section \<open>Deriving relations\<close>

definition rels_fresh :: "orm_table \<Rightarrow> string list \<times> orm_relation list \<Rightarrow> bool" where
  "rels_fresh t acc \<longleftrightarrow> fst acc = map rel_name (snd acc) \<and> distinct (fst acc)
     \<and> list_all (\<lambda>r. table_column t (rel_name r) = None) (snd acc)"

lemma claim_keeps_fresh:
  assumes "rels_fresh t (used, rels)" "rel_name r = claim used t nm"
  shows "rels_fresh t (used @ [claim used t nm], rels @ [r])"
  using assms claim_fresh [of used t nm] by (auto simp: rels_fresh_def name_taken_def)

lemma add_belongs_to_fresh: "rels_fresh t acc \<Longrightarrow> rels_fresh t (add_belongs_to t f acc)"
  by (cases f; cases acc) (auto simp: add_belongs_to_def Let_def intro!: claim_keeps_fresh)

lemma add_has_many_fresh: "rels_fresh t acc \<Longrightarrow> rels_fresh t (add_has_many t f acc)"
  by (cases f; cases acc) (auto simp: add_has_many_def Let_def intro!: claim_keeps_fresh)

lemma fold_keeps: "(\<And>x acc. P acc \<Longrightarrow> P (f x acc)) \<Longrightarrow> P acc \<Longrightarrow> P (fold f xs acc)"
  by (induction xs arbitrary: acc) auto

lemma derive_fresh:
  "distinct (map rel_name (ot_relations (derive_relations fks t)))
   \<and> list_all (\<lambda>r. table_column t (rel_name r) = None) (ot_relations (derive_relations fks t))"
proof -
  have "rels_fresh t ([], [])" by (simp add: rels_fresh_def)
  then have "rels_fresh t (fold (add_has_many t) fks
      (fold (add_belongs_to t) (filter (\<lambda>f. fst f = ot_name t) fks) ([], [])))"
    by (intro fold_keeps [where P = "rels_fresh t"] add_belongs_to_fresh add_has_many_fresh)
  then show ?thesis by (auto simp: rels_fresh_def derive_relations_def Let_def)
qed

text \<open>What a relation is, apart from its name.\<close>

definition rel_shape :: "orm_relation \<Rightarrow> bool \<times> string list \<times> string list \<times> string" where
  "rel_shape r = (rel_belongs_to r, rel_local_columns r, rel_foreign_columns r, rel_target r)"

lemma belongs_to_shapes:
  "map rel_shape (snd (fold (add_belongs_to t) fks acc))
   = map rel_shape (snd acc) @ map (\<lambda>(owner, cols, rt, rcols). (True, cols, rcols, rt)) fks"
  by (induction fks arbitrary: acc) (auto simp: add_belongs_to_def Let_def rel_shape_def split: prod.splits)

lemma has_many_shapes:
  "map rel_shape (snd (fold (add_has_many t) fks acc))
   = map rel_shape (snd acc) @ map (\<lambda>(owner, cols, rt, rcols). (False, rcols, cols, owner))
       (filter (\<lambda>(owner, cols, rt, rcols). owner \<noteq> ot_name t \<and> rt = ot_name t) fks)"
  by (induction fks arbitrary: acc) (auto simp: add_has_many_def Let_def rel_shape_def split: prod.splits)

text \<open>
  C18: The relations of a table are exactly one belongsTo for each of its foreign keys and one hasMany
  for each foreign key of another table that points at it, in the order of the keys; their names are
  pairwise distinct and none is the name of a column of the table.
\<close>

theorem derive_relations_spec:
  "map rel_shape (ot_relations (derive_relations fks t))
     = map (\<lambda>(owner, cols, rt, rcols). (True, cols, rcols, rt)) (filter (\<lambda>f. fst f = ot_name t) fks)
     @ map (\<lambda>(owner, cols, rt, rcols). (False, rcols, cols, owner))
         (filter (\<lambda>(owner, cols, rt, rcols). owner \<noteq> ot_name t \<and> rt = ot_name t) fks)
   \<and> distinct (map rel_name (ot_relations (derive_relations fks t)))
   \<and> list_all (\<lambda>r. table_column t (rel_name r) = None) (ot_relations (derive_relations fks t))"
  using derive_fresh [of fks t]
  by (simp add: derive_relations_def Let_def has_many_shapes belongs_to_shapes)

section \<open>Reading a schema\<close>

lemma ident_prefix: "is_ident (s @ u) \<Longrightarrow> s \<noteq> [] \<Longrightarrow> is_ident s"
  by (simp add: is_ident_def)

lemma ident_underscores: "is_ident s \<Longrightarrow> is_ident (s @ replicate k CHR ''_'')"
  by (auto simp: is_ident_def list_all_iff)

lemma claim_ident: "is_ident nm \<Longrightarrow> is_ident (claim used t nm)"
  using claim_shape [of used t nm] ident_underscores by metis

definition fk_wf :: "fk \<Rightarrow> bool" where
  "fk_wf f = (case f of (owner, cols, rt, rcols) \<Rightarrow> is_ident owner \<and> is_ident rt \<and> length cols = length rcols)"

lemma base_ident:
  assumes "fk_wf (owner, cols, rt, rcols)" "list_all is_ident cols"
  shows "is_ident (belongs_to_base (owner, cols, rt, rcols))"
proof (cases "length cols = 1")
  case True
  then obtain c where c: "cols = [c]" by (auto simp: length_Suc_conv)
  have "is_ident s" if "strip_suffix c ''_id'' = Some s" "s \<noteq> []" for s
  proof -
    from that(1) have "c = s @ ''_id''"
      by (auto simp: strip_suffix_def split: if_splits) (metis append_take_drop_id)
    with assms(2) c that(2) ident_prefix [of s "''_id''"] show ?thesis by simp
  qed
  with assms c show ?thesis by (auto simp: belongs_to_base_def fk_wf_def split: option.split)
next
  case False
  with assms show ?thesis by (simp add: belongs_to_base_def fk_wf_def)
qed

text \<open>A relation whose columns are identifiers is well-formed.\<close>

definition columns_ident :: "orm_relation \<Rightarrow> bool" where
  "columns_ident r \<longleftrightarrow> list_all is_ident (rel_local_columns r @ rel_foreign_columns r)"

definition acc_wf :: "string list \<times> orm_relation list \<Rightarrow> bool" where
  "acc_wf acc \<longleftrightarrow> list_all (\<lambda>r. columns_ident r \<longrightarrow> relation_wf r) (snd acc)"

lemma add_belongs_to_wf: "fk_wf f \<Longrightarrow> acc_wf acc \<Longrightarrow> acc_wf (add_belongs_to t f acc)"
  using claim_ident base_ident
  by (cases f; cases acc) (auto simp: add_belongs_to_def acc_wf_def columns_ident_def relation_wf_def fk_wf_def Let_def)

lemma add_has_many_wf: "fk_wf f \<Longrightarrow> acc_wf acc \<Longrightarrow> acc_wf (add_has_many t f acc)"
  using claim_ident
  by (cases f; cases acc) (auto simp: add_has_many_def acc_wf_def columns_ident_def relation_wf_def fk_wf_def Let_def)

lemma fold_keeps_all: "(\<And>x acc. x \<in> set xs \<Longrightarrow> P acc \<Longrightarrow> P (f x acc)) \<Longrightarrow> P acc \<Longrightarrow> P (fold f xs acc)"
  by (induction xs arbitrary: acc) auto

lemma derive_relations_wf:
  assumes "list_all fk_wf fks" "r \<in> set (ot_relations (derive_relations fks t))" "columns_ident r"
  shows "relation_wf r"
proof -
  have "acc_wf ([], [])" by (simp add: acc_wf_def)
  then have "acc_wf (fold (add_has_many t) fks
      (fold (add_belongs_to t) (filter (\<lambda>f. fst f = ot_name t) fks) ([], [])))"
    using assms(1) by (intro fold_keeps_all [where P = acc_wf] add_belongs_to_wf add_has_many_wf)
      (auto simp: list_all_iff)
  with assms(2,3) show ?thesis by (auto simp: acc_wf_def derive_relations_def Let_def list_all_iff)
qed

text \<open>
  The column lists of the entries of \<open>foreignKeys\<close> as the document has them, and the keys whose columns
  are all identifiers.
\<close>

definition key_lists :: "json \<Rightarrow> string list \<times> string list" where
  "key_lists entry = (str_list (jget entry ''columns''),
     str_list (Option.bind (jget entry ''references'') (\<lambda>r. jget r ''columns'')))"

definition table_keys :: "json \<Rightarrow> (string list \<times> string list) list" where
  "table_keys tdef = map key_lists (option_or (jget_as as_array tdef ''foreignKeys'') [])"

definition written_keys :: "json \<Rightarrow> (string list \<times> string list) list" where
  "written_keys root = concat (map (\<lambda>e. table_keys (snd e)) (option_or (jget_as as_object root ''tables'') []))"

definition key_ident :: "string list \<times> string list \<Rightarrow> bool" where
  "key_ident k \<longleftrightarrow> list_all is_ident (fst k) \<and> list_all is_ident (snd k)"

fun connected :: "fk \<Rightarrow> string list \<times> string list" where
  "connected (owner, cols, rt, rcols) = (cols, rcols)"

lemma parse_column_wf:
  assumes "parse_column lib tname e = Inr (c, fks)" "is_ident tname"
  shows "is_ident (oc_name c)" "list_all (\<lambda>f. fk_wf f \<and> fst (connected f) \<noteq> [] \<and> key_ident (connected f) \<and> fst f = tname) fks"
proof -
  obtain cname cdef where e: "e = (cname, cdef)" by (cases e)
  from assms(1) have n: "is_ident cname" by (auto simp: parse_column_def e split: if_splits)
  with assms(1) have c: "oc_name c = cname"
    "fks = [] \<or> (\<exists>rt rc. is_ident rt \<and> is_ident rc \<and> fks = [(tname, [cname], rt, [rc])])"
    by (auto simp: parse_column_def e bind_r_eq_Inr Let_def split: option.splits if_splits)
  with n assms(2) show "is_ident (oc_name c)"
    "list_all (\<lambda>f. fk_wf f \<and> fst (connected f) \<noteq> [] \<and> key_ident (connected f) \<and> fst f = tname) fks"
    by (auto simp: fk_wf_def key_ident_def)
qed

lemma parse_foreign_key_wf:
  assumes "parse_foreign_key tname entry = Inr f" "is_ident tname"
  shows "fk_wf f \<and> fst (connected f) \<noteq> [] \<and> connected f = key_lists entry \<and> fst f = tname"
  using assms by (auto simp: parse_foreign_key_def Let_def fk_wf_def key_lists_def split: if_splits)

lemma parse_table_wf:
  assumes "parse_table lib e = Inr (t, fks)"
  shows "table_wf t" "list_all (\<lambda>f. fk_wf f \<and> fst (connected f) \<noteq> [] \<and> fst f = ot_name t) fks"
    "list_all (\<lambda>f. key_ident (connected f)) fks \<longleftrightarrow> list_all key_ident (table_keys (snd e))"
proof -
  obtain tname tdef where e: "e = (tname, tdef)" by (cases e)
  from assms obtain cols parsed fs where n: "is_ident tname"
    and parsed: "map_r (parse_column lib tname) cols = Inr parsed"
    and fs: "map_r (parse_foreign_key tname) (option_or (jget_as as_array tdef ''foreignKeys'') []) = Inr fs"
    and t: "t = \<lparr>ot_name = tname, ot_columns = map fst parsed, ot_relations = []\<rparr>"
    and fks: "fks = concat (map snd parsed) @ fs"
    by (auto simp: parse_table_def e bind_r_eq_Inr split: if_splits)
  have c: "is_ident (oc_name (fst p))
      \<and> list_all (\<lambda>f. fk_wf f \<and> fst (connected f) \<noteq> [] \<and> key_ident (connected f) \<and> fst f = tname) (snd p)"
    if "p \<in> set parsed" for p
    using map_r_source [OF parsed that] parse_column_wf [OF _ n] by (cases p) auto
  have f: "fk_wf f \<and> fst (connected f) \<noteq> [] \<and> fst f = tname" if "f \<in> set fs" for f
    using map_r_source [OF fs that] parse_foreign_key_wf [OF _ n] by blast
  have "map connected ys = map key_lists xs" if "list_all2 (\<lambda>x y. parse_foreign_key tname x = Inr y) xs ys" for xs ys
    using that by (induction rule: list_all2_induct) (simp_all add: parse_foreign_key_wf [OF _ n])
  with fs have k: "map connected fs = table_keys tdef" by (simp add: table_keys_def map_r_eq_Inr)
  show "table_wf t" "list_all (\<lambda>f. fk_wf f \<and> fst (connected f) \<noteq> [] \<and> fst f = ot_name t) fks"
    using c f n by (auto simp: t fks table_wf_def list_all_iff)
  have "list_all (\<lambda>f. key_ident (connected f)) fks \<longleftrightarrow> list_all key_ident (map connected fs)"
    using c by (auto simp: fks list_all_iff)
  then show "list_all (\<lambda>f. key_ident (connected f)) fks \<longleftrightarrow> list_all key_ident (table_keys (snd e))"
    by (simp only: k e snd_conv)
qed

lemma relation_source:
  assumes "r \<in> set (ot_relations (derive_relations fks t))"
  shows "\<exists>owner cols rt rcols. (owner, cols, rt, rcols) \<in> set fks
    \<and> (rel_shape r = (True, cols, rcols, rt) \<or> rel_shape r = (False, rcols, cols, owner))"
proof -
  have "rel_shape r \<in> set (map rel_shape (ot_relations (derive_relations fks t)))" using assms by simp
  then show ?thesis
    by (simp add: derive_relations_def Let_def has_many_shapes belongs_to_shapes del: set_map) (auto split: prod.splits)
qed

lemma relation_of_key:
  assumes "(owner, cols, rt, rcols) \<in> set fks" "owner = ot_name t"
  shows "\<exists>r \<in> set (ot_relations (derive_relations fks t)). rel_shape r = (True, cols, rcols, rt)"
proof -
  have "(True, cols, rcols, rt) \<in> set (map rel_shape (ot_relations (derive_relations fks t)))"
    using assms by (simp add: derive_relations_def Let_def has_many_shapes belongs_to_shapes del: set_map) force
  then show ?thesis by auto
qed

text \<open>
  C20: A schema that was read has identifiers for the names of its tables and columns, and each of its
  relations has an identifier for its target and connects equally many columns, at least one. It is
  well-formed, that is, the names of its relations and all the columns they connect are identifiers
  too, exactly when the document lists only identifiers in the entries of \<open>foreignKeys\<close>: the parser
  checks the columns of a column's \<open>references\<close>, but not those of a table's composite keys.
\<close>

theorem orm_parse_wf:
  assumes "json_read lib text = Inr root" and "orm_parse lib text = Ok s"
  shows "list_all table_wf (os_tables s)
    \<and> list_all (\<lambda>t. list_all (\<lambda>r. is_ident (rel_target r) \<and> rel_local_columns r \<noteq> []
          \<and> length (rel_local_columns r) = length (rel_foreign_columns r)) (ot_relations t)) (os_tables s)
    \<and> (schema_wf s \<longleftrightarrow>
         list_all (\<lambda>(cs, rs). list_all is_ident cs \<and> list_all is_ident rs) (written_keys root))"
proof -
  from assms obtain tabs parsed where tabs: "jget_as as_object root ''tables'' = Some tabs"
    and parsed: "map_r (parse_table lib) tabs = Inr parsed"
    and s: "s = schema_of_tables (map (derive_relations (concat (map snd parsed))) (map fst parsed))"
    by (auto simp: orm_parse_def bind_r_eq_Inr ok_or_eq_Ok split: sum.splits)
  let ?fks = "concat (map snd parsed)"
  let ?ts = "map (derive_relations ?fks) (map fst parsed)"
  have p: "table_wf (fst p) \<and> list_all (\<lambda>f. fk_wf f \<and> fst (connected f) \<noteq> [] \<and> fst f = ot_name (fst p)) (snd p)"
    if "p \<in> set parsed" for p
    using map_r_source [OF parsed that] parse_table_wf(1,2) by (cases p) auto
  then have fks: "fk_wf f \<and> fst (connected f) \<noteq> []" if "f \<in> set ?fks" for f
    using that by (auto simp: list_all_iff)
  have tw: "list_all table_wf ?ts" using p by (auto simp: list_all_iff table_wf_def derive_relations_def Let_def)
  have shape: "is_ident (rel_target r) \<and> rel_local_columns r \<noteq> []
      \<and> length (rel_local_columns r) = length (rel_foreign_columns r)"
    if r: "t \<in> set ?ts" "r \<in> set (ot_relations t)" for t r
  proof -
    from r obtain u where "t = derive_relations ?fks u" by auto
    with r relation_source obtain owner cols rt rcols where f: "(owner, cols, rt, rcols) \<in> set ?fks"
      and sh: "rel_shape r = (True, cols, rcols, rt) \<or> rel_shape r = (False, rcols, cols, owner)" by blast
    from fks [OF f] have "cols \<noteq> []" "rcols \<noteq> []" "length cols = length rcols" "is_ident rt" "is_ident owner"
      by (auto simp: fk_wf_def)
    with sh show ?thesis by (auto simp: rel_shape_def)
  qed
  have rel: "relation_wf r = columns_ident r" if "t \<in> set ?ts" "r \<in> set (ot_relations t)" for t r
    using that derive_relations_wf [of ?fks r] fks by (auto simp: columns_ident_def relation_wf_def list_all_iff)
  have "schema_wf s \<longleftrightarrow> list_all (\<lambda>t. list_all columns_ident (ot_relations t)) ?ts"
  proof
    assume "schema_wf s"
    with rel show "list_all (\<lambda>t. list_all columns_ident (ot_relations t)) ?ts"
      by (auto simp: s schema_wf_def schema_of_tables_def list_all_iff)
  next
    assume "list_all (\<lambda>t. list_all columns_ident (ot_relations t)) ?ts"
    with rel tw have "list_all (\<lambda>t. table_wf t \<and> list_all relation_wf (ot_relations t)) ?ts"
      unfolding list_all_iff by blast
    then show "schema_wf s" unfolding s by (rule schema_of_tables_wf)
  qed
  also have "\<dots> \<longleftrightarrow> (\<forall>f \<in> set ?fks. key_ident (connected f))"
  proof
    assume l: "list_all (\<lambda>t. list_all columns_ident (ot_relations t)) ?ts"
    show "\<forall>f \<in> set ?fks. key_ident (connected f)"
    proof
      fix f assume f: "f \<in> set ?fks"
      then obtain q where q: "q \<in> set parsed" "f \<in> set (snd q)" by auto
      obtain owner cols rt rcols where fe: "f = (owner, cols, rt, rcols)" by (cases f)
      have "owner = ot_name (fst q)" using p [OF q(1)] q(2) fe by (auto simp: list_all_iff)
      from relation_of_key [OF f [unfolded fe] this] obtain r where
        r: "r \<in> set (ot_relations (derive_relations ?fks (fst q)))" "rel_shape r = (True, cols, rcols, rt)" by blast
      have "derive_relations ?fks (fst q) \<in> set ?ts" using q(1) by simp
      with l r(1) have "columns_ident r" unfolding list_all_iff by blast
      with r(2) show "key_ident (connected f)"
        by (simp add: fe key_ident_def columns_ident_def rel_shape_def)
    qed
  next
    assume k: "\<forall>f \<in> set ?fks. key_ident (connected f)"
    have "columns_ident r" if r: "t \<in> set ?ts" "r \<in> set (ot_relations t)" for t r
    proof -
      from r obtain u where "t = derive_relations ?fks u" by auto
      with r relation_source obtain owner cols rt rcols where f: "(owner, cols, rt, rcols) \<in> set ?fks"
        and sh: "rel_shape r = (True, cols, rcols, rt) \<or> rel_shape r = (False, rcols, cols, owner)" by blast
      from bspec [OF k f] have "list_all is_ident cols" "list_all is_ident rcols" by (simp_all add: key_ident_def)
      with sh show ?thesis by (auto simp: columns_ident_def rel_shape_def)
    qed
    then show "list_all (\<lambda>t. list_all columns_ident (ot_relations t)) ?ts" unfolding list_all_iff by blast
  qed
  also have "\<dots> \<longleftrightarrow> list_all key_ident (written_keys root)"
  proof -
    from parsed have "list_all2 (\<lambda>e q. parse_table lib e = Inr q) tabs parsed" by (simp add: map_r_eq_Inr)
    then have "list_all (\<lambda>f. key_ident (connected f)) ?fks \<longleftrightarrow> list_all key_ident (concat (map (\<lambda>e. table_keys (snd e)) tabs))"
    proof (induction rule: list_all2_induct)
      case (Cons e es q qs)
      then show ?case using parse_table_wf(3) [of lib e "fst q" "snd q"] by simp
    qed simp
    then show ?thesis by (simp add: written_keys_def tabs option_or_def list_all_iff)
  qed
  finally have wf: "schema_wf s \<longleftrightarrow> list_all key_ident (written_keys root)" .
  have "key_ident = (\<lambda>(cs, rs). list_all is_ident cs \<and> list_all is_ident rs)" by (simp add: fun_eq_iff key_ident_def)
  with wf have "schema_wf s \<longleftrightarrow> list_all (\<lambda>(cs, rs). list_all is_ident cs \<and> list_all is_ident rs) (written_keys root)"
    by simp
  moreover have "list_all (\<lambda>t. list_all (\<lambda>r. is_ident (rel_target r) \<and> rel_local_columns r \<noteq> []
      \<and> length (rel_local_columns r) = length (rel_foreign_columns r)) (ot_relations t)) ?ts"
    unfolding list_all_iff using shape by blast
  moreover have "os_tables s = ?ts" by (simp add: s schema_of_tables_def)
  ultimately show ?thesis using tw by (simp only: simp_thms)
qed

text \<open>A schema with a composite foreign key whose column is no identifier, and a reader that returns it.\<close>

definition raw_key_schema :: json where
  "raw_key_schema =
     JObj [(''tables'', JObj
       [(''a'', JObj [(''columns'', JObj [(''id'', JObj [(''type'', JText ''int'')])])]),
        (''b'', JObj
          [(''columns'', JObj [(''id'', JObj [(''type'', JText ''int'')])]),
           (''foreignKeys'', JArr [JObj
             [(''columns'', JArr [JText ''id OR 1'']),
              (''references'', JObj [(''table'', JText ''a''), (''columns'', JArr [JText ''id''])])]])])])]"

definition constant_lib :: "json \<Rightarrow> json_lib" where
  "constant_lib v = \<lparr>json_read = (\<lambda>_. Inr v), json_text = (\<lambda>_. []), str_debug = (\<lambda>s. s)\<rparr>"

lemma orm_parse_wf_witness:
  "\<exists>s. orm_parse (constant_lib raw_key_schema) [] = Ok s \<and> list_all table_wf (os_tables s) \<and> \<not> schema_wf s"
proof -
  have ok: "is_ok (orm_parse (constant_lib raw_key_schema) [])"
    and keys: "written_keys raw_key_schema = [([''id OR 1''], [''id''])]" "\<not> is_ident ''id OR 1''"
    by code_simp+
  from ok obtain s where s: "orm_parse (constant_lib raw_key_schema) [] = Ok s" by (auto simp: is_ok_iff)
  have "json_read (constant_lib raw_key_schema) [] = Inr raw_key_schema" by (simp add: constant_lib_def)
  from orm_parse_wf [OF this s] s keys show ?thesis by auto
qed

text \<open>
  The columns of a composite foreign key reach the SQL of a join as they stand in the schema file:
  text that is no identifier is accepted by the parser and becomes part of the ON clause.
\<close>

theorem composite_key_unchecked:
  "(case orm_parse (constant_lib raw_key_schema) [] of
      Inr s \<Rightarrow> map (\<lambda>t. map (\<lambda>r. join_clause t r (hd (os_tables s))) (filter rel_belongs_to (ot_relations t))) (os_tables s)
    | Inl _ \<Rightarrow> []) = [[], [''LEFT JOIN a AS j_a ON b.id OR 1 = j_a.id'']]"
  by code_simp

end
