(* ===== verification/CliSchema.thy ===== *)
theory CliSchema
  imports OrmSchema
begin

text \<open>
  The schema language of the command line (\<open>powder-cli/src/schema.rs\<close>): reading and checking
  \<open>powder.schema.json\<close>, compiling the \<open>:name\<close> placeholders of named queries, resolving the foreign
  keys, and the order in which tables are created. Deserialising JSON into the raw structs is done by
  \<open>serde\<close> and is an argument of the definitions that use it.
\<close>

section \<open>Errors\<close>

text \<open>The command line reports errors as plain strings; an \<open>expect\<close> that fails panics.\<close>

datatype cli_fault = CliError string | CliPanic

type_synonym 'a cli = "cli_fault + 'a"

abbreviation Fail :: "string \<Rightarrow> 'a cli" where
  "Fail m \<equiv> Inl (CliError m)"

text \<open>\<open>map_err\<close> on the result of a library call, and a text in backquotes.\<close>

definition map_err :: "(string \<Rightarrow> string) \<Rightarrow> string + 'a \<Rightarrow> 'a cli" where
  "map_err f r = (case r of Inl m \<Rightarrow> Fail (f m) | Inr x \<Rightarrow> Inr x)"

definition quoted :: "string \<Rightarrow> string" where
  "quoted s = ''`'' @ s @ ''`''"

section \<open>Data\<close>

datatype column_ty = TyInt | TyFloat | TyText | TyBool

fun sql_type :: "column_ty \<Rightarrow> string" where
  "sql_type TyInt = ''INTEGER''"
| "sql_type TyBool = ''INTEGER''"
| "sql_type TyFloat = ''REAL''"
| "sql_type TyText = ''TEXT''"

fun ts_type :: "column_ty \<Rightarrow> string" where
  "ts_type TyInt = ''number''"
| "ts_type TyFloat = ''number''"
| "ts_type TyText = ''string''"
| "ts_type TyBool = ''boolean''"

fun py_type :: "column_ty \<Rightarrow> string" where
  "py_type TyInt = ''int''"
| "py_type TyFloat = ''float''"
| "py_type TyText = ''str''"
| "py_type TyBool = ''bool''"

fun ty_name :: "column_ty \<Rightarrow> string" where
  "ty_name TyInt = ''int''"
| "ty_name TyFloat = ''float''"
| "ty_name TyText = ''text''"
| "ty_name TyBool = ''bool''"

record reference =
  ref_to_table :: string
  ref_to_column :: string

record column_def =
  cd_type :: column_ty
  cd_nullable :: bool
  cd_primary_key :: bool
  cd_references :: "reference option"

record cli_column =
  cc_name :: string
  cc_def :: column_def

record foreign_key =
  fk_columns :: "string list"
  fk_ref_table :: string
  fk_ref_columns :: "string list"

record cli_table =
  ct_name :: string
  ct_columns :: "cli_column list"
  ct_foreign_keys :: "foreign_key list"

record named_query =
  nq_name :: string
  nq_source_sql :: string
  nq_sql :: string
  nq_params :: "(string \<times> column_ty) list"
  nq_param_order :: "string list"
  nq_returns :: "string option"

record cli_schema =
  cs_tables :: "cli_table list"
  cs_queries :: "named_query list"

text \<open>
  The structs \<open>serde\<close> fills before anything is checked, without the two fields nothing reads
  (\<open>$schema\<close> and \<open>database\<close>). An entry of \<open>foreignKeys\<close> has the fields of a foreign key.
\<close>

record raw_schema =
  raw_tables :: "(string \<times> json) list"
  raw_queries :: "(string \<times> json) list"

record raw_table =
  raw_columns :: "(string \<times> json) list"
  raw_foreign_keys :: "foreign_key list"

record raw_query =
  raw_sql :: string
  raw_params :: "(string \<times> json) list"
  raw_returns :: "string option"

record serde =
  read_schema :: "string \<Rightarrow> string + raw_schema"
  read_table :: "json \<Rightarrow> string + raw_table"
  read_column :: "json \<Rightarrow> string + column_def"
  read_query :: "json \<Rightarrow> string + raw_query"
  read_type :: "json \<Rightarrow> string + column_ty"

section \<open>Named queries\<close>

definition ident_start :: "char \<Rightarrow> bool" where
  "ident_start c \<longleftrightarrow> is_ascii_alphabetic c \<or> c = CHR ''_''"

definition ident_char :: "char \<Rightarrow> bool" where
  "ident_char c \<longleftrightarrow> is_ascii_alphanumeric c \<or> c = CHR ''_''"

text \<open>
  The scanner: the output and the parameter order so far and whether the position is inside a string
  literal are arguments, as in the loop; the bytes that are left stand for the index.
\<close>

function named_scan ::
  "string \<Rightarrow> (string \<times> column_ty) list \<Rightarrow> bool \<Rightarrow> string \<Rightarrow> string \<Rightarrow> string list
    \<Rightarrow> (string \<times> string list) cli" where
  "named_scan qname declared in_str s out order =
     (case s of
        [] \<Rightarrow> Inr (out, order)
      | c # s' \<Rightarrow>
          if in_str then named_scan qname declared (c \<noteq> CHR 0x27) s' (out @ [c]) order
          else if c = CHR 0x27 then named_scan qname declared True s' (out @ [c]) order
          else if c = CHR '':'' \<and> s' \<noteq> [] \<and> hd s' = CHR '':''
          then named_scan qname declared False (tl s') (out @ ''::'') order
          else if c = CHR '':'' \<and> s' \<noteq> [] \<and> ident_start (hd s')
          then (let name = takeWhile ident_char s'
                in if name \<notin> fst ` set declared
                   then Fail (''query '' @ quoted qname @ '': placeholder '' @ quoted ('':'' @ name)
                          @ '' is not declared in params'')
                   else named_scan qname declared False (dropWhile ident_char s') (out @ ''?'') (order @ [name]))
          else named_scan qname declared False s' (out @ [c]) order)"
  by pat_completeness auto
termination
  by (relation "measure (\<lambda>(_, _, _, s, _, _). length s)")
    (auto simp: le_imp_less_Suc length_dropWhile_le less_Suc_eq_le)

declare named_scan.simps [simp del]

definition compile_named_sql ::
  "string \<Rightarrow> string \<Rightarrow> (string \<times> column_ty) list \<Rightarrow> (string \<times> string list) cli" where
  "compile_named_sql qname sql declared =
     bind_r (named_scan qname declared False sql [] []) (\<lambda>(out, order).
       case List.find (\<lambda>p. fst p \<notin> set order) declared of
         Some p \<Rightarrow> Fail (''query '' @ quoted qname @ '': declared param '' @ quoted (fst p) @ '' is never used'')
       | None \<Rightarrow>
           (case from_utf8 (as_bytes out) of None \<Rightarrow> Inl CliPanic | Some out \<Rightarrow> Inr (out, order)))"

section \<open>Reading a schema\<close>

definition table_fail :: "string \<Rightarrow> string \<Rightarrow> string" where
  "table_fail tname m = ''table '' @ quoted tname @ m"

definition column_fail :: "string \<Rightarrow> string \<Rightarrow> string \<Rightarrow> string" where
  "column_fail tname cname m = ''table '' @ quoted tname @ '', column '' @ quoted cname @ m"

definition query_fail :: "string \<Rightarrow> string \<Rightarrow> string" where
  "query_fail qname m = ''query '' @ quoted qname @ m"

text \<open>A column and the foreign key its \<open>references\<close> gives.\<close>

definition read_one_column :: "serde \<Rightarrow> string \<Rightarrow> string \<times> json \<Rightarrow> (cli_column \<times> foreign_key list) cli" where
  "read_one_column sd tname e =
     (case e of (cname, cval) \<Rightarrow>
        if \<not> is_ident cname
        then Fail (''table '' @ quoted tname @ '': column '' @ quoted cname @ '' is not a valid identifier'')
        else bind_r (map_err (\<lambda>e. column_fail tname cname ('': '' @ e)) (read_column sd cval)) (\<lambda>def.
          if cd_primary_key def \<and> cd_nullable def
          then Fail (column_fail tname cname '': a primary key cannot be nullable'')
          else
            (let col = \<lparr>cc_name = cname, cc_def = def\<rparr>
             in case cd_references def of
                  None \<Rightarrow> Inr (col, [])
                | Some r \<Rightarrow>
                    if \<not> is_ident (ref_to_table r) \<or> \<not> is_ident (ref_to_column r)
                    then Fail (column_fail tname cname '': reference target is not a valid identifier'')
                    else Inr (col, [\<lparr>fk_columns = [cname], fk_ref_table = ref_to_table r,
                                     fk_ref_columns = [ref_to_column r]\<rparr>]))))"

definition read_foreign_key :: "string \<Rightarrow> foreign_key \<Rightarrow> foreign_key cli" where
  "read_foreign_key tname f =
     (if fk_columns f = [] \<or> length (fk_columns f) \<noteq> length (fk_ref_columns f)
      then Fail (table_fail tname '': foreignKeys entry must list an equal, non-zero number of local and referenced columns'')
      else if \<not> is_ident (fk_ref_table f) \<or> \<not> list_all is_ident (fk_columns f @ fk_ref_columns f)
      then Fail (table_fail tname '': foreignKeys entry has an invalid identifier'')
      else Inr f)"

definition read_one_table :: "serde \<Rightarrow> string \<times> json \<Rightarrow> cli_table cli" where
  "read_one_table sd e =
     (case e of (tname, tval) \<Rightarrow>
        if \<not> is_ident tname then Fail (table_fail tname '': not a valid identifier'')
        else bind_r (map_err (\<lambda>e. table_fail tname ('': '' @ e)) (read_table sd tval)) (\<lambda>rt.
          if raw_columns rt = [] then Fail (table_fail tname '': has no columns'')
          else bind_r (map_r (read_one_column sd tname) (raw_columns rt)) (\<lambda>cols.
            bind_r (map_r (read_foreign_key tname) (raw_foreign_keys rt)) (\<lambda>fks.
              Inr \<lparr>ct_name = tname, ct_columns = map fst cols,
                   ct_foreign_keys = concat (map snd cols) @ fks\<rparr>))))"

definition read_param :: "serde \<Rightarrow> string \<Rightarrow> string \<times> json \<Rightarrow> (string \<times> column_ty) cli" where
  "read_param sd qname e =
     (case e of (pname, pval) \<Rightarrow>
        if \<not> is_ident pname
        then Fail (query_fail qname ('': param '' @ quoted pname @ '' is not a valid identifier''))
        else bind_r (map_err (\<lambda>e. query_fail qname ('', param '' @ quoted pname @ '': '' @ e)) (read_type sd pval))
               (\<lambda>ty. Inr (pname, ty)))"

definition check_returns :: "string \<Rightarrow> cli_table list \<Rightarrow> string option \<Rightarrow> unit cli" where
  "check_returns qname tables r =
     (case r of
        Some ret \<Rightarrow>
          if ret \<notin> ct_name ` set tables
          then Fail (query_fail qname ('': returns unknown table '' @ quoted ret)) else Inr ()
      | None \<Rightarrow> Inr ())"

definition read_one_query :: "serde \<Rightarrow> cli_table list \<Rightarrow> string \<times> json \<Rightarrow> named_query cli" where
  "read_one_query sd tables e =
     (case e of (qname, qval) \<Rightarrow>
        if \<not> is_ident qname then Fail (query_fail qname '': not a valid identifier'')
        else bind_r (map_err (\<lambda>e. query_fail qname ('': '' @ e)) (read_query sd qval)) (\<lambda>rq.
          bind_r (map_r (read_param sd qname) (raw_params rq)) (\<lambda>params.
          bind_r (check_returns qname tables (raw_returns rq)) (\<lambda>_.
          bind_r (compile_named_sql qname (raw_sql rq) params) (\<lambda>(sql, order).
            Inr \<lparr>nq_name = qname, nq_source_sql = raw_sql rq, nq_sql = sql, nq_params = params,
                 nq_param_order = order, nq_returns = raw_returns rq\<rparr>)))))"

section \<open>Foreign keys must resolve\<close>

definition cli_column_of :: "cli_table \<Rightarrow> string \<Rightarrow> cli_column option" where
  "cli_column_of t nm = List.find (\<lambda>c. cc_name c = nm) (ct_columns t)"

definition cli_table_of :: "cli_table list \<Rightarrow> string \<Rightarrow> cli_table option" where
  "cli_table_of ts nm = List.find (\<lambda>t. ct_name t = nm) ts"

definition check_column_pair :: "cli_table \<Rightarrow> foreign_key \<Rightarrow> cli_table \<Rightarrow> string \<times> string \<Rightarrow> unit cli" where
  "check_column_pair t f target p =
     (case p of (l, r) \<Rightarrow>
       case cli_column_of t l of
         None \<Rightarrow> Fail (table_fail (ct_name t) ('': foreign key uses unknown local column '' @ quoted l))
       | Some lcol \<Rightarrow>
           (case cli_column_of target r of
              None \<Rightarrow>
                Fail (table_fail (ct_name t)
                  ('': foreign key references unknown column '' @ quoted (fk_ref_table f @ ''.'' @ r)))
            | Some tcol \<Rightarrow>
                if cd_type (cc_def tcol) \<noteq> cd_type (cc_def lcol)
                then Fail (column_fail (ct_name t) l
                       ('': type '' @ quoted (ty_name (cd_type (cc_def lcol))) @ '' does not match referenced ''
                        @ quoted (fk_ref_table f @ ''.'' @ r) @ '' type '' @ quoted (ty_name (cd_type (cc_def tcol)))))
                else Inr ()))"

definition check_foreign_key :: "cli_table list \<Rightarrow> cli_table \<Rightarrow> foreign_key \<Rightarrow> unit cli" where
  "check_foreign_key ts t f =
     (case cli_table_of ts (fk_ref_table f) of
        None \<Rightarrow>
          Fail (table_fail (ct_name t) ('': foreign key references unknown table '' @ quoted (fk_ref_table f)))
      | Some target \<Rightarrow>
          bind_r (map_r (check_column_pair t f target) (zip (fk_columns f) (fk_ref_columns f))) (\<lambda>_. Inr ()))"

definition check_references :: "cli_table list \<Rightarrow> unit cli" where
  "check_references ts =
     bind_r (map_r (\<lambda>t. map_r (check_foreign_key ts t) (ct_foreign_keys t)) ts) (\<lambda>_. Inr ())"

definition parse_schema :: "serde \<Rightarrow> string \<Rightarrow> cli_schema cli" where
  "parse_schema sd text =
     bind_r (map_err (\<lambda>e. ''invalid schema JSON: '' @ e) (read_schema sd text)) (\<lambda>raw.
     bind_r (map_r (read_one_table sd) (raw_tables raw)) (\<lambda>tables.
     if tables = [] then Fail ''schema has no tables''
     else bind_r (map_r (read_one_query sd tables) (raw_queries raw)) (\<lambda>queries.
       bind_r (check_references tables) (\<lambda>_. Inr \<lparr>cs_tables = tables, cs_queries = queries\<rparr>))))"

section \<open>Dependency order\<close>

definition deps_placed :: "cli_table list \<Rightarrow> cli_table \<Rightarrow> bool" where
  "deps_placed placed t \<longleftrightarrow>
     list_all (\<lambda>f. fk_ref_table f = ct_name t \<or> fk_ref_table f \<in> ct_name ` set placed) (ct_foreign_keys t)"

text \<open>One \<open>remaining.retain(..)\<close>: the tables placed and the tables kept.\<close>

fun place_pass :: "cli_table list \<Rightarrow> cli_table list \<Rightarrow> cli_table list \<times> cli_table list" where
  "place_pass [] placed = (placed, [])"
| "place_pass (t # ts) placed =
     (if deps_placed placed t then place_pass ts (placed @ [t])
      else (case place_pass ts placed of (p, kept) \<Rightarrow> (p, t # kept)))"

lemma place_pass_lengths:
  "length (fst (place_pass ts placed)) + length (snd (place_pass ts placed)) = length placed + length ts"
  by (induction ts placed rule: place_pass.induct) (auto split: prod.splits)

lemma place_pass_fst_mono: "length placed \<le> length (fst (place_pass ts placed))"
  by (induction ts placed rule: place_pass.induct) (auto split: prod.splits)

lemma place_pass_shrinks:
  "place_pass ts placed = (p, kept) \<Longrightarrow> length p \<noteq> length placed \<Longrightarrow> length kept < length ts"
  using place_pass_lengths [of ts placed] place_pass_fst_mono [of placed ts] by simp

function place_all :: "cli_table list \<Rightarrow> cli_table list \<Rightarrow> cli_table list" where
  "place_all placed remaining =
     (if remaining = [] then placed
      else (case place_pass remaining placed of (p, kept) \<Rightarrow>
              if length p = length placed then p @ kept else place_all p kept))"
  by pat_completeness auto

termination
  by (relation "measure (\<lambda>(_, remaining). length remaining)") (auto intro: place_pass_shrinks split: prod.splits)

declare place_all.simps [simp del]

definition tables_in_dependency_order :: "cli_schema \<Rightarrow> cli_table list" where
  "tables_in_dependency_order s = place_all [] (cs_tables s)"

definition primary_key :: "cli_table \<Rightarrow> cli_column list" where
  "primary_key t = filter (\<lambda>c. cd_primary_key (cc_def c)) (ct_columns t)"

end
