(* ===== verification/CliSchemaProofs.thy ===== *)
theory CliSchemaProofs
  imports CliSchema "HOL-Library.Multiset"
begin

text \<open>
  What reading a schema guarantees: the order in which tables are created respects the foreign keys
  whenever some order does, a named query can be recovered from its compiled form, and a schema that
  was accepted is well-formed.
\<close>

section \<open>Dependency order\<close>

text \<open>Every table refers only to itself and to tables before it.\<close>

definition creatable :: "cli_table list \<Rightarrow> bool" where
  "creatable ts \<longleftrightarrow>
     list_all (\<lambda>i. list_all (\<lambda>f. fk_ref_table f = ct_name (ts ! i)
         \<or> fk_ref_table f \<in> ct_name ` set (take i ts)) (ct_foreign_keys (ts ! i))) [0..<length ts]"

lemma creatable_deps: "creatable ts \<longleftrightarrow> (\<forall>i < length ts. deps_placed (take i ts) (ts ! i))"
  by (auto simp: creatable_def deps_placed_def list_all_iff)

lemma creatable_Nil [simp]: "creatable []"
  by (simp add: creatable_def)

lemma creatable_snoc: "creatable (ts @ [t]) \<longleftrightarrow> creatable ts \<and> deps_placed ts t"
  by (auto simp: creatable_deps nth_append less_Suc_eq)

lemma place_pass_mset: "mset (fst (place_pass ts p)) + mset (snd (place_pass ts p)) = mset p + mset ts"
  by (induction ts p rule: place_pass.induct) (auto split: prod.splits)

lemma place_pass_creatable: "creatable p \<Longrightarrow> creatable (fst (place_pass ts p))"
  by (induction ts p rule: place_pass.induct) (auto simp: creatable_snoc split: prod.splits)

lemma place_pass_stuck:
  "length (fst (place_pass ts p)) = length p \<Longrightarrow> t \<in> set ts \<Longrightarrow> \<not> deps_placed p t"
proof (induction ts p rule: place_pass.induct)
  case (2 u ts p)
  show ?case
  proof (cases "deps_placed p u")
    case True
    then show ?thesis using 2 place_pass_fst_mono [of "p @ [u]" ts] by simp
  next
    case False
    with 2 show ?thesis by (auto split: prod.splits)
  qed
qed simp

lemma deps_placed_mono: "deps_placed p t \<Longrightarrow> set p \<subseteq> set q \<Longrightarrow> deps_placed q t"
  by (auto simp: deps_placed_def list_all_iff)

text \<open>When some order exists, the first of its tables that is left can be placed.\<close>

lemma place_pass_progress:
  assumes "creatable ts" "set ts = set p \<union> set rem" "rem \<noteq> []"
  shows "length (fst (place_pass rem p)) \<noteq> length p"
proof
  assume stuck: "length (fst (place_pass rem p)) = length p"
  let ?P = "\<lambda>i. i < length ts \<and> ts ! i \<in> set rem"
  have "\<exists>i. ?P i"
    using assms(2,3) by (metis UnCI in_set_conv_nth last_in_set)
  define i where "i = (LEAST i. ?P i)"
  have i: "?P i" unfolding i_def using \<open>\<exists>i. ?P i\<close> by (rule LeastI_ex)
  have "set (take i ts) \<subseteq> set p"
  proof
    fix t assume "t \<in> set (take i ts)"
    then obtain j where jt: "j < length (take i ts)" "take i ts ! j = t" unfolding in_set_conv_nth by blast
    from jt(1) have "j < i" by simp
    with jt(2) have t: "t = ts ! j" by simp
    have "\<not> ?P j" by (rule not_less_Least) (use \<open>j < i\<close> i_def in blast)
    moreover have "j < length ts" using \<open>j < i\<close> i by (blast intro: order.strict_trans)
    ultimately have "t \<notin> set rem" "t \<in> set ts" unfolding t by (blast, blast intro: nth_mem)
    with assms(2) show "t \<in> set p" by blast
  qed
  with assms(1) i have "deps_placed p (ts ! i)" by (auto simp: creatable_deps intro: deps_placed_mono)
  with place_pass_stuck [OF stuck] i show False by blast
qed

lemma place_all_mset: "mset (place_all p rem) = mset p + mset rem"
proof (induction p rem rule: place_all.induct)
  case (1 p rem)
  obtain q kept where pp: "place_pass rem p = (q, kept)" by (cases "place_pass rem p")
  show ?case
    using 1 [OF _ pp [symmetric]] place_pass_mset [of rem p] pp
    by (subst place_all.simps) auto
qed

lemma place_all_creatable:
  "creatable p \<Longrightarrow> creatable ts \<Longrightarrow> set ts = set p \<union> set rem \<Longrightarrow> creatable (place_all p rem)"
proof (induction p rem rule: place_all.induct)
  case (1 p rem)
  show ?case
  proof (cases "rem = []")
    case True
    with 1 show ?thesis by (simp add: place_all.simps)
  next
    case False
    obtain q kept where pp: "place_pass rem p = (q, kept)" by (cases "place_pass rem p")
    have l: "length q \<noteq> length p" using place_pass_progress [OF 1(3,4) False] pp by simp
    have "set_mset (mset q + mset kept) = set_mset (mset p + mset rem)"
      using place_pass_mset [of rem p] pp by simp
    then have "set ts = set q \<union> set kept" using 1(4) by simp
    with 1(1) [OF False pp [symmetric] l] 1(2,3) place_pass_creatable [of p rem] pp
    have "creatable (place_all q kept)" by simp
    with False l pp show ?thesis by (subst place_all.simps) simp
  qed
qed

text \<open>
  C29: The creation order is a permutation of the declared tables, and every table in it refers only
  to itself and to tables before it exactly when some order of the tables has this property: the
  loop finds an order whenever there is one, whatever the order of declaration.
\<close>

theorem dependency_order_complete:
  "mset (tables_in_dependency_order s) = mset (cs_tables s)
   \<and> (creatable (tables_in_dependency_order s) \<longleftrightarrow> (\<exists>ts. mset ts = mset (cs_tables s) \<and> creatable ts))"
proof -
  have m: "mset (tables_in_dependency_order s) = mset (cs_tables s)"
    by (simp add: tables_in_dependency_order_def place_all_mset)
  have "creatable (tables_in_dependency_order s)" if "mset ts = mset (cs_tables s)" "creatable ts" for ts
    unfolding tables_in_dependency_order_def
    by (rule place_all_creatable [OF creatable_Nil that(2)]) (use mset_eq_setD [OF that(1)] in simp)
  with m show ?thesis by blast
qed

section \<open>Named queries\<close>

text \<open>
  Reading a compiled query back: every \<open>?\<close> outside a string literal becomes the placeholder of the
  next name. The flag says whether the position is inside a literal.
\<close>

fun fill_named :: "bool \<Rightarrow> string \<Rightarrow> string list \<Rightarrow> string" where
  "fill_named q [] ns = []"
| "fill_named True (c # s) ns = c # fill_named (c \<noteq> CHR 0x27) s ns"
| "fill_named False (c # s) ns =
     (if c = CHR ''?''
      then (case ns of [] \<Rightarrow> c # fill_named False s [] | n # ns \<Rightarrow> CHR '':'' # n @ fill_named False s ns)
      else c # fill_named (c = CHR 0x27) s ns)"

fun marks :: "bool \<Rightarrow> string \<Rightarrow> nat" where
  "marks q [] = 0"
| "marks True (c # s) = marks (c \<noteq> CHR 0x27) s"
| "marks False (c # s) = (if c = CHR ''?'' then Suc (marks False s) else marks (c = CHR 0x27) s)"

lemma ident_char_plain: "ident_char c \<Longrightarrow> c \<noteq> CHR ''?'' \<and> c \<noteq> CHR 0x27 \<and> code c < 128"
  by (auto simp: ident_char_def is_ascii_alphanumeric_def is_ascii_alphabetic_def is_ascii_digit_def)

lemma marks_ident: "list_all ident_char n \<Longrightarrow> marks False (n @ s) = marks False s"
  by (induction n) (auto dest: ident_char_plain)

lemma ident_span: "list_all ident_char (takeWhile ident_char s)"
  by (auto simp: list_all_iff dest: set_takeWhileD)

lemma marks_span: "marks False (dropWhile ident_char s) = marks False s"
  using marks_ident [OF ident_span, of s "dropWhile ident_char s"] by simp

text \<open>What the scanner adds to its output and its order, from where it stands.\<close>

definition named_ok :: "(string \<times> column_ty) list \<Rightarrow> bool \<Rightarrow> string \<Rightarrow> string \<Rightarrow> string list \<Rightarrow> bool" where
  "named_ok d b s out order \<longleftrightarrow> set order \<subseteq> fst ` set d
     \<and> (marks b s = 0 \<longrightarrow> fill_named b out order = s \<and> marks b out = length order)"

lemma named_scan_ok:
  "named_scan q d b s out order = Inr (out', order') \<Longrightarrow>
     \<exists>o1 n1. out' = out @ o1 \<and> order' = order @ n1 \<and> named_ok d b s o1 n1"
proof (induction q d b s out order rule: named_scan.induct)
  case (1 q d b s out order)
  note eq = 1(6) [unfolded named_scan.simps [of q d b s]]
  show ?case
  proof (cases s)
    case Nil
    with eq show ?thesis by (simp add: named_ok_def)
  next
    case (Cons c s')
    note IH = 1(1-5) [OF Cons]
    have copy: "\<exists>o1 n1. out' = out @ o1 \<and> order' = order @ n1 \<and> named_ok d b s o1 n1"
      if r: "\<exists>o1 n1. out' = (out @ [c]) @ o1 \<and> order' = order @ n1 \<and> named_ok d b' s' o1 n1"
        and b: "b \<and> b' = (c \<noteq> CHR 0x27) \<or> \<not> b \<and> b' = (c = CHR 0x27)" for b'
    proof -
      from r obtain o1 n1 where o: "out' = (out @ [c]) @ o1" "order' = order @ n1" "named_ok d b' s' o1 n1" by blast
      with b Cons have "named_ok d b s (c # o1) n1" by (cases b) (auto simp: named_ok_def)
      with o(1,2) show ?thesis by (intro exI [of _ "c # o1"] exI [of _ n1]) simp
    qed
    consider (inside) b | (quote) "\<not> b" "c = CHR 0x27"
      | (cast) "\<not> b" "c \<noteq> CHR 0x27" "c = CHR '':'' \<and> s' \<noteq> [] \<and> hd s' = CHR '':''"
      | (param) "\<not> b" "c \<noteq> CHR 0x27" "\<not> (c = CHR '':'' \<and> s' \<noteq> [] \<and> hd s' = CHR '':'')"
          "c = CHR '':'' \<and> s' \<noteq> [] \<and> ident_start (hd s')"
      | (other) "\<not> b" "c \<noteq> CHR 0x27" "\<not> (c = CHR '':'' \<and> s' \<noteq> [] \<and> hd s' = CHR '':'')"
          "\<not> (c = CHR '':'' \<and> s' \<noteq> [] \<and> ident_start (hd s'))" by blast
    then show ?thesis
    proof cases
      case inside
      with eq Cons have "named_scan q d (c \<noteq> CHR 0x27) s' (out @ [c]) order = Inr (out', order')" by simp
      from copy [OF IH(1) [OF inside this]] inside show ?thesis by simp
    next
      case quote
      with eq Cons have "named_scan q d True s' (out @ [c]) order = Inr (out', order')" by simp
      from copy [OF IH(2) [OF quote this]] quote show ?thesis by simp
    next
      case cast
      with eq Cons have "named_scan q d False (tl s') (out @ ''::'') order = Inr (out', order')" by simp
      from IH(3) [OF cast this] obtain o1 n1 where o: "out' = (out @ ''::'') @ o1" "order' = order @ n1"
        "named_ok d False (tl s') o1 n1" by blast
      have s: "s = ''::'' @ tl s'" using Cons cast(3) by (cases s') auto
      have "named_ok d b s (''::'' @ o1) n1" unfolding s using o(3) cast(1) by (simp add: named_ok_def)
      with o(1,2) show ?thesis by (intro exI [of _ "''::'' @ o1"] exI [of _ n1]) simp
    next
      case param
      let ?n = "takeWhile ident_char s'" and ?r = "dropWhile ident_char s'"
      have dec: "?n \<in> fst ` set d" using eq Cons param by (auto simp: Let_def split: if_splits)
      with eq Cons param have "named_scan q d False ?r (out @ ''?'') (order @ [?n]) = Inr (out', order')"
        by (simp add: Let_def)
      from IH(4) [OF param refl _ this] dec obtain o1 n1 where o: "out' = (out @ ''?'') @ o1"
        "order' = (order @ [?n]) @ n1" "named_ok d False ?r o1 n1" by blast
      have s: "s = CHR '':'' # ?n @ ?r" using Cons param(4) by simp
      have "named_ok d False (CHR '':'' # ?n @ ?r) (''?'' @ o1) (?n # n1)"
        using o(3) dec by (simp add: named_ok_def marks_span)
      with o(1,2) s param(1) show ?thesis by (intro exI [of _ "''?'' @ o1"] exI [of _ "?n # n1"]) simp
    next
      case other
      with eq Cons have "named_scan q d False s' (out @ [c]) order = Inr (out', order')" by simp
      from copy [OF IH(5) [OF other this]] other show ?thesis by simp
    qed
  qed
qed

text \<open>The scanner stops only with a message, and its output stays valid UTF-8.\<close>

lemma named_scan_no_panic: "named_scan q d b s out order \<noteq> Inl CliPanic"
proof (induction q d b s out order rule: named_scan.induct)
  case (1 q d b s out order)
  then show ?case by (subst named_scan.simps) (auto simp: Let_def split: list.splits)
qed

lemma utf8_copy: "utf8_string (a @ [c] @ b) \<Longrightarrow> utf8_string ((a @ [c]) @ b)"
  by simp

lemma utf8_swap_ident:
  assumes "utf8_string (a @ CHR '':'' # n @ r)" "list_all ident_char n"
  shows "utf8_string ((a @ ''?'') @ r)"
proof -
  have n: "utf8_string n" by (rule utf8_string_all_ascii) (use assms(2) ident_char_plain in \<open>auto simp: list_all_iff\<close>)
  have "utf8_string a" "utf8_string (n @ r)" using assms(1) utf8_string_split [of "CHR '':''" a] by simp_all
  with n show ?thesis using utf8_string_split [of "CHR ''?''" a r] by (simp add: utf8_string_append)
qed

lemma named_scan_utf8:
  "utf8_string (out @ s) \<Longrightarrow> named_scan q d b s out order = Inr (out', order') \<Longrightarrow> utf8_string out'"
proof (induction q d b s out order rule: named_scan.induct)
  case (1 q d b s out order)
  note eq = 1(7) [unfolded named_scan.simps [of q d b s]]
  show ?case
  proof (cases s)
    case Nil
    with 1 eq show ?thesis by simp
  next
    case (Cons c s')
    note IH = 1(1-5) [OF Cons]
    have u: "utf8_string ((out @ [c]) @ s')" using 1(6) Cons by simp
    consider (inside) b | (quote) "\<not> b" "c = CHR 0x27"
      | (cast) "\<not> b" "c \<noteq> CHR 0x27" "c = CHR '':'' \<and> s' \<noteq> [] \<and> hd s' = CHR '':''"
      | (param) "\<not> b" "c \<noteq> CHR 0x27" "\<not> (c = CHR '':'' \<and> s' \<noteq> [] \<and> hd s' = CHR '':'')"
          "c = CHR '':'' \<and> s' \<noteq> [] \<and> ident_start (hd s')"
      | (other) "\<not> b" "c \<noteq> CHR 0x27" "\<not> (c = CHR '':'' \<and> s' \<noteq> [] \<and> hd s' = CHR '':'')"
          "\<not> (c = CHR '':'' \<and> s' \<noteq> [] \<and> ident_start (hd s'))" by blast
    then show ?thesis
    proof cases
      case inside
      show ?thesis by (rule IH(1) [OF inside u]) (use eq Cons inside in simp)
    next
      case quote
      show ?thesis by (rule IH(2) [OF quote u]) (use eq Cons quote in simp)
    next
      case cast
      have "s = ''::'' @ tl s'" using Cons cast(3) by (cases s') auto
      with 1(6) have "utf8_string ((out @ ''::'') @ tl s')" by simp
      then show ?thesis by (rule IH(3) [OF cast]) (use eq Cons cast in simp)
    next
      case param
      let ?n = "takeWhile ident_char s'" and ?r = "dropWhile ident_char s'"
      have dec: "?n \<in> fst ` set d" using eq Cons param by (auto simp: Let_def split: if_splits)
      have v: "utf8_string ((out @ ''?'') @ ?r)"
        by (rule utf8_swap_ident [where n = ?n, OF _ ident_span]) (use 1(6) Cons param(4) in simp)
      show ?thesis by (rule IH(4) [OF param refl _ v]) (use eq Cons param dec in \<open>simp_all add: Let_def\<close>)
    next
      case other
      show ?thesis by (rule IH(5) [OF other u]) (use eq Cons other in simp)
    qed
  qed
qed

text \<open>
  C31: Compiling a named query without a \<open>?\<close> of its own outside literals never panics; when it
  succeeds, replacing the \<open>?\<close>s outside literals by the placeholders of the recorded order gives the
  source text back, there are as many of them as recorded names, and the names are exactly the
  declared parameters.
\<close>

theorem named_query_roundtrip:
  assumes "utf8_string sql" "marks False sql = 0"
  shows "case compile_named_sql q sql declared of
      Inl f \<Rightarrow> f \<noteq> CliPanic
    | Inr (out, order) \<Rightarrow> fill_named False out order = sql \<and> marks False out = length order
        \<and> set order = fst ` set declared"
proof (cases "named_scan q declared False sql [] []")
  case (Inl f)
  then show ?thesis using named_scan_no_panic [of q declared False sql "[]" "[]"] by (auto simp: compile_named_sql_def)
next
  case (Inr p)
  obtain out order where p: "p = (out, order)" by (cases p)
  with Inr have scan: "named_scan q declared False sql [] [] = Inr (out, order)" by simp
  from named_scan_ok [OF scan] assms(2) have ok: "set order \<subseteq> fst ` set declared"
    "fill_named False out order = sql" "marks False out = length order" by (auto simp: named_ok_def)
  have "utf8_string out" by (rule named_scan_utf8 [OF _ scan]) (use assms(1) in simp)
  with ok scan show ?thesis
    by (auto simp: compile_named_sql_def from_utf8_def utf8_string_def find_None_iff split: option.splits)
qed

lemma named_query_roundtrip_witness:
  "fill_named False ''a = ? AND b = ':c' AND d = ?::int OR a = ?'' [''x'', ''y'', ''x'']
     = ''a = :x AND b = ':c' AND d = :y::int OR a = :x''
   \<and> compile_named_sql ''q'' ''a = :x AND b = ':c' AND d = :y::int OR a = :x'' [(''x'', TyInt), (''y'', TyText)]
     = Inr (''a = ? AND b = ':c' AND d = ?::int OR a = ?'', [''x'', ''y'', ''x''])"
proof -
  let ?s = "''a = :x AND b = ':c' AND d = :y::int OR a = :x''"
  have u: "utf8_string ?s" by (rule utf8_string_all_ascii) auto
  have m: "marks False ?s = 0" by code_simp
  have c: "compile_named_sql ''q'' ?s [(''x'', TyInt), (''y'', TyText)]
      = Inr (''a = ? AND b = ':c' AND d = ?::int OR a = ?'', [''x'', ''y'', ''x''])" by code_simp
  from named_query_roundtrip [OF u m, where q = "''q''" and declared = "[(''x'', TyInt), (''y'', TyText)]"] c show ?thesis by simp
qed

text \<open>
  Text the scanners of the backends skip is compiled all the same: a placeholder in a comment leaves a
  recorded parameter that no statement parameter takes.
\<close>

lemma named_query_comment_param:
  "compile_named_sql ''q'' ''SELECT 1 -- :a'' [(''a'', TyInt)] = Inr (''SELECT 1 -- ?'', [''a''])
   \<and> placeholders (lexemes ph_closer ''SELECT 1 -- ?'') = 0"
  by code_simp

text \<open>A \<open>?\<close> of the source is kept, so the order records fewer values than the statement takes.\<close>

lemma named_query_raw_mark:
  "compile_named_sql ''q'' ''? = :a'' [(''a'', TyInt)] = Inr (''? = ?'', [''a''])
   \<and> placeholders (lexemes ph_closer ''? = ?'') = 2"
  by code_simp

end
