(* ===== verification/CliSchemaWf.thy ===== *)
theory CliSchemaWf
  imports CliSchemaProofs
begin

text \<open>
  A schema the command line accepts is well-formed: names are identifiers, every foreign key resolves
  to columns of equal type, and every named query takes exactly its declared parameters.
\<close>

section \<open>Well-formed schemas\<close>

definition pair_resolves :: "cli_table \<Rightarrow> cli_table \<Rightarrow> string \<times> string \<Rightarrow> bool" where
  "pair_resolves t target p =
     (case (cli_column_of t (fst p), cli_column_of target (snd p)) of
        (Some a, Some b) \<Rightarrow> cd_type (cc_def a) = cd_type (cc_def b)
      | _ \<Rightarrow> False)"

definition key_resolves :: "cli_table list \<Rightarrow> cli_table \<Rightarrow> foreign_key \<Rightarrow> bool" where
  "key_resolves ts t f \<longleftrightarrow>
     fk_columns f \<noteq> [] \<and> length (fk_columns f) = length (fk_ref_columns f)
     \<and> is_ident (fk_ref_table f) \<and> list_all is_ident (fk_columns f @ fk_ref_columns f)
     \<and> (case cli_table_of ts (fk_ref_table f) of
          None \<Rightarrow> False
        | Some target \<Rightarrow> list_all (pair_resolves t target) (zip (fk_columns f) (fk_ref_columns f)))"

definition cli_table_wf :: "cli_table list \<Rightarrow> cli_table \<Rightarrow> bool" where
  "cli_table_wf ts t \<longleftrightarrow>
     is_ident (ct_name t) \<and> ct_columns t \<noteq> []
     \<and> list_all (\<lambda>c. is_ident (cc_name c) \<and> \<not> (cd_primary_key (cc_def c) \<and> cd_nullable (cc_def c))) (ct_columns t)
     \<and> list_all (key_resolves ts t) (ct_foreign_keys t)"

definition named_query_wf :: "cli_table list \<Rightarrow> named_query \<Rightarrow> bool" where
  "named_query_wf ts q \<longleftrightarrow>
     is_ident (nq_name q) \<and> list_all is_ident (map fst (nq_params q))
     \<and> set (nq_param_order q) = fst ` set (nq_params q)
     \<and> (case nq_returns q of None \<Rightarrow> True | Some r \<Rightarrow> cli_table_of ts r \<noteq> None)"

definition cli_schema_wf :: "cli_schema \<Rightarrow> bool" where
  "cli_schema_wf s \<longleftrightarrow>
     cs_tables s \<noteq> [] \<and> list_all (cli_table_wf (cs_tables s)) (cs_tables s)
     \<and> list_all (named_query_wf (cs_tables s)) (cs_queries s)"

section \<open>Lemmas\<close>

lemma map_err_Inr [simp]: "map_err f r = Inr x \<longleftrightarrow> r = Inr x"
  by (simp add: map_err_def split: sum.splits)

lemma map_r_Inr_all: "map_r f xs = Inr ys \<Longrightarrow> (\<And>x y. f x = Inr y \<Longrightarrow> P y) \<Longrightarrow> list_all P ys"
  unfolding map_r_eq_Inr by (auto simp: list_all_iff list_all2_conv_all_nth set_conv_nth)

lemma map_r_Inr_in: "map_r f xs = Inr ys \<Longrightarrow> x \<in> set xs \<Longrightarrow> \<exists>y. f x = Inr y"
  unfolding map_r_eq_Inr by (auto simp: list_all2_conv_all_nth in_set_conv_nth)

text \<open>What one step of reading checks, before the foreign keys are resolved.\<close>

definition key_shape :: "foreign_key \<Rightarrow> bool" where
  "key_shape f \<longleftrightarrow> fk_columns f \<noteq> [] \<and> length (fk_columns f) = length (fk_ref_columns f)
     \<and> is_ident (fk_ref_table f) \<and> list_all is_ident (fk_columns f @ fk_ref_columns f)"

lemma read_one_column_ok:
  "read_one_column sd tname e = Inr r \<Longrightarrow>
     is_ident (cc_name (fst r)) \<and> \<not> (cd_primary_key (cc_def (fst r)) \<and> cd_nullable (cc_def (fst r)))
     \<and> list_all key_shape (snd r)"
  by (auto simp: read_one_column_def bind_r_eq_Inr key_shape_def Let_def
      split: prod.splits option.splits if_splits)

lemma read_foreign_key_ok: "read_foreign_key tname f = Inr g \<Longrightarrow> key_shape g"
  by (auto simp: read_foreign_key_def key_shape_def split: if_splits)

lemma read_one_table_ok:
  assumes "read_one_table sd e = Inr t"
  shows "is_ident (ct_name t)" "ct_columns t \<noteq> []"
    "list_all (\<lambda>c. is_ident (cc_name c) \<and> \<not> (cd_primary_key (cc_def c) \<and> cd_nullable (cc_def c))) (ct_columns t)"
    "list_all key_shape (ct_foreign_keys t)"
proof -
  obtain tname tval where e: "e = (tname, tval)" by (cases e)
  from assms obtain rt :: raw_table and cols fks where r: "is_ident tname" "raw_columns rt \<noteq> []"
    "map_r (read_one_column sd tname) (raw_columns rt) = Inr cols"
    "map_r (read_foreign_key tname) (raw_foreign_keys rt) = Inr fks"
    "ct_name t = tname \<and> ct_columns t = map fst cols \<and> ct_foreign_keys t = concat (map snd cols) @ fks"
    unfolding e by (auto simp: read_one_table_def bind_r_eq_Inr split: if_splits)
  have c: "list_all (\<lambda>r. is_ident (cc_name (fst r))
      \<and> \<not> (cd_primary_key (cc_def (fst r)) \<and> cd_nullable (cc_def (fst r))) \<and> list_all key_shape (snd r)) cols"
    by (rule map_r_Inr_all [OF r(3)]) (rule read_one_column_ok)
  have f: "list_all key_shape fks"
    by (rule map_r_Inr_all [OF r(4)]) (rule read_foreign_key_ok)
  have "cols \<noteq> []" using r(2) map_r_length [OF r(3)] by auto
  with r(1,5) c f show "is_ident (ct_name t)" "ct_columns t \<noteq> []"
    "list_all (\<lambda>c. is_ident (cc_name c) \<and> \<not> (cd_primary_key (cc_def c) \<and> cd_nullable (cc_def c))) (ct_columns t)"
    "list_all key_shape (ct_foreign_keys t)"
    by (auto simp: list_all_iff)
qed

lemma named_scan_params: "named_scan q d b s out order = Inr (out', order') \<Longrightarrow> set order \<subseteq> fst ` set d
    \<Longrightarrow> set order' \<subseteq> fst ` set d"
  using named_scan_ok by (fastforce simp: named_ok_def)

lemma compile_named_params:
  assumes "compile_named_sql q sql d = Inr (out, order)"
  shows "set order = fst ` set d"
proof -
  from assms obtain o1 where scan: "named_scan q d False sql [] [] = Inr (o1, order)"
    by (auto simp: compile_named_sql_def bind_r_eq_Inr split: option.splits)
  with assms have "List.find (\<lambda>p. fst p \<notin> set order) d = None"
    by (simp add: compile_named_sql_def split: option.splits)
  then have "fst ` set d \<subseteq> set order" by (auto simp: find_None_iff)
  with named_scan_params [OF scan] show ?thesis by auto
qed

lemma cli_table_of_in: "t \<in> set ts \<Longrightarrow> \<exists>y. cli_table_of ts (ct_name t) = Some y"
  by (cases "cli_table_of ts (ct_name t)") (auto simp: cli_table_of_def find_None_iff)

lemma read_param_ok: "read_param sd q e = Inr p \<Longrightarrow> is_ident (fst p)"
  by (auto simp: read_param_def bind_r_eq_Inr split: prod.splits if_splits)

lemma read_one_query_ok:
  assumes "read_one_query sd ts e = Inr q"
  shows "named_query_wf ts q"
proof -
  obtain qname qval where e: "e = (qname, qval)" by (cases e)
  from assms obtain rq :: raw_query and params sql order where r: "is_ident qname"
    "map_r (read_param sd qname) (raw_params rq) = Inr params"
    "check_returns qname ts (raw_returns rq) = Inr ()"
    "compile_named_sql qname (raw_sql rq) params = Inr (sql, order)"
    "nq_name q = qname \<and> nq_params q = params \<and> nq_param_order q = order \<and> nq_returns q = raw_returns rq"
    unfolding e by (auto simp: read_one_query_def bind_r_eq_Inr split: if_splits)
  have "list_all (\<lambda>p. is_ident (fst p)) params"
    by (rule map_r_Inr_all [OF r(2)]) (rule read_param_ok)
  with r compile_named_params [OF r(4)] show ?thesis
    by (auto simp: named_query_wf_def check_returns_def list_all_iff dest: cli_table_of_in split: option.splits if_splits)
qed

lemma check_column_pair_ok: "check_column_pair t f target p = Inr u \<Longrightarrow> pair_resolves t target p"
  by (auto simp: check_column_pair_def pair_resolves_def split: prod.splits option.splits if_splits)

lemma check_foreign_key_ok:
  assumes "check_foreign_key ts t f = Inr u" "key_shape f"
  shows "key_resolves ts t f"
proof -
  from assms(1) obtain target us where tt: "cli_table_of ts (fk_ref_table f) = Some target"
    "map_r (check_column_pair t f target) (zip (fk_columns f) (fk_ref_columns f)) = Inr us"
    by (auto simp: check_foreign_key_def bind_r_eq_Inr split: option.splits)
  have "list_all (pair_resolves t target) (zip (fk_columns f) (fk_ref_columns f))"
    unfolding list_all_iff using map_r_Inr_in [OF tt(2)] check_column_pair_ok by blast
  with tt(1) assms(2) show ?thesis by (simp add: key_resolves_def key_shape_def)
qed

text \<open>
  C33: A schema that is read without an error has at least one table; its tables have identifiers for
  names, at least one column and no nullable key column; every foreign key names existing columns of
  an existing table, pairwise of equal type; and every named query returns an existing table if any
  and takes exactly its declared parameters.
\<close>

theorem parse_schema_wf:
  assumes "parse_schema sd text = Inr s"
  shows "cli_schema_wf s"
proof -
  from assms obtain raw :: raw_schema and us where r: "map_r (read_one_table sd) (raw_tables raw) = Inr (cs_tables s)"
    "cs_tables s \<noteq> []" "map_r (read_one_query sd (cs_tables s)) (raw_queries raw) = Inr (cs_queries s)"
    "map_r (\<lambda>t. map_r (check_foreign_key (cs_tables s) t) (ct_foreign_keys t)) (cs_tables s) = Inr us"
    by (auto simp: parse_schema_def check_references_def bind_r_eq_Inr split: if_splits)
  have "cli_table_wf (cs_tables s) t" if t: "t \<in> set (cs_tables s)" for t
  proof -
    have shape: "list_all (\<lambda>t. is_ident (ct_name t) \<and> ct_columns t \<noteq> [] \<and>
        list_all (\<lambda>c. is_ident (cc_name c) \<and> \<not> (cd_primary_key (cc_def c) \<and> cd_nullable (cc_def c))) (ct_columns t)
        \<and> list_all key_shape (ct_foreign_keys t)) (cs_tables s)"
      by (rule map_r_Inr_all [OF r(1)]) (intro conjI, (erule read_one_table_ok)+)
    from map_r_Inr_in [OF r(4) t] obtain vs where
      "map_r (check_foreign_key (cs_tables s) t) (ct_foreign_keys t) = Inr vs" by blast
    then have "key_resolves (cs_tables s) t f" if "f \<in> set (ct_foreign_keys t)" for f
      using map_r_Inr_in that check_foreign_key_ok shape t unfolding list_all_iff by metis
    with shape t show ?thesis by (simp add: cli_table_wf_def list_all_iff)
  qed
  moreover have "list_all (named_query_wf (cs_tables s)) (cs_queries s)"
    by (rule map_r_Inr_all [OF r(3)]) (rule read_one_query_ok)
  ultimately show ?thesis using r(2) by (simp add: cli_schema_wf_def list_all_iff)
qed

section \<open>A sample schema\<close>

text \<open>A deserialiser that looks the fields up in the objects, and a users-and-posts schema.\<close>

fun sample_type :: "json \<Rightarrow> string + column_ty" where
  "sample_type (JText t) =
     (if t = ''int'' then Inr TyInt else if t = ''float'' then Inr TyFloat
      else if t = ''text'' then Inr TyText else if t = ''bool'' then Inr TyBool else Inl ''unknown variant'')"
| "sample_type _ = Inl ''expected a string''"

definition sample_flag :: "json \<Rightarrow> string \<Rightarrow> bool" where
  "sample_flag v k = option_or (jget_as as_bool v k) False"

definition sample_text :: "json \<Rightarrow> string \<Rightarrow> string" where
  "sample_text v k = option_or (jget_as as_str v k) []"

definition sample_column :: "json \<Rightarrow> string + column_def" where
  "sample_column v =
     bind_r (sample_type (option_or (jget v ''type'') JNull)) (\<lambda>ty.
       Inr \<lparr>cd_type = ty, cd_nullable = sample_flag v ''nullable'', cd_primary_key = sample_flag v ''primaryKey'',
            cd_references = map_option (\<lambda>r. \<lparr>ref_to_table = sample_text r ''table'',
              ref_to_column = sample_text r ''column''\<rparr>) (jget v ''references'')\<rparr>)"

definition sample_serde :: "raw_schema \<Rightarrow> serde" where
  "sample_serde raw =
     \<lparr>read_schema = (\<lambda>_. Inr raw),
      read_table = (\<lambda>v. case jget_as as_object v ''columns'' of
         None \<Rightarrow> Inl ''missing field columns'' | Some cs \<Rightarrow> Inr \<lparr>raw_columns = cs, raw_foreign_keys = []\<rparr>),
      read_column = sample_column,
      read_query = (\<lambda>v. Inr \<lparr>raw_sql = sample_text v ''sql'',
         raw_params = option_or (jget_as as_object v ''params'') [], raw_returns = jget_as as_str v ''returns''\<rparr>),
      read_type = sample_type\<rparr>"

definition sample_raw :: raw_schema where
  "sample_raw =
     \<lparr>raw_tables =
        [(''posts'', JObj [(''columns'', JObj
           [(''id'', JObj [(''type'', JText ''int''), (''primaryKey'', JBool True)]),
            (''user_id'', JObj [(''type'', JText ''int''),
               (''references'', JObj [(''table'', JText ''users''), (''column'', JText ''id'')])]),
            (''title'', JObj [(''type'', JText ''text'')])])]),
         (''users'', JObj [(''columns'', JObj
           [(''id'', JObj [(''type'', JText ''int''), (''primaryKey'', JBool True)]),
            (''name'', JObj [(''type'', JText ''text'')])])])],
      raw_queries =
        [(''byName'', JObj [(''sql'', JText ''SELECT * FROM users WHERE name = :name''),
           (''params'', JObj [(''name'', JText ''text'')]), (''returns'', JText ''users'')])]\<rparr>"

definition plain_column :: "string \<Rightarrow> column_ty \<Rightarrow> bool \<Rightarrow> reference option \<Rightarrow> cli_column" where
  "plain_column nm ty pk r =
     \<lparr>cc_name = nm, cc_def = \<lparr>cd_type = ty, cd_nullable = False, cd_primary_key = pk, cd_references = r\<rparr>\<rparr>"

definition sample_cli_schema :: cli_schema where
  "sample_cli_schema =
     \<lparr>cs_tables =
        [\<lparr>ct_name = ''posts'',
          ct_columns = [plain_column ''id'' TyInt True None,
            plain_column ''user_id'' TyInt False (Some \<lparr>ref_to_table = ''users'', ref_to_column = ''id''\<rparr>),
            plain_column ''title'' TyText False None],
          ct_foreign_keys = [\<lparr>fk_columns = [''user_id''], fk_ref_table = ''users'', fk_ref_columns = [''id'']\<rparr>]\<rparr>,
         \<lparr>ct_name = ''users'',
          ct_columns = [plain_column ''id'' TyInt True None, plain_column ''name'' TyText False None],
          ct_foreign_keys = []\<rparr>],
      cs_queries =
        [\<lparr>nq_name = ''byName'', nq_source_sql = ''SELECT * FROM users WHERE name = :name'',
          nq_sql = ''SELECT * FROM users WHERE name = ?'', nq_params = [(''name'', TyText)],
          nq_param_order = [''name''], nq_returns = Some ''users''\<rparr>]\<rparr>"

lemma sample_cli_schema_reads: "parse_schema (sample_serde sample_raw) text = Inr sample_cli_schema"
proof -
  have "parse_schema (sample_serde sample_raw) [] = Inr sample_cli_schema" by code_simp
  then show ?thesis by (simp add: parse_schema_def sample_serde_def)
qed

lemma parse_schema_wf_witness: "cli_schema_wf sample_cli_schema"
  by (rule parse_schema_wf [OF sample_cli_schema_reads [of "[]"]])

end
