(* ===== verification/Codegen.thy ===== *)
theory Codegen
  imports CliSchemaWf OrmRelations
begin

text \<open>
  The part of the code generator that computes (\<open>powder-cli/src/codegen.rs\<close>, lines 12-150): the
  relations of a table, the names of the generated types and functions, and the insert statement. The
  templates into which they are printed are not modelled.
\<close>

section \<open>Relations\<close>

datatype rel_kind = BelongsTo | HasMany

record cli_relation =
  rl_name :: string
  rl_kind :: rel_kind
  rl_local_columns :: "string list"
  rl_foreign_columns :: "string list"
  rl_target_table :: string

text \<open>The same table and foreign keys as the object-relational layer reads them.\<close>

fun orm_ty :: "column_ty \<Rightarrow> col_type" where
  "orm_ty TyInt = CtInt"
| "orm_ty TyFloat = CtFloat"
| "orm_ty TyText = CtText"
| "orm_ty TyBool = CtBool"

definition orm_of_column :: "cli_column \<Rightarrow> orm_column" where
  "orm_of_column c =
     \<lparr>oc_name = cc_name c, oc_ty = orm_ty (cd_type (cc_def c)),
      oc_nullable = (cd_nullable (cc_def c) \<and> \<not> cd_primary_key (cc_def c)),
      oc_primary_key = cd_primary_key (cc_def c)\<rparr>"

definition orm_of_table :: "cli_table \<Rightarrow> orm_table" where
  "orm_of_table t = \<lparr>ot_name = ct_name t, ot_columns = map orm_of_column (ct_columns t), ot_relations = []\<rparr>"

definition orm_fk :: "cli_table \<Rightarrow> foreign_key \<Rightarrow> fk" where
  "orm_fk t f = (ct_name t, fk_columns f, fk_ref_table f, fk_ref_columns f)"

definition orm_fks :: "cli_table list \<Rightarrow> fk list" where
  "orm_fks ts = concat (map (\<lambda>t. map (orm_fk t) (ct_foreign_keys t)) ts)"

definition orm_of_relation :: "cli_relation \<Rightarrow> orm_relation" where
  "orm_of_relation r =
     \<lparr>rel_name = rl_name r, rel_belongs_to = (rl_kind r = BelongsTo), rel_local_columns = rl_local_columns r,
      rel_foreign_columns = rl_foreign_columns r, rel_target = rl_target_table r\<rparr>"

text \<open>The closure \<open>claim\<close> of the generator.\<close>

definition rel_name_taken :: "cli_table \<Rightarrow> string list \<Rightarrow> string \<Rightarrow> bool" where
  "rel_name_taken t used nm \<longleftrightarrow> nm \<in> set used \<or> nm \<in> cc_name ` set (ct_columns t)"

lemma rel_name_taken_orm: "rel_name_taken t used nm = name_taken used (orm_of_table t) nm"
  by (simp add: rel_name_taken_def name_taken_iff orm_of_table_def orm_of_column_def image_image)

function cli_claim :: "cli_table \<Rightarrow> string list \<Rightarrow> string \<Rightarrow> string" where
  "cli_claim t used nm = (if rel_name_taken t used nm then cli_claim t used (nm @ ''_'') else nm)"
  by pat_completeness auto
termination
  by (relation "measure (\<lambda>(t, used, nm). card (taken_names used (orm_of_table t) (length nm)))")
     (use taken_names_shrink rel_name_taken_orm in auto)

declare cli_claim.simps [simp del]

definition relation_base :: "foreign_key \<Rightarrow> string" where
  "relation_base f =
     (if length (fk_columns f) = 1
      then (case strip_suffix (hd (fk_columns f)) ''_id'' of
              Some s \<Rightarrow> if s \<noteq> [] then s else fk_ref_table f
            | None \<Rightarrow> fk_ref_table f)
      else fk_ref_table f)"

definition push_belongs_to ::
  "cli_table \<Rightarrow> foreign_key \<Rightarrow> string list \<times> cli_relation list \<Rightarrow> string list \<times> cli_relation list" where
  "push_belongs_to t f acc =
     (case acc of (used, out) \<Rightarrow>
        let nm = cli_claim t used (relation_base f)
        in (used @ [nm],
            out @ [\<lparr>rl_name = nm, rl_kind = BelongsTo, rl_local_columns = fk_columns f,
                    rl_foreign_columns = fk_ref_columns f, rl_target_table = fk_ref_table f\<rparr>]))"

definition push_has_many ::
  "cli_table \<Rightarrow> cli_table \<Rightarrow> foreign_key \<Rightarrow> string list \<times> cli_relation list \<Rightarrow> string list \<times> cli_relation list" where
  "push_has_many t other f acc =
     (if fk_ref_table f \<noteq> ct_name t then acc
      else (case acc of (used, out) \<Rightarrow>
        let nm = cli_claim t used (ct_name other)
        in (used @ [nm],
            out @ [\<lparr>rl_name = nm, rl_kind = HasMany, rl_local_columns = fk_ref_columns f,
                    rl_foreign_columns = fk_columns f, rl_target_table = ct_name other\<rparr>])))"

definition push_other ::
  "cli_table \<Rightarrow> cli_table \<Rightarrow> string list \<times> cli_relation list \<Rightarrow> string list \<times> cli_relation list" where
  "push_other t other acc =
     (if ct_name other = ct_name t then acc else fold (push_has_many t other) (ct_foreign_keys other) acc)"

definition relations_of :: "cli_table list \<Rightarrow> cli_table \<Rightarrow> cli_relation list" where
  "relations_of ts t =
     snd (fold (push_other t) ts (fold (push_belongs_to t) (ct_foreign_keys t) ([], [])))"

section \<open>Names and statements\<close>

text \<open>Names are identifiers, so upper case is ASCII upper case.\<close>

fun pascal_from :: "bool \<Rightarrow> string \<Rightarrow> string" where
  "pascal_from up [] = []"
| "pascal_from up (c # s) =
     (if c = CHR ''_'' then pascal_from True s
      else (if up then to_ascii_upper c else c) # pascal_from False s)"

definition pascal :: "string \<Rightarrow> string" where
  "pascal s = pascal_from True s"

definition shout :: "string \<Rightarrow> string" where
  "shout s = map to_ascii_upper s"

definition is_ascii_uppercase :: "char \<Rightarrow> bool" where
  "is_ascii_uppercase c \<longleftrightarrow> 65 \<le> code c \<and> code c \<le> 90"

definition snake_step :: "char \<Rightarrow> string \<Rightarrow> string" where
  "snake_step c out =
     (if is_ascii_uppercase c
      then (if out \<noteq> [] \<and> last out \<noteq> CHR ''_'' then out @ ''_'' else out) @ [to_ascii_lower c]
      else out @ [c])"

definition snake :: "string \<Rightarrow> string" where
  "snake s = fold snake_step s []"

definition arr_lit :: "string list \<Rightarrow> string" where
  "arr_lit xs = ''['' @ intercalate '', '' (map (\<lambda>s. [CHR 0x22] @ s @ [CHR 0x22]) xs) @ '']''"

definition column_list :: "cli_table \<Rightarrow> string" where
  "column_list t = intercalate '', '' (map cc_name (ct_columns t))"

definition insert_sql :: "cli_table \<Rightarrow> string" where
  "insert_sql t =
     ''INSERT INTO '' @ ct_name t @ '' ('' @ column_list t @ '') VALUES (''
       @ intercalate '', '' (replicate (length (ct_columns t)) ''?'') @ '')''"

text \<open>Two names of the schema can become one name of the generated code.\<close>

lemma generated_names_collide:
  "pascal ''a_b'' = pascal ''aB''" "snake ''topUsers'' = snake ''top_users''"
  by code_simp+

section \<open>Agreement with the object-relational layer\<close>

lemma cli_claim_orm: "cli_claim t used nm = claim used (orm_of_table t) nm"
proof (induction t used nm rule: cli_claim.induct)
  case (1 t used nm)
  then show ?case by (subst cli_claim.simps, subst claim.simps) (simp add: rel_name_taken_orm)
qed

lemma relation_base_orm: "relation_base f = belongs_to_base (orm_fk t f)"
  by (simp add: relation_base_def belongs_to_base_def orm_fk_def split: option.splits)

text \<open>The accumulator of the generator as the one of the object-relational layer.\<close>

definition orm_acc :: "string list \<times> cli_relation list \<Rightarrow> string list \<times> orm_relation list" where
  "orm_acc acc = (fst acc, map orm_of_relation (snd acc))"

lemma orm_acc_belongs_to:
  "orm_acc (fold (push_belongs_to t) fs acc) = fold (add_belongs_to (orm_of_table t)) (map (orm_fk t) fs) (orm_acc acc)"
proof (induction fs arbitrary: acc)
  case (Cons f fs)
  have "orm_acc (push_belongs_to t f acc) = add_belongs_to (orm_of_table t) (orm_fk t f) (orm_acc acc)"
    by (cases acc) (simp add: push_belongs_to_def add_belongs_to_def Let_def orm_acc_def orm_of_relation_def
        cli_claim_orm relation_base_orm [of f t] orm_fk_def)
  with Cons show ?case by simp
qed simp

lemma orm_acc_other:
  "orm_acc (push_other t u acc)
   = fold (add_has_many (orm_of_table t)) (map (orm_fk u) (ct_foreign_keys u)) (orm_acc acc)"
proof (cases "ct_name u = ct_name t")
  case True
  have "add_has_many (orm_of_table t) (orm_fk u f) a = a" for f a
    using True by (cases a) (simp add: add_has_many_def orm_fk_def orm_of_table_def)
  then have "fold (add_has_many (orm_of_table t)) (map (orm_fk u) fs) a = a" for fs a
    by (induction fs) simp_all
  with True show ?thesis by (simp add: push_other_def)
next
  case False
  have step: "orm_acc (push_has_many t u f a) = add_has_many (orm_of_table t) (orm_fk u f) (orm_acc a)" for f a
    using False by (cases a) (auto simp: push_has_many_def add_has_many_def Let_def orm_acc_def orm_of_relation_def
        cli_claim_orm orm_fk_def orm_of_table_def)
  have "orm_acc (fold (push_has_many t u) fs a) = fold (add_has_many (orm_of_table t)) (map (orm_fk u) fs) (orm_acc a)"
    for fs a by (induction fs arbitrary: a) (simp_all add: step)
  with False show ?thesis by (simp add: push_other_def)
qed

lemma orm_acc_others: "orm_acc (fold (push_other t) us acc) = fold (add_has_many (orm_of_table t)) (orm_fks us) (orm_acc acc)"
  by (induction us arbitrary: acc) (simp_all add: orm_fks_def orm_acc_other)

lemma own_fks:
  assumes "distinct (map ct_name ts)" "t \<in> set ts"
  shows "filter (\<lambda>f. fst f = ct_name t) (orm_fks ts) = map (orm_fk t) (ct_foreign_keys t)"
  using assms
proof (induction ts)
  case (Cons u ts)
  have none: "filter (\<lambda>f. fst f = ct_name t) (map (orm_fk v) fs) = []" if "ct_name v \<noteq> ct_name t" for v fs
    using that by (simp add: filter_empty_conv orm_fk_def)
  show ?case
  proof (cases "ct_name u = ct_name t")
    case True
    then have "u = t" "\<forall>v \<in> set ts. ct_name v \<noteq> ct_name t" using Cons.prems by (auto simp: image_iff)
    then have "filter (\<lambda>f. fst f = ct_name t) (orm_fks ts) = []" by (auto simp: filter_empty_conv orm_fks_def orm_fk_def)
    moreover have "filter (\<lambda>f. fst f = ct_name t) (map (orm_fk t) (ct_foreign_keys t)) = map (orm_fk t) (ct_foreign_keys t)"
      by (simp add: filter_True orm_fk_def)
    ultimately show ?thesis using \<open>u = t\<close> by (simp add: orm_fks_def)
  next
    case False
    with Cons none [OF False] show ?thesis by (auto simp: orm_fks_def)
  qed
qed simp

text \<open>
  C30: The relations the code generator derives for a table are, name by name and column by column, the
  ones the object-relational layer derives at run time from the same tables and foreign keys: the types
  and metadata that are generated describe what the engine loads.
\<close>

theorem relations_of_orm:
  assumes "distinct (map ct_name ts)" "t \<in> set ts"
  shows "map orm_of_relation (relations_of ts t) = ot_relations (derive_relations (orm_fks ts) (orm_of_table t))"
proof -
  have "orm_acc (fold (push_other t) ts (fold (push_belongs_to t) (ct_foreign_keys t) ([], [])))
      = fold (add_has_many (orm_of_table t)) (orm_fks ts) (fold (add_belongs_to (orm_of_table t))
          (filter (\<lambda>f. fst f = ct_name t) (orm_fks ts)) ([], []))"
    by (simp add: orm_acc_others orm_acc_belongs_to own_fks [OF assms]) (simp add: orm_acc_def)
  then have "map orm_of_relation (relations_of ts t) = snd (fold (add_has_many (orm_of_table t)) (orm_fks ts)
      (fold (add_belongs_to (orm_of_table t)) (filter (\<lambda>f. fst f = ct_name t) (orm_fks ts)) ([], [])))"
    by (simp add: relations_of_def orm_acc_def flip: snd_conv) (metis snd_conv)
  then show ?thesis by (simp add: derive_relations_def Let_def orm_of_table_def)
qed

lemma relations_of_orm_witness:
  "map rel_name (ot_relations (derive_relations (orm_fks (cs_tables sample_cli_schema))
      (orm_of_table (cs_tables sample_cli_schema ! 1)))) = [''posts'']"
proof -
  have d: "distinct (map ct_name (cs_tables sample_cli_schema))" by code_simp
  have "1 < length (cs_tables sample_cli_schema)" by code_simp
  then have t: "cs_tables sample_cli_schema ! 1 \<in> set (cs_tables sample_cli_schema)" by simp
  have "map rl_name (relations_of (cs_tables sample_cli_schema) (cs_tables sample_cli_schema ! 1)) = [''posts'']"
    by code_simp
  then show ?thesis
    unfolding relations_of_orm [OF d t, symmetric] by (simp add: orm_of_relation_def o_def)
qed

end
