(* ===== verification/Dialect.thy ===== *)
theory Dialect
  imports CliSchemaWf
begin

text \<open>
  The SQL dialects of the command line (\<open>powder-cli/src/dialect.rs\<close>): the type names, the statement
  that creates a table and the one that adds a column, per backend.
\<close>

section \<open>Dialects\<close>

datatype dialect = Sqlite | Postgres | MySql | MsSql

definition dialect_by_name :: "string \<Rightarrow> dialect cli" where
  "dialect_by_name name =
     (let n = map to_ascii_lower name
      in if n \<in> {''sqlite'', ''libsql''} then Inr Sqlite
         else if n \<in> {''postgres'', ''postgresql'', ''pg''} then Inr Postgres
         else if n \<in> {''mysql'', ''mariadb''} then Inr MySql
         else if n \<in> {''mssql'', ''sqlserver''} then Inr MsSql
         else Fail (''unknown dialect '' @ quoted n @ '' (expected sqlite, postgres, mysql, or mssql)''))"

definition sqlite_type_sql :: "column_ty \<Rightarrow> string" where
  "sqlite_type_sql ct = sql_type ct"

definition postgres_type_sql :: "column_ty \<Rightarrow> string" where
  "postgres_type_sql ct =
     (case ct of TyInt \<Rightarrow> ''BIGINT'' | TyFloat \<Rightarrow> ''DOUBLE PRECISION'' | TyText \<Rightarrow> ''TEXT'' | TyBool \<Rightarrow> ''BOOLEAN'')"

definition mysql_type_sql :: "column_ty \<Rightarrow> string" where
  "mysql_type_sql ct =
     (case ct of TyInt \<Rightarrow> ''BIGINT'' | TyFloat \<Rightarrow> ''DOUBLE'' | TyText \<Rightarrow> ''TEXT'' | TyBool \<Rightarrow> ''TINYINT(1)'')"

definition mssql_type_sql :: "column_ty \<Rightarrow> string" where
  "mssql_type_sql ct =
     (case ct of TyInt \<Rightarrow> ''BIGINT'' | TyFloat \<Rightarrow> ''FLOAT'' | TyText \<Rightarrow> ''NVARCHAR(400)'' | TyBool \<Rightarrow> ''BIT'')"

fun type_sql :: "dialect \<Rightarrow> column_ty \<Rightarrow> string" where
  "type_sql Sqlite ct = sqlite_type_sql ct"
| "type_sql Postgres ct = postgres_type_sql ct"
| "type_sql MySql ct = mysql_type_sql ct"
| "type_sql MsSql ct = mssql_type_sql ct"

section \<open>Creating a table\<close>

text \<open>A column with its type and the key or null constraint it carries itself.\<close>

definition column_part :: "bool \<Rightarrow> (cli_column \<Rightarrow> string) \<Rightarrow> cli_column \<Rightarrow> string" where
  "column_part inline_pk ty c =
     cc_name c @ '' '' @ ty c
       @ (if inline_pk \<and> cd_primary_key (cc_def c) then '' PRIMARY KEY''
          else if \<not> cd_nullable (cc_def c) then '' NOT NULL'' else [])"

definition foreign_key_part :: "foreign_key \<Rightarrow> string" where
  "foreign_key_part f =
     ''FOREIGN KEY ('' @ intercalate '', '' (fk_columns f) @ '') REFERENCES '' @ fk_ref_table f
       @ ''('' @ intercalate '', '' (fk_ref_columns f) @ '')''"

definition table_parts :: "(cli_column \<Rightarrow> string) \<Rightarrow> cli_table \<Rightarrow> string list" where
  "table_parts ty t =
     (let pk = primary_key t
      in map (column_part (length pk = 1) ty) (ct_columns t)
         @ (if 1 < length pk then [''PRIMARY KEY ('' @ intercalate '', '' (map cc_name pk) @ '')''] else [])
         @ map foreign_key_part (ct_foreign_keys t))"

definition if_not_exists :: "string \<Rightarrow> string list \<Rightarrow> string" where
  "if_not_exists nm parts = ''CREATE TABLE IF NOT EXISTS '' @ nm @ '' ('' @ intercalate '', '' parts @ '')''"

text \<open>The text columns of a key of MySQL, which cannot index bare \<open>TEXT\<close>.\<close>

definition mysql_key_member :: "cli_table \<Rightarrow> cli_column \<Rightarrow> bool" where
  "mysql_key_member t c \<longleftrightarrow>
     cd_primary_key (cc_def c) \<or> list_ex (\<lambda>f. cc_name c \<in> set (fk_columns f)) (ct_foreign_keys t)"

definition mysql_column_type :: "cli_table \<Rightarrow> cli_column \<Rightarrow> string" where
  "mysql_column_type t c =
     (if cd_type (cc_def c) = TyText \<and> mysql_key_member t c then ''VARCHAR(255)''
      else mysql_type_sql (cd_type (cc_def c)))"

definition create_table_default :: "dialect \<Rightarrow> cli_table \<Rightarrow> string" where
  "create_table_default d t = if_not_exists (ct_name t) (table_parts (\<lambda>c. type_sql d (cd_type (cc_def c))) t)"

definition create_table_mysql :: "cli_table \<Rightarrow> string" where
  "create_table_mysql t = if_not_exists (ct_name t) (table_parts (mysql_column_type t) t)"

definition create_table_mssql :: "cli_table \<Rightarrow> string" where
  "create_table_mssql t =
     ''IF OBJECT_ID('' @ [CHR 0x27] @ ct_name t @ [CHR 0x27] @ '', '' @ [CHR 0x27] @ ''U'' @ [CHR 0x27]
       @ '') IS NULL CREATE TABLE '' @ ct_name t
       @ '' ('' @ intercalate '', '' (table_parts (\<lambda>c. mssql_type_sql (cd_type (cc_def c))) t) @ '')''"

fun create_table :: "dialect \<Rightarrow> cli_table \<Rightarrow> string" where
  "create_table Sqlite t = create_table_default Sqlite t"
| "create_table Postgres t = create_table_default Postgres t"
| "create_table MySql t = create_table_mysql t"
| "create_table MsSql t = create_table_mssql t"

section \<open>Adding a column\<close>

definition key_column_error :: "string \<Rightarrow> cli_table \<Rightarrow> cli_column \<Rightarrow> string" where
  "key_column_error advice t c =
     table_fail (ct_name t)
       ('': cannot add primary key column '' @ quoted (cc_name c) @ '' to an existing table'' @ advice)"

definition alter_table :: "string \<Rightarrow> string \<Rightarrow> cli_table \<Rightarrow> cli_column \<Rightarrow> string" where
  "alter_table add ty t c = ''ALTER TABLE '' @ ct_name t @ add @ cc_name c @ '' '' @ ty"

text \<open>The clause of a column that refers to another, after the given words.\<close>

definition references_part :: "string \<Rightarrow> cli_column \<Rightarrow> string" where
  "references_part words c =
     (case cd_references (cc_def c) of
        None \<Rightarrow> []
      | Some r \<Rightarrow> words @ ref_to_table r @ ''('' @ ref_to_column r @ '')'')"

definition empty_text_default :: string where
  "empty_text_default = '' NOT NULL DEFAULT '' @ [CHR 0x27, CHR 0x27]"

definition sqlite_add_column :: "cli_table \<Rightarrow> cli_column \<Rightarrow> string cli" where
  "sqlite_add_column t c =
     (let ty = sqlite_type_sql (cd_type (cc_def c))
      in if cd_primary_key (cc_def c) then Fail (key_column_error '' (use --rebuild)'' t c)
         else Inr (alter_table '' ADD COLUMN '' ty t c
           @ (if cd_nullable (cc_def c) then []
              else if ty = ''TEXT'' then empty_text_default else '' NOT NULL DEFAULT 0'')
           @ references_part '' REFERENCES '' c))"

definition postgres_add_column :: "cli_table \<Rightarrow> cli_column \<Rightarrow> string cli" where
  "postgres_add_column t c =
     (let ty = postgres_type_sql (cd_type (cc_def c))
      in if cd_primary_key (cc_def c) then Fail (key_column_error [] t c)
         else Inr (alter_table '' ADD COLUMN '' ty t c
           @ (if cd_nullable (cc_def c) then []
              else if ty = ''TEXT'' then empty_text_default
              else if ty = ''BOOLEAN'' then '' NOT NULL DEFAULT false''
              else '' NOT NULL DEFAULT 0'')
           @ references_part '' REFERENCES '' c))"

definition mysql_add_column :: "cli_table \<Rightarrow> cli_column \<Rightarrow> string cli" where
  "mysql_add_column t c =
     (let ty = mysql_type_sql (cd_type (cc_def c))
      in if cd_primary_key (cc_def c) then Fail (key_column_error [] t c)
         else Inr (alter_table '' ADD COLUMN '' ty t c
           @ (if cd_nullable (cc_def c) then []
              else if ty = ''TEXT'' then '' NOT NULL'' else '' NOT NULL DEFAULT 0'')
           @ references_part ('', ADD FOREIGN KEY ('' @ cc_name c @ '') REFERENCES '') c))"

definition mssql_add_column :: "cli_table \<Rightarrow> cli_column \<Rightarrow> string cli" where
  "mssql_add_column t c =
     (let ty = mssql_type_sql (cd_type (cc_def c))
      in if cd_primary_key (cc_def c) then Fail (key_column_error [] t c)
         else Inr (alter_table '' ADD '' ty t c
           @ (if cd_nullable (cc_def c) then []
              else if cd_type (cc_def c) = TyText then empty_text_default else '' NOT NULL DEFAULT 0'')
           @ references_part '' REFERENCES '' c))"

fun add_column :: "dialect \<Rightarrow> cli_table \<Rightarrow> cli_column \<Rightarrow> string cli" where
  "add_column Sqlite t c = sqlite_add_column t c"
| "add_column Postgres t c = postgres_add_column t c"
| "add_column MySql t c = mysql_add_column t c"
| "add_column MsSql t c = mssql_add_column t c"

lemmas add_column_defs =
  sqlite_add_column_def postgres_add_column_def mysql_add_column_def mssql_add_column_def

lemma add_column_no_key: "add_column d t c = Inr ddl \<Longrightarrow> \<not> cd_primary_key (cc_def c)"
  by (cases d) (auto simp: add_column_defs Let_def split: if_splits)

text \<open>
  A text column that refers to another table is a \<open>VARCHAR(255)\<close> when MySQL creates its table and a
  bare \<open>TEXT\<close>, which no key may use, when the column is added later.
\<close>

lemma mysql_key_text_types:
  "create_table MySql \<lparr>ct_name = ''t'', ct_columns = [\<lparr>cc_name = ''k'', cc_def =
       \<lparr>cd_type = TyText, cd_nullable = True, cd_primary_key = False,
        cd_references = Some \<lparr>ref_to_table = ''u'', ref_to_column = ''k''\<rparr>\<rparr>\<rparr>],
     ct_foreign_keys = [\<lparr>fk_columns = [''k''], fk_ref_table = ''u'', fk_ref_columns = [''k'']\<rparr>]\<rparr>
   = ''CREATE TABLE IF NOT EXISTS t (k VARCHAR(255), FOREIGN KEY (k) REFERENCES u(k))''"
  "add_column MySql \<lparr>ct_name = ''t'', ct_columns = [], ct_foreign_keys = []\<rparr>
     \<lparr>cc_name = ''k'', cc_def = \<lparr>cd_type = TyText, cd_nullable = True, cd_primary_key = False,
        cd_references = Some \<lparr>ref_to_table = ''u'', ref_to_column = ''k''\<rparr>\<rparr>\<rparr>
   = Inr ''ALTER TABLE t ADD COLUMN k TEXT, ADD FOREIGN KEY (k) REFERENCES u(k)''"
  by code_simp+

end
