(* ===== verification/CliDb.thy ===== *)
theory CliDb
  imports Dialect Io Batch "HOL-Library.Product_Lexorder"
begin

text \<open>
  The live databases of the command line (\<open>powder-cli/src/db.rs\<close>, lines 1-760): a connection to one of
  five backends and the shape of its tables. The drivers and the catalogue queries they answer are a
  record of functions on the state of the connection; what the code makes of the rows is modelled.
\<close>

section \<open>Connections\<close>

datatype conn_kind = ConnSqlite | ConnPg | ConnMy | ConnMs | ConnLs

record db_column =
  dc_name :: string
  dc_sql_type :: string
  dc_notnull :: bool
  dc_pk :: i64

record db_foreign_key =
  df_from :: "string list"
  df_table :: string
  df_to :: "string list"

type_synonym ('s, 'a) dbio = "('s, cli_fault, 'a) eio"
type_synonym ('s, 'a) driver_call = "'s \<Rightarrow> (string + 'a) \<times> 's"

text \<open>
  What the drivers provide: a batch of statements, one statement with values, the rows of each
  catalogue query after the driver has converted the cells, and the typed queries of the two backends
  that belong to the engine. An error is the text the code shows.
\<close>

record 's driver =
  drv_kind :: conn_kind
  drv_batch :: "string \<Rightarrow> ('s, unit) driver_call"
  drv_insert :: "string \<Rightarrow> param_value list \<Rightarrow> ('s, unit) driver_call"
  drv_table_info :: "string \<Rightarrow> ('s, (string \<times> string \<times> i64 \<times> i64) list) driver_call"
  drv_fk_list :: "string \<Rightarrow> ('s, (i64 \<times> i64 \<times> string \<times> string \<times> string option) list) driver_call"
  drv_columns :: "string \<Rightarrow> ('s, (string \<times> string \<times> string) list) driver_call"
  drv_key_columns :: "string \<Rightarrow> ('s, (string \<times> i64) list) driver_call"
  drv_my_keys :: "string \<Rightarrow> ('s, (string \<times> string \<times> string \<times> string) list) driver_call"
  drv_pg_keys :: "string \<Rightarrow> ('s, db_foreign_key list) driver_call"
  drv_query :: "string \<Rightarrow> param_value list \<Rightarrow> ('s, record_batch) driver_call"

text \<open>\<open>map_err\<close> on a driver call, keeping the text.\<close>

definition driver_io :: "(string \<Rightarrow> string) \<Rightarrow> ('s, 'a) driver_call \<Rightarrow> ('s, 'a) dbio" where
  "driver_io f m s = (case m s of (r, s) \<Rightarrow> (map_err f r, s))"

definition execute_batch :: "'s driver \<Rightarrow> string \<Rightarrow> ('s, unit) dbio" where
  "execute_batch d sql = driver_io id (drv_batch d sql)"

fun kind_dialect :: "conn_kind \<Rightarrow> dialect" where
  "kind_dialect ConnSqlite = Sqlite"
| "kind_dialect ConnPg = Postgres"
| "kind_dialect ConnMy = MySql"
| "kind_dialect ConnMs = MsSql"
| "kind_dialect ConnLs = Sqlite"

section \<open>Columns\<close>

definition ascii_upper :: "string \<Rightarrow> string" where
  "ascii_upper s = map to_ascii_upper s"

definition my_normalize_type :: "string \<Rightarrow> string" where
  "my_normalize_type s =
     (let t = map to_ascii_lower s
      in if t = ''tinyint'' then ''TINYINT(1)'' else if t \<in> {''varchar'', ''char''} then ''TEXT'' else ascii_upper t)"

definition ms_normalize_type :: "string \<Rightarrow> string" where
  "ms_normalize_type s =
     (let t = map to_ascii_lower s
      in if t \<in> {''nvarchar'', ''nchar'', ''varchar'', ''char''} then ''NVARCHAR(400)'' else ascii_upper t)"

text \<open>The position of a column in the primary key, 0 when it is not part of it.\<close>

definition key_position :: "(string \<times> i64) list \<Rightarrow> string \<Rightarrow> i64" where
  "key_position pks nm = (case List.find (\<lambda>p. fst p = nm) pks of None \<Rightarrow> 0 | Some p \<Rightarrow> snd p)"

definition sqlite_column :: "string \<times> string \<times> i64 \<times> i64 \<Rightarrow> db_column" where
  "sqlite_column row =
     (case row of (nm, ty, nn, pk) \<Rightarrow>
        \<lparr>dc_name = nm, dc_sql_type = ascii_upper ty, dc_notnull = (nn \<noteq> 0), dc_pk = pk\<rparr>)"

definition catalog_column ::
  "(string \<Rightarrow> string) \<Rightarrow> (string \<times> i64) list \<Rightarrow> string \<times> string \<times> string \<Rightarrow> db_column" where
  "catalog_column norm pks row =
     (case row of (nm, ty, nulls) \<Rightarrow>
        \<lparr>dc_name = nm, dc_sql_type = norm ty, dc_notnull = (nulls = ''NO''), dc_pk = key_position pks nm\<rparr>)"

definition introspect :: "'s driver \<Rightarrow> string \<Rightarrow> ('s, db_column list) dbio" where
  "introspect d table =
     io_bind (driver_io id (drv_table_info d table)) (\<lambda>rows. io_return (map sqlite_column rows))"

definition my_introspect :: "'s driver \<Rightarrow> string \<Rightarrow> ('s, db_column list) dbio" where
  "my_introspect d table =
     io_bind (driver_io id (drv_columns d table)) (\<lambda>rows.
     io_bind (driver_io id (drv_key_columns d table)) (\<lambda>pks.
       io_return (map (catalog_column my_normalize_type pks) rows)))"

definition pg_introspect :: "'s driver \<Rightarrow> string \<Rightarrow> ('s, db_column list) dbio" where
  "pg_introspect d table =
     io_bind (driver_io id (drv_key_columns d table)) (\<lambda>pks.
     io_bind (driver_io id (drv_columns d table)) (\<lambda>rows.
       io_return (map (catalog_column ascii_upper pks) rows)))"

section \<open>Cells of the engine's own backends\<close>

definition no_panic :: "'a result \<Rightarrow> 'a cli" where
  "no_panic r = (case r of Inr x \<Rightarrow> Inr x | Inl f \<Rightarrow> Inl CliPanic)"

text \<open>\<open>batch.column(col).and_then(|c| c.str(r)).unwrap_or(d)\<close>, and the same with \<open>i64\<close> and 0.\<close>

definition text_cell :: "record_batch \<Rightarrow> string \<Rightarrow> string \<Rightarrow> nat \<Rightarrow> string cli" where
  "text_cell b col def r =
     (case batch_column b col of
        None \<Rightarrow> Inr def
      | Some c \<Rightarrow> bind_r (no_panic (get_str c r)) (\<lambda>v. Inr (option_or v def)))"

definition int_cell :: "record_batch \<Rightarrow> string \<Rightarrow> nat \<Rightarrow> i64 cli" where
  "int_cell b col r =
     (case batch_column b col of
        None \<Rightarrow> Inr 0
      | Some c \<Rightarrow> bind_r (no_panic (get_i64 c r)) (\<lambda>v. Inr (option_or v 0)))"

text \<open>The first row of the key query that names the column.\<close>

fun ms_key_position :: "record_batch \<Rightarrow> string \<Rightarrow> nat list \<Rightarrow> i64 cli" where
  "ms_key_position b nm [] = Inr 0"
| "ms_key_position b nm (r # rs) =
     bind_r (case batch_column b ''name'' of None \<Rightarrow> Inr None | Some c \<Rightarrow> no_panic (get_str c r)) (\<lambda>v.
       if v = Some nm then int_cell b ''ord'' r else ms_key_position b nm rs)"

definition ms_column :: "record_batch \<Rightarrow> record_batch \<Rightarrow> nat \<Rightarrow> db_column cli" where
  "ms_column cols pks r =
     bind_r (text_cell cols ''COLUMN_NAME'' [] r) (\<lambda>nm.
     bind_r (text_cell cols ''DATA_TYPE'' [] r) (\<lambda>ty.
     bind_r (text_cell cols ''IS_NULLABLE'' ''YES'' r) (\<lambda>nulls.
     bind_r (ms_key_position pks nm [0..<num_rows pks]) (\<lambda>pk.
       Inr \<lparr>dc_name = nm, dc_sql_type = ms_normalize_type ty, dc_notnull = (nulls = ''NO''), dc_pk = pk\<rparr>))))"

text \<open>A string literal over several lines, each but the first indented by 13 spaces in the file.\<close>

definition sql_lines :: "string list \<Rightarrow> string" where
  "sql_lines = intercalate (CHR 0x0A # replicate 13 (CHR '' ''))"

definition ms_columns_sql :: string where
  "ms_columns_sql = sql_lines
     [''SELECT COLUMN_NAME, DATA_TYPE, IS_NULLABLE'',
      ''FROM INFORMATION_SCHEMA.COLUMNS'',
      ''WHERE TABLE_NAME = ? ORDER BY ORDINAL_POSITION'']"

definition ms_keys_sql :: string where
  "ms_keys_sql = sql_lines
     [''SELECT col.name AS name, CAST(ic.key_ordinal AS BIGINT) AS ord'',
      ''FROM sys.indexes i'',
      ''JOIN sys.index_columns ic ON ic.object_id = i.object_id AND ic.index_id = i.index_id'',
      ''JOIN sys.columns col ON col.object_id = ic.object_id AND col.column_id = ic.column_id'',
      ''WHERE i.is_primary_key = 1 AND i.object_id = OBJECT_ID(?)'']"

definition ms_introspect :: "'s driver \<Rightarrow> string \<Rightarrow> ('s, db_column list) dbio" where
  "ms_introspect d table =
     io_bind (driver_io id (drv_query d ms_columns_sql [VText table])) (\<lambda>cols.
     if num_rows cols = 0 then io_return []
     else io_bind (driver_io id (drv_query d ms_keys_sql [VText table])) (\<lambda>pks.
       io_lift (map_r (ms_column cols pks) [0..<num_rows cols])))"

definition ls_column :: "record_batch \<Rightarrow> nat \<Rightarrow> db_column cli" where
  "ls_column b r =
     bind_r (text_cell b ''name'' [] r) (\<lambda>nm.
     bind_r (text_cell b ''type'' [] r) (\<lambda>ty.
     bind_r (int_cell b ''notnull'' r) (\<lambda>nn.
     bind_r (int_cell b ''pk'' r) (\<lambda>pk.
       Inr \<lparr>dc_name = nm, dc_sql_type = ascii_upper ty, dc_notnull = (nn \<noteq> 0), dc_pk = pk\<rparr>))))"

definition ls_introspect :: "'s driver \<Rightarrow> string \<Rightarrow> ('s, db_column list) dbio" where
  "ls_introspect d table =
     io_bind (driver_io id (drv_query d (''PRAGMA table_info('' @ table @ '')'') [])) (\<lambda>b.
       io_lift (map_r (ls_column b) [0..<num_rows b]))"

section \<open>Foreign keys\<close>

text \<open>
  Rows that share a key are one foreign key, its columns in the order of the rows: a row whose key
  differs from the one before opens a new foreign key.
\<close>

definition group_row ::
  "'k \<times> string \<times> string \<times> string \<Rightarrow> 'k option \<times> db_foreign_key list \<Rightarrow> 'k option \<times> db_foreign_key list" where
  "group_row row acc =
     (case (row, acc) of ((k, table, from, to), (cur, out)) \<Rightarrow>
        let out = (if cur \<noteq> Some k then out @ [\<lparr>df_from = [], df_table = table, df_to = []\<rparr>] else out);
            f = last out
        in (Some k, butlast out @ [f\<lparr>df_from := df_from f @ [from], df_to := df_to f @ [to]\<rparr>]))"

definition group_fks :: "('k \<times> string \<times> string \<times> string) list \<Rightarrow> db_foreign_key list" where
  "group_fks rows = snd (fold group_row rows (None, []))"

text \<open>The rows of \<open>PRAGMA foreign_key_list\<close>, sorted by id and sequence number.\<close>

definition by_id_and_seq :: "(i64 \<times> i64 \<times> 'a) list \<Rightarrow> (i64 \<times> i64 \<times> 'a) list" where
  "by_id_and_seq rows = sort_key (\<lambda>(id, sq, _). (sint id, sint sq)) rows"

definition introspect_fks :: "'s driver \<Rightarrow> string \<Rightarrow> ('s, db_foreign_key list) dbio" where
  "introspect_fks d table =
     io_bind (driver_io id (drv_fk_list d table)) (\<lambda>rows.
       io_return (group_fks (map (\<lambda>(id, sq, rt, from, to). (id, rt, from, option_or to []))
         (by_id_and_seq rows))))"

definition my_introspect_fks :: "'s driver \<Rightarrow> string \<Rightarrow> ('s, db_foreign_key list) dbio" where
  "my_introspect_fks d table =
     io_bind (driver_io id (drv_my_keys d table)) (\<lambda>rows.
       io_return (group_fks (map (\<lambda>(con, from, rt, to). (con, rt, from, to)) rows)))"

definition pg_introspect_fks :: "'s driver \<Rightarrow> string \<Rightarrow> ('s, db_foreign_key list) dbio" where
  "pg_introspect_fks d table = driver_io id (drv_pg_keys d table)"

definition ms_fk_row :: "record_batch \<Rightarrow> nat \<Rightarrow> (string \<times> string \<times> string \<times> string) cli" where
  "ms_fk_row b r =
     bind_r (text_cell b ''fk_name'' [] r) (\<lambda>con.
     bind_r (text_cell b ''ref_table'' [] r) (\<lambda>rt.
     bind_r (text_cell b ''from_col'' [] r) (\<lambda>from.
     bind_r (text_cell b ''ref_col'' [] r) (\<lambda>to. Inr (con, rt, from, to)))))"

definition ms_fks_sql :: string where
  "ms_fks_sql = sql_lines
     [''SELECT fk.name AS fk_name, pc.name AS from_col, rt.name AS ref_table, rc.name AS ref_col'',
      ''FROM sys.foreign_keys fk'',
      ''JOIN sys.foreign_key_columns fkc ON fkc.constraint_object_id = fk.object_id'',
      ''JOIN sys.columns pc ON pc.object_id = fkc.parent_object_id AND pc.column_id = fkc.parent_column_id'',
      ''JOIN sys.tables rt ON rt.object_id = fk.referenced_object_id'',
      ''JOIN sys.columns rc ON rc.object_id = fkc.referenced_object_id AND rc.column_id = fkc.referenced_column_id'',
      ''WHERE fk.parent_object_id = OBJECT_ID(?)'',
      ''ORDER BY fk.name, fkc.constraint_column_id'']"

definition ms_introspect_fks :: "'s driver \<Rightarrow> string \<Rightarrow> ('s, db_foreign_key list) dbio" where
  "ms_introspect_fks d table =
     io_bind (driver_io id (drv_query d ms_fks_sql [VText table])) (\<lambda>b.
       io_bind (io_lift (map_r (ms_fk_row b) [0..<num_rows b])) (\<lambda>rows. io_return (group_fks rows)))"

definition ls_fk_row :: "record_batch \<Rightarrow> nat \<Rightarrow> (i64 \<times> i64 \<times> string \<times> string \<times> string) cli" where
  "ls_fk_row b r =
     bind_r (int_cell b ''id'' r) (\<lambda>id.
     bind_r (int_cell b ''seq'' r) (\<lambda>sq.
     bind_r (text_cell b ''table'' [] r) (\<lambda>rt.
     bind_r (text_cell b ''from'' [] r) (\<lambda>from.
     bind_r (text_cell b ''to'' [] r) (\<lambda>to. Inr (id, sq, rt, from, to))))))"

definition ls_introspect_fks :: "'s driver \<Rightarrow> string \<Rightarrow> ('s, db_foreign_key list) dbio" where
  "ls_introspect_fks d table =
     io_bind (driver_io id (drv_query d (''PRAGMA foreign_key_list('' @ table @ '')'') [])) (\<lambda>b.
       io_bind (io_lift (map_r (ls_fk_row b) [0..<num_rows b])) (\<lambda>rows.
         io_return (group_fks (map (\<lambda>(id, sq, rt, from, to). (id, rt, from, to)) (by_id_and_seq rows)))))"

section \<open>Any connection\<close>

definition any_columns :: "'s driver \<Rightarrow> string \<Rightarrow> ('s, db_column list) dbio" where
  "any_columns d table =
     (case drv_kind d of
        ConnSqlite \<Rightarrow> introspect d table
      | ConnPg \<Rightarrow> pg_introspect d table
      | ConnMy \<Rightarrow> my_introspect d table
      | ConnMs \<Rightarrow> ms_introspect d table
      | ConnLs \<Rightarrow> ls_introspect d table)"

definition any_fks :: "'s driver \<Rightarrow> string \<Rightarrow> ('s, db_foreign_key list) dbio" where
  "any_fks d table =
     (case drv_kind d of
        ConnSqlite \<Rightarrow> introspect_fks d table
      | ConnPg \<Rightarrow> pg_introspect_fks d table
      | ConnMy \<Rightarrow> my_introspect_fks d table
      | ConnMs \<Rightarrow> ms_introspect_fks d table
      | ConnLs \<Rightarrow> ls_introspect_fks d table)"

end
