(* ===== verification/Migrate.thy ===== *)
theory Migrate
  imports CliDb
begin

text \<open>
  The operations on a live database (\<open>powder-cli/src/db.rs\<close>, lines 160-273 and 762-1034): creating
  and extending tables, rebuilding a table whose shape differs, comparing the database with the
  schema, and seeding it.
\<close>

section \<open>Additive migration\<close>

text \<open>Runs a statement, unless this is a dry run, and records it.\<close>

definition apply_ddl :: "'s driver \<Rightarrow> bool \<Rightarrow> string \<Rightarrow> string list \<Rightarrow> ('s, string list) dbio" where
  "apply_ddl d apply ddl applied =
     io_bind (if apply then execute_batch d ddl else io_return ()) (\<lambda>_. io_return (applied @ [ddl]))"

definition migrate_column ::
  "'s driver \<Rightarrow> bool \<Rightarrow> cli_table \<Rightarrow> db_column list \<Rightarrow> cli_column \<Rightarrow> string list \<Rightarrow> ('s, string list) dbio" where
  "migrate_column d apply t existing c applied =
     (if cc_name c \<in> dc_name ` set existing then io_return applied
      else io_bind (io_lift (add_column (kind_dialect (drv_kind d)) t c)) (\<lambda>ddl. apply_ddl d apply ddl applied))"

definition migrate_table ::
  "'s driver \<Rightarrow> bool \<Rightarrow> cli_table \<Rightarrow> string list \<Rightarrow> ('s, string list) dbio" where
  "migrate_table d apply t applied =
     io_bind (any_columns d (ct_name t)) (\<lambda>existing.
       if existing = [] then apply_ddl d apply (create_table (kind_dialect (drv_kind d)) t) applied
       else io_fold (migrate_column d apply t existing) (ct_columns t) applied)"

definition migrate_inner :: "'s driver \<Rightarrow> cli_schema \<Rightarrow> bool \<Rightarrow> ('s, string list) dbio" where
  "migrate_inner d s apply = io_fold (migrate_table d apply) (tables_in_dependency_order s) []"

definition migrate :: "'s driver \<Rightarrow> cli_schema \<Rightarrow> ('s, string list) dbio" where
  "migrate d s = migrate_inner d s True"

definition migrate_plan :: "'s driver \<Rightarrow> cli_schema \<Rightarrow> ('s, string list) dbio" where
  "migrate_plan d s = migrate_inner d s False"

section \<open>Comparing the database with the schema\<close>

definition bool_text :: "bool \<Rightarrow> string" where
  "bool_text b = (if b then ''true'' else ''false'')"

text \<open>The 1-based position of a column in the primary key, 0 outside it.\<close>

definition wanted_pk :: "cli_table \<Rightarrow> string \<Rightarrow> i64" where
  "wanted_pk t nm =
     (case position (\<lambda>c. cc_name c = nm) (primary_key t) of None \<Rightarrow> 0 | Some i \<Rightarrow> word_of_nat i + 1)"

definition check_column ::
  "(column_ty \<Rightarrow> string) \<Rightarrow> cli_table \<Rightarrow> db_column list \<Rightarrow> cli_column \<Rightarrow> string list" where
  "check_column expected t existing c =
     (case List.find (\<lambda>e. dc_name e = cc_name c) existing of
        None \<Rightarrow> [table_fail (ct_name t) ('': column '' @ quoted (cc_name c) @ '' missing from database'')]
      | Some db \<Rightarrow>
          (let want_type = expected (cd_type (cc_def c));
               want_pk = wanted_pk t (cc_name c);
               want_notnull = (\<not> cd_nullable (cc_def c))
           in (if dc_sql_type db \<noteq> want_type
               then [column_fail (ct_name t) (cc_name c) ('': type is '' @ quoted (dc_sql_type db)
                       @ '' in database, schema wants '' @ quoted want_type)] else [])
              @ (if dc_pk db \<noteq> want_pk
                 then [column_fail (ct_name t) (cc_name c) ('': primary-key position mismatch (db: ''
                         @ i64_to_string (dc_pk db) @ '', schema: '' @ i64_to_string want_pk @ '')'')] else [])
              @ (if \<not> cd_primary_key (cc_def c) \<and> dc_notnull db \<noteq> want_notnull
                 then [column_fail (ct_name t) (cc_name c) ('': nullability mismatch (db notnull: ''
                         @ bool_text (dc_notnull db) @ '', schema nullable: ''
                         @ bool_text (cd_nullable (cc_def c)) @ '')'')] else [])))"

definition check_table :: "cli_table \<Rightarrow> db_column list \<Rightarrow> (column_ty \<Rightarrow> string) \<Rightarrow> string list" where
  "check_table t existing expected =
     concat (map (check_column expected t existing) (ct_columns t))
     @ map (\<lambda>e. table_fail (ct_name t) ('': database has extra column '' @ quoted (dc_name e) @ '' not in schema''))
         (filter (\<lambda>e. dc_name e \<notin> cc_name ` set (ct_columns t)) existing)"

definition fk_matches :: "foreign_key \<Rightarrow> db_foreign_key \<Rightarrow> bool" where
  "fk_matches f db \<longleftrightarrow>
     fk_columns f = df_from db \<and> fk_ref_table f = df_table db
     \<and> (list_all (\<lambda>s. s = []) (df_to db) \<or> fk_ref_columns f = df_to db)"

definition fk_text :: "string list \<Rightarrow> string \<Rightarrow> string list \<Rightarrow> string" where
  "fk_text from table to =
     ''('' @ intercalate '', '' from @ '') -> '' @ quoted table @ ''('' @ intercalate '', '' to @ '')''"

definition check_fk_lists :: "cli_table \<Rightarrow> db_foreign_key list \<Rightarrow> string list" where
  "check_fk_lists t dbs =
     map (\<lambda>f. table_fail (ct_name t) ('': foreign key ''
            @ fk_text (fk_columns f) (fk_ref_table f) (fk_ref_columns f) @ '' missing from database''))
       (filter (\<lambda>f. \<not> list_ex (fk_matches f) dbs) (ct_foreign_keys t))
     @ map (\<lambda>db. table_fail (ct_name t) ('': database has extra foreign key ''
            @ fk_text (df_from db) (df_table db) (df_to db) @ '' not in schema''))
         (filter (\<lambda>db. \<not> list_ex (\<lambda>f. fk_matches f db) (ct_foreign_keys t)) dbs)"

definition expected_type :: "conn_kind \<Rightarrow> column_ty \<Rightarrow> string" where
  "expected_type k ct =
     (case k of
        ConnSqlite \<Rightarrow> sql_type ct
      | ConnLs \<Rightarrow> sql_type ct
      | ConnPg \<Rightarrow> type_sql Postgres ct
      | ConnMy \<Rightarrow> type_sql MySql ct
      | ConnMs \<Rightarrow> type_sql MsSql ct)"

definition validate_table :: "'s driver \<Rightarrow> cli_table \<Rightarrow> string list \<Rightarrow> ('s, string list) dbio" where
  "validate_table d t problems =
     io_bind (any_columns d (ct_name t)) (\<lambda>existing.
       if existing = [] then io_return (problems @ [table_fail (ct_name t) '': missing from database''])
       else io_bind (any_fks d (ct_name t)) (\<lambda>fks.
         io_return (problems @ check_table t existing (expected_type (drv_kind d)) @ check_fk_lists t fks)))"

definition validate :: "'s driver \<Rightarrow> cli_schema \<Rightarrow> ('s, string list) dbio" where
  "validate d s = io_fold (validate_table d) (cs_tables s) []"

section \<open>Rebuilding\<close>

text \<open>What a column of the new table is filled from.\<close>

definition rebuild_source :: "db_column list \<Rightarrow> cli_column \<Rightarrow> string" where
  "rebuild_source existing c =
     (let dflt = (if sql_type (cd_type (cc_def c)) = ''TEXT'' then [CHR 0x27, CHR 0x27] else ''0'')
      in if cc_name c \<in> dc_name ` set existing
         then (if cd_nullable (cc_def c) then cc_name c else ''COALESCE('' @ cc_name c @ '', '' @ dflt @ '')'')
         else dflt)"

definition rebuild_statements :: "cli_table \<Rightarrow> db_column list \<Rightarrow> string list" where
  "rebuild_statements t existing =
     (let tmp = ''__powder_rebuild_'' @ ct_name t
      in [create_table Sqlite (t\<lparr>ct_name := tmp\<rparr>),
          ''INSERT INTO '' @ tmp @ '' ('' @ intercalate '', '' (map cc_name (ct_columns t)) @ '') SELECT ''
            @ intercalate '', '' (map (rebuild_source existing) (ct_columns t)) @ '' FROM '' @ ct_name t,
          ''DROP TABLE '' @ ct_name t,
          ''ALTER TABLE '' @ tmp @ '' RENAME TO '' @ ct_name t])"

definition run_steps :: "'s driver \<Rightarrow> string list \<Rightarrow> ('s, string list) dbio" where
  "run_steps d sqls =
     io_fold (\<lambda>sql steps. io_bind (execute_batch d sql) (\<lambda>_. io_return (steps @ [sql]))) sqls []"

definition rebuild_table :: "'s driver \<Rightarrow> cli_table \<Rightarrow> string list \<Rightarrow> ('s, string list) dbio" where
  "rebuild_table d t applied =
     io_bind (introspect d (ct_name t)) (\<lambda>existing.
     io_bind (introspect_fks d (ct_name t)) (\<lambda>fks.
     if check_table t existing sql_type @ check_fk_lists t fks = [] then io_return applied
     else
       io_bind (execute_batch d ''BEGIN'') (\<lambda>_.
       io_bind (io_try (run_steps d (rebuild_statements t existing))) (\<lambda>r.
         case r of
           Inr steps \<Rightarrow> io_bind (execute_batch d ''COMMIT'') (\<lambda>_. io_return (applied @ steps))
         | Inl CliPanic \<Rightarrow> io_lift (Inl CliPanic)
         | Inl (CliError e) \<Rightarrow>
             io_bind (io_try (execute_batch d ''ROLLBACK'')) (\<lambda>_.
               io_lift (Fail (''rebuild of '' @ quoted (ct_name t) @ '' failed: '' @ e)))))))"

definition migrate_rebuild :: "'s driver \<Rightarrow> cli_schema \<Rightarrow> ('s, string list) dbio" where
  "migrate_rebuild d s =
     io_bind (migrate d s) (\<lambda>applied.
     if drv_kind d \<noteq> ConnSqlite
     then io_lift (Fail (''--rebuild is SQLite-only for now; on server databases express destructive changes ''
            @ ''as explicit ALTER statements''))
     else
       io_bind (execute_batch d ''PRAGMA foreign_keys = OFF'') (\<lambda>_.
       io_bind (io_try (io_fold (rebuild_table d) (tables_in_dependency_order s) applied)) (\<lambda>r.
       io_bind (io_try (execute_batch d ''PRAGMA foreign_keys = ON'')) (\<lambda>_. io_lift r))))"

section \<open>Seeding\<close>

definition seed_fail :: "string \<Rightarrow> string \<Rightarrow> string" where
  "seed_fail table m = ''seed '' @ quoted table @ m"

text \<open>The converters \<open>json_to_value\<close>, \<open>json_to_mysql\<close>, \<open>json_to_sqlite\<close> and \<open>json_to_pg\<close>.\<close>

definition seed_bool :: "conn_kind \<Rightarrow> bool \<Rightarrow> param_value" where
  "seed_bool k b = (if k \<in> {ConnSqlite, ConnMy} then VInt (if b then 1 else 0) else VBool b)"

definition seed_value :: "json_lib \<Rightarrow> conn_kind \<Rightarrow> string \<Rightarrow> json \<Rightarrow> param_value cli" where
  "seed_value lib k table v =
     (case v of
        JNull \<Rightarrow> Inr VNull
      | JBool b \<Rightarrow> Inr (seed_bool k b)
      | JNum n \<Rightarrow>
          (case number_i64 n of
             Some i \<Rightarrow> Inr (VInt i)
           | None \<Rightarrow> (case number_f64 n of Some f \<Rightarrow> Inr (VFloat f) | None \<Rightarrow> Inl CliPanic))
      | JText s \<Rightarrow> Inr (VText s)
      | _ \<Rightarrow> Fail (seed_fail table ('': unsupported value '' @ json_text lib v)))"

definition seed_marks :: "conn_kind \<Rightarrow> nat \<Rightarrow> string list" where
  "seed_marks k n = (if k = ConnPg then map (\<lambda>i. CHR ''$'' # nat_to_string i) [1..<n + 1] else replicate n ''?'')"

definition insert_json ::
  "json_lib \<Rightarrow> 's driver \<Rightarrow> string \<Rightarrow> json_object \<Rightarrow> ('s, unit) dbio" where
  "insert_json lib d table obj =
     io_bind (io_lift (map_r (seed_value lib (drv_kind d) table) (map snd obj))) (\<lambda>values.
       driver_io (\<lambda>e. seed_fail table ('': '' @ e))
         (drv_insert d (''INSERT INTO '' @ table @ '' ('' @ intercalate '', '' (map fst obj) @ '') VALUES (''
            @ intercalate '', '' (seed_marks (drv_kind d) (length obj)) @ '')'') values))"

definition seed_row :: "json_lib \<Rightarrow> 's driver \<Rightarrow> string \<Rightarrow> json \<Rightarrow> nat \<Rightarrow> ('s, nat) dbio" where
  "seed_row lib d table row inserted =
     (case as_object row of
        None \<Rightarrow> io_lift (Fail (seed_fail table '': rows must be objects''))
      | Some obj \<Rightarrow> io_bind (insert_json lib d table obj) (\<lambda>_. io_return (inserted + 1)))"

definition seed_table :: "json_lib \<Rightarrow> 's driver \<Rightarrow> string \<times> json \<Rightarrow> nat \<Rightarrow> ('s, nat) dbio" where
  "seed_table lib d e inserted =
     (case e of (table, rows) \<Rightarrow>
        (case as_array rows of
           None \<Rightarrow> io_lift (Fail (seed_fail table '': expected an array of row objects''))
         | Some rows \<Rightarrow> io_fold (seed_row lib d table) rows inserted))"

definition seed ::
  "json_lib \<Rightarrow> (string \<Rightarrow> string + json_object) \<Rightarrow> 's driver \<Rightarrow> string \<Rightarrow> string \<Rightarrow> ('s, nat) dbio" where
  "seed lib read_map d path contents =
     (if strip_suffix path ''.sql'' \<noteq> None then io_bind (execute_batch d contents) (\<lambda>_. io_return 0)
      else io_bind (io_lift (map_err (\<lambda>e. ''invalid seed JSON: '' @ e) (read_map contents))) (\<lambda>doc.
        io_fold (seed_table lib d) doc 0))"

end
