(* ===== verification/MigrateProofs.thy ===== *)
theory MigrateProofs
  imports Migrate
begin

text \<open>
  What migrations do, stated from what the database reports of the tables of the schema: the statements
  a table lacks, the dry run that lists them and the run that executes them. The only thing asked of
  the database is that a statement on one table of the schema leaves what it reports of the others.
\<close>

section \<open>What a database reports\<close>

text \<open>Introspection of a table answers these columns and leaves the connection as it is.\<close>

definition reports :: "'s driver \<Rightarrow> string \<Rightarrow> db_column list \<Rightarrow> 's \<Rightarrow> bool" where
  "reports d n cols s \<longleftrightarrow> any_columns d n s = (Inr cols, s)"

definition table_ddl :: "'s driver \<Rightarrow> cli_table \<Rightarrow> string set" where
  "table_ddl d t =
     {create_table (kind_dialect (drv_kind d)) t}
     \<union> {ddl. \<exists>c \<in> set (ct_columns t). add_column (kind_dialect (drv_kind d)) t c = Inr ddl}"

definition isolated :: "'s driver \<Rightarrow> cli_schema \<Rightarrow> bool" where
  "isolated d sch \<longleftrightarrow>
     (\<forall>t \<in> set (cs_tables sch). \<forall>t' \<in> set (cs_tables sch). ct_name t' \<noteq> ct_name t \<longrightarrow>
        (\<forall>ddl \<in> table_ddl d t. \<forall>s s' cols. drv_batch d ddl s = (Inr (), s') \<longrightarrow>
           reports d (ct_name t') cols s \<longrightarrow> reports d (ct_name t') cols s'))"

text \<open>
  The statements a table lacks: one that creates it when no column is reported, or else one for every
  declared column that is not reported, in order. A key column cannot be added.
\<close>

definition missing_ddl :: "dialect \<Rightarrow> cli_table \<Rightarrow> db_column list \<Rightarrow> string list cli" where
  "missing_ddl dial t live =
     (if live = [] then Inr [create_table dial t]
      else map_r (add_column dial t) (filter (\<lambda>c. cc_name c \<notin> dc_name ` set live) (ct_columns t)))"

definition planned :: "'s driver \<Rightarrow> cli_schema \<Rightarrow> (cli_table \<Rightarrow> db_column list) \<Rightarrow> string list cli" where
  "planned d sch live =
     (case map_r (\<lambda>t. missing_ddl (kind_dialect (drv_kind d)) t (live t)) (tables_in_dependency_order sch) of
        Inl e \<Rightarrow> Inl e
      | Inr ddls \<Rightarrow> Inr (concat ddls))"

text \<open>Statements executed one after another up to the first that fails.\<close>

fun run_ddls :: "'s driver \<Rightarrow> string list \<Rightarrow> 's \<Rightarrow> unit cli \<times> 's" where
  "run_ddls d [] s = (Inr (), s)"
| "run_ddls d (sql # sqls) s =
     (case execute_batch d sql s of
        (Inl e, s') \<Rightarrow> (Inl e, s')
      | (Inr _, s') \<Rightarrow> run_ddls d sqls s')"

text \<open>What a run that executes a list answers: the list, when none fails.\<close>

definition after_ddls :: "'s driver \<Rightarrow> string list \<Rightarrow> string list \<Rightarrow> 's \<Rightarrow> string list cli \<times> 's" where
  "after_ddls d a ddls s = (case run_ddls d ddls s of (r, s') \<Rightarrow> (bind_r r (\<lambda>_. Inr (a @ ddls)), s'))"

lemma execute_batch_Inr: "execute_batch d sql s = (Inr (), s') \<longleftrightarrow> drv_batch d sql s = (Inr (), s')"
  by (auto simp: execute_batch_def driver_io_def map_err_def split: prod.splits sum.splits)

lemma io_bind_run: "m s = (Inr x, s') \<Longrightarrow> io_bind m f s = f x s'"
  by (simp add: io_bind_def)

lemma after_ddls_Nil [simp]: "after_ddls d a [] s = (Inr a, s)"
  by (simp add: after_ddls_def)

lemma run_ddls_append:
  "run_ddls d (xs @ ys) s = (case run_ddls d xs s of (Inl e, s') \<Rightarrow> (Inl e, s') | (Inr _, s') \<Rightarrow> run_ddls d ys s')"
  by (induction xs arbitrary: s) (auto split: prod.splits sum.splits)

lemma after_ddls_append:
  "after_ddls d a (xs @ ys) s = io_bind (after_ddls d a xs) (\<lambda>b. after_ddls d b ys) s"
  by (auto simp: after_ddls_def run_ddls_append io_bind_def split: prod.splits sum.splits)

lemma apply_ddl_True: "apply_ddl d True ddl a s = after_ddls d a [ddl] s"
  by (auto simp: apply_ddl_def after_ddls_def io_bind_def io_lift_def split: prod.splits sum.splits)

lemma apply_ddl_False [simp]: "apply_ddl d False ddl a s = (Inr (a @ [ddl]), s)"
  by (simp add: apply_ddl_def io_bind_def io_lift_def)

section \<open>One table\<close>

lemma plan_columns:
  "io_fold (migrate_column d False t ex) cs a s =
     (bind_r (map_r (add_column (kind_dialect (drv_kind d)) t) (filter (\<lambda>c. cc_name c \<notin> dc_name ` set ex) cs))
        (\<lambda>ddls. Inr (a @ ddls)), s)"
proof (induction cs arbitrary: a)
  case Nil
  then show ?case by (simp add: io_lift_def)
next
  case (Cons c cs)
  show ?case
  proof (cases "cc_name c \<in> dc_name ` set ex")
    case True
    with Cons show ?thesis by (simp add: migrate_column_def)
  next
    case False
    with Cons show ?thesis
      by (cases "add_column (kind_dialect (drv_kind d)) t c")
        (simp_all add: migrate_column_def io_bind_def io_lift_def bind_r_assoc)
  qed
qed

lemma run_columns:
  "map_r (add_column (kind_dialect (drv_kind d)) t) (filter (\<lambda>c. cc_name c \<notin> dc_name ` set ex) cs) = Inr ddls
   \<Longrightarrow> io_fold (migrate_column d True t ex) cs a s = after_ddls d a ddls s"
proof (induction cs arbitrary: a s ddls)
  case Nil
  then show ?case by (simp add: io_lift_def)
next
  case (Cons c cs)
  show ?case
  proof (cases "cc_name c \<in> dc_name ` set ex")
    case True
    with Cons show ?thesis by (simp add: migrate_column_def)
  next
    case False
    with Cons.prems obtain x xs where x: "add_column (kind_dialect (drv_kind d)) t c = Inr x" "ddls = x # xs"
      "map_r (add_column (kind_dialect (drv_kind d)) t) (filter (\<lambda>c. cc_name c \<notin> dc_name ` set ex) cs) = Inr xs"
      by (auto simp: bind_r_eq_Inr)
    have "migrate_column d True t ex c a = after_ddls d a [x]"
      using False x(1) by (auto simp: migrate_column_def apply_ddl_True fun_eq_iff io_bind_def io_lift_def)
    moreover have "io_fold (migrate_column d True t ex) cs = (\<lambda>b. after_ddls d b xs)"
      using Cons.IH [OF x(3)] by (intro ext)
    ultimately have "io_fold (migrate_column d True t ex) (c # cs) a s
        = io_bind (after_ddls d a [x]) (\<lambda>b. after_ddls d b xs) s" by simp
    then show ?thesis using after_ddls_append [of d a "[x]" xs s] x(2) by simp
  qed
qed

lemma failed_columns:
  "\<not> is_ok (map_r (add_column (kind_dialect (drv_kind d)) t) (filter (\<lambda>c. cc_name c \<notin> dc_name ` set ex) cs))
   \<Longrightarrow> \<not> is_ok (fst (io_fold (migrate_column d True t ex) cs a s))"
proof (induction cs arbitrary: a s)
  case (Cons c cs)
  obtain r s1 where step: "migrate_column d True t ex c a s = (r, s1)"
    by (cases "migrate_column d True t ex c a s")
  show ?case
  proof (cases r)
    case (Inl e)
    with step show ?thesis by (simp add: io_bind_def)
  next
    case (Inr b)
    then have "\<not> is_ok (map_r (add_column (kind_dialect (drv_kind d)) t) (filter (\<lambda>c. cc_name c \<notin> dc_name ` set ex) cs))"
      using Cons.prems step
      by (cases "add_column (kind_dialect (drv_kind d)) t c")
        (auto simp: migrate_column_def io_bind_def io_lift_def is_ok_iff bind_r_eq_Inr split: if_splits)
    from Cons.IH [OF this, of b s1] step Inr show ?thesis by (simp add: io_bind_def)
  qed
qed simp

lemma plan_table:
  assumes "reports d (ct_name t) live s"
  shows "migrate_table d False t a s =
    (bind_r (missing_ddl (kind_dialect (drv_kind d)) t live) (\<lambda>ddls. Inr (a @ ddls)), s)"
  using assms by (simp add: migrate_table_def io_bind_run reports_def missing_ddl_def plan_columns)

lemma run_table:
  assumes "reports d (ct_name t) live s" "missing_ddl (kind_dialect (drv_kind d)) t live = Inr ddls"
  shows "migrate_table d True t a s = after_ddls d a ddls s"
  using assms run_columns [of d t live "ct_columns t" ddls a s]
  by (auto simp: migrate_table_def io_bind_run reports_def missing_ddl_def apply_ddl_True split: if_splits)

lemma failed_table:
  assumes "reports d (ct_name t) live s" "\<not> is_ok (missing_ddl (kind_dialect (drv_kind d)) t live)"
  shows "\<not> is_ok (fst (migrate_table d True t a s))"
  using assms failed_columns [of d t live "ct_columns t" a s]
  by (auto simp: migrate_table_def io_bind_run reports_def missing_ddl_def split: if_splits)

lemma missing_ddl_own:
  "missing_ddl (kind_dialect (drv_kind d)) t live = Inr ddls \<Longrightarrow> set ddls \<subseteq> table_ddl d t"
  by (auto simp: missing_ddl_def table_ddl_def map_r_eq_Inr list_all2_conv_all_nth in_set_conv_nth split: if_splits)
    (metis filter_is_subset nth_mem subsetD)

section \<open>A whole schema\<close>

lemma run_ddls_isolated:
  assumes "isolated d sch" "t \<in> set (cs_tables sch)" "t' \<in> set (cs_tables sch)" "ct_name t' \<noteq> ct_name t"
  shows "set ddls \<subseteq> table_ddl d t \<Longrightarrow> run_ddls d ddls s = (Inr (), s') \<Longrightarrow>
    reports d (ct_name t') cols s \<Longrightarrow> reports d (ct_name t') cols s'"
proof (induction ddls arbitrary: s)
  case (Cons x xs)
  from Cons.prems(2) obtain s1 where s1: "execute_batch d x s = (Inr (), s1)" "run_ddls d xs s1 = (Inr (), s')"
    by (auto split: prod.splits sum.splits)
  have "reports d (ct_name t') cols s1"
    using assms Cons.prems(1,3) s1(1) unfolding isolated_def execute_batch_Inr by (metis list.set_intros(1) subsetD)
  with Cons.IH [OF _ s1(2)] Cons.prems(1) show ?case by simp
qed simp

lemma plan_tables:
  assumes "\<forall>t \<in> set ts. reports d (ct_name t) (live t) s"
  shows "io_fold (migrate_table d False) ts a s =
    (bind_r (map_r (\<lambda>t. missing_ddl (kind_dialect (drv_kind d)) t (live t)) ts) (\<lambda>ddls. Inr (a @ concat ddls)), s)"
  using assms
proof (induction ts arbitrary: a)
  case Nil
  then show ?case by (simp add: io_lift_def)
next
  case (Cons t ts)
  from Cons.prems have t: "reports d (ct_name t) (live t) s" by simp
  show ?case
  proof (cases "missing_ddl (kind_dialect (drv_kind d)) t (live t)")
    case (Inl e)
    with plan_table [OF t, of a] show ?thesis by (simp add: io_bind_def)
  next
    case (Inr x)
    with plan_table [OF t, of a] Cons show ?thesis by (simp add: io_bind_def bind_r_assoc)
  qed
qed

lemma run_tables:
  assumes iso: "isolated d sch"
  shows "set ts \<subseteq> set (cs_tables sch) \<Longrightarrow> distinct (map ct_name ts)
    \<Longrightarrow> \<forall>t \<in> set ts. reports d (ct_name t) (live t) s \<Longrightarrow>
    (case map_r (\<lambda>t. missing_ddl (kind_dialect (drv_kind d)) t (live t)) ts of
       Inl _ \<Rightarrow> \<not> is_ok (fst (io_fold (migrate_table d True) ts a s))
     | Inr ddls \<Rightarrow> io_fold (migrate_table d True) ts a s = after_ddls d a (concat ddls) s)"
proof (induction ts arbitrary: a s)
  case Nil
  then show ?case by (simp add: io_lift_def)
next
  case (Cons t ts)
  let ?m = "\<lambda>t. missing_ddl (kind_dialect (drv_kind d)) t (live t)"
  from Cons.prems(3) have t: "reports d (ct_name t) (live t) s" by simp
  show ?case
  proof (cases "?m t")
    case (Inl e)
    with failed_table [OF t, of a] show ?thesis
      by (auto simp: io_bind_def is_ok_def split: prod.splits sum.splits)
  next
    case (Inr x)
    note run = run_table [OF t Inr, of a]
    obtain r s1 where r: "run_ddls d x s = (r, s1)" by (cases "run_ddls d x s")
    show ?thesis
    proof (cases r)
      case (Inl e)
      with run r have "migrate_table d True t a s = (Inl e, s1)" by (simp add: after_ddls_def)
      then have "io_fold (migrate_table d True) (t # ts) a s = (Inl e, s1)" by (simp add: io_bind_def)
      moreover have "after_ddls d a (x @ y) s = (Inl e, s1)" for y
        using r Inl by (simp add: after_ddls_def run_ddls_append)
      ultimately show ?thesis using \<open>?m t = Inr x\<close> by (simp add: bind_r_def split: sum.split)
    next
      case ok: (Inr u)
      then have r': "run_ddls d x s = (Inr (), s1)" using r by simp
      have keep: "\<forall>t' \<in> set ts. reports d (ct_name t') (live t') s1"
      proof
        fix t' assume t': "t' \<in> set ts"
        then have "ct_name t' \<noteq> ct_name t" using Cons.prems(2) by (metis distinct.simps(2) imageI list.set_map list.simps(9))
        with Cons.prems(1,3) t' run_ddls_isolated [OF iso _ _ _ missing_ddl_own [OF \<open>?m t = Inr x\<close>] r']
        show "reports d (ct_name t') (live t') s1" by auto
      qed
      from run r' have step: "migrate_table d True t a s = (Inr (a @ x), s1)" by (simp add: after_ddls_def)
      have rest: "io_fold (migrate_table d True) (t # ts) a s = io_fold (migrate_table d True) ts (a @ x) s1"
        by (simp add: io_bind_run [where m = "migrate_table d True t a", OF step])
      have app: "after_ddls d a (x @ y) s = after_ddls d (a @ x) y s1" for y
        using r' by (simp add: after_ddls_def run_ddls_append)
      from Cons.IH [of s1 "a @ x"] Cons.prems(1,2) keep \<open>?m t = Inr x\<close> rest app show ?thesis
        by (cases "map_r ?m ts") simp_all
    qed
  qed
qed

lemma order_tables: "set (tables_in_dependency_order sch) = set (cs_tables sch)"
  "distinct (map ct_name (tables_in_dependency_order sch)) = distinct (map ct_name (cs_tables sch))"
proof -
  have m: "mset (tables_in_dependency_order sch) = mset (cs_tables sch)"
    by (simp add: tables_in_dependency_order_def place_all_mset)
  then show "set (tables_in_dependency_order sch) = set (cs_tables sch)" by (rule mset_eq_setD)
  have "mset (map ct_name (tables_in_dependency_order sch)) = mset (map ct_name (cs_tables sch))"
    using m by simp
  then show "distinct (map ct_name (tables_in_dependency_order sch)) = distinct (map ct_name (cs_tables sch))"
    by (rule mset_eq_imp_distinct_iff)
qed

section \<open>A database in memory\<close>

text \<open>
  A SQLite connection whose state is the rows of its two catalogue queries: it runs the statements the
  tables of a schema give rise to and reports an error for every other one.
\<close>

type_synonym mem_state =
  "string \<Rightarrow> (string \<times> string \<times> i64 \<times> i64) list \<times> (i64 \<times> i64 \<times> string \<times> string \<times> string option) list"

definition mem_row :: "cli_table \<Rightarrow> cli_column \<Rightarrow> string \<times> string \<times> i64 \<times> i64" where
  "mem_row t c = (cc_name c, sql_type (cd_type (cc_def c)), if cd_nullable (cc_def c) then 0 else 1,
     wanted_pk t (cc_name c))"

definition mem_create :: "cli_table \<Rightarrow> mem_state \<Rightarrow> mem_state" where
  "mem_create t st =
     (if fst (st (ct_name t)) \<noteq> [] then st
      else st(ct_name t := (map (mem_row t) (ct_columns t),
        concat (map (\<lambda>(i, f). map (\<lambda>(j, from, to). (word_of_nat i, word_of_nat j, fk_ref_table f, from, Some to))
          (zip [0..<length (fk_columns f)] (zip (fk_columns f) (fk_ref_columns f))))
          (zip [0..<length (ct_foreign_keys t)] (ct_foreign_keys t))))))"

definition mem_add :: "cli_table \<Rightarrow> cli_column \<Rightarrow> mem_state \<Rightarrow> mem_state" where
  "mem_add t c st = st(ct_name t := (fst (st (ct_name t)) @ [mem_row t c], snd (st (ct_name t))))"

definition mem_effects :: "cli_schema \<Rightarrow> (string \<times> (mem_state \<Rightarrow> mem_state)) list" where
  "mem_effects sch =
     map (\<lambda>t. (create_table Sqlite t, mem_create t)) (cs_tables sch)
     @ concat (map (\<lambda>t. concat (map (\<lambda>c. case add_column Sqlite t c of
           Inl _ \<Rightarrow> [] | Inr ddl \<Rightarrow> [(ddl, mem_add t c)]) (ct_columns t))) (cs_tables sch))"

definition mem_driver :: "cli_schema \<Rightarrow> mem_state driver" where
  "mem_driver sch =
     \<lparr>drv_kind = ConnSqlite,
      drv_batch = (\<lambda>sql st. case map_of (mem_effects sch) sql of
         Some f \<Rightarrow> (Inr (), f st) | None \<Rightarrow> (Inl ''syntax error'', st)),
      drv_insert = (\<lambda>sql vs st. (Inr (), st)),
      drv_table_info = (\<lambda>t st. (Inr (fst (st t)), st)),
      drv_fk_list = (\<lambda>t st. (Inr (snd (st t)), st)),
      drv_columns = (\<lambda>t st. (Inr [], st)),
      drv_key_columns = (\<lambda>t st. (Inr [], st)),
      drv_my_keys = (\<lambda>t st. (Inr [], st)),
      drv_pg_keys = (\<lambda>t st. (Inr [], st)),
      drv_query = (\<lambda>sql vs st. (Inl ''not supported'', st))\<rparr>"

lemma mem_reports: "reports (mem_driver sch) n cols st \<longleftrightarrow> cols = map sqlite_column (fst (st n))"
  by (auto simp: reports_def any_columns_def introspect_def mem_driver_def driver_io_def map_err_def io_bind_def
      io_lift_def)

lemma mem_kind: "kind_dialect (drv_kind (mem_driver sch)) = Sqlite"
  by (simp add: mem_driver_def)

lemma mem_isolated:
  assumes "distinct (map fst (mem_effects sch))"
  shows "isolated (mem_driver sch) sch"
proof -
  have "st' n = st n"
    if t: "t \<in> set (cs_tables sch)" and n: "n \<noteq> ct_name t" and ddl: "ddl \<in> table_ddl (mem_driver sch) t"
      and run: "drv_batch (mem_driver sch) ddl st = (Inr (), st')" for t n ddl st st'
  proof -
    from ddl obtain f where f: "(ddl, f) \<in> set (mem_effects sch)" "f = mem_create t \<or> (\<exists>c. f = mem_add t c)"
      unfolding table_ddl_def mem_kind using t by (fastforce simp: mem_effects_def simp del: create_table.simps)
    from f(1) assms run have "st' = f st" by (simp add: mem_driver_def map_of_is_SomeI)
    with f(2) n show ?thesis by (auto simp: mem_create_def mem_add_def)
  qed
  then show ?thesis unfolding isolated_def mem_reports by metis
qed

lemma sample_isolated: "isolated (mem_driver sample_cli_schema) sample_cli_schema"
proof (rule mem_isolated)
  show "distinct (map fst (mem_effects sample_cli_schema))" by code_simp
qed

definition empty_db :: mem_state where
  "empty_db n = ([], [])"

text \<open>A database whose users table has a name only.\<close>

definition keyless_db :: mem_state where
  "keyless_db = empty_db(''users'' := ([(''name'', ''TEXT'', 1, 0)], []))"



lemma map_r_member: "map_r f xs = Inr ys \<Longrightarrow> x \<in> set xs \<Longrightarrow> is_ok (f x)"
  by (induction xs arbitrary: ys) (auto simp: bind_r_eq_Inr is_ok_iff)

text \<open>
  A table of the database that lacks a primary key column of the schema is never migrated: adding
  the column is an error that advises \<open>--rebuild\<close>, and \<open>--rebuild\<close> starts with the same additive
  migration, so it returns the error as well.
\<close>

lemma missing_key_column_unmigratable:
  assumes "isolated d sch" "distinct (map ct_name (cs_tables sch))"
    and "\<forall>t \<in> set (cs_tables sch). reports d (ct_name t) (live t) s"
    and "t \<in> set (cs_tables sch)" "live t \<noteq> []"
    and "c \<in> set (ct_columns t)" "cd_primary_key (cc_def c)" "cc_name c \<notin> dc_name ` set (live t)"
  shows "\<not> is_ok (fst (migrate d sch s)) \<and> \<not> is_ok (fst (migrate_rebuild d sch s))"
proof -
  let ?ts = "tables_in_dependency_order sch"
  let ?m = "\<lambda>t. missing_ddl (kind_dialect (drv_kind d)) t (live t)"
  have ts: "set ?ts \<subseteq> set (cs_tables sch)" "distinct (map ct_name ?ts)" using order_tables assms(2) by simp_all
  have rep: "\<forall>t \<in> set ?ts. reports d (ct_name t) (live t) s" using assms(3) ts(1) by blast
  have "map_r ?m ?ts \<noteq> Inr ddls" for ddls
  proof
    assume "map_r ?m ?ts = Inr ddls"
    then have "is_ok (?m t)"
      by (rule map_r_member) (simp add: order_tables(1) assms(4))
    then obtain xs where "map_r (add_column (kind_dialect (drv_kind d)) t)
        (filter (\<lambda>c. cc_name c \<notin> dc_name ` set (live t)) (ct_columns t)) = Inr xs"
      using assms(5) by (auto simp: missing_ddl_def is_ok_iff)
    moreover have "c \<in> set (filter (\<lambda>c. cc_name c \<notin> dc_name ` set (live t)) (ct_columns t))"
      using assms(6,8) by simp
    ultimately have "is_ok (add_column (kind_dialect (drv_kind d)) t c)" by (rule map_r_member)
    then obtain x where "add_column (kind_dialect (drv_kind d)) t c = Inr x" by (auto simp: is_ok_iff)
    from add_column_no_key [OF this] assms(7) show False by simp
  qed
  then obtain e where "map_r ?m ?ts = Inl e" by (cases "map_r ?m ?ts") auto
  with run_tables [OF assms(1) ts rep, of "[]"] have no: "\<not> is_ok (fst (migrate d sch s))"
    by (simp add: migrate_def migrate_inner_def)
  obtain r s1 where m: "migrate d sch s = (r, s1)" by (cases "migrate d sch s")
  with no obtain e where "r = Inl e" by (cases r) auto
  with m show ?thesis by (simp add: migrate_rebuild_def io_bind_def)
qed

end
