(* ===== verification/Validate.thy ===== *)
theory Validate
  imports MigrateProofs
begin

text \<open>
  What validation finds: nothing exactly when every table of the schema is there with the declared
  columns, types, key positions, nullability and foreign keys, each stated from the schema and the
  dialect and not with the functions of the code; and how the rows of the catalogue queries become
  foreign keys.
\<close>

section \<open>Columns\<close>

text \<open>
  A column as the checks of the code see it: its name, type, key position and whether it holds no
  nulls; a key column counts as holding none whatever the database reports.
\<close>

definition checked_shape :: "(column_ty \<Rightarrow> string) \<Rightarrow> cli_table \<Rightarrow> (string \<times> string \<times> i64 \<times> bool) set" where
  "checked_shape expected t =
     (\<lambda>c. (cc_name c, expected (cd_type (cc_def c)), wanted_pk t (cc_name c),
           cd_primary_key (cc_def c) \<or> \<not> cd_nullable (cc_def c))) ` set (ct_columns t)"

definition live_shape :: "cli_table \<Rightarrow> db_column list \<Rightarrow> (string \<times> string \<times> i64 \<times> bool) set" where
  "live_shape t existing =
     (\<lambda>e. (dc_name e, dc_sql_type e, dc_pk e, dc_name e \<in> cc_name ` set (primary_key t) \<or> dc_notnull e))
       ` set existing"

lemma find_named: "distinct (map f xs) \<Longrightarrow> x \<in> set xs \<Longrightarrow> List.find (\<lambda>y. f y = f x) xs = Some x"
  by (induction xs) (auto simp: image_iff)

lemma key_member:
  "distinct (map cc_name (ct_columns t)) \<Longrightarrow> c \<in> set (ct_columns t)
   \<Longrightarrow> cc_name c \<in> cc_name ` set (primary_key t) \<longleftrightarrow> cd_primary_key (cc_def c)"
  by (auto simp: primary_key_def distinct_map inj_on_def)

lemma check_column_exact:
  "check_column expected t ex c = [] \<longleftrightarrow>
     (\<exists>e. List.find (\<lambda>e. dc_name e = cc_name c) ex = Some e \<and> dc_sql_type e = expected (cd_type (cc_def c))
        \<and> dc_pk e = wanted_pk t (cc_name c)
        \<and> (cd_primary_key (cc_def c) \<or> dc_notnull e = (\<not> cd_nullable (cc_def c))))"
  by (auto simp: check_column_def Let_def split: option.splits)

lemma check_table_exact:
  assumes "distinct (map cc_name (ct_columns t))" "distinct (map dc_name ex)"
  shows "check_table t ex expected = [] \<longleftrightarrow> checked_shape expected t = live_shape t ex"
proof
  assume "check_table t ex expected = []"
  then have cols: "\<And>c. c \<in> set (ct_columns t) \<Longrightarrow> check_column expected t ex c = []"
    and extra: "\<And>e. e \<in> set ex \<Longrightarrow> dc_name e \<in> cc_name ` set (ct_columns t)"
    by (auto simp: check_table_def filter_empty_conv)
  have one: "\<exists>e \<in> set ex. dc_name e = cc_name c \<and> (cc_name c, expected (cd_type (cc_def c)), wanted_pk t (cc_name c),
           cd_primary_key (cc_def c) \<or> \<not> cd_nullable (cc_def c))
       = (dc_name e, dc_sql_type e, dc_pk e, dc_name e \<in> cc_name ` set (primary_key t) \<or> dc_notnull e)"
    if c: "c \<in> set (ct_columns t)" for c
  proof -
    from cols [OF c] obtain e where e: "List.find (\<lambda>e. dc_name e = cc_name c) ex = Some e"
      "dc_sql_type e = expected (cd_type (cc_def c))" "dc_pk e = wanted_pk t (cc_name c)"
      "cd_primary_key (cc_def c) \<or> dc_notnull e = (\<not> cd_nullable (cc_def c))" unfolding check_column_exact by blast
    from e(1) have "e \<in> set ex" "dc_name e = cc_name c" by (auto simp: find_Some_iff)
    with e(2-4) key_member [OF assms(1) c] show ?thesis by (intro bexI [of _ e]) auto
  qed
  show "checked_shape expected t = live_shape t ex"
  proof
    show "checked_shape expected t \<subseteq> live_shape t ex"
      unfolding checked_shape_def live_shape_def using one by blast
    show "live_shape t ex \<subseteq> checked_shape expected t"
    proof
      fix x assume "x \<in> live_shape t ex"
      then obtain e where e: "e \<in> set ex" "x = (dc_name e, dc_sql_type e, dc_pk e,
          dc_name e \<in> cc_name ` set (primary_key t) \<or> dc_notnull e)" by (auto simp: live_shape_def)
      from extra [OF e(1)] obtain c where c: "c \<in> set (ct_columns t)" "dc_name e = cc_name c" by blast
      from one [OF c(1)] obtain e' where e': "e' \<in> set ex" "dc_name e' = cc_name c"
        "(cc_name c, expected (cd_type (cc_def c)), wanted_pk t (cc_name c),
           cd_primary_key (cc_def c) \<or> \<not> cd_nullable (cc_def c))
         = (dc_name e', dc_sql_type e', dc_pk e', dc_name e' \<in> cc_name ` set (primary_key t) \<or> dc_notnull e')" by blast
      have "e' = e" using assms(2) e(1) e'(1,2) c(2) by (auto simp: distinct_map inj_on_def)
      have "x = (cc_name c, expected (cd_type (cc_def c)), wanted_pk t (cc_name c),
           cd_primary_key (cc_def c) \<or> \<not> cd_nullable (cc_def c))" unfolding e(2) e'(3) \<open>e' = e\<close> ..
      with c(1) show "x \<in> checked_shape expected t" unfolding checked_shape_def by blast
    qed
  qed
next
  assume eq: "checked_shape expected t = live_shape t ex"
  have "check_column expected t ex c = []" if c: "c \<in> set (ct_columns t)" for c
  proof -
    have "(cc_name c, expected (cd_type (cc_def c)), wanted_pk t (cc_name c),
        cd_primary_key (cc_def c) \<or> \<not> cd_nullable (cc_def c)) \<in> live_shape t ex"
      unfolding eq [symmetric] checked_shape_def using c by blast
    then obtain e where "e \<in> set ex" and tup: "(cc_name c, expected (cd_type (cc_def c)), wanted_pk t (cc_name c),
        cd_primary_key (cc_def c) \<or> \<not> cd_nullable (cc_def c))
      = (dc_name e, dc_sql_type e, dc_pk e, dc_name e \<in> cc_name ` set (primary_key t) \<or> dc_notnull e)"
      unfolding live_shape_def by blast
    from tup have e: "e \<in> set ex" "cc_name c = dc_name e" "expected (cd_type (cc_def c)) = dc_sql_type e"
      "wanted_pk t (cc_name c) = dc_pk e"
      "(cd_primary_key (cc_def c) \<or> \<not> cd_nullable (cc_def c))
         = (dc_name e \<in> cc_name ` set (primary_key t) \<or> dc_notnull e)"
      using \<open>e \<in> set ex\<close> unfolding prod.inject by blast+
    have "List.find (\<lambda>x. dc_name x = cc_name c) ex = Some e"
      using find_named [OF assms(2) e(1)] e(2) by simp
    with e key_member [OF assms(1) c] show ?thesis unfolding check_column_exact by auto
  qed
  moreover have "dc_name e \<in> cc_name ` set (ct_columns t)" if "e \<in> set ex" for e
  proof -
    have "(dc_name e, dc_sql_type e, dc_pk e, dc_name e \<in> cc_name ` set (primary_key t) \<or> dc_notnull e)
        \<in> checked_shape expected t" unfolding eq live_shape_def using that by blast
    then show ?thesis by (auto simp: checked_shape_def)
  qed
  ultimately show "check_table t ex expected = []" by (auto simp: check_table_def filter_empty_conv)
qed

section \<open>The declared columns\<close>

text \<open>
  The names the catalogues have for the four types, once spelled alike, and the place of a column in
  the primary key: the number of key columns up to it, nothing outside the key.
\<close>

fun catalog_type :: "conn_kind \<Rightarrow> column_ty \<Rightarrow> string" where
  "catalog_type ConnSqlite ty = (case ty of TyInt \<Rightarrow> ''INTEGER'' | TyFloat \<Rightarrow> ''REAL'' | TyText \<Rightarrow> ''TEXT'' | TyBool \<Rightarrow> ''INTEGER'')"
| "catalog_type ConnLs ty = (case ty of TyInt \<Rightarrow> ''INTEGER'' | TyFloat \<Rightarrow> ''REAL'' | TyText \<Rightarrow> ''TEXT'' | TyBool \<Rightarrow> ''INTEGER'')"
| "catalog_type ConnPg ty = (case ty of TyInt \<Rightarrow> ''BIGINT'' | TyFloat \<Rightarrow> ''DOUBLE PRECISION'' | TyText \<Rightarrow> ''TEXT'' | TyBool \<Rightarrow> ''BOOLEAN'')"
| "catalog_type ConnMy ty = (case ty of TyInt \<Rightarrow> ''BIGINT'' | TyFloat \<Rightarrow> ''DOUBLE'' | TyText \<Rightarrow> ''TEXT'' | TyBool \<Rightarrow> ''TINYINT(1)'')"
| "catalog_type ConnMs ty = (case ty of TyInt \<Rightarrow> ''BIGINT'' | TyFloat \<Rightarrow> ''FLOAT'' | TyText \<Rightarrow> ''NVARCHAR(400)'' | TyBool \<Rightarrow> ''BIT'')"

definition key_place :: "cli_column list \<Rightarrow> nat \<Rightarrow> nat" where
  "key_place cs i =
     (if cd_primary_key (cc_def (cs ! i)) then length (filter (\<lambda>c. cd_primary_key (cc_def c)) (take (Suc i) cs)) else 0)"

text \<open>Name, type, place in the key and whether nulls are excluded, of the declared and the live columns.\<close>

definition declared_columns :: "conn_kind \<Rightarrow> cli_column list \<Rightarrow> (string \<times> string \<times> i64 \<times> bool) set" where
  "declared_columns k cs =
     (\<lambda>i. (cc_name (cs ! i), catalog_type k (cd_type (cc_def (cs ! i))), word_of_nat (key_place cs i),
           cd_primary_key (cc_def (cs ! i)) \<or> \<not> cd_nullable (cc_def (cs ! i)))) ` set [0..<length cs]"

definition live_columns :: "cli_column list \<Rightarrow> db_column list \<Rightarrow> (string \<times> string \<times> i64 \<times> bool) set" where
  "live_columns cs live =
     (\<lambda>e. (dc_name e, dc_sql_type e, dc_pk e,
           dc_notnull e \<or> dc_name e \<in> cc_name ` set (filter (\<lambda>c. cd_primary_key (cc_def c)) cs))) ` set live"

lemma expected_types:
  "expected_type ConnSqlite TyInt = catalog_type ConnSqlite TyInt" "expected_type ConnSqlite TyFloat = catalog_type ConnSqlite TyFloat"
  "expected_type ConnSqlite TyText = catalog_type ConnSqlite TyText" "expected_type ConnSqlite TyBool = catalog_type ConnSqlite TyBool"
  "expected_type ConnLs TyInt = catalog_type ConnLs TyInt" "expected_type ConnLs TyFloat = catalog_type ConnLs TyFloat"
  "expected_type ConnLs TyText = catalog_type ConnLs TyText" "expected_type ConnLs TyBool = catalog_type ConnLs TyBool"
  "expected_type ConnPg TyInt = catalog_type ConnPg TyInt" "expected_type ConnPg TyFloat = catalog_type ConnPg TyFloat"
  "expected_type ConnPg TyText = catalog_type ConnPg TyText" "expected_type ConnPg TyBool = catalog_type ConnPg TyBool"
  "expected_type ConnMy TyInt = catalog_type ConnMy TyInt" "expected_type ConnMy TyFloat = catalog_type ConnMy TyFloat"
  "expected_type ConnMy TyText = catalog_type ConnMy TyText" "expected_type ConnMy TyBool = catalog_type ConnMy TyBool"
  "expected_type ConnMs TyInt = catalog_type ConnMs TyInt" "expected_type ConnMs TyFloat = catalog_type ConnMs TyFloat"
  "expected_type ConnMs TyText = catalog_type ConnMs TyText" "expected_type ConnMs TyBool = catalog_type ConnMs TyBool"
  by code_simp+

lemma expected_catalog: "expected_type k ty = catalog_type k ty"
  using expected_types by (cases k; cases ty) simp_all

lemma position_append_out: "\<forall>x \<in> set xs. \<not> f x \<Longrightarrow> position f (xs @ ys) = map_option ((+) (length xs)) (position f ys)"
  by (induction xs) (cases "position f ys"; simp)+

lemma wanted_pk_place:
  assumes "distinct (map cc_name (ct_columns t))" "i < length (ct_columns t)"
  shows "wanted_pk t (cc_name (ct_columns t ! i)) = word_of_nat (key_place (ct_columns t) i)"
proof -
  let ?cs = "ct_columns t" and ?P = "\<lambda>c. cd_primary_key (cc_def c)"
  let ?c = "?cs ! i"
  have split: "?cs = take i ?cs @ ?c # drop (Suc i) ?cs" using assms(2) by (rule id_take_nth_drop)
  have out: "cc_name x \<noteq> cc_name ?c" if "x \<in> set (take i ?cs) \<union> set (drop (Suc i) ?cs)" for x
  proof -
    have "distinct (map cc_name (take i ?cs @ ?c # drop (Suc i) ?cs))" using assms(1) split by metis
    with that show ?thesis by (auto simp: image_iff)
  qed
  have pk: "primary_key t = filter ?P (take i ?cs) @ (if ?P ?c then [?c] else []) @ filter ?P (drop (Suc i) ?cs)"
    unfolding primary_key_def by (subst split) simp
  have rank: "key_place ?cs i = (if ?P ?c then Suc (length (filter ?P (take i ?cs))) else 0)"
    using assms(2) by (simp add: key_place_def take_Suc_conv_app_nth)
  show ?thesis
  proof (cases "?P ?c")
    case True
    have "position (\<lambda>x. cc_name x = cc_name ?c) (primary_key t) = Some (length (filter ?P (take i ?cs)))"
      unfolding pk using True out by (subst position_append_out) auto
    with True show ?thesis by (simp add: wanted_pk_def rank)
  next
    case False
    then have "\<forall>x \<in> set (primary_key t). cc_name x \<noteq> cc_name ?c" unfolding pk using out by auto
    then have "position (\<lambda>x. cc_name x = cc_name ?c) (primary_key t) = None"
      using position_append_out [of "primary_key t" "\<lambda>x. cc_name x = cc_name ?c" "[]"] by simp
    with False show ?thesis by (simp add: wanted_pk_def rank)
  qed
qed

lemma checked_declared:
  assumes "distinct (map cc_name (ct_columns t))"
  shows "checked_shape (expected_type k) t = declared_columns k (ct_columns t)"
proof -
  have "set (ct_columns t) = (!) (ct_columns t) ` set [0..<length (ct_columns t)]"
    by (metis map_nth set_map)
  then show ?thesis
    unfolding checked_shape_def declared_columns_def
    by (simp only: image_image) (auto simp: expected_catalog wanted_pk_place [OF assms] intro!: image_cong)
qed

lemma checked_live: "live_shape t ex = live_columns (ct_columns t) ex"
  by (auto simp: live_shape_def live_columns_def primary_key_def intro!: image_cong)

section \<open>Foreign keys\<close>

text \<open>
  A declared key is the one of the database when it has the same columns, the same target table and
  the same target columns; a catalogue that leaves all target columns out means the target's key.
\<close>

definition fk_agrees :: "foreign_key \<Rightarrow> db_foreign_key \<Rightarrow> bool" where
  "fk_agrees f db \<longleftrightarrow>
     fk_columns f = df_from db \<and> fk_ref_table f = df_table db
     \<and> (fk_ref_columns f = df_to db \<or> set (df_to db) \<subseteq> {[]})"

lemma fk_matches_agrees: "fk_matches = fk_agrees"
  by (intro ext) (auto simp: fk_matches_def fk_agrees_def list_all_iff)

definition same_fks :: "foreign_key list \<Rightarrow> db_foreign_key list \<Rightarrow> bool" where
  "same_fks fks dbs \<longleftrightarrow> list_all (\<lambda>f. list_ex (fk_agrees f) dbs) fks
     \<and> list_all (\<lambda>db. list_ex (\<lambda>f. fk_agrees f db) fks) dbs"

lemma check_fk_lists_exact: "check_fk_lists t dbs = [] \<longleftrightarrow> same_fks (ct_foreign_keys t) dbs"
  by (auto simp: check_fk_lists_def same_fks_def filter_empty_conv list_all_iff fk_matches_agrees)

text \<open>The rows a list of foreign keys has in the catalogue, each with the key of its own.\<close>

definition fk_rows :: "('k \<times> db_foreign_key) list \<Rightarrow> ('k \<times> string \<times> string \<times> string) list" where
  "fk_rows kfs = concat (map (\<lambda>(k, f). map (\<lambda>(a, b). (k, df_table f, a, b)) (zip (df_from f) (df_to f))) kfs)"

lemma group_rows_same:
  "fold group_row (map (\<lambda>(a, b). (k, table, a, b)) ps) (Some k, out @ [f])
   = (Some k, out @ [f\<lparr>df_from := df_from f @ map fst ps, df_to := df_to f @ map snd ps\<rparr>])"
  by (induction ps arbitrary: f) (auto simp: group_row_def Let_def)

lemma group_rows_key:
  assumes "cur \<noteq> Some k" "df_from f \<noteq> []" "length (df_from f) = length (df_to f)"
  shows "fold group_row (map (\<lambda>(a, b). (k, df_table f, a, b)) (zip (df_from f) (df_to f))) (cur, out)
    = (Some k, out @ [f])"
proof -
  obtain a as where a: "df_from f = a # as" using assms(2) by (cases "df_from f") auto
  obtain b bs where b: "df_to f = b # bs" using assms(3) a by (cases "df_to f") auto
  have "group_row (k, df_table f, a, b) (cur, out) = (Some k, out @ [\<lparr>df_from = [a], df_table = df_table f, df_to = [b]\<rparr>])"
    using assms(1) by (simp add: group_row_def Let_def)
  with a b assms(3) show ?thesis by (simp add: group_rows_same)
qed

lemma group_rows_all:
  "distinct (map fst kfs) \<Longrightarrow> cur \<notin> Some ` fst ` set kfs
   \<Longrightarrow> list_all (\<lambda>(k, f). df_from f \<noteq> [] \<and> length (df_from f) = length (df_to f)) kfs
   \<Longrightarrow> snd (fold group_row (fk_rows kfs) (cur, out)) = out @ map snd kfs"
proof (induction kfs arbitrary: cur out)
  case (Cons kf kfs)
  obtain k f where kf: "kf = (k, f)" by (cases kf)
  have "fold group_row (fk_rows (kf # kfs)) (cur, out) = fold group_row (fk_rows kfs) (Some k, out @ [f])"
    using Cons.prems kf group_rows_key [of cur k f out] by (simp add: fk_rows_def image_iff)
  moreover have "Some k \<notin> Some ` fst ` set kfs" using Cons.prems(1) kf by auto
  ultimately show ?case using Cons.IH [of "Some k" "out @ [f]"] Cons.prems kf by simp
qed (simp add: fk_rows_def)

text \<open>
  Grouping the rows of the catalogue gives the foreign keys back: when each foreign key has rows
  of its own key, one per column and in order, the grouped list is the list of foreign keys.
\<close>

theorem group_fks_roundtrip:
  assumes "distinct (map fst kfs)"
    and "list_all (\<lambda>(k, f). df_from f \<noteq> [] \<and> length (df_from f) = length (df_to f)) kfs"
  shows "group_fks (fk_rows kfs) = map snd kfs"
  using group_rows_all [of kfs None "[]"] assms by (simp add: group_fks_def image_iff)

lemma group_fks_roundtrip_witness:
  "group_fks [(0 :: nat, ''u'', ''a'', ''x''), (0, ''u'', ''b'', ''y''), (1, ''u'', ''c'', ''x'')]
     = [\<lparr>df_from = [''a'', ''b''], df_table = ''u'', df_to = [''x'', ''y'']\<rparr>,
        \<lparr>df_from = [''c''], df_table = ''u'', df_to = [''x'']\<rparr>]"
  using group_fks_roundtrip [of "[(0 :: nat, \<lparr>df_from = [''a'', ''b''], df_table = ''u'', df_to = [''x'', ''y'']\<rparr>),
      (1, \<lparr>df_from = [''c''], df_table = ''u'', df_to = [''x'']\<rparr>)]"]
  by (simp add: fk_rows_def)

section \<open>Validation\<close>

definition in_sync :: "conn_kind \<Rightarrow> cli_table \<Rightarrow> db_column list \<Rightarrow> db_foreign_key list \<Rightarrow> bool" where
  "in_sync k t live fks \<longleftrightarrow>
     live \<noteq> [] \<and> live_columns (ct_columns t) live = declared_columns k (ct_columns t)
     \<and> same_fks (ct_foreign_keys t) fks"

lemma validate_tables:
  assumes "\<forall>t \<in> set ts. any_columns d (ct_name t) s = (Inr (live t), s) \<and> any_fks d (ct_name t) s = (Inr (fks t), s)"
    and "\<forall>t \<in> set ts. distinct (map cc_name (ct_columns t)) \<and> distinct (map dc_name (live t))"
  shows "\<exists>problems. io_fold (validate_table d) ts a s = (Inr (a @ problems), s)
    \<and> (problems = [] \<longleftrightarrow> (\<forall>t \<in> set ts. in_sync (drv_kind d) t (live t) (fks t)))"
  using assms
proof (induction ts arbitrary: a)
  case Nil
  then show ?case by (simp add: io_lift_def)
next
  case (Cons t ts)
  define ps where "ps = (if live t = [] then [table_fail (ct_name t) '': missing from database'']
    else check_table t (live t) (expected_type (drv_kind d)) @ check_fk_lists t (fks t))"
  have cols: "any_columns d (ct_name t) s = (Inr (live t), s)" "any_fks d (ct_name t) s = (Inr (fks t), s)"
    and dist: "distinct (map cc_name (ct_columns t))" "distinct (map dc_name (live t))"
    using Cons.prems by simp_all
  have step: "validate_table d t a s = (Inr (a @ ps), s)"
    by (simp add: validate_table_def ps_def io_bind_run [where m = "any_columns d (ct_name t)", OF cols(1)]
        io_bind_run [where m = "any_fks d (ct_name t)", OF cols(2)] io_lift_def)
  have ps: "ps = [] \<longleftrightarrow> in_sync (drv_kind d) t (live t) (fks t)"
    using check_table_exact [OF dist, of "expected_type (drv_kind d)"] check_fk_lists_exact [of t "fks t"]
      checked_declared [OF dist(1)] checked_live
    by (auto simp: ps_def in_sync_def)
  from Cons.IH [of "a @ ps"] Cons.prems obtain qs where qs:
    "io_fold (validate_table d) ts (a @ ps) s = (Inr ((a @ ps) @ qs), s)"
    "qs = [] \<longleftrightarrow> (\<forall>t \<in> set ts. in_sync (drv_kind d) t (live t) (fks t))" by auto
  have "io_fold (validate_table d) (t # ts) a s = (Inr (a @ ps @ qs), s)"
    using qs(1) by (simp add: io_bind_run [where m = "validate_table d t a", OF step])
  with ps qs(2) show ?case by (intro exI [of _ "ps @ qs"]) simp
qed

text \<open>
  C32: Validation reads the database without changing it, and reports no problem exactly when every
  table of the schema is in the database; its columns with their types, places in the primary key and
  nullability are the declared ones, no more and no fewer; and its foreign keys agree with the declared
  ones, both ways, in their columns, their target table and its columns. The introspection of the
  tables of the schema must succeed, and no table may have two columns of one name.
\<close>

theorem validate_exact:
  assumes "\<forall>t \<in> set (cs_tables sch). any_columns d (ct_name t) s = (Inr (live t), s)
      \<and> any_fks d (ct_name t) s = (Inr (fks t), s)"
    and "\<forall>t \<in> set (cs_tables sch). distinct (map cc_name (ct_columns t)) \<and> distinct (map dc_name (live t))"
  shows "\<exists>problems. validate d sch s = (Inr problems, s)
    \<and> (problems = [] \<longleftrightarrow> (\<forall>t \<in> set (cs_tables sch). in_sync (drv_kind d) t (live t) (fks t)))"
  using validate_tables [OF assms, of "[]"] by (simp add: validate_def)

definition mem_fks :: "mem_state \<Rightarrow> string \<Rightarrow> db_foreign_key list" where
  "mem_fks st t = group_fks (map (\<lambda>(id, sq, rt, from, to). (id, rt, from, option_or to [])) (by_id_and_seq (snd (st t))))"

lemma mem_catalog:
  "any_columns (mem_driver sch) n st = (Inr (map sqlite_column (fst (st n))), st)"
  "any_fks (mem_driver sch) n st = (Inr (mem_fks st n), st)"
  by (simp_all add: any_columns_def any_fks_def introspect_def introspect_fks_def mem_driver_def driver_io_def map_err_def
      io_bind_def io_lift_def mem_fks_def)

lemma validate_exact_witness:
  "\<exists>problems. validate (mem_driver sample_cli_schema) sample_cli_schema keyless_db = (Inr problems, keyless_db)
    \<and> problems \<noteq> []"
proof -
  let ?d = "mem_driver sample_cli_schema" and ?s = sample_cli_schema
  let ?live = "\<lambda>t. map sqlite_column (fst (keyless_db (ct_name t)))" and ?fks = "\<lambda>t. mem_fks keyless_db (ct_name t)"
  have r: "\<forall>t \<in> set (cs_tables ?s). any_columns ?d (ct_name t) keyless_db = (Inr (?live t), keyless_db)
      \<and> any_fks ?d (ct_name t) keyless_db = (Inr (?fks t), keyless_db)" by (simp add: mem_catalog)
  have "\<forall>t \<in> set (cs_tables ?s). distinct (map cc_name (ct_columns t)) \<and> distinct (map dc_name (?live t))" by code_simp
  from validate_exact [OF r this] obtain problems where p: "validate ?d ?s keyless_db = (Inr problems, keyless_db)"
    "problems = [] \<longleftrightarrow> (\<forall>t \<in> set (cs_tables ?s). in_sync (drv_kind ?d) t (?live t) (?fks t))"
    by blast
  have "\<not> (\<forall>t \<in> set (cs_tables ?s). in_sync (drv_kind ?d) t (?live t) (?fks t))" by code_simp
  with p show ?thesis by blast
qed

section \<open>Type names\<close>

text \<open>
  The spellings the catalogues report for the types of \<open>CREATE TABLE\<close> are normalised to the ones
  validation expects.
\<close>

lemma normalized_types:
  "my_normalize_type ''bigint'' = type_sql MySql TyInt" "my_normalize_type ''double'' = type_sql MySql TyFloat"
  "my_normalize_type ''text'' = type_sql MySql TyText" "my_normalize_type ''varchar'' = type_sql MySql TyText"
  "my_normalize_type ''tinyint'' = type_sql MySql TyBool"
  "ms_normalize_type ''bigint'' = type_sql MsSql TyInt" "ms_normalize_type ''float'' = type_sql MsSql TyFloat"
  "ms_normalize_type ''nvarchar'' = type_sql MsSql TyText" "ms_normalize_type ''bit'' = type_sql MsSql TyBool"
  "ascii_upper ''bigint'' = type_sql Postgres TyInt" "ascii_upper ''double precision'' = type_sql Postgres TyFloat"
  "ascii_upper ''text'' = type_sql Postgres TyText" "ascii_upper ''boolean'' = type_sql Postgres TyBool"
  by code_simp+

end
