(* ===== verification/Rebuild.thy ===== *)
theory Rebuild
  imports MigrateProofs
begin

text \<open>
  What a rebuild does to a database, step by step: the statements it issues, with their outcomes, are
  written to a log, and the log of every table is one of four shapes, whatever the database answers. The
  statements of a table, run on a database of rows, carry every row over to the new shape.
\<close>

section \<open>A driver that keeps a log\<close>

type_synonym stmt_log = "(string \<times> bool) list"

definition logged_call :: "('s, 'a) driver_call \<Rightarrow> ('s \<times> stmt_log, 'a) driver_call" where
  "logged_call m st = (case st of (s, log) \<Rightarrow> (case m s of (r, s) \<Rightarrow> (r, (s, log))))"

definition logged :: "'s driver \<Rightarrow> ('s \<times> stmt_log) driver" where
  "logged d =
     \<lparr>drv_kind = drv_kind d,
      drv_batch = (\<lambda>sql (s, log). case drv_batch d sql s of (r, s) \<Rightarrow> (r, (s, log @ [(sql, is_ok r)]))),
      drv_insert = (\<lambda>sql vs. logged_call (drv_insert d sql vs)),
      drv_table_info = (\<lambda>t. logged_call (drv_table_info d t)),
      drv_fk_list = (\<lambda>t. logged_call (drv_fk_list d t)),
      drv_columns = (\<lambda>t. logged_call (drv_columns d t)),
      drv_key_columns = (\<lambda>t. logged_call (drv_key_columns d t)),
      drv_my_keys = (\<lambda>t. logged_call (drv_my_keys d t)),
      drv_pg_keys = (\<lambda>t. logged_call (drv_pg_keys d t)),
      drv_query = (\<lambda>sql vs. logged_call (drv_query d sql vs))\<rparr>"

section \<open>What the statements do to the rows\<close>

text \<open>
  A database as its tables, a table as its rows, a row as the literals of its columns (none for a
  null), and the four kinds of statements a rebuild is made of, with their text and their effect. A
  statement that names a table that is not there fails.
\<close>

type_synonym live_row = "string \<rightharpoonup> string"
type_synonym live_db = "string \<rightharpoonup> live_row list"

datatype source = FromColumn string | OrDefault string string | Default string

datatype rebuild_step =
    NewTable cli_table
  | CopyRows string "(string \<times> source) list" string
  | DropTable string
  | RenameTable string string

fun source_text :: "source \<Rightarrow> string" where
  "source_text (FromColumn c) = c"
| "source_text (OrDefault c v) = ''COALESCE('' @ c @ '', '' @ v @ '')''"
| "source_text (Default v) = v"

fun step_text :: "rebuild_step \<Rightarrow> string" where
  "step_text (NewTable t) = create_table Sqlite t"
| "step_text (CopyRows to cols from) =
     ''INSERT INTO '' @ to @ '' ('' @ intercalate '', '' (map fst cols) @ '') SELECT ''
       @ intercalate '', '' (map (\<lambda>e. source_text (snd e)) cols) @ '' FROM '' @ from"
| "step_text (DropTable n) = ''DROP TABLE '' @ n"
| "step_text (RenameTable from to) = ''ALTER TABLE '' @ from @ '' RENAME TO '' @ to"

fun source_value :: "live_row \<Rightarrow> source \<Rightarrow> string option" where
  "source_value row (FromColumn c) = row c"
| "source_value row (OrDefault c v) = Some (case row c of None \<Rightarrow> v | Some w \<Rightarrow> w)"
| "source_value row (Default v) = Some v"

definition copied_row :: "(string \<times> source) list \<Rightarrow> live_row \<Rightarrow> live_row" where
  "copied_row cols row n = (case map_of cols n of None \<Rightarrow> None | Some src \<Rightarrow> source_value row src)"

fun run_step :: "rebuild_step \<Rightarrow> live_db \<Rightarrow> live_db option" where
  "run_step (NewTable t) db = Some (if db (ct_name t) = None then db(ct_name t \<mapsto> []) else db)"
| "run_step (CopyRows to cols from) db =
     (case (db to, db from) of
        (Some old, Some rows) \<Rightarrow> Some (db(to \<mapsto> old @ map (copied_row cols) rows))
      | _ \<Rightarrow> None)"
| "run_step (DropTable n) db = (if db n = None then None else Some (db(n := None)))"
| "run_step (RenameTable from to) db =
     (case db from of
        None \<Rightarrow> None
      | Some rows \<Rightarrow> if db to = None then Some (db(from := None, to \<mapsto> rows)) else None)"

fun run_all :: "rebuild_step list \<Rightarrow> live_db \<Rightarrow> live_db option" where
  "run_all [] db = Some db"
| "run_all (x # xs) db = (case run_step x db of None \<Rightarrow> None | Some db \<Rightarrow> run_all xs db)"

text \<open>
  The row a row of the old shape becomes: a declared column keeps its value, a null in a column that
  must not be null and a column the old shape does not have take the default of the type, and a
  column that is not declared is gone.
\<close>

definition type_default :: "column_ty \<Rightarrow> string" where
  "type_default ty = (if ty = TyText then [CHR 0x27, CHR 0x27] else ''0'')"

definition migrated_row :: "cli_table \<Rightarrow> string set \<Rightarrow> live_row \<Rightarrow> live_row" where
  "migrated_row t live row n =
     (case List.find (\<lambda>c. cc_name c = n) (ct_columns t) of
        None \<Rightarrow> None
      | Some c \<Rightarrow>
          if n \<notin> live then Some (type_default (cd_type (cc_def c)))
          else if cd_nullable (cc_def c) \<or> row n \<noteq> None then row n
          else Some (type_default (cd_type (cc_def c))))"

text \<open>
  Statements that first create a table of the declared shape, move every row to it and give it the
  name of the old one, and leave the other tables alone.
\<close>

definition moves_rows :: "cli_table \<Rightarrow> string set \<Rightarrow> string list \<Rightarrow> bool" where
  "moves_rows t live sqls \<longleftrightarrow>
     (\<exists>steps. sqls = map step_text steps
        \<and> hd steps = NewTable (t\<lparr>ct_name := ''__powder_rebuild_'' @ ct_name t\<rparr>)
        \<and> (\<forall>db rows. db (ct_name t) = Some rows \<longrightarrow> db (''__powder_rebuild_'' @ ct_name t) = None \<longrightarrow>
             run_all steps db = Some (db(ct_name t \<mapsto> map (migrated_row t live) rows))))"

definition rebuild_steps :: "cli_table \<Rightarrow> db_column list \<Rightarrow> rebuild_step list" where
  "rebuild_steps t ex =
     (let tmp = ''__powder_rebuild_'' @ ct_name t in
      [NewTable (t\<lparr>ct_name := tmp\<rparr>),
       CopyRows tmp (map (\<lambda>c. (cc_name c,
           if cc_name c \<notin> dc_name ` set ex then Default (type_default (cd_type (cc_def c)))
           else if cd_nullable (cc_def c) then FromColumn (cc_name c)
           else OrDefault (cc_name c) (type_default (cd_type (cc_def c))))) (ct_columns t)) (ct_name t),
       DropTable (ct_name t), RenameTable tmp (ct_name t)])"

lemma type_default_text: "(if sql_type ty = ''TEXT'' then [CHR 0x27, CHR 0x27] else ''0'') = type_default ty"
  by (cases ty) (simp_all add: type_default_def)

lemma rebuild_statements_steps: "rebuild_statements t ex = map step_text (rebuild_steps t ex)"
proof -
  have "rebuild_source ex c = source_text
      (if cc_name c \<notin> dc_name ` set ex then Default (type_default (cd_type (cc_def c)))
       else if cd_nullable (cc_def c) then FromColumn (cc_name c)
       else OrDefault (cc_name c) (type_default (cd_type (cc_def c))))" for c
    by (simp add: rebuild_source_def Let_def type_default_text)
  then have "rebuild_source ex = (\<lambda>c. source_text
      (if cc_name c \<notin> dc_name ` set ex then Default (type_default (cd_type (cc_def c)))
       else if cd_nullable (cc_def c) then FromColumn (cc_name c)
       else OrDefault (cc_name c) (type_default (cd_type (cc_def c)))))" by (rule ext)
  then show ?thesis by (simp add: rebuild_statements_def rebuild_steps_def Let_def o_def)
qed

lemma map_of_find: "map_of (map (\<lambda>c. (f c, g c)) cs) n = map_option g (List.find (\<lambda>c. f c = n) cs)"
  by (induction cs) auto

lemma copied_migrated:
  "copied_row (map (\<lambda>c. (cc_name c,
       if cc_name c \<notin> dc_name ` set ex then Default (type_default (cd_type (cc_def c)))
       else if cd_nullable (cc_def c) then FromColumn (cc_name c)
       else OrDefault (cc_name c) (type_default (cd_type (cc_def c))))) (ct_columns t)) row
   = migrated_row t (dc_name ` set ex) row"
proof
  fix n
  show "copied_row (map (\<lambda>c. (cc_name c,
       if cc_name c \<notin> dc_name ` set ex then Default (type_default (cd_type (cc_def c)))
       else if cd_nullable (cc_def c) then FromColumn (cc_name c)
       else OrDefault (cc_name c) (type_default (cd_type (cc_def c))))) (ct_columns t)) row n
   = migrated_row t (dc_name ` set ex) row n"
  proof (cases "List.find (\<lambda>c. cc_name c = n) (ct_columns t)")
    case None
    then show ?thesis unfolding copied_row_def migrated_row_def map_of_find by simp
  next
    case (Some c)
    then have "cc_name c = n" by (auto simp: find_Some_iff)
    with Some show ?thesis
      unfolding copied_row_def migrated_row_def map_of_find by (auto split: option.split)
  qed
qed

lemma rebuild_moves_rows: "moves_rows t (dc_name ` set ex) (rebuild_statements t ex)"
proof -
  have "run_all (rebuild_steps t ex) db = Some (db(ct_name t \<mapsto> map (migrated_row t (dc_name ` set ex)) rows))"
    if db: "db (ct_name t) = Some rows" "db (''__powder_rebuild_'' @ ct_name t) = None" for db rows
  proof -
    let ?tmp = "''__powder_rebuild_'' @ ct_name t"
    have ne: "?tmp \<noteq> ct_name t" by (metis append_self_conv2 list.distinct(1))
    let ?new = "map (migrated_row t (dc_name ` set ex)) rows"
    have "run_all (rebuild_steps t ex) db
        = Some (db(?tmp \<mapsto> [], ?tmp \<mapsto> [] @ ?new, ct_name t := None, ?tmp := None, ct_name t \<mapsto> ?new))"
      using db ne copied_migrated [of ex t, THEN ext [of _ "migrated_row t (dc_name ` set ex)"]]
      by (simp add: rebuild_steps_def Let_def del: append_Cons)
    also have "\<dots> = Some (db(ct_name t \<mapsto> ?new))" using db(2) ne by (auto simp: fun_eq_iff)
    finally show ?thesis .
  qed
  moreover have "hd (rebuild_steps t ex) = NewTable (t\<lparr>ct_name := ''__powder_rebuild_'' @ ct_name t\<rparr>)"
    by (simp add: rebuild_steps_def Let_def)
  ultimately show ?thesis unfolding moves_rows_def rebuild_statements_steps by blast
qed

section \<open>The shapes of a rebuild\<close>

text \<open>
  The log of one table whose statements are given: the transaction does not start; all statements
  succeed and it is committed; they succeed and COMMIT fails, after which no statement ends the
  transaction; or one of them fails and it is rolled back. The last argument says whether the table
  is rebuilt.
\<close>

inductive rebuild_block :: "string list \<Rightarrow> stmt_log \<Rightarrow> bool \<Rightarrow> bool" for sqls where
  refused: "rebuild_block sqls [(''BEGIN'', False)] False"
| committed: "rebuild_block sqls ((''BEGIN'', True) # map (\<lambda>q. (q, True)) sqls @ [(''COMMIT'', True)]) True"
| left_open: "rebuild_block sqls ((''BEGIN'', True) # map (\<lambda>q. (q, True)) sqls @ [(''COMMIT'', False)]) False"
| undone: "sqls = done @ q # rest \<Longrightarrow>
    rebuild_block sqls ((''BEGIN'', True) # map (\<lambda>q. (q, True)) done @ [(q, False), (''ROLLBACK'', ok)]) False"

inductive_cases rebuilt_block: "rebuild_block sqls seg True"

lemma rebuilt_block_iff:
  "rebuild_block sqls seg True \<longleftrightarrow> seg = (''BEGIN'', True) # map (\<lambda>q. (q, True)) sqls @ [(''COMMIT'', True)]"
  by (auto elim: rebuilt_block intro: rebuild_block.intros)

lemma commit_block:
  "rebuild_block sqls ((''BEGIN'', True) # map (\<lambda>q. (q, True)) sqls @ [(''COMMIT'', ok)]) ok"
  using committed left_open by (cases ok) auto

lemma logged_batch:
  "execute_batch (logged d) sql (s, log) = (r, st) \<Longrightarrow> \<exists>s'. st = (s', log @ [(sql, is_ok r)]) \<and> r \<noteq> Inl CliPanic"
  by (auto simp: execute_batch_def driver_io_def logged_def map_err_def split: prod.splits sum.splits)

lemma logged_introspect: "introspect (logged d) t (s, log) = (r, st) \<Longrightarrow> \<exists>s'. st = (s', log) \<and> introspect d t s = (r, s')"
  "introspect_fks (logged d) t (s, log) = (r', st') \<Longrightarrow> \<exists>s'. st' = (s', log)"
  by (auto simp: introspect_def introspect_fks_def io_bind_def io_lift_def driver_io_def logged_def logged_call_def
      map_err_def split: prod.splits sum.splits)

text \<open>Running the statements of a rebuild: all of them, or up to the first that fails.\<close>

lemma run_steps_log:
  "io_fold (\<lambda>sql steps. io_bind (execute_batch (logged d) sql) (\<lambda>_. io_return (steps @ [sql]))) sqls a (s, log) = (r, st)
   \<Longrightarrow> \<exists>s'. (st = (s', log @ map (\<lambda>q. (q, True)) sqls) \<and> r = Inr (a @ sqls))
     \<or> (\<exists>done q rest m. sqls = done @ q # rest \<and> st = (s', log @ map (\<lambda>q. (q, True)) done @ [(q, False)])
          \<and> r = Fail m)"
proof (induction sqls arbitrary: a s log)
  case Nil
  then show ?case by (cases st) (auto simp: io_lift_def)
next
  case (Cons sql sqls)
  obtain r1 st1 where e: "execute_batch (logged d) sql (s, log) = (r1, st1)"
    by (cases "execute_batch (logged d) sql (s, log)")
  from logged_batch [OF e] obtain s1 where s1: "st1 = (s1, log @ [(sql, is_ok r1)])" "r1 \<noteq> Inl CliPanic" by blast
  show ?case
  proof (cases r1)
    case (Inl f)
    then obtain m where "r1 = Fail m" using s1(2) by (cases f) auto
    with Cons.prems e s1 have "st = (s1, log @ [(sql, False)])" "r = Fail m" by (simp_all add: io_bind_def)
    then show ?thesis by (intro exI [of _ s1] disjI2) (auto intro: exI [of _ "[]"])
  next
    case (Inr u)
    from e s1(1) Inr have e': "execute_batch (logged d) sql (s, log) = (Inr u, (s1, log @ [(sql, True)]))" by simp
    from Cons.prems have rest: "io_fold (\<lambda>sql steps. io_bind (execute_batch (logged d) sql)
        (\<lambda>_. io_return (steps @ [sql]))) sqls (a @ [sql]) (s1, log @ [(sql, True)]) = (r, st)"
      by (simp add: io_bind_assoc io_bind_run [where m = "execute_batch (logged d) sql" and s = "(s, log)", OF e'])
    from Cons.IH [OF rest] show ?thesis
    proof (elim exE disjE conjE)
      fix s' "done" q rest m
      assume "sqls = done @ q # rest" "st = (s', (log @ [(sql, True)]) @ map (\<lambda>q. (q, True)) done @ [(q, False)])"
        "r = Fail m"
      then show ?thesis by (intro exI [of _ s'] disjI2) (intro exI [of _ "sql # done"] exI [of _ q] exI [of _ rest] exI [of _ m], simp)
    qed auto
  qed
qed

text \<open>One table: nothing is logged when its shape is right or cannot be read.\<close>

lemma rebuild_table_log:
  assumes "rebuild_table (logged d) t a (s, log) = (r, st)"
  shows "\<exists>s' seg. st = (s', log @ seg)
    \<and> (seg = [] \<or> (\<exists>ex s0 s1. introspect d (ct_name t) s0 = (Inr ex, s1)
         \<and> rebuild_block (rebuild_statements t ex) seg (is_ok r)))"
proof -
  obtain r1 st1 where i: "introspect (logged d) (ct_name t) (s, log) = (r1, st1)"
    by (cases "introspect (logged d) (ct_name t) (s, log)")
  from logged_introspect(1) [OF i] obtain s1 where s1: "st1 = (s1, log)" and live: "introspect d (ct_name t) s = (r1, s1)" by blast
  show ?thesis
  proof (cases r1)
    case (Inl f)
    with assms i s1 show ?thesis by (auto simp: rebuild_table_def io_bind_def)
  next
    case (Inr ex)
    note Inr0 = this
    obtain r2 st2 where k: "introspect_fks (logged d) (ct_name t) (s1, log) = (r2, st2)"
      by (cases "introspect_fks (logged d) (ct_name t) (s1, log)")
    from logged_introspect(2) [OF k] obtain s2 where s2: "st2 = (s2, log)" by blast
    show ?thesis
    proof (cases r2)
      case (Inl f)
      with assms i s1 Inr k s2 show ?thesis by (auto simp: rebuild_table_def io_bind_def)
    next
      case (Inr fks)
      note run = assms [unfolded rebuild_table_def io_bind_run [where m = "introspect (logged d) (ct_name t)" and s = "(s, log)", OF i [unfolded s1 \<open>r1 = Inr ex\<close>]]
          io_bind_run [where m = "introspect_fks (logged d) (ct_name t)" and s = "(s1, log)", OF k [unfolded s2 Inr]]]
      show ?thesis
      proof (cases "check_table t ex sql_type @ check_fk_lists t fks = []")
        case True
        with run show ?thesis by (auto simp: io_lift_def)
      next
        case False
        let ?sqls = "rebuild_statements t ex"
        note run = run [unfolded if_not_P [OF False]]
        obtain r3 st3 where b: "execute_batch (logged d) ''BEGIN'' (s2, log) = (r3, st3)"
          by (cases "execute_batch (logged d) ''BEGIN'' (s2, log)")
        from logged_batch [OF b] obtain s3 where s3: "st3 = (s3, log @ [(''BEGIN'', is_ok r3)])" by blast
        show ?thesis
        proof (cases r3)
          case (Inl f)
          with run b s3 have "r = Inl f \<and> st = (s3, log @ [(''BEGIN'', False)])" by (simp add: io_bind_def)
          with live Inr0 show ?thesis by (auto intro: refused)
        next
          case (Inr u)
          obtain r4 st4 where w: "run_steps (logged d) ?sqls (s3, log @ [(''BEGIN'', True)]) = (r4, st4)"
            by (cases "run_steps (logged d) ?sqls (s3, log @ [(''BEGIN'', True)])")
          note run' = run [unfolded io_bind_run [where m = "execute_batch (logged d) ''BEGIN''" and s = "(s2, log)", OF b [unfolded s3 Inr]]]
          from run_steps_log [OF w [unfolded run_steps_def]] show ?thesis
          proof (elim exE disjE conjE)
            fix s4 assume r4: "st4 = (s4, (log @ [(''BEGIN'', True)]) @ map (\<lambda>q. (q, True)) ?sqls)" "r4 = Inr ([] @ ?sqls)"
            obtain r5 st5 where c: "execute_batch (logged d) ''COMMIT'' st4 = (r5, st5)"
              by (cases "execute_batch (logged d) ''COMMIT'' st4")
            from logged_batch [OF c [unfolded r4(1)]] obtain s5 where "st5 = (s5, snd st4 @ [(''COMMIT'', is_ok r5)])"
              unfolding r4(1) by auto
            with run' w r4 c have "st = (s5, log @ (''BEGIN'', True) # map (\<lambda>q. (q, True)) ?sqls @ [(''COMMIT'', is_ok r)])"
              by (cases r5) (auto simp: io_bind_def io_try_def io_lift_def)
            then show ?thesis using commit_block [of ?sqls "is_ok r"] live Inr0 by blast
          next
            fix s4 "done" q rest m
            assume r4: "?sqls = done @ q # rest"
              "st4 = (s4, (log @ [(''BEGIN'', True)]) @ map (\<lambda>q. (q, True)) done @ [(q, False)])" "r4 = Fail m"
            obtain r5 st5 where c: "execute_batch (logged d) ''ROLLBACK'' st4 = (r5, st5)"
              by (cases "execute_batch (logged d) ''ROLLBACK'' st4")
            from logged_batch [OF c [unfolded r4(2)]] obtain s5 where "st5 = (s5, snd st4 @ [(''ROLLBACK'', is_ok r5)])"
              unfolding r4(2) by auto
            with run' w r4(2,3) c have "\<not> is_ok r \<and> st = (s5, log @ (''BEGIN'', True) # map (\<lambda>q. (q, True)) done
                @ [(q, False), (''ROLLBACK'', is_ok r5)])"
              by (auto simp: io_bind_def io_try_def io_lift_def)
            then show ?thesis using undone [OF r4(1), of "is_ok r5"] live Inr0 by auto
          qed
        qed
      qed
    qed
  qed
qed

section \<open>A whole rebuild\<close>

text \<open>
  The log of a table of the schema whose live columns are those the database reports, with statements
  that move its rows.
\<close>

definition block_of_schema :: "'s driver \<Rightarrow> cli_schema \<Rightarrow> bool \<Rightarrow> stmt_log \<Rightarrow> bool" where
  "block_of_schema d sch ok seg \<longleftrightarrow>
     (\<exists>t \<in> set (cs_tables sch). \<exists>ex s s' sqls. introspect d (ct_name t) s = (Inr ex, s')
        \<and> moves_rows t (dc_name ` set ex) sqls \<and> rebuild_block sqls seg ok)"

lemma rebuild_tables_log:
  "set ts \<subseteq> set (cs_tables sch) \<Longrightarrow> io_fold (rebuild_table (logged d)) ts a (s, log) = (r, st) \<Longrightarrow>
     \<exists>s' segs last. st = (s', log @ concat segs @ last) \<and> list_all (block_of_schema d sch True) segs
       \<and> (last = [] \<or> \<not> is_ok r \<and> block_of_schema d sch False last)"
proof (induction ts arbitrary: a s log)
  case Nil
  then show ?case by (cases st) (auto simp: io_lift_def intro!: exI [of _ "[]"])
next
  case (Cons t ts)
  obtain r1 st1 where e: "rebuild_table (logged d) t a (s, log) = (r1, st1)"
    by (cases "rebuild_table (logged d) t a (s, log)")
  from rebuild_table_log [OF e] obtain s1 seg where s1: "st1 = (s1, log @ seg)"
    "seg = [] \<or> (\<exists>ex s0 s2. introspect d (ct_name t) s0 = (Inr ex, s2)
       \<and> rebuild_block (rebuild_statements t ex) seg (is_ok r1))" by blast
  have seg: "seg = [] \<or> block_of_schema d sch (is_ok r1) seg"
    using s1(2) Cons.prems(1) rebuild_moves_rows unfolding block_of_schema_def by (metis list.set_intros(1) subsetD)
  show ?case
  proof (cases r1)
    case (Inl f)
    with Cons.prems(2) e s1(1) have "r = Inl f" "st = (s1, log @ concat [] @ seg)" by (simp_all add: io_bind_def)
    with seg Inl show ?thesis by (intro exI [of _ s1] exI [of _ "[]"] exI [of _ seg]) auto
  next
    case (Inr b)
    from Cons.prems(2) have rest: "io_fold (rebuild_table (logged d)) ts b (s1, log @ seg) = (r, st)"
      by (simp add: io_bind_run [where m = "rebuild_table (logged d) t a" and s = "(s, log)", OF e [unfolded s1(1) Inr]])
    from Cons.prems(1) Cons.IH [OF _ rest] obtain s' segs last where x:
      "st = (s', (log @ seg) @ concat segs @ last)" "list_all (block_of_schema d sch True) segs"
      "last = [] \<or> \<not> is_ok r \<and> block_of_schema d sch False last" by auto
    from seg show ?thesis
    proof
      assume "seg = []"
      with x show ?thesis by auto
    next
      assume "block_of_schema d sch (is_ok r1) seg"
      with x Inr show ?thesis by (intro exI [of _ s'] exI [of _ "seg # segs"] exI [of _ last]) simp
    qed
  qed
qed

text \<open>
  C27: Whatever the database answers, the statements of a rebuild after the additive migration are:
  none, when the migration fails; the switching off of foreign keys when that fails; or else foreign
  keys off, the committed blocks of the tables rebuilt, at most one block that was refused, rolled back
  or whose COMMIT failed (and then the result is an error), and last foreign keys on. A committed block
  is BEGIN, statements that create a table of the declared shape, move every row of the live table to
  it and then replace the old table by it, and COMMIT: no row is lost, each keeps the values of the
  columns both shapes have, and the other tables are left alone (no table may have the name the new
  one takes for the moment). When a statement fails, ROLLBACK is
  issued before anything else (the code does not look at its result); when COMMIT fails no statement
  ends the transaction.
\<close>

theorem rebuild_ends_transactions:
  assumes "migrate_rebuild (logged d) sch (s, []) = (r, (s', log))" "drv_kind d = ConnSqlite"
  shows "\<exists>rm s1 mig rest. migrate (logged d) sch (s, []) = (rm, (s1, mig)) \<and> log = mig @ rest
    \<and> (rest = [] \<and> \<not> is_ok rm \<and> \<not> is_ok r
       \<or> rest = [(''PRAGMA foreign_keys = OFF'', False)] \<and> \<not> is_ok r
       \<or> (\<exists>segs last ok. rest = (''PRAGMA foreign_keys = OFF'', True) # concat segs @ last @ [(''PRAGMA foreign_keys = ON'', ok)]
            \<and> list_all (block_of_schema d sch True) segs
            \<and> (last = [] \<or> \<not> is_ok r \<and> block_of_schema d sch False last)))"
proof -
  have kind: "drv_kind (logged d) = ConnSqlite" using assms(2) by (simp add: logged_def)
  obtain rm s1 mig where m: "migrate (logged d) sch (s, []) = (rm, (s1, mig))"
    by (cases "migrate (logged d) sch (s, [])") auto
  show ?thesis
  proof (cases rm)
    case (Inl f)
    with assms(1) m have "r = Inl f" "log = mig" by (simp_all add: migrate_rebuild_def io_bind_def)
    with m Inl show ?thesis by simp
  next
    case (Inr applied)
    note run = assms(1) [unfolded migrate_rebuild_def io_bind_run [where m = "migrate (logged d) sch" and s = "(s, [])", OF m [unfolded Inr]] kind]
    obtain r2 st2 where off: "execute_batch (logged d) ''PRAGMA foreign_keys = OFF'' (s1, mig) = (r2, st2)"
      by (cases "execute_batch (logged d) ''PRAGMA foreign_keys = OFF'' (s1, mig)")
    from logged_batch [OF off] obtain s2 where s2: "st2 = (s2, mig @ [(''PRAGMA foreign_keys = OFF'', is_ok r2)])" by blast
    show ?thesis
    proof (cases r2)
      case (Inl f)
      with run off s2 have "r = Inl f" "log = mig @ [(''PRAGMA foreign_keys = OFF'', False)]"
        by (simp_all add: io_bind_def)
      with m show ?thesis by simp
    next
      case (Inr u)
      obtain r3 st3 where f: "io_fold (rebuild_table (logged d)) (tables_in_dependency_order sch) applied
          (s2, mig @ [(''PRAGMA foreign_keys = OFF'', True)]) = (r3, st3)"
        by (cases "io_fold (rebuild_table (logged d)) (tables_in_dependency_order sch) applied
          (s2, mig @ [(''PRAGMA foreign_keys = OFF'', True)])")
      have "set (tables_in_dependency_order sch) \<subseteq> set (cs_tables sch)" by (simp add: order_tables)
      from rebuild_tables_log [OF this f] obtain s3 segs last where x:
        "st3 = (s3, (mig @ [(''PRAGMA foreign_keys = OFF'', True)]) @ concat segs @ last)"
        "list_all (block_of_schema d sch True) segs" "last = [] \<or> \<not> is_ok r3 \<and> block_of_schema d sch False last" by blast
      obtain r4 st4 where on: "execute_batch (logged d) ''PRAGMA foreign_keys = ON'' st3 = (r4, st4)"
        by (cases "execute_batch (logged d) ''PRAGMA foreign_keys = ON'' st3")
      from logged_batch [OF on [unfolded x(1)]] obtain s4 where s4: "st4 = (s4, snd st3 @ [(''PRAGMA foreign_keys = ON'', is_ok r4)])"
        unfolding x(1) by auto
      have try_f: "io_try (io_fold (rebuild_table (logged d)) (tables_in_dependency_order sch) applied)
          (s2, mig @ [(''PRAGMA foreign_keys = OFF'', True)]) = (Inr r3, st3)" using f by (simp add: io_try_def)
      have try_on: "io_try (execute_batch (logged d) ''PRAGMA foreign_keys = ON'') st3 = (Inr r4, st4)"
        using on by (simp add: io_try_def)
      from run have "r = r3 \<and> (s', log) = st4"
        by (simp add: io_bind_run [where m = "execute_batch (logged d) ''PRAGMA foreign_keys = OFF''" and s = "(s1, mig)", OF off [unfolded s2 Inr, simplified]] io_bind_run [where m = "io_try (io_fold (rebuild_table (logged d)) (tables_in_dependency_order sch) applied)" and s = "(s2, mig @ [(''PRAGMA foreign_keys = OFF'', True)])", OF try_f] io_bind_run [where m = "io_try (execute_batch (logged d) ''PRAGMA foreign_keys = ON'')" and s = "st3", OF try_on])
      with s4 x have "r = r3" "log = mig @ ((''PRAGMA foreign_keys = OFF'', True) # concat segs @ last
          @ [(''PRAGMA foreign_keys = ON'', is_ok r4)])" by simp_all
      with m x(2,3) show ?thesis by blast
    qed
  qed
qed

text \<open>A database whose column has another type, and which is full.\<close>

definition full_driver :: "(string \<times> string \<times> i64 \<times> i64) list \<Rightarrow> unit driver" where
  "full_driver rows =
     \<lparr>drv_kind = ConnSqlite,
      drv_batch = (\<lambda>sql u. (if starts_with sql ''INSERT'' then Inl ''full'' else Inr (), u)),
      drv_insert = (\<lambda>sql vs u. (Inr (), u)),
      drv_table_info = (\<lambda>t u. (Inr rows, u)),
      drv_fk_list = (\<lambda>t u. (Inr [], u)),
      drv_columns = (\<lambda>t u. (Inr [], u)),
      drv_key_columns = (\<lambda>t u. (Inr [], u)),
      drv_my_keys = (\<lambda>t u. (Inr [], u)),
      drv_pg_keys = (\<lambda>t u. (Inr [], u)),
      drv_query = (\<lambda>sql vs u. (Inl ''not supported'', u))\<rparr>"

definition one_table_schema :: cli_schema where
  "one_table_schema =
     \<lparr>cs_tables = [\<lparr>ct_name = ''t'', ct_columns = [plain_column ''k'' TyText False None], ct_foreign_keys = []\<rparr>],
      cs_queries = []\<rparr>"

definition rolled_back_log :: stmt_log where
  "rolled_back_log =
     [(''PRAGMA foreign_keys = OFF'', True), (''BEGIN'', True),
      (''CREATE TABLE IF NOT EXISTS __powder_rebuild_t (k TEXT NOT NULL)'', True),
      (''INSERT INTO __powder_rebuild_t (k) SELECT COALESCE(k, '' @ [CHR 0x27, CHR 0x27] @ '') FROM t'', False),
      (''ROLLBACK'', True), (''PRAGMA foreign_keys = ON'', True)]"

lemma rebuild_ends_transactions_witness:
  "migrate_rebuild (logged (full_driver [(''k'', ''INTEGER'', 1, 0)])) one_table_schema ((), [])
     = (Fail ''rebuild of `t` failed: full'', ((), rolled_back_log))
   \<and> (\<exists>mig last. rolled_back_log = mig @ (''PRAGMA foreign_keys = OFF'', True) # last @ [(''PRAGMA foreign_keys = ON'', True)]
        \<and> block_of_schema (full_driver [(''k'', ''INTEGER'', 1, 0)]) one_table_schema False last)"
proof -
  let ?d = "full_driver [(''k'', ''INTEGER'', 1, 0)]"
  have r: "migrate_rebuild (logged ?d) one_table_schema ((), [])
     = (Fail ''rebuild of `t` failed: full'', ((), rolled_back_log))" by code_simp
  have k: "drv_kind ?d = ConnSqlite" by code_simp
  have m: "migrate (logged ?d) one_table_schema ((), []) = (Inr [], ((), []))" by code_simp
  have b: "(''BEGIN'', True) \<in> set rolled_back_log" "(''COMMIT'', True) \<notin> set rolled_back_log"
    "rolled_back_log \<noteq> [(''PRAGMA foreign_keys = OFF'', False)]" "rolled_back_log \<noteq> []" by code_simp+
  from rebuild_ends_transactions [OF r k] m b(3,4) obtain segs last ok where x:
    "rolled_back_log = (''PRAGMA foreign_keys = OFF'', True) # concat segs @ last @ [(''PRAGMA foreign_keys = ON'', ok)]"
    "list_all (block_of_schema (full_driver [(''k'', ''INTEGER'', 1, 0)]) one_table_schema True) segs"
    "last = [] \<or> block_of_schema (full_driver [(''k'', ''INTEGER'', 1, 0)]) one_table_schema False last" by auto
  have no_commit: "segs = []"
  proof (rule ccontr)
    assume "segs \<noteq> []"
    then obtain seg rest where "segs = seg # rest" by (cases segs) auto
    with x(2) obtain sqls where "rebuild_block sqls seg True" by (auto simp: block_of_schema_def)
    then have "(''COMMIT'', True) \<in> set seg" by (auto simp: rebuilt_block_iff)
    with \<open>segs = seg # rest\<close> have "(''COMMIT'', True) \<in> set rolled_back_log" unfolding x(1) by auto
    with b(2) show False by blast
  qed
  have "last \<noteq> []" using b(1) unfolding x(1) no_commit by auto
  moreover have "ok = True"
  proof -
    have "List.last rolled_back_log = (''PRAGMA foreign_keys = ON'', True)" by code_simp
    then show ?thesis unfolding x(1) by simp
  qed
  ultimately show ?thesis using r x(1,3) no_commit by (intro conjI exI [of _ "[]"] exI [of _ last]) auto
qed

end
