(* ===== verification/Gate.thy ===== *)
theory Gate
  imports Prelude
begin

text \<open>
  The admission queue of the studio (\<open>powder-studio/src/ai.rs\<close>, \<open>FifoGate\<close>): at most \<open>max\<close> model calls at
  a time, first come, first served. A step is what a thread does while it holds the mutex. A thread that
  waits on the condition variable is asleep until \<open>notify_all\<close> or a spurious wake-up; a thread that was
  woken checks its condition again. A dropped pass releases the mutex before it notifies, so a signal
  can be pending. Tickets are natural numbers: fewer than \<open>2 ^ 64\<close> are ever drawn.
\<close>

section \<open>States and operations\<close>

record gate =
  g_max :: nat
  g_running :: nat
  g_next_ticket :: nat
  g_waiting :: "nat list"
  g_asleep :: "nat list"
  g_woken :: "nat list"
  g_passes :: "nat list"
  g_signals :: nat
  g_admitted :: "nat list"

definition gate_new :: "nat \<Rightarrow> gate" where
  "gate_new m =
     \<lparr>g_max = max m 1, g_running = 0, g_next_ticket = 0, g_waiting = [], g_asleep = [], g_woken = [],
      g_passes = [], g_signals = 0, g_admitted = []\<rparr>"

definition gate_queue_depth :: "gate \<Rightarrow> nat" where
  "gate_queue_depth g = length (g_waiting g)"

text \<open>The loop condition of \<open>enter\<close> and what follows the loop.\<close>

definition may_enter :: "nat \<Rightarrow> gate \<Rightarrow> bool" where
  "may_enter t g \<longleftrightarrow> g_running g < g_max g \<and> g_waiting g \<noteq> [] \<and> hd (g_waiting g) = t"

definition gate_admit :: "nat \<Rightarrow> gate \<Rightarrow> gate" where
  "gate_admit t g =
     g\<lparr>g_waiting := tl (g_waiting g), g_running := g_running g + 1, g_passes := g_passes g @ [t],
       g_admitted := g_admitted g @ [t]\<rparr>"

definition gate_check :: "nat \<Rightarrow> gate \<Rightarrow> gate" where
  "gate_check t g = (if may_enter t g then gate_admit t g else g\<lparr>g_asleep := g_asleep g @ [t]\<rparr>)"

definition gate_enter :: "gate \<Rightarrow> gate" where
  "gate_enter g =
     (let t = g_next_ticket g
      in gate_check t (g\<lparr>g_next_ticket := t + 1, g_waiting := g_waiting g @ [t]\<rparr>))"

definition gate_recheck :: "nat \<Rightarrow> gate \<Rightarrow> gate" where
  "gate_recheck t g = gate_check t (g\<lparr>g_woken := remove1 t (g_woken g)\<rparr>)"

text \<open>The two parts of dropping a pass.\<close>

definition gate_release :: "nat \<Rightarrow> gate \<Rightarrow> gate" where
  "gate_release t g =
     g\<lparr>g_running := g_running g - 1, g_passes := remove1 t (g_passes g), g_signals := g_signals g + 1\<rparr>"

definition gate_notify :: "gate \<Rightarrow> gate" where
  "gate_notify g =
     g\<lparr>g_signals := g_signals g - 1, g_woken := g_woken g @ g_asleep g, g_asleep := []\<rparr>"

lemmas gate_ops =
  gate_new_def may_enter_def gate_admit_def gate_check_def gate_enter_def gate_recheck_def gate_release_def
  gate_notify_def Let_def

section \<open>Steps\<close>

text \<open>Steps of the threads that have arrived, and all steps.\<close>

inductive gate_internal :: "gate \<Rightarrow> gate \<Rightarrow> bool" where
  recheck: "t \<in> set (g_woken g) \<Longrightarrow> gate_internal g (gate_recheck t g)"
| release: "t \<in> set (g_passes g) \<Longrightarrow> gate_internal g (gate_release t g)"
| notify: "0 < g_signals g \<Longrightarrow> gate_internal g (gate_notify g)"

inductive gate_step :: "gate \<Rightarrow> gate \<Rightarrow> bool" where
  internal: "gate_internal g h \<Longrightarrow> gate_step g h"
| arrive: "gate_step g (gate_enter g)"
| spurious: "t \<in> set (g_asleep g) \<Longrightarrow>
    gate_step g (g\<lparr>g_asleep := remove1 t (g_asleep g), g_woken := g_woken g @ [t]\<rparr>)"

inductive gate_reachable :: "nat \<Rightarrow> gate \<Rightarrow> bool" for m where
  gate_start: "gate_reachable m (gate_new m)"
| gate_more: "gate_reachable m g \<Longrightarrow> gate_step g h \<Longrightarrow> gate_reachable m h"

inductive_cases gate_stepE: "gate_step g h"
inductive_cases gate_internalE: "gate_internal g h"
inductive_simps gate_internal_iff: "gate_internal g h"

lemma reachable_enter: "gate_reachable m g \<Longrightarrow> gate_reachable m (gate_enter g)"
  by (rule gate_more [OF _ arrive])

section \<open>The invariant\<close>

text \<open>
  Tickets are admitted in the order they are drawn; a waiting thread is asleep or woken, not both; the
  head of the queue sleeps only while someone runs or a signal is pending.
\<close>

definition gate_inv :: "nat \<Rightarrow> gate \<Rightarrow> bool" where
  "gate_inv m g \<longleftrightarrow>
     g_max g = max m 1 \<and> g_running g = length (g_passes g) \<and> g_running g \<le> g_max g
     \<and> g_admitted g @ g_waiting g = [0..<g_next_ticket g]
     \<and> set (g_asleep g) \<union> set (g_woken g) = set (g_waiting g) \<and> distinct (g_asleep g @ g_woken g)
     \<and> (g_waiting g = [] \<or> hd (g_waiting g) \<notin> set (g_asleep g) \<or> 0 < g_running g \<or> 0 < g_signals g)"

lemma gate_inv_new: "gate_inv m (gate_new m)"
  by (simp add: gate_inv_def gate_new_def)

lemma ticket_order:
  assumes "ad @ wt = [0..<n]"
  shows "distinct wt" "n \<notin> set wt" "wt = [length ad..<n]"
proof -
  have "distinct (ad @ wt)" using assms by simp
  then show "distinct wt" by simp
  have "set wt \<subseteq> {0..<n}" using arg_cong [where f = set, OF assms] by auto
  then show "n \<notin> set wt" by auto
  have "wt = drop (length ad) (ad @ wt)" by simp
  then show "wt = [length ad..<n]" unfolding assms by simp
qed

text \<open>A check by a thread of the queue that is neither asleep nor woken.\<close>

definition gate_inv_but :: "nat \<Rightarrow> nat \<Rightarrow> gate \<Rightarrow> bool" where
  "gate_inv_but m t g \<longleftrightarrow>
     g_max g = max m 1 \<and> g_running g = length (g_passes g) \<and> g_running g \<le> g_max g
     \<and> g_admitted g @ g_waiting g = [0..<g_next_ticket g] \<and> t \<in> set (g_waiting g)
     \<and> set (g_asleep g) \<union> set (g_woken g) = set (g_waiting g) - {t} \<and> distinct (g_asleep g @ g_woken g)
     \<and> (hd (g_waiting g) \<notin> set (g_asleep g) \<or> 0 < g_running g \<or> 0 < g_signals g)"

lemma gate_inv_check:
  assumes "gate_inv_but m t g"
  shows "gate_inv m (gate_check t g)"
proof (cases "may_enter t g")
  case True
  then obtain ws where ws: "g_waiting g = t # ws" "g_running g < g_max g"
    by (cases "g_waiting g") (auto simp: may_enter_def)
  have "t \<notin> set ws" using ticket_order(1) [of "g_admitted g" "t # ws"] assms ws(1) by (simp add: gate_inv_but_def)
  moreover have "set (g_asleep g) \<union> set (g_woken g) = set (g_waiting g) - {t}" "distinct (g_asleep g @ g_woken g)"
    using assms by (simp_all add: gate_inv_but_def)
  ultimately have "set (g_asleep g) \<union> set (g_woken g) = set ws" "distinct (g_asleep g @ g_woken g)" using ws(1) by auto
  moreover define order where "order = [0..<g_next_ticket g]"
  ultimately show ?thesis
    using assms ws unfolding gate_inv_but_def order_def [symmetric]
    by (simp add: gate_inv_def gate_check_def True gate_admit_def flip: order_def)
next
  case False
  have "g_max g = max m 1" "g_waiting g \<noteq> []" using assms unfolding gate_inv_but_def by (blast, force)
  with False have "hd (g_waiting g) = t \<Longrightarrow> 0 < g_running g" by (auto simp: may_enter_def)
  moreover have "t \<in> set (g_waiting g)" "set (g_asleep g) \<union> set (g_woken g) = set (g_waiting g) - {t}"
    using assms by (simp_all add: gate_inv_but_def)
  then have "set (g_asleep g @ [t]) \<union> set (g_woken g) = set (g_waiting g)" "t \<notin> set (g_asleep g @ g_woken g)" by auto
  ultimately show ?thesis using assms
    by (cases "hd (g_waiting g) = t") (auto simp: gate_inv_but_def gate_inv_def gate_check_def False)
qed

lemma gate_inv_step:
  assumes "gate_inv m g" "gate_step g h"
  shows "gate_inv m h"
  using assms(2)
proof cases
  case internal
  then show ?thesis
  proof cases
    case (recheck t)
    have "gate_inv_but m t (g\<lparr>g_woken := remove1 t (g_woken g)\<rparr>)"
      using assms(1) recheck(2) by (auto simp: gate_inv_but_def gate_inv_def)
    with recheck(1) show ?thesis by (simp add: gate_recheck_def gate_inv_check)
  next
    case (release t)
    with assms(1) show ?thesis
      by (auto simp: gate_inv_def gate_release_def length_remove1)
  next
    case notify
    with assms(1) show ?thesis by (auto simp: gate_inv_def gate_notify_def)
  qed
next
  case arrive
  let ?t = "g_next_ticket g"
  have order: "g_admitted g @ g_waiting g = [0..<?t]" using assms(1) by (simp add: gate_inv_def)
  have "gate_inv_but m ?t (g\<lparr>g_next_ticket := ?t + 1, g_waiting := g_waiting g @ [?t]\<rparr>)"
    using assms(1) ticket_order(2) [OF order]
    by (cases "g_waiting g") (auto simp: gate_inv_def gate_inv_but_def)
  with arrive show ?thesis by (simp add: gate_enter_def Let_def gate_inv_check)
next
  case (spurious t)
  with assms(1) show ?thesis by (auto simp: gate_inv_def)
qed

lemma reachable_gate_inv: "gate_reachable m g \<Longrightarrow> gate_inv m g"
  by (induction rule: gate_reachable.induct) (auto intro: gate_inv_new gate_inv_step)

text \<open>
  C24: In every state the gate can reach, under every interleaving of arrivals, wake-ups and finished
  calls, at most \<open>max\<close> (and at least one) calls run, as many as there are passes, and the tickets admitted
  so far followed by those waiting are all tickets in the order they were drawn.
\<close>

theorem gate_fifo:
  assumes "gate_reachable m g"
  shows "g_running g = length (g_passes g) \<and> g_running g \<le> max m 1
    \<and> g_admitted g @ g_waiting g = [0..<g_next_ticket g]"
  using reachable_gate_inv [OF assms] by (simp add: gate_inv_def)

lemma gate_fifo_witness:
  "g_admitted (gate_enter (gate_enter (gate_new 1))) = [0] \<and> g_waiting (gate_enter (gate_enter (gate_new 1))) = [1]"
proof -
  let ?g = "gate_enter (gate_enter (gate_new 1))"
  have "gate_reachable 1 ?g" by (intro reachable_enter gate_start)
  from gate_fifo [OF this] have app: "g_admitted ?g @ g_waiting ?g = [0..<g_next_ticket ?g]" by blast
  have len: "length (g_admitted ?g) = 1" and drawn: "[0..<g_next_ticket ?g] = [0, 1]" by (simp_all add: gate_ops upt_rec)
  have "take 1 (g_admitted ?g @ g_waiting ?g) = g_admitted ?g" "drop 1 (g_admitted ?g @ g_waiting ?g) = g_waiting ?g"
    using len by simp_all
  then show ?thesis unfolding app drawn by simp
qed

section \<open>Progress\<close>

text \<open>Every internal step uses something up: a place in the queue or a pass, a signal, a wake-up.\<close>

definition gate_measure :: "gate \<Rightarrow> nat \<times> nat \<times> nat" where
  "gate_measure g = (2 * length (g_waiting g) + length (g_passes g), g_signals g, length (g_woken g))"

lemma gate_internal_decreases:
  assumes "gate_internal g h"
  shows "(gate_measure h, gate_measure g) \<in> less_than <*lex*> less_than <*lex*> less_than"
  using assms
proof cases
  case (recheck t)
  let ?g = "g\<lparr>g_woken := remove1 t (g_woken g)\<rparr>"
  have len: "length (remove1 t (g_woken g)) < length (g_woken g)"
    using recheck(2) by (simp add: length_remove1) (metis diff_Suc_less length_pos_if_in_set One_nat_def)
  show ?thesis
  proof (cases "may_enter t ?g")
    case True
    then obtain ws where "g_waiting g = t # ws" by (cases "g_waiting g") (auto simp: may_enter_def)
    with True recheck(1) show ?thesis
      by (simp add: gate_recheck_def gate_check_def gate_admit_def gate_measure_def)
  next
    case False
    with len recheck(1) show ?thesis by (simp add: gate_recheck_def gate_check_def gate_measure_def)
  qed
next
  case (release t)
  then have "0 < length (g_passes g)" by (cases "g_passes g") auto
  with release show ?thesis by (simp add: gate_release_def gate_measure_def length_remove1)
next
  case notify
  then show ?thesis by (simp add: gate_notify_def gate_measure_def)
qed

text \<open>
  C25: No schedule starves a thread that waits: without new arrivals the threads can only take finitely
  many steps, and as long as a thread waits in a reachable state some step is possible, so every run ends
  with the queue empty.
\<close>

theorem gate_serves_all:
  assumes "gate_reachable m g"
  shows "wfp (\<lambda>h g. gate_internal g h) \<and> (g_waiting g = [] \<or> Domainp gate_internal g)"
proof
  have "wf (inv_image (less_than <*lex*> less_than <*lex*> less_than) gate_measure)" by auto
  then show "wfp (\<lambda>h g. gate_internal g h)"
    unfolding wfp_def by (rule wf_subset) (auto dest: gate_internal_decreases)
  note inv = reachable_gate_inv [OF assms, unfolded gate_inv_def]
  show "g_waiting g = [] \<or> Domainp gate_internal g"
  proof (rule disjCI)
    assume stuck: "\<not> Domainp gate_internal g"
    then have none: "g_woken g = []" "g_passes g = []" "g_signals g = 0"
      by (auto simp: Domainp_iff gate_internal_iff neq_Nil_conv) (metis list.set_intros(1) neq_Nil_conv)+
    show "g_waiting g = []"
    proof (rule ccontr)
      assume "g_waiting g \<noteq> []"
      then have "hd (g_waiting g) \<in> set (g_asleep g)" using inv none(1) by (metis Un_empty_right list.set(1) hd_in_set)
      moreover have "g_running g = 0" using inv none(2) by simp
      ultimately show False using inv none(3) \<open>g_waiting g \<noteq> []\<close> by (metis less_numeral_extra(3))
    qed
  qed
qed

lemma gate_serves_all_witness:
  "Domainp gate_internal (gate_enter (gate_enter (gate_new 1)))"
proof -
  have r: "gate_reachable 1 (gate_enter (gate_enter (gate_new 1)))"
    by (intro reachable_enter gate_start)
  have "g_waiting (gate_enter (gate_enter (gate_new 1))) \<noteq> []" by (simp add: gate_ops)
  with gate_serves_all [OF r] show ?thesis by blast
qed

section \<open>An idle slot\<close>

text \<open>
  Admission does not notify: two passes dropped at once wake both waiting threads, the second one checks
  first and sleeps again, the first is admitted, and then the second sleeps although a slot is free,
  until the first call finishes.
\<close>

definition idle_slot_run :: "gate \<Rightarrow> gate" where
  "idle_slot_run g =
     gate_recheck 2 (gate_recheck 3 (gate_notify (gate_notify (gate_release 1 (gate_release 0
       (gate_enter (gate_enter (gate_enter (gate_enter g)))))))))"

lemma gate_leaves_slot_idle:
  "gate_reachable 2 (idle_slot_run (gate_new 2))"
  "g_waiting (idle_slot_run (gate_new 2)) = [3]" "g_asleep (idle_slot_run (gate_new 2)) = [3]"
  "g_running (idle_slot_run (gate_new 2)) = 1" "g_max (idle_slot_run (gate_new 2)) = 2"
  "g_woken (idle_slot_run (gate_new 2)) = []" "g_signals (idle_slot_run (gate_new 2)) = 0"
proof -
  define g4 where "g4 = gate_enter (gate_enter (gate_enter (gate_enter (gate_new 2))))"
  define g6 where "g6 = gate_release 1 (gate_release 0 g4)"
  define g8 where "g8 = gate_notify (gate_notify g6)"
  have r4: "gate_reachable 2 g4" unfolding g4_def by (intro reachable_enter gate_start)
  have "0 \<in> set (g_passes g4)" unfolding g4_def by (simp add: gate_ops)
  then have r5: "gate_reachable 2 (gate_release 0 g4)" by (rule gate_more [OF r4 internal [OF release]])
  have "1 \<in> set (g_passes (gate_release 0 g4))" unfolding g4_def by (simp add: gate_ops)
  then have r6: "gate_reachable 2 g6" unfolding g6_def by (rule gate_more [OF r5 internal [OF release]])
  have "0 < g_signals g6" unfolding g6_def g4_def by (simp add: gate_ops)
  then have r7: "gate_reachable 2 (gate_notify g6)" by (rule gate_more [OF r6 internal [OF notify]])
  have "0 < g_signals (gate_notify g6)" unfolding g6_def g4_def by (simp add: gate_ops)
  then have r8: "gate_reachable 2 g8" unfolding g8_def by (rule gate_more [OF r7 internal [OF notify]])
  have "3 \<in> set (g_woken g8)" unfolding g8_def g6_def g4_def by (simp add: gate_ops)
  then have r9: "gate_reachable 2 (gate_recheck 3 g8)" by (rule gate_more [OF r8 internal [OF recheck]])
  have "2 \<in> set (g_woken (gate_recheck 3 g8))" unfolding g8_def g6_def g4_def by (simp add: gate_ops)
  then show "gate_reachable 2 (idle_slot_run (gate_new 2))"
    unfolding idle_slot_run_def g4_def [symmetric] g6_def [symmetric] g8_def [symmetric]
    by (rule gate_more [OF r9 internal [OF recheck]])
qed (simp_all add: idle_slot_run_def gate_ops)

end
