(* ===== verification/Inspect.thy ===== *)
theory Inspect
  imports CliDb OrmExec
begin

text \<open>
  The blocking engine handle of the command line and the studio and its introspection
  (\<open>powder-core/src/inspect.rs\<close>). Everything goes through a client of the engine, so the flavour of the
  client picks the catalogue query; errors are texts. \<open>DbColumn\<close> and \<open>DbForeignKey\<close> have the fields
  of the records the command line declares, which are shared. Paths are those of a Unix system.
\<close>

section \<open>The engine handle\<close>

definition server_schemes :: "string list" where
  "server_schemes =
     [''postgres://'', ''postgresql://'', ''mysql://'', ''mariadb://'', ''mssql://'', ''sqlserver://'', ''libsql://'']"

text \<open>\<open>cwd.join(p)\<close> for a relative path.\<close>

definition path_join :: "string \<Rightarrow> string \<Rightarrow> string" where
  "path_join cwd p = (if cwd = [] \<or> last cwd = CHR ''/'' then cwd @ p else cwd @ ''/'' @ p)"

definition resolve_url :: "string \<Rightarrow> string \<Rightarrow> string" where
  "resolve_url url cwd =
     (if url = '':memory:'' \<or> url = ''sqlite::memory:'' then url
      else if list_ex (starts_with url) server_schemes then url
      else let path = option_or (strip_prefix url ''sqlite://'') (option_or (strip_prefix url ''sqlite:'') url)
           in if starts_with path ''/'' then path
              else of_bytes (utf8_lossy (as_bytes (path_join cwd path))))"

text \<open>\<open>map_err(|e| e.to_string())\<close>.\<close>

definition text_fault :: "'a result \<Rightarrow> 'a cli" where
  "text_fault r =
     (case r of Inr x \<Rightarrow> Inr x | Inl (Failure e) \<Rightarrow> Fail (error_to_string e) | Inl Panic \<Rightarrow> Inl CliPanic)"

definition client_call :: "('c, 'a) io \<Rightarrow> ('c, 'a) dbio" where
  "client_call m s = (case m s of (r, s) \<Rightarrow> (text_fault r, s))"

definition query_params :: "'c db_client \<Rightarrow> string \<Rightarrow> param_value list \<Rightarrow> ('c, record_batch) dbio" where
  "query_params cl sql ps = client_call (cl_query cl sql ps)"

definition execute_params :: "'c db_client \<Rightarrow> string \<Rightarrow> param_value list \<Rightarrow> ('c, nat) dbio" where
  "execute_params cl sql ps = client_call (cl_execute cl sql ps)"

definition engine_query :: "'c db_client \<Rightarrow> string \<Rightarrow> ('c, record_batch) dbio" where
  "engine_query cl sql = query_params cl sql []"

definition engine_execute :: "'c db_client \<Rightarrow> string \<Rightarrow> ('c, nat) dbio" where
  "engine_execute cl sql = execute_params cl sql []"

fun flavor_name :: "flavor \<Rightarrow> string" where
  "flavor_name Sqlite = ''sqlite''"
| "flavor_name Postgres = ''postgres''"
| "flavor_name MySql = ''mysql''"
| "flavor_name MsSql = ''mssql''"
| "flavor_name LibSql = ''libsql''"

section \<open>Cells\<close>

definition cell_s :: "record_batch \<Rightarrow> string \<Rightarrow> nat \<Rightarrow> string cli" where
  "cell_s b col r = text_cell b col [] r"

definition cell_n :: "record_batch \<Rightarrow> string \<Rightarrow> nat \<Rightarrow> i64 cli" where
  "cell_n b col r = int_cell b col r"

section \<open>Catalogue queries\<close>

text \<open>A line break inside the text of a query and the indentation of its next line.\<close>

definition line_break :: "nat \<Rightarrow> string" where
  "line_break n = CHR 0x0A # replicate n (CHR '' '')"

definition lite_tables_sql :: string where
  "lite_tables_sql =
     ''SELECT name FROM sqlite_master WHERE type = 'table' AND name NOT LIKE 'sqlite_%' ORDER BY name''"

definition pg_tables_sql :: string where
  "pg_tables_sql =
     ''SELECT table_name AS name FROM information_schema.tables''
     @ line_break 13 @ ''WHERE table_schema = current_schema() AND table_type = 'BASE TABLE' ORDER BY table_name''"

definition my_tables_sql :: string where
  "my_tables_sql =
     ''SELECT TABLE_NAME AS name FROM information_schema.TABLES''
     @ line_break 13 @ ''WHERE TABLE_SCHEMA = DATABASE() AND TABLE_TYPE = 'BASE TABLE' ORDER BY TABLE_NAME''"

definition other_tables_sql :: string where
  "other_tables_sql =
     ''SELECT TABLE_NAME AS name FROM INFORMATION_SCHEMA.TABLES''
     @ line_break 13 @ ''WHERE TABLE_TYPE = 'BASE TABLE' ORDER BY TABLE_NAME''"

definition pg_column_rows_sql :: string where
  "pg_column_rows_sql =
     ''SELECT column_name, data_type, is_nullable FROM information_schema.columns''
     @ line_break 17 @ ''WHERE table_name = ? AND table_schema = current_schema() ORDER BY ordinal_position''"

definition pg_key_rows_sql :: string where
  "pg_key_rows_sql =
     ''SELECT a.attname AS name, k.ord::bigint AS ord''
     @ line_break 17 @ ''FROM pg_constraint con''
     @ line_break 17 @ ''JOIN pg_class rel ON rel.oid = con.conrelid''
     @ line_break 17 @ ''CROSS JOIN LATERAL unnest(con.conkey) WITH ORDINALITY k(attnum, ord)''
     @ line_break 17 @ ''JOIN pg_attribute a ON a.attrelid = con.conrelid AND a.attnum = k.attnum''
     @ line_break 17 @ ''WHERE con.contype = 'p' AND rel.relname = ?''"

definition my_column_rows_sql :: string where
  "my_column_rows_sql =
     ''SELECT COLUMN_NAME, DATA_TYPE, IS_NULLABLE FROM information_schema.COLUMNS''
     @ line_break 17 @ ''WHERE TABLE_NAME = ? AND TABLE_SCHEMA = DATABASE() ORDER BY ORDINAL_POSITION''"

definition my_key_rows_sql :: string where
  "my_key_rows_sql =
     ''SELECT COLUMN_NAME AS name, CAST(ORDINAL_POSITION AS SIGNED) AS ord''
     @ line_break 17 @ ''FROM information_schema.KEY_COLUMN_USAGE''
     @ line_break 17 @ ''WHERE TABLE_NAME = ? AND TABLE_SCHEMA = DATABASE() AND CONSTRAINT_NAME = 'PRIMARY'' @ [CHR 0x27]"

definition other_column_rows_sql :: string where
  "other_column_rows_sql =
     ''SELECT COLUMN_NAME, DATA_TYPE, IS_NULLABLE FROM INFORMATION_SCHEMA.COLUMNS''
     @ line_break 17 @ ''WHERE TABLE_NAME = ? ORDER BY ORDINAL_POSITION''"

definition other_key_rows_sql :: string where
  "other_key_rows_sql =
     ''SELECT col.name AS name, CAST(ic.key_ordinal AS BIGINT) AS ord''
     @ line_break 17 @ ''FROM sys.indexes i''
     @ line_break 17 @ ''JOIN sys.index_columns ic ON ic.object_id = i.object_id AND ic.index_id = i.index_id''
     @ line_break 17 @ ''JOIN sys.columns col ON col.object_id = ic.object_id AND col.column_id = ic.column_id''
     @ line_break 17 @ ''WHERE i.is_primary_key = 1 AND i.object_id = OBJECT_ID(?)''"

definition pg_fk_rows_sql :: string where
  "pg_fk_rows_sql =
     ''SELECT con.conname AS fk, att.attname AS from_col, confrel.relname AS ref_table,''
     @ line_break 24 @ ''att2.attname AS to_col''
     @ line_break 17 @ ''FROM pg_constraint con''
     @ line_break 17 @ ''JOIN pg_class rel ON rel.oid = con.conrelid''
     @ line_break 17 @ ''JOIN pg_class confrel ON confrel.oid = con.confrelid''
     @ line_break 17 @ ''CROSS JOIN LATERAL unnest(con.conkey, con.confkey) WITH ORDINALITY k(attnum, fattnum, ord)''
     @ line_break 17 @ ''JOIN pg_attribute att ON att.attrelid = con.conrelid AND att.attnum = k.attnum''
     @ line_break 17 @ ''JOIN pg_attribute att2 ON att2.attrelid = con.confrelid AND att2.attnum = k.fattnum''
     @ line_break 17 @ ''WHERE con.contype = 'f' AND rel.relname = ?''
     @ line_break 17 @ ''ORDER BY con.conname, k.ord''"

definition my_fk_rows_sql :: string where
  "my_fk_rows_sql =
     ''SELECT CONSTRAINT_NAME AS fk, COLUMN_NAME AS from_col,''
     @ line_break 24 @ ''REFERENCED_TABLE_NAME AS ref_table, REFERENCED_COLUMN_NAME AS to_col''
     @ line_break 17 @ ''FROM information_schema.KEY_COLUMN_USAGE''
     @ line_break 17 @ ''WHERE TABLE_NAME = ? AND TABLE_SCHEMA = DATABASE()''
     @ line_break 19 @ ''AND REFERENCED_TABLE_NAME IS NOT NULL''
     @ line_break 17 @ ''ORDER BY CONSTRAINT_NAME, ORDINAL_POSITION''"

definition other_fk_rows_sql :: string where
  "other_fk_rows_sql =
     ''SELECT fk.name AS fk, pc.name AS from_col, rt.name AS ref_table, rc.name AS to_col''
     @ line_break 17 @ ''FROM sys.foreign_keys fk''
     @ line_break 17 @ ''JOIN sys.foreign_key_columns fkc ON fkc.constraint_object_id = fk.object_id''
     @ line_break 17 @ ''JOIN sys.columns pc ON pc.object_id = fkc.parent_object_id AND pc.column_id = fkc.parent_column_id''
     @ line_break 17 @ ''JOIN sys.tables rt ON rt.object_id = fk.referenced_object_id''
     @ line_break 17 @ ''JOIN sys.columns rc ON rc.object_id = fkc.referenced_object_id AND rc.column_id = fkc.referenced_column_id''
     @ line_break 17 @ ''WHERE fk.parent_object_id = OBJECT_ID(?)''
     @ line_break 17 @ ''ORDER BY fk.name, fkc.constraint_column_id''"

section \<open>Tables and columns\<close>

definition table_names :: "'c db_client \<Rightarrow> ('c, string list) dbio" where
  "table_names cl =
     io_bind (engine_query cl
       (case cl_flavor cl of
          Sqlite \<Rightarrow> lite_tables_sql | LibSql \<Rightarrow> lite_tables_sql
        | Postgres \<Rightarrow> pg_tables_sql | MySql \<Rightarrow> my_tables_sql | MsSql \<Rightarrow> other_tables_sql)) (\<lambda>b.
     io_lift (map_r (cell_s b ''name'') [0..<num_rows b]))"

definition word_text :: "string \<Rightarrow> bool" where
  "word_text s \<longleftrightarrow> list_all (\<lambda>c. is_ascii_alphanumeric c \<or> c = CHR ''_'') s"

definition bad_table :: "string \<Rightarrow> string" where
  "bad_table table = ''invalid table name `'' @ table @ ''`''"

definition my_normalize :: "string \<Rightarrow> string" where
  "my_normalize ty =
     (let t = map to_ascii_lower ty
      in if t = ''tinyint'' then ''TINYINT(1)'' else if t \<in> {''varchar'', ''char''} then ''TEXT'' else ascii_upper t)"

definition ms_normalize :: "string \<Rightarrow> string" where
  "ms_normalize ty =
     (let t = map to_ascii_lower ty
      in if t \<in> {''nvarchar'', ''nchar'', ''varchar'', ''char''} then ''NVARCHAR(400)'' else ascii_upper t)"

text \<open>A row of \<open>PRAGMA table_info\<close>.\<close>

definition pragma_column :: "record_batch \<Rightarrow> nat \<Rightarrow> db_column cli" where
  "pragma_column b r =
     bind_r (cell_s b ''name'' r) (\<lambda>nm.
     bind_r (cell_s b ''type'' r) (\<lambda>ty.
     bind_r (cell_n b ''notnull'' r) (\<lambda>nn.
     bind_r (cell_n b ''pk'' r) (\<lambda>pk.
       Inr \<lparr>dc_name = nm, dc_sql_type = ascii_upper ty, dc_notnull = (nn \<noteq> 0), dc_pk = pk\<rparr>))))"

text \<open>\<open>pk_of\<close>: the first row of the key query that names the column.\<close>

fun pk_of :: "record_batch \<Rightarrow> string \<Rightarrow> nat list \<Rightarrow> i64 cli" where
  "pk_of pks nm [] = Inr 0"
| "pk_of pks nm (r # rs) =
     bind_r (cell_s pks ''name'' r) (\<lambda>v. if v = nm then cell_n pks ''ord'' r else pk_of pks nm rs)"

text \<open>A row of an \<open>information_schema\<close> query; the column labels are as the query writes them.\<close>

definition info_column ::
  "string \<times> string \<times> string \<Rightarrow> (string \<Rightarrow> string) \<Rightarrow> record_batch \<Rightarrow> record_batch \<Rightarrow> nat \<Rightarrow> db_column cli" where
  "info_column labels normal cols pks r =
     (case labels of (nm_l, ty_l, null_l) \<Rightarrow>
        bind_r (cell_s cols nm_l r) (\<lambda>nm.
        bind_r (cell_s cols ty_l r) (\<lambda>ty.
        bind_r (cell_s cols null_l r) (\<lambda>nulls.
        bind_r (pk_of pks nm [0..<num_rows pks]) (\<lambda>pk.
          Inr \<lparr>dc_name = nm, dc_sql_type = normal ty, dc_notnull = (nulls = ''NO''), dc_pk = pk\<rparr>)))))"

definition info_columns ::
  "'c db_client \<Rightarrow> string \<Rightarrow> string \<Rightarrow> string \<Rightarrow> string \<times> string \<times> string \<Rightarrow> (string \<Rightarrow> string)
   \<Rightarrow> ('c, db_column list) dbio" where
  "info_columns cl table cols_sql keys_sql labels normal =
     io_bind (query_params cl cols_sql [VText table]) (\<lambda>cols.
     io_bind (query_params cl keys_sql [VText table]) (\<lambda>pks.
     io_lift (map_r (info_column labels normal cols pks) [0..<num_rows cols])))"

definition pragma_columns :: "'c db_client \<Rightarrow> string \<Rightarrow> ('c, db_column list) dbio" where
  "pragma_columns cl table =
     io_bind (engine_query cl (''PRAGMA table_info('' @ table @ '')'')) (\<lambda>b.
     io_lift (map_r (pragma_column b) [0..<num_rows b]))"

definition upper_labels :: "string \<times> string \<times> string" where
  "upper_labels = (''COLUMN_NAME'', ''DATA_TYPE'', ''IS_NULLABLE'')"

definition table_columns :: "'c db_client \<Rightarrow> string \<Rightarrow> ('c, db_column list) dbio" where
  "table_columns cl table =
     (if \<not> word_text table then io_lift (Fail (bad_table table))
      else case cl_flavor cl of
        Sqlite \<Rightarrow> pragma_columns cl table
      | LibSql \<Rightarrow> pragma_columns cl table
      | Postgres \<Rightarrow> info_columns cl table pg_column_rows_sql pg_key_rows_sql
          (''column_name'', ''data_type'', ''is_nullable'') ascii_upper
      | MySql \<Rightarrow> info_columns cl table my_column_rows_sql my_key_rows_sql upper_labels my_normalize
      | MsSql \<Rightarrow> info_columns cl table other_column_rows_sql other_key_rows_sql upper_labels ms_normalize)"

section \<open>Foreign keys\<close>

text \<open>The rows of the foreign key query and the labels of its columns.\<close>

definition fk_query ::
  "'c db_client \<Rightarrow> string \<Rightarrow> ('c, record_batch \<times> string \<times> string \<times> string \<times> string) dbio" where
  "fk_query cl table =
     (let pragma = io_bind (engine_query cl (''PRAGMA foreign_key_list('' @ table @ '')''))
            (\<lambda>b. io_return (b, ''id'', ''from'', ''table'', ''to''));
          named = (\<lambda>sql. io_bind (query_params cl sql [VText table])
            (\<lambda>b. io_return (b, ''fk'', ''from_col'', ''ref_table'', ''to_col'')))
      in case cl_flavor cl of
           Sqlite \<Rightarrow> pragma | LibSql \<Rightarrow> pragma
         | Postgres \<Rightarrow> named pg_fk_rows_sql | MySql \<Rightarrow> named my_fk_rows_sql | MsSql \<Rightarrow> named other_fk_rows_sql)"

text \<open>\<open>key_of\<close>: SQLite numbers its foreign keys, the other backends name them.\<close>

definition fk_key :: "record_batch \<Rightarrow> string \<Rightarrow> nat \<Rightarrow> string cli" where
  "fk_key b id_col r =
     bind_r (cell_s b id_col r) (\<lambda>by_name.
       if by_name = [] then bind_r (cell_n b id_col r) (\<lambda>i. Inr (i64_to_string i)) else Inr by_name)"

text \<open>
  The loop over the rows: a row whose key differs from the one before opens a new foreign key, and only
  then is the referenced table read.
\<close>

definition open_fk ::
  "record_batch \<Rightarrow> string \<Rightarrow> nat \<Rightarrow> string \<Rightarrow> string option \<times> db_foreign_key list \<Rightarrow> db_foreign_key list cli" where
  "open_fk b table_col r k acc =
     (case acc of (cur, out) \<Rightarrow>
        if cur \<noteq> Some k
        then bind_r (cell_s b table_col r) (\<lambda>table. Inr (out @ [\<lparr>df_from = [], df_table = table, df_to = []\<rparr>]))
        else Inr out)"

definition fk_row ::
  "record_batch \<times> string \<times> string \<times> string \<times> string \<Rightarrow> nat
   \<Rightarrow> string option \<times> db_foreign_key list \<Rightarrow> (string option \<times> db_foreign_key list) cli" where
  "fk_row rows r acc =
     (case rows of (b, id_col, from_col, table_col, to_col) \<Rightarrow>
        bind_r (fk_key b id_col r) (\<lambda>k.
        bind_r (open_fk b table_col r k acc) (\<lambda>out.
        bind_r (cell_s b from_col r) (\<lambda>from.
        bind_r (cell_s b to_col r) (\<lambda>to.
          let f = last out
          in Inr (Some k, butlast out @ [f\<lparr>df_from := df_from f @ [from], df_to := df_to f @ [to]\<rparr>]))))))"

definition table_fks :: "'c db_client \<Rightarrow> string \<Rightarrow> ('c, db_foreign_key list) dbio" where
  "table_fks cl table =
     (if \<not> word_text table then io_lift (Fail (bad_table table))
      else io_bind (fk_query cl table) (\<lambda>rows.
        io_lift (bind_r (fold_r (fk_row rows) [0..<num_rows (fst rows)] (None, [])) (\<lambda>(cur, out). Inr out))))"

section \<open>The summary of a schema\<close>

definition summary_column :: "db_column \<Rightarrow> string" where
  "summary_column c =
     dc_name c @ '' '' @ dc_sql_type c @ (if 0 < sint (dc_pk c) then '' PK'' else [])
     @ (if dc_notnull c then '' NOT NULL'' else [])"

definition summary_line :: "string \<Rightarrow> db_column list \<Rightarrow> string" where
  "summary_line t cols =
     ''- '' @ t @ ''('' @ intercalate '', '' (map summary_column cols) @ '')'' @ [CHR 0x0A]"

definition summary_fk :: "db_foreign_key \<Rightarrow> string" where
  "summary_fk f =
     ''  FK ('' @ intercalate '','' (df_from f) @ '') -> '' @ df_table f @ ''('' @ intercalate '','' (df_to f) @ '')''
     @ [CHR 0x0A]"

definition schema_summary :: "'c db_client \<Rightarrow> ('c, string) dbio" where
  "schema_summary cl =
     io_bind (table_names cl) (\<lambda>names.
     io_fold (\<lambda>t out.
       io_bind (table_columns cl t) (\<lambda>cols.
       io_bind (table_fks cl t) (\<lambda>fks.
       io_return (out @ summary_line t cols @ concat (map summary_fk fks))))) names [])"

section \<open>Values and rows\<close>

fun json_to_value :: "json_lib \<Rightarrow> json \<Rightarrow> param_value cli" where
  "json_to_value lib JNull = Inr VNull"
| "json_to_value lib (JBool b) = Inr (VBool b)"
| "json_to_value lib (JNum n) =
     Inr (case number_i64 n of Some i \<Rightarrow> VInt i | None \<Rightarrow> VFloat (option_or (number_f64 n) 0))"
| "json_to_value lib (JText s) = Inr (VText s)"
| "json_to_value lib other = Fail (''unsupported value: '' @ json_text lib other)"

text \<open>The JSON value of a cell: the readers are tried in turn.\<close>

definition cell_value :: "column \<Rightarrow> nat \<Rightarrow> json result" where
  "cell_value c r =
     bind_r (is_valid c r) (\<lambda>valid. if \<not> valid then Ok JNull
     else bind_r (get_i64 c r) (\<lambda>i. case i of Some i \<Rightarrow> Ok (JNum (number_of_i64 i)) | None \<Rightarrow>
     bind_r (get_f64 c r) (\<lambda>f. case f of
       Some f \<Rightarrow> Ok (case number_of_f64 f of Some n \<Rightarrow> JNum n | None \<Rightarrow> JNull) | None \<Rightarrow>
     bind_r (get_bool c r) (\<lambda>b. case b of Some b \<Rightarrow> Ok (JBool b) | None \<Rightarrow>
     bind_r (get_str c r) (\<lambda>s. case s of Some s \<Rightarrow> Ok (JText s) | None \<Rightarrow> Ok JNull)))))"

definition batch_row :: "record_batch \<Rightarrow> nat \<Rightarrow> json_object result" where
  "batch_row b r =
     fold_r (\<lambda>c row. bind_r (cell_value c r) (\<lambda>v. Ok (obj_insert (field_name (col_field c)) v row))) (columns b) []"

definition batch_rows :: "record_batch \<Rightarrow> json_object list result" where
  "batch_rows b = map_r (batch_row b) [0..<num_rows b]"

end
