(* ===== verification/InspectProofs.thy ===== *)
theory InspectProofs
  imports Inspect
begin

text \<open>
  What the introspection makes of a batch: the JSON rows hold the cells of the batch, and the foreign keys
  are the groups of its rows.
\<close>

section \<open>JSON rows\<close>

fun json_of_cell :: "cell option \<Rightarrow> json" where
  "json_of_cell None = JNull"
| "json_of_cell (Some (CInt i)) = JNum (number_of_i64 i)"
| "json_of_cell (Some (CFloat f)) = (case number_of_f64 f of Some n \<Rightarrow> JNum n | None \<Rightarrow> JNull)"
| "json_of_cell (Some (CBool b)) = JBool b"
| "json_of_cell (Some (CText s)) = JText s"

lemma cell_value_read:
  assumes "column_wf c" "r < col_len c"
  shows "cell_value c r = bind_r (read_cell c r) (\<lambda>v. Ok (json_of_cell v))"
proof -
  have d: "data_matches (data_type (col_field c)) (col_len c) (col_data c)" using assms(1) by (simp add: column_wf_def)
  show ?thesis
  proof (cases "is_valid c r")
    case (Inr v)
    with d show ?thesis
      by (cases "data_type (col_field c)"; cases "col_data c")
        (auto simp: data_matches_def cell_value_def read_cell_def get_i64_def get_f64_def get_bool_def get_str_def list_get_def
          split: option.splits)
  qed (cases "data_type (col_field c)", simp_all add: cell_value_def read_cell_def get_i64_def get_f64_def get_bool_def get_str_def)
qed

lemma insert_columns:
  assumes "\<And>c. c \<in> set cs \<Longrightarrow> cell_value c r = Inr (v c)"
    and "distinct (map (\<lambda>c. field_name (col_field c)) cs)" "\<forall>c \<in> set cs. field_name (col_field c) \<notin> fst ` set row"
  shows "fold_r (\<lambda>c row. bind_r (cell_value c r) (\<lambda>v. Ok (obj_insert (field_name (col_field c)) v row))) cs row
    = Inr (row @ map (\<lambda>c. (field_name (col_field c), v c)) cs)"
  using assms
proof (induction cs arbitrary: row)
  case (Cons c cs)
  let ?name = "\<lambda>c. field_name (col_field c)"
  have "obj_insert (?name c) (v c) row = row @ [(?name c, v c)]"
    using Cons.prems(3) by (intro obj_insert_fresh) simp
  moreover have "fold_r (\<lambda>c row. bind_r (cell_value c r) (\<lambda>v. Ok (obj_insert (?name c) v row))) cs (row @ [(?name c, v c)])
      = Inr ((row @ [(?name c, v c)]) @ map (\<lambda>c. (?name c, v c)) cs)"
    by (rule Cons.IH) (use Cons.prems in \<open>auto simp: image_iff\<close>)
  ultimately show ?case using Cons.prems(1) by simp
qed simp

text \<open>
  The JSON rows of a well-formed batch whose columns have different names are its rows: one object per
  row with the columns in order, and in each the cell the typed reader returns, null where it is null or a
  number JSON cannot hold.
\<close>

theorem batch_rows_cells:
  assumes wf: "batch_wf b" and names: "distinct (map (\<lambda>c. field_name (col_field c)) (columns b))"
    and cells: "\<And>c r. c \<in> set (columns b) \<Longrightarrow> r < num_rows b \<Longrightarrow> read_cell c r = Ok (cell c r)"
  shows "batch_rows b =
    Ok (map (\<lambda>r. map (\<lambda>c. (field_name (col_field c), json_of_cell (cell c r))) (columns b)) [0..<num_rows b])"
proof -
  have "batch_row b r = Ok (map (\<lambda>c. (field_name (col_field c), json_of_cell (cell c r))) (columns b))"
    if r: "r < num_rows b" for r
  proof -
    have "cell_value c r = Ok (json_of_cell (cell c r))" if c: "c \<in> set (columns b)" for c
      using cell_value_read [of c r] cells [OF c r] wf c r by (simp add: batch_wf_def)
    from insert_columns [of "columns b" r "\<lambda>c. json_of_cell (cell c r)" "[]", OF this names] show ?thesis
      by (simp add: batch_row_def)
  qed
  then show ?thesis unfolding batch_rows_def by (intro map_r_all_ok) simp
qed

lemma batch_rows_cells_witness:
  "batch_rows \<lparr>batch_schema = schema_new [field_new ''id'' Int64 True], num_rows = 2,
      columns = [\<lparr>col_field = field_new ''id'' Int64 True, col_len = 2, validity = Some [1], col_data = DInt64 [7, 0]\<rparr>]\<rparr>
    = Ok [[(''id'', JNum (PosInt 7))], [(''id'', JNull)]]"
proof -
  let ?c = "\<lparr>col_field = field_new ''id'' Int64 True, col_len = 2, validity = Some [1], col_data = DInt64 [7, 0]\<rparr>"
  let ?b = "\<lparr>batch_schema = schema_new [field_new ''id'' Int64 True], num_rows = 2, columns = [?c]\<rparr>"
  let ?cell = "\<lambda>(c :: column) r. if r = 0 then Some (CInt 7) else None"
  have "batch_wf ?b" by code_simp
  moreover have "read_cell ?c 0 = Ok (Some (CInt 7))" "read_cell ?c 1 = Ok None" by code_simp+
  then have "read_cell c r = Ok (?cell c r)" if "c \<in> set (columns ?b)" "r < num_rows ?b" for c r
    using that by (auto simp: less_2_cases_iff)
  ultimately have "batch_rows ?b =
      Ok (map (\<lambda>r. map (\<lambda>c. (field_name (col_field c), json_of_cell (?cell c r))) (columns ?b)) [0..<num_rows ?b])"
    by (intro batch_rows_cells) simp_all
  then show ?thesis by (simp add: upt_rec number_of_i64_def)
qed

text \<open>Two columns of one name share an entry: the first value is lost.\<close>

lemma batch_rows_same_name:
  "batch_rows \<lparr>batch_schema = schema_new [field_new ''id'' Int64 False, field_new ''id'' Int64 False], num_rows = 1,
      columns = map (\<lambda>i. \<lparr>col_field = field_new ''id'' Int64 False, col_len = 1, validity = None, col_data = DInt64 [i]\<rparr>) [1, 2]\<rparr>
    = Ok [[(''id'', JNum (PosInt 2))]]"
  by (simp add: batch_rows_def batch_row_def cell_value_def get_i64_def is_valid_def list_get_def number_of_i64_def upt_rec)

section \<open>Foreign keys\<close>

text \<open>Where every cell can be read, the loop groups the rows as the command line's introspection does.\<close>

lemma fk_row_group:
  assumes "fk_key b id_col r = Inr k" "cell_s b table_col r = Inr t" "cell_s b from_col r = Inr f" "cell_s b to_col r = Inr u"
  shows "fk_row (b, id_col, from_col, table_col, to_col) r acc = Inr (group_row (k, t, f, u) acc)"
  using assms by (cases acc) (simp add: fk_row_def open_fk_def group_row_def Let_def)

lemma table_fks_group:
  assumes "\<And>r. r \<in> set rs \<Longrightarrow> fk_key b id_col r = Inr (k r) \<and> cell_s b table_col r = Inr (t r)
      \<and> cell_s b from_col r = Inr (f r) \<and> cell_s b to_col r = Inr (u r)"
  shows "fold_r (fk_row (b, id_col, from_col, table_col, to_col)) rs acc
    = Inr (fold group_row (map (\<lambda>r. (k r, t r, f r, u r)) rs) acc)"
  using assms by (induction rs arbitrary: acc) (simp_all add: fk_row_group)

section \<open>URLs\<close>

text \<open>An in-memory URL with slashes, which the client would open in memory, names a file below \<open>cwd\<close>.\<close>

lemma slashed_memory_url_becomes_file:
  "resolve_url ''sqlite://:memory:'' ''/work'' = ''/work/:memory:''"
  "fst (open_target 0 ''sqlite://:memory:'') = '':memory:''"
proof -
  have "valid_utf8 (as_bytes ''/work/:memory:'')" by code_simp
  then have "utf8_lossy (as_bytes ''/work/:memory:'') = as_bytes ''/work/:memory:''" by (rule utf8_lossy_valid)
  then show "resolve_url ''sqlite://:memory:'' ''/work'' = ''/work/:memory:''"
    by (simp add: resolve_url_def server_schemes_def starts_with_def strip_prefix_def option_or_def path_join_def Let_def
        del: as_bytes_append)
qed (simp add: open_target_def memory_url_def strip_prefix_def starts_with_def option_or_def)

end
