(* ===== verification/Ai.thy ===== *)
theory Ai
  imports StrOps Json
begin

text \<open>
  The query generation of the studio (\<open>powder-studio/src/ai.rs\<close>, lines 1-113): its configuration, the
  prompt, the request to the model server and the cleaning of the reply. The server is a function from
  the address, the authorisation header and the request body to a reply.
\<close>

section \<open>Configuration and prompt\<close>

record ai_config =
  ai_endpoint :: string
  ai_model :: string
  ai_api_key :: string
  ai_max_concurrent :: nat

text \<open>\<open>s.trim_end_matches(c)\<close> for a character.\<close>

definition trim_end_char :: "char \<Rightarrow> string \<Rightarrow> string" where
  "trim_end_char c s = rev (dropWhile (\<lambda>d. d = c) (rev s))"

definition parse_ai_config :: "json \<Rightarrow> ai_config option" where
  "parse_ai_config doc =
     Option.bind (jget doc ''ai'') (\<lambda>ai.
     Option.bind (Option.bind (jget ai ''endpoint'') as_str) (\<lambda>e.
     let endpoint = trim_end_char (CHR ''/'') e
     in if endpoint = [] then None
        else Some \<lparr>ai_endpoint = endpoint, ai_model = option_or (jget_as as_str ai ''model'') ''default'',
          ai_api_key = option_or (jget_as as_str ai ''apiKey'') [],
          ai_max_concurrent = max (option_or (map_option unat (jget_as as_u64 ai ''maxConcurrent'')) 50) 1\<rparr>))"

text \<open>The dash of the third rule is a three-byte character.\<close>

definition build_prompt :: "string \<Rightarrow> string \<Rightarrow> string \<Rightarrow> string \<times> string" where
  "build_prompt schema_summary flavor task =
     (''You are a SQL generator for the Powder engine.'' @ [CHR 0x0A]
      @ ''Target dialect: '' @ flavor @ ''.'' @ [CHR 0x0A]
      @ ''Rules:'' @ [CHR 0x0A]
      @ ''- Reply with EXACTLY ONE SQL statement and nothing else '' @ [CHR 0xE2, CHR 0x80, CHR 0x94] @ '' no prose, ''
      @ ''no markdown fences, no trailing semicolon-separated extras.'' @ [CHR 0x0A]
      @ ''- Use only tables/columns from the schema below.'' @ [CHR 0x0A]
      @ ''- Prefer explicit column lists over SELECT *.'' @ [CHR 0x0A]
      @ ''- Never invent DROP/TRUNCATE unless the task explicitly asks.'' @ [CHR 0x0A, CHR 0x0A]
      @ ''Schema:'' @ [CHR 0x0A] @ schema_summary,
      ''Task: '' @ task @ [CHR 0x0A] @ ''SQL:'')"

section \<open>The reply\<close>

text \<open>\<open>s.trim_start_matches(p)\<close> for a non-empty pattern.\<close>

function trim_start_pat :: "string \<Rightarrow> string \<Rightarrow> string" where
  "trim_start_pat p s =
     (if p = [] \<or> \<not> starts_with s p \<or> s = [] then s else trim_start_pat p (drop (length p) s))"
  by pat_completeness auto
termination
  by (relation "measure (\<lambda>(_, s). length s)") auto

declare trim_start_pat.simps [simp del]

definition fence :: string where
  "fence = ''```''"

text \<open>The text between the first fence, with its tag, and the next one.\<close>

definition unfence :: "string \<Rightarrow> string" where
  "unfence s =
     (case str_find fence s of
        None \<Rightarrow> s
      | Some start \<Rightarrow>
          let after = drop (start + 3) s;
              after = option_or (strip_prefix after ''sql'') (option_or (strip_prefix after ''SQL'') after)
          in (case str_find fence after of Some e \<Rightarrow> take e after | None \<Rightarrow> after))"

definition extract_sql :: "string \<Rightarrow> string" where
  "extract_sql reply =
     trim (trim_end_char (CHR '';'') (trim (trim_start_pat ''SQL:'' (trim (unfence (trim reply))))))"

section \<open>The call\<close>

text \<open>\<open>0.1\<close> is the double with the bits below.\<close>

definition request_body :: "ai_config \<Rightarrow> string \<Rightarrow> string \<Rightarrow> json" where
  "request_body cfg system user =
     JObj [(''model'', JText (ai_model cfg)),
       (''messages'', JArr
         [JObj [(''role'', JText ''system''), (''content'', JText system)],
          JObj [(''role'', JText ''user''), (''content'', JText user)]]),
       (''temperature'', JNum (FloatNum 0x3FB999999999999A)),
       (''max_tokens'', JNum (PosInt 512)),
       (''chat_template_kwargs'', JObj [(''enable_thinking'', JBool False)])]"

text \<open>\<open>doc.pointer("/choices/0/message/content").and_then(as_str)\<close>.\<close>

definition first_element :: "json \<Rightarrow> json option" where
  "first_element v =
     (case v of JArr (x # _) \<Rightarrow> Some x | JObj m \<Rightarrow> obj_get m ''0'' | _ \<Rightarrow> None)"

definition reply_content :: "json \<Rightarrow> string option" where
  "reply_content doc =
     Option.bind (jget doc ''choices'') (\<lambda>choices.
     Option.bind (first_element choices) (\<lambda>c.
     Option.bind (jget c ''message'') (\<lambda>m. jget_as as_str m ''content'')))"

text \<open>
  The server: an error when the request fails, otherwise an error when the reply cannot be read as JSON.
\<close>

type_synonym model_server = "string \<Rightarrow> string option \<Rightarrow> json \<Rightarrow> string + (string + json)"

definition generate :: "json_lib \<Rightarrow> model_server \<Rightarrow> ai_config \<Rightarrow> string \<Rightarrow> string \<Rightarrow> string + string" where
  "generate lib http cfg system user =
     (let url = ai_endpoint cfg @ ''/chat/completions'';
          auth = (if ai_api_key cfg = [] then None else Some (''Bearer '' @ ai_api_key cfg))
      in case http url auth (request_body cfg system user) of
           Inl e \<Rightarrow> Inl (''AI endpoint `'' @ url @ ''` unreachable: '' @ e)
         | Inr (Inl e) \<Rightarrow> Inl e
         | Inr (Inr doc) \<Rightarrow>
             (case reply_content doc of
                None \<Rightarrow> Inl (''unexpected AI response shape: '' @ json_text lib doc)
              | Some content \<Rightarrow> Inr (extract_sql content)))"

end
