(* ===== verification/Studio.thy ===== *)
theory Studio
  imports Inspect Ai
begin

text \<open>
  The database dashboard (\<open>powder-studio/src/studio.rs\<close>): access tokens and what each may do, the
  requests that browse tables, run SQL, edit rows, ask the model for SQL and mint invitations, and the
  decoding of request URLs. The engine behind it is any client. A handler is a computation on the state
  of the client that ends with an HTTP error or a JSON value. Mutex poisoning and the HTTP server that
  calls \<open>handle\<close> from its workers are not modelled.
\<close>

section \<open>Access\<close>

datatype mode = Admin | ReadWrite | ReadOnly

record studio =
  st_tokens :: "(string \<times> mode) list"
  st_readonly :: bool
  st_label :: string
  st_ai :: "ai_config option"

text \<open>The bytes of a text outside ASCII.\<close>

definition utf8_text :: "nat list \<Rightarrow> string" where
  "utf8_text bs = map char_of bs"

definition hex_digit :: "nat \<Rightarrow> char" where
  "hex_digit n = char_of (if n < 10 then 48 + n else 87 + n)"

text \<open>The token for sixteen bytes from the operating system's random source.\<close>

definition new_token :: "bytes \<Rightarrow> string" where
  "new_token buf = concat (map (\<lambda>b. [hex_digit (unat b div 16), hex_digit (unat b mod 16)]) buf)"

definition ident_ok :: "string \<Rightarrow> bool" where
  "ident_ok s \<longleftrightarrow>
     s \<noteq> [] \<and> (is_ascii_alphabetic (hd s) \<or> hd s = CHR ''_'')
     \<and> list_all (\<lambda>c. is_ascii_alphanumeric c \<or> c = CHR ''_'') s"

text \<open>\<open>s.rfind(c)\<close>.\<close>

definition rfind_char :: "char \<Rightarrow> string \<Rightarrow> nat option" where
  "rfind_char c s = List.find (\<lambda>i. s ! i = c) (rev [0..<length s])"

definition redact :: "string \<Rightarrow> string" where
  "redact url =
     (case (str_find ''://'' url, rfind_char (CHR ''@'') url) of
        (Some s, Some a) \<Rightarrow> if s < a then take s url @ ''://***@'' @ drop (a + 1) url else url
      | _ \<Rightarrow> url)"

text \<open>The studio of a server that has started; the gate of the model calls is a component of its own.\<close>

definition studio_new :: "bytes \<Rightarrow> string \<Rightarrow> bool \<Rightarrow> string option \<Rightarrow> ai_config option \<Rightarrow> studio" where
  "studio_new buf url readonly admin_token ai =
     \<lparr>st_tokens = [(option_or admin_token (new_token buf), Admin)], st_readonly = readonly,
      st_label = redact url, st_ai = ai\<rparr>"

definition admin_token :: "studio \<Rightarrow> string" where
  "admin_token st = fst (hd (st_tokens st))"

definition mode_of :: "studio \<Rightarrow> string \<Rightarrow> mode option" where
  "mode_of st token = map_option snd (List.find (\<lambda>(t, _). t = token) (st_tokens st))"

definition can_write :: "studio \<Rightarrow> mode \<Rightarrow> bool" where
  "can_write st m \<longleftrightarrow> \<not> st_readonly st \<and> m \<noteq> ReadOnly"

section \<open>Handlers\<close>

datatype http_fault = Http nat string | HttpPanic

type_synonym ('c, 'a) handler = "('c, http_fault, 'a) eio"
type_synonym query_map = "string \<Rightarrow> string option"

text \<open>\<open>map_err(internal)\<close> and \<open>map_err(bad)\<close>: a status for a text error.\<close>

definition status_of :: "nat \<Rightarrow> 'a cli \<Rightarrow> http_fault + 'a" where
  "status_of num r =
     (case r of Inr x \<Rightarrow> Inr x | Inl (CliError m) \<Rightarrow> Inl (Http num m) | Inl CliPanic \<Rightarrow> Inl HttpPanic)"

definition with_status :: "nat \<Rightarrow> ('c, 'a) dbio \<Rightarrow> ('c, 'a) handler" where
  "with_status num m s = (case m s of (r, s) \<Rightarrow> (status_of num r, s))"

abbreviation internal_err :: "('c, 'a) dbio \<Rightarrow> ('c, 'a) handler" where
  "internal_err \<equiv> with_status 500"

abbreviation bad_request :: "('c, 'a) dbio \<Rightarrow> ('c, 'a) handler" where
  "bad_request \<equiv> with_status 400"

abbreviation http_err :: "nat \<Rightarrow> string \<Rightarrow> http_fault + 'a" where
  "http_err num m \<equiv> Inl (Http num m)"

definition http_result :: "'a result \<Rightarrow> http_fault + 'a" where
  "http_result r = (case r of Inr x \<Rightarrow> Inr x | Inl _ \<Rightarrow> Inl HttpPanic)"

text \<open>\<open>serde_json::from_str(body).map_err(|e| (400, ..))\<close>.\<close>

definition read_body :: "json_lib \<Rightarrow> string \<Rightarrow> http_fault + json" where
  "read_body lib body = (case json_read lib body of Inl e \<Rightarrow> http_err 400 e | Inr doc \<Rightarrow> Inr doc)"

definition json_bool :: "bool \<Rightarrow> json" where
  "json_bool b = JBool b"

definition json_nat :: "nat \<Rightarrow> json" where
  "json_nat n = JNum (PosInt (word_of_nat n))"

definition json_int :: "i64 \<Rightarrow> json" where
  "json_int i = JNum (number_of_i64 i)"

definition json_texts :: "string list \<Rightarrow> json" where
  "json_texts xs = JArr (map JText xs)"

section \<open>Metadata\<close>

definition meta_column :: "db_column \<Rightarrow> json" where
  "meta_column c =
     JObj [(''name'', JText (dc_name c)), (''type'', JText (dc_sql_type c)), (''notnull'', JBool (dc_notnull c)),
       (''pk'', json_int (dc_pk c))]"

definition meta_fk :: "db_foreign_key \<Rightarrow> json" where
  "meta_fk f =
     JObj [(''from'', json_texts (df_from f)), (''table'', JText (df_table f)), (''to'', json_texts (df_to f))]"

definition meta_table :: "'c db_client \<Rightarrow> string \<Rightarrow> ('c, json) handler" where
  "meta_table cl t =
     io_bind (internal_err (table_columns cl t)) (\<lambda>cols.
     io_bind (internal_err (table_fks cl t)) (\<lambda>fks.
     io_return (JObj [(''name'', JText t), (''columns'', JArr (map meta_column cols)),
       (''fks'', JArr (map meta_fk fks))])))"

fun mode_name :: "mode \<Rightarrow> string" where
  "mode_name Admin = ''admin''"
| "mode_name ReadWrite = ''rw''"
| "mode_name ReadOnly = ''ro''"

text \<open>\<open>waiting\<close> is the depth of the model queue at the time.\<close>

definition studio_meta :: "'c db_client \<Rightarrow> studio \<Rightarrow> nat \<Rightarrow> mode \<Rightarrow> ('c, json) handler" where
  "studio_meta cl st waiting m =
     io_bind (internal_err (table_names cl)) (\<lambda>names.
     io_bind (io_fold (\<lambda>t acc. io_bind (meta_table cl t) (\<lambda>v. io_return (acc @ [v]))) names []) (\<lambda>tables.
     io_return (JObj
       [(''db'', JText (st_label st)), (''flavor'', JText (flavor_name (cl_flavor cl))),
        (''mode'', JText (mode_name m)), (''writable'', JBool (can_write st m)), (''tables'', JArr tables),
        (''ai'', JObj
          [(''configured'', JBool (st_ai st \<noteq> None)),
           (''model'', JText (case st_ai st of Some c \<Rightarrow> ai_model c | None \<Rightarrow> [])),
           (''waiting'', json_nat waiting),
           (''max'', json_nat (case st_ai st of Some c \<Rightarrow> ai_max_concurrent c | None \<Rightarrow> 0))])])))"

section \<open>Browsing\<close>

definition live_table :: "'c db_client \<Rightarrow> string \<Rightarrow> ('c, string list) handler" where
  "live_table cl table =
     (if \<not> ident_ok table then io_lift (http_err 400 (''invalid table name `'' @ table @ ''`''))
      else io_bind (internal_err (table_names cl)) (\<lambda>names.
        if table \<notin> set names then io_lift (http_err 404 (''table `'' @ table @ ''` not found''))
        else io_bind (internal_err (table_columns cl table)) (\<lambda>cols. io_return (map dc_name cols))))"

definition order_clause :: "'c db_client \<Rightarrow> string \<Rightarrow> query_map \<Rightarrow> ('c, string \<times> string) handler" where
  "order_clause cl table q =
     (case q ''order'' of
        None \<Rightarrow> io_return ([], [])
      | Some col \<Rightarrow>
          if col = [] then io_return ([], [])
          else io_bind (live_table cl table) (\<lambda>cols.
            if col \<notin> set cols then io_lift (http_err 400 (''unknown order column `'' @ col @ ''`''))
            else io_return ('' ORDER BY '' @ col, if q ''dir'' = Some ''desc'' then '' DESC'' else '' ASC'')))"

definition first_column :: "'c db_client \<Rightarrow> string \<Rightarrow> ('c, string) handler" where
  "first_column cl table =
     io_bind (internal_err (table_columns cl table)) (\<lambda>cols.
       case (case List.find (\<lambda>c. dc_pk c = 1) cols of Some c \<Rightarrow> Some c
             | None \<Rightarrow> (case cols of [] \<Rightarrow> None | c # _ \<Rightarrow> Some c)) of
         Some c \<Rightarrow> io_return (dc_name c)
       | None \<Rightarrow> io_lift (http_err 404 (''table `'' @ table @ ''` has no columns'')))"

text \<open>\<open>v.parse::<usize>()\<close>: digits after an optional plus sign, less than \<open>2 ^ 64\<close>.\<close>

definition digits_value :: "string \<Rightarrow> nat" where
  "digits_value s = foldl (\<lambda>n c. n * 10 + (code c - 48)) 0 s"

definition parse_usize :: "string \<Rightarrow> nat option" where
  "parse_usize s =
     (let ds = (case s of c # cs \<Rightarrow> if c = CHR ''+'' then cs else s | [] \<Rightarrow> s)
      in if ds \<noteq> [] \<and> list_all is_ascii_digit ds \<and> digits_value ds < 2 ^ 64 then Some (digits_value ds) else None)"

definition page_size_max :: nat where
  "page_size_max = 500"

definition page_limit :: "query_map \<Rightarrow> nat" where
  "page_limit q = min (max (option_or (Option.bind (q ''limit'') parse_usize) 50) 1) page_size_max"

definition page_offset :: "query_map \<Rightarrow> nat" where
  "page_offset q = option_or (Option.bind (q ''offset'') parse_usize) 0"

text \<open>The statement of a page; \<open>offset + limit\<close> wraps in a release build.\<close>

definition rows_sql ::
  "'c db_client \<Rightarrow> string \<Rightarrow> string list \<Rightarrow> nat \<Rightarrow> nat \<Rightarrow> string \<times> string \<Rightarrow> ('c, string) handler" where
  "rows_sql cl table names limit offset od =
     (case od of (order, dir) \<Rightarrow>
        if cl_flavor cl = MsSql then
          if offset = 0
          then io_return (''SELECT TOP ('' @ nat_to_string limit @ '') * FROM '' @ table @ order @ dir)
          else
            io_bind (if order = [] then io_bind (first_column cl table) (\<lambda>c. io_return (''ORDER BY '' @ c))
                     else io_return (trim_start order @ dir)) (\<lambda>ob.
            let cols = intercalate '', '' names
            in io_return (''SELECT '' @ cols @ '' FROM (SELECT '' @ cols @ '', ROW_NUMBER() OVER ('' @ ob
                 @ '') AS __rn FROM '' @ table @ '') q WHERE __rn > '' @ nat_to_string offset
                 @ '' AND __rn <= '' @ nat_to_string ((offset + limit) mod 2 ^ 64)))
        else io_return (''SELECT * FROM '' @ table @ order @ dir @ '' LIMIT '' @ nat_to_string limit
               @ '' OFFSET '' @ nat_to_string offset))"

definition batch_json :: "record_batch \<Rightarrow> http_fault + (json \<times> json)" where
  "batch_json b =
     bind_r (http_result (batch_rows b)) (\<lambda>rows.
       Inr (json_texts (map (\<lambda>c. field_name (col_field c)) (columns b)), JArr (map JObj rows)))"

definition total_rows :: "record_batch \<Rightarrow> http_fault + i64" where
  "total_rows b =
     (case batch_column b ''n'' of
        None \<Rightarrow> Inr 0 | Some c \<Rightarrow> bind_r (http_result (get_i64 c 0)) (\<lambda>v. Inr (option_or v 0)))"

definition table_rows :: "'c db_client \<Rightarrow> query_map \<Rightarrow> ('c, json) handler" where
  "table_rows cl q =
     (let table = option_or (q ''table'') []
      in io_bind (live_table cl table) (\<lambda>cols.
         io_bind (order_clause cl table q) (\<lambda>od.
         io_bind (rows_sql cl table cols (page_limit q) (page_offset q) od) (\<lambda>sql.
         io_bind (bad_request (engine_query cl sql)) (\<lambda>b.
         io_bind (bad_request (engine_query cl (''SELECT COUNT(*) AS n FROM '' @ table))) (\<lambda>total_b.
         io_lift (bind_r (total_rows total_b) (\<lambda>n.
           bind_r (batch_json b) (\<lambda>(names, data).
             Inr (JObj [(''columns'', names), (''rows'', data), (''total'', json_int n)]))))))))))"

section \<open>Running SQL\<close>

definition refuse :: "studio \<Rightarrow> mode \<Rightarrow> string \<Rightarrow> http_fault + unit" where
  "refuse st m why = (if can_write st m then Inr () else http_err 403 (''read-only token: '' @ why))"

definition text_at :: "json \<Rightarrow> string \<Rightarrow> string" where
  "text_at doc k = option_or (jget_as as_str doc k) []"

definition run_sql :: "json_lib \<Rightarrow> 'c db_client \<Rightarrow> studio \<Rightarrow> mode \<Rightarrow> string \<Rightarrow> bool \<Rightarrow> ('c, json) handler" where
  "run_sql lib cl st m body is_query =
     io_bind (io_lift (refuse st m ''SQL runner is disabled'')) (\<lambda>_.
     io_bind (io_lift (read_body lib body)) (\<lambda>doc.
     let sql = text_at doc ''sql''
     in if trim sql = [] then io_lift (http_err 400 ''missing `sql`'')
        else if is_query
        then io_bind (bad_request (engine_query cl sql)) (\<lambda>b.
               io_lift (bind_r (batch_json b) (\<lambda>(names, data).
                 Inr (JObj [(''columns'', names), (''rows'', data)]))))
        else io_bind (bad_request (engine_execute cl sql)) (\<lambda>n.
               io_return (JObj [(''affected'', json_nat n)]))))"

section \<open>Row edits\<close>

definition object_at :: "json \<Rightarrow> string \<Rightarrow> http_fault + json_object" where
  "object_at doc key =
     (case jget_as as_object doc key of
        Some m \<Rightarrow> Inr m | None \<Rightarrow> http_err 400 (''missing `'' @ key @ ''` object''))"

definition known_column :: "string list \<Rightarrow> string \<Rightarrow> http_fault + unit" where
  "known_column cols k = (if k \<in> set cols then Inr () else http_err 400 (''unknown column `'' @ k @ ''`''))"

definition bind_value :: "json_lib \<Rightarrow> json \<Rightarrow> http_fault + param_value" where
  "bind_value lib v = status_of 400 (json_to_value lib v)"

text \<open>The columns of an insert and of the SET list of an update, with their values.\<close>

definition assigned :: "json_lib \<Rightarrow> string list \<Rightarrow> json_object \<Rightarrow> http_fault + (string \<times> param_value) list" where
  "assigned lib cols values =
     map_r (\<lambda>(k, v). bind_r (known_column cols k) (\<lambda>_. bind_r (bind_value lib v) (\<lambda>p. Inr (k, p)))) values"

text \<open>The conditions of a WHERE object: a null becomes IS NULL and binds nothing.\<close>

definition condition :: "json_lib \<Rightarrow> string list \<Rightarrow> string \<times> json \<Rightarrow> http_fault + (string \<times> param_value list)" where
  "condition lib cols kv =
     (case kv of (k, v) \<Rightarrow>
        bind_r (known_column cols k) (\<lambda>_.
          if v = JNull then Inr (k @ '' IS NULL'', [])
          else bind_r (bind_value lib v) (\<lambda>p. Inr (k @ '' = ?'', [p]))))"

definition insert_row_sql :: "json_lib \<Rightarrow> string list \<Rightarrow> string \<Rightarrow> json \<Rightarrow> http_fault + (string \<times> param_value list)" where
  "insert_row_sql lib cols table doc =
     bind_r (object_at doc ''values'') (\<lambda>values.
     bind_r (assigned lib cols values) (\<lambda>kps.
       if kps = [] then http_err 400 ''insert needs at least one column''
       else Inr (''INSERT INTO '' @ table @ '' ('' @ intercalate '', '' (map fst kps) @ '') VALUES (''
              @ question_marks (length kps) @ '')'', map snd kps)))"

definition set_clause :: "json_lib \<Rightarrow> string list \<Rightarrow> json \<Rightarrow> http_fault + (string \<times> param_value list)" where
  "set_clause lib cols doc =
     bind_r (object_at doc ''values'') (\<lambda>values.
     bind_r (assigned lib cols values) (\<lambda>kps.
       if kps = [] then http_err 400 ''update needs at least one column''
       else Inr ('' SET '' @ intercalate '', '' (map (\<lambda>(k, _). k @ '' = ?'') kps), map snd kps)))"

definition where_clause :: "json_lib \<Rightarrow> string list \<Rightarrow> json \<Rightarrow> http_fault + (string \<times> param_value list)" where
  "where_clause lib cols doc =
     bind_r (object_at doc ''where'') (\<lambda>where_obj.
       if where_obj = [] then http_err 400 ''refusing an empty `where` (would hit every row)''
       else bind_r (map_r (condition lib cols) where_obj) (\<lambda>conds.
         Inr ('' WHERE '' @ intercalate '' AND '' (map fst conds), concat (map snd conds))))"

definition edit_sql ::
  "json_lib \<Rightarrow> string list \<Rightarrow> string \<Rightarrow> json \<Rightarrow> bool \<Rightarrow> http_fault + (string \<times> param_value list)" where
  "edit_sql lib cols table doc is_update =
     bind_r (if is_update then set_clause lib cols doc else Inr ([], [])) (\<lambda>(set_frag, set_params).
     bind_r (where_clause lib cols doc) (\<lambda>(conds, where_params).
       Inr ((if is_update then ''UPDATE '' else ''DELETE FROM '') @ table @ set_frag @ conds,
            set_params @ where_params)))"

definition mutate_sql ::
  "json_lib \<Rightarrow> string list \<Rightarrow> string \<Rightarrow> json \<Rightarrow> http_fault + (string \<times> param_value list)" where
  "mutate_sql lib cols table doc =
     (let op = text_at doc ''op''
      in if op = ''insert'' then insert_row_sql lib cols table doc
         else if op = ''update'' then edit_sql lib cols table doc True
         else if op = ''delete'' then edit_sql lib cols table doc False
         else http_err 400 (''unknown op `'' @ op @ ''`''))"

definition mutate :: "json_lib \<Rightarrow> 'c db_client \<Rightarrow> studio \<Rightarrow> mode \<Rightarrow> string \<Rightarrow> ('c, json) handler" where
  "mutate lib cl st m body =
     io_bind (io_lift (refuse st m ''edits are disabled'')) (\<lambda>_.
     io_bind (io_lift (read_body lib body)) (\<lambda>doc.
     let table = text_at doc ''table''
     in io_bind (live_table cl table) (\<lambda>cols.
        io_bind (io_lift (mutate_sql lib cols table doc)) (\<lambda>(sql, ps).
        io_bind (bad_request (execute_params cl sql ps)) (\<lambda>n.
        io_return (JObj [(''affected'', json_nat n)]))))))"

section \<open>Asking the model\<close>

definition ai_unconfigured :: string where
  "ai_unconfigured =
     ''AI ''
     @ utf8_text [0xEC, 0x97, 0x94, 0xEB, 0x93, 0x9C, 0xED, 0x8F, 0xAC, 0xEC, 0x9D, 0xB8, 0xED, 0x8A, 0xB8]
     @ '' ''
     @ utf8_text [0xEB, 0xAF, 0xB8, 0xEC, 0x84, 0xA4, 0xEC, 0xA0, 0x95]
     @ '' ''
     @ utf8_text [0xE2, 0x80, 0x94]
     @ '' `powder setup --ai-endpoint <url>`''"

definition ai_refused :: string where
  "ai_refused =
     ''read-only token: AI ''
     @ utf8_text [0xEC, 0x83, 0x9D, 0xEC, 0x84, 0xB1, 0xEC, 0x9D, 0x80]
     @ '' ''
     @ utf8_text [0xEB, 0xB9, 0x84, 0xED, 0x99, 0x9C, 0xEC, 0x84, 0xB1, 0xED, 0x99, 0x94, 0xEB, 0x90, 0x98, 0xEC, 0x96, 0xB4]
     @ '' ''
     @ utf8_text [0xEC, 0x9E, 0x88, 0xEC, 0x8A, 0xB5, 0xEB, 0x8B, 0x88, 0xEB, 0x8B, 0xA4]"

text \<open>
  \<open>queued\<close> is the depth of the queue when the call asks to enter; the gate lets the call through when its
  turn comes.
\<close>

definition ai_generate ::
  "json_lib \<Rightarrow> model_server \<Rightarrow> 'c db_client \<Rightarrow> studio \<Rightarrow> nat \<Rightarrow> mode \<Rightarrow> string \<Rightarrow> ('c, json) handler" where
  "ai_generate lib http cl st queued m body =
     (if \<not> can_write st m then io_lift (http_err 403 ai_refused)
      else case st_ai st of
        None \<Rightarrow> io_lift (http_err 400 ai_unconfigured)
      | Some cfg \<Rightarrow>
          io_bind (io_lift (read_body lib body)) (\<lambda>doc.
          let task = text_at doc ''task''
          in if trim task = [] then io_lift (http_err 400 ''missing `task`'')
             else io_bind (internal_err (schema_summary cl)) (\<lambda>summary.
               case build_prompt summary (flavor_name (cl_flavor cl)) task of (system, user) \<Rightarrow>
               io_lift (case generate lib http cfg system user of
                 Inl e \<Rightarrow> http_err 502 e
               | Inr sql \<Rightarrow> Inr (JObj [(''sql'', JText sql), (''queuedBehind'', json_nat queued)])))))"

section \<open>Invitations\<close>

text \<open>The new token needs sixteen random bytes; a body that is not JSON mints a read-only one.\<close>

definition invite :: "json_lib \<Rightarrow> bytes \<Rightarrow> studio \<Rightarrow> mode \<Rightarrow> string \<Rightarrow> (http_fault + json) \<times> studio" where
  "invite lib buf st m body =
     (if m \<noteq> Admin then (http_err 403 ''only the admin token can mint invites'', st)
      else let doc = (case json_read lib body of Inl _ \<Rightarrow> JNull | Inr doc \<Rightarrow> doc);
               ro = (jget_as as_str doc ''mode'' \<noteq> Some ''rw'');
               token = new_token buf
           in (Inr (JObj [(''token'', JText token), (''mode'', JText (if ro then ''ro'' else ''rw''))]),
               st\<lparr>st_tokens := st_tokens st @ [(token, if ro then ReadOnly else ReadWrite)]\<rparr>))"

section \<open>Requests\<close>

text \<open>What a request meets around it: the random source, the model server, the depth of the queue.\<close>

record surroundings =
  su_lib :: json_lib
  su_random :: bytes
  su_model :: model_server
  su_waiting :: nat

text \<open>The handlers that leave the tokens alone.\<close>

definition dispatch ::
  "surroundings \<Rightarrow> 'c db_client \<Rightarrow> studio \<Rightarrow> mode \<Rightarrow> string \<times> string \<Rightarrow> query_map \<Rightarrow> string \<Rightarrow> ('c, json) handler" where
  "dispatch su cl st m endpoint q body =
     (if endpoint = (''GET'', ''/api/meta'') then studio_meta cl st (su_waiting su) m
      else if endpoint = (''GET'', ''/api/rows'') then table_rows cl q
      else if endpoint = (''POST'', ''/api/query'') then run_sql (su_lib su) cl st m body True
      else if endpoint = (''POST'', ''/api/exec'') then run_sql (su_lib su) cl st m body False
      else if endpoint = (''POST'', ''/api/mutate'') then mutate (su_lib su) cl st m body
      else if endpoint = (''POST'', ''/api/ai'')
      then ai_generate (su_lib su) (su_model su) cl st (su_waiting su) m body
      else io_lift (http_err 404 ''not found''))"

text \<open>Status and body of a response; a handler that panics leaves none.\<close>

definition respond :: "json_lib \<Rightarrow> http_fault + json \<Rightarrow> (nat \<times> string) option" where
  "respond lib r =
     (case r of
        Inr v \<Rightarrow> Some (200, json_text lib v)
      | Inl (Http num msg) \<Rightarrow> Some (num, json_text lib (JObj [(''error'', JText msg)]))
      | Inl HttpPanic \<Rightarrow> None)"

definition unauthorised :: "http_fault + json" where
  "unauthorised = http_err 401 ''invalid or missing token''"

definition studio_api ::
  "surroundings \<Rightarrow> 'c db_client \<Rightarrow> string \<times> string \<Rightarrow> query_map \<Rightarrow> string \<Rightarrow> studio \<times> 'c
   \<Rightarrow> (http_fault + json) \<times> studio \<times> 'c" where
  "studio_api su cl endpoint q body sc =
     (case sc of (st, c) \<Rightarrow>
        (case Option.bind (q ''t'') (mode_of st) of
           None \<Rightarrow> (unauthorised, st, c)
         | Some m \<Rightarrow>
             if endpoint = (''POST'', ''/api/invite'')
             then (case invite (su_lib su) (su_random su) st m body of (r, st) \<Rightarrow> (r, st, c))
             else (case dispatch su cl st m endpoint q body c of (r, c) \<Rightarrow> (r, st, c))))"

section \<open>Request URLs\<close>

definition hex_value :: "char \<Rightarrow> nat option" where
  "hex_value c =
     (if is_ascii_digit c then Some (code c - 48)
      else if 97 \<le> code c \<and> code c \<le> 102 then Some (code c - 87)
      else if 65 \<le> code c \<and> code c \<le> 70 then Some (code c - 55)
      else None)"

fun percent_bytes :: "string \<Rightarrow> string" where
  "percent_bytes [] = []"
| "percent_bytes (c # s) =
     (if c = CHR ''%'' then
        (case s of
           a # b # s' \<Rightarrow>
             (case (hex_value a, hex_value b) of
                (Some h, Some l) \<Rightarrow> char_of (h * 16 + l) # percent_bytes s'
              | _ \<Rightarrow> CHR ''%'' # percent_bytes s)
         | _ \<Rightarrow> CHR ''%'' # percent_bytes s)
      else if c = CHR ''+'' then CHR '' '' # percent_bytes s
      else c # percent_bytes s)"

definition percent_decode :: "string \<Rightarrow> string" where
  "percent_decode s = of_bytes (utf8_lossy (as_bytes (percent_bytes s)))"

definition parse_pair :: "string \<Rightarrow> query_map \<Rightarrow> query_map" where
  "parse_pair pair q =
     (case option_or (split_once ''='' pair) (pair, []) of (k, v) \<Rightarrow> q(k \<mapsto> percent_decode v))"

definition parse_query :: "string \<Rightarrow> query_map" where
  "parse_query raw = fold parse_pair (filter (\<lambda>s. s \<noteq> []) (split_char (CHR ''&'') raw)) (\<lambda>_. None)"

definition denied_page :: string where
  "denied_page =
     ''<h3>powder studio</h3><p>''
     @ utf8_text [0xEC, 0x9C, 0xA0, 0xED, 0x9A, 0xA8, 0xED, 0x95, 0x9C]
     @ '' ''
     @ utf8_text [0xED, 0x86, 0xA0, 0xED, 0x81, 0xB0, 0xEC, 0x9D, 0xB4]
     @ '' ''
     @ utf8_text [0xED, 0x95, 0x84, 0xEC, 0x9A, 0x94, 0xED, 0x95, 0xA9, 0xEB, 0x8B, 0x88, 0xEB, 0x8B, 0xA4]
     @ '' ''
     @ utf8_text [0xE2, 0x80, 0x94]
     @ '' ''
     @ utf8_text [0xEC, 0x84, 0x9C, 0xEB, 0xB2, 0x84, 0xEB, 0xA5, 0xBC]
     @ '' ''
     @ utf8_text [0xEC, 0x8B, 0x9C, 0xEC, 0x9E, 0x91, 0xED, 0x95, 0x9C]
     @ '' ''
     @ utf8_text [0xEC, 0x82, 0xAC, 0xEB, 0x9E, 0x8C, 0xEC, 0x97, 0x90, 0xEA, 0xB2, 0x8C]
     @ '' ''
     @ utf8_text [0xEC, 0xB4, 0x88, 0xEB, 0x8C, 0x80]
     @ '' URL''
     @ utf8_text [0xEC, 0x9D, 0x84]
     @ '' ''
     @ utf8_text [0xEC, 0x9A, 0x94, 0xEC, 0xB2, 0xAD, 0xED, 0x95, 0x98, 0xEC, 0x84, 0xB8, 0xEC, 0x9A, 0x94]
     @ ''.</p>''"

datatype content = Html | JsonBody

text \<open>
  One request: status, body and content type. The method is in ASCII; \<open>page\<close> is the embedded HTML page.
\<close>

definition handle ::
  "surroundings \<Rightarrow> string \<Rightarrow> 'c db_client \<Rightarrow> string \<Rightarrow> string \<Rightarrow> string \<Rightarrow> studio \<times> 'c
   \<Rightarrow> (nat \<times> string \<times> content) option \<times> studio \<times> 'c" where
  "handle su page cl verb raw_url body sc =
     (case option_or (split_once ''?'' raw_url) (raw_url, []) of (path, qraw) \<Rightarrow>
        let q = parse_query qraw; verb = map to_ascii_upper verb
        in if path = ''/'' \<or> path = ''/index.html'' then
             (Some (case Option.bind (q ''t'') (mode_of (fst sc)) of
                Some _ \<Rightarrow> (200, page, Html) | None \<Rightarrow> (401, denied_page, Html)), sc)
           else if starts_with path ''/api/'' then
             (case studio_api su cl (verb, path) q body sc of (r, sc) \<Rightarrow>
                (map_option (\<lambda>(num, txt). (num, txt, JsonBody)) (respond (su_lib su) r), sc))
           else (Some (404, json_text (su_lib su) (JObj [(''error'', JText ''not found'')]), JsonBody), sc))"

end
