(* ===== verification/StudioProofs.thy ===== *)
theory StudioProofs
  imports Studio OrmCalls
begin

text \<open>
  What the studio lets a request do. A filtered client fails on every statement that a filter does not
  let pass; the handlers that compose their statements themselves behave the same with every filter that
  lets the catalogue queries and the statements of a page pass. A viewer's filter lets nothing else pass.
\<close>

section \<open>Filtered clients\<close>

definition filter_client ::
  "(string \<Rightarrow> param_value list \<Rightarrow> bool) \<Rightarrow> (string \<Rightarrow> param_value list \<Rightarrow> bool) \<Rightarrow> 'c db_client \<Rightarrow> 'c db_client" where
  "filter_client pq pe cl =
     \<lparr>cl_flavor = cl_flavor cl,
      cl_execute = (\<lambda>sql ps. if pe sql ps then cl_execute cl sql ps else io_lift Panicked),
      cl_query = (\<lambda>sql ps. if pq sql ps then cl_query cl sql ps else io_lift Panicked)\<rparr>"

lemma filter_client_flavor [simp]: "cl_flavor (filter_client pq pe cl) = cl_flavor cl"
  by (simp add: filter_client_def)

lemma filter_client_calls:
  "pq sql ps \<Longrightarrow> query_params (filter_client pq pe cl) sql ps = query_params cl sql ps"
  "pe sql ps \<Longrightarrow> execute_params (filter_client pq pe cl) sql ps = execute_params cl sql ps"
  "pq sql [] \<Longrightarrow> engine_query (filter_client pq pe cl) sql = engine_query cl sql"
  by (simp_all add: filter_client_def query_params_def execute_params_def engine_query_def)

lemma checked_client_filter: "checked_client cl = filter_client well_bound well_bound cl"
  by (simp add: checked_client_def filter_client_def)

lemma io_bind_run_cong:
  assumes "\<And>s x s'. m s = (Inr x, s') \<Longrightarrow> f x = g x"
  shows "io_bind m f = io_bind m g"
proof
  fix s
  show "io_bind m f s = io_bind m g s"
  proof (cases "m s")
    case (Pair r s')
    with assms show ?thesis by (cases r) (auto simp: io_bind_def)
  qed
qed

lemma io_bind_eq: "m = m' \<Longrightarrow> (\<And>x. f x = g x) \<Longrightarrow> io_bind m f = io_bind m' g"
  by (metis ext)

section \<open>The statements the studio composes\<close>

definition list_queries :: "string list" where
  "list_queries = [lite_tables_sql, pg_tables_sql, my_tables_sql, other_tables_sql]"

definition table_queries :: "string list" where
  "table_queries =
     [pg_column_rows_sql, pg_key_rows_sql, my_column_rows_sql, my_key_rows_sql, other_column_rows_sql,
      other_key_rows_sql, pg_fk_rows_sql, my_fk_rows_sql, other_fk_rows_sql]"

definition ordered_by :: "string set \<Rightarrow> string set" where
  "ordered_by known = {''ORDER BY '' @ c @ dir | c dir. c \<in> known \<and> dir \<in> {[], '' ASC'', '' DESC''}}"

definition order_tails :: "string set \<Rightarrow> string set" where
  "order_tails known = insert [] (Cons (CHR '' '') ` ordered_by known)"

inductive page_statement :: "string set \<Rightarrow> string \<Rightarrow> bool" for known where
  page_count: "ident_ok t \<Longrightarrow> page_statement known (''SELECT COUNT(*) AS n FROM '' @ t)"
| page_top: "ident_ok t \<Longrightarrow> tail \<in> order_tails known \<Longrightarrow>
    page_statement known (''SELECT TOP ('' @ nat_to_string n @ '') * FROM '' @ t @ tail)"
| page_limit: "ident_ok t \<Longrightarrow> tail \<in> order_tails known \<Longrightarrow>
    page_statement known
      (''SELECT * FROM '' @ t @ tail @ '' LIMIT '' @ nat_to_string n @ '' OFFSET '' @ nat_to_string k)"
| page_numbered: "ident_ok t \<Longrightarrow> set cols \<subseteq> known \<Longrightarrow> ob \<in> ordered_by known \<Longrightarrow>
    page_statement known
      (''SELECT '' @ intercalate '', '' cols @ '' FROM (SELECT '' @ intercalate '', '' cols
       @ '', ROW_NUMBER() OVER ('' @ ob @ '') AS __rn FROM '' @ t @ '') q WHERE __rn > '' @ nat_to_string k
       @ '' AND __rn <= '' @ nat_to_string n)"

text \<open>The columns the catalogue can name.\<close>

definition known_columns :: "'c db_client \<Rightarrow> string set \<Rightarrow> bool" where
  "known_columns cl known \<longleftrightarrow>
     (\<forall>t s cols s'. table_columns cl t s = (Inr cols, s') \<longrightarrow> dc_name ` set cols \<subseteq> known)"

lemma known_columnsD:
  "known_columns cl known \<Longrightarrow> table_columns cl t s = (Inr ds, s') \<Longrightarrow> d \<in> set ds \<Longrightarrow> dc_name d \<in> known"
  unfolding known_columns_def by blast

lemma ident_word: "ident_ok t \<Longrightarrow> word_text t"
  by (simp add: ident_ok_def word_text_def)

lemma with_status_Inr: "with_status n m s = (Inr x, s') \<longleftrightarrow> m s = (Inr x, s')"
  by (auto simp: with_status_def status_of_def split: prod.splits sum.splits cli_fault.splits)

lemma live_table_known:
  assumes "known_columns cl known" "live_table cl t s = (Inr cols, s')"
  shows "ident_ok t" "set cols \<subseteq> known"
proof -
  from assms(2) obtain ds s1 where "ident_ok t" "cols = map dc_name ds" "table_columns cl t s1 = (Inr ds, s')"
    by (auto simp: live_table_def io_bind_eq_Inr with_status_Inr split: if_splits)
  then show "ident_ok t" "set cols \<subseteq> known" using known_columnsD [OF assms(1)] by auto
qed

text \<open>An order clause: nothing, or a known column and a direction.\<close>

definition known_order :: "string set \<Rightarrow> string \<times> string \<Rightarrow> bool" where
  "known_order known od \<longleftrightarrow>
     od = ([], []) \<or> (\<exists>c \<in> known. fst od = '' ORDER BY '' @ c \<and> snd od \<in> {'' ASC'', '' DESC''})"

lemma order_clause_known:
  assumes "known_columns cl known" "order_clause cl t q s = (Inr od, s')"
  shows "known_order known od"
proof (cases "q ''order'' = None \<or> q ''order'' = Some []")
  case True
  with assms(2) show ?thesis by (auto simp: order_clause_def known_order_def)
next
  case False
  then obtain c where c: "q ''order'' = Some c" "c \<noteq> []" by auto
  with assms(2) obtain cols where "live_table cl t s = (Inr cols, s')" "c \<in> set cols"
    and "od = ('' ORDER BY '' @ c, if q ''dir'' = Some ''desc'' then '' DESC'' else '' ASC'')"
    by (auto simp: order_clause_def io_bind_eq_Inr split: if_splits)
  with live_table_known(2) [OF assms(1)] have "c \<in> known" by blast
  with \<open>od = _\<close> show ?thesis unfolding known_order_def by auto
qed

lemma first_column_known:
  assumes "known_columns cl known" "first_column cl t s = (Inr c, s')"
  shows "c \<in> known"
proof -
  let ?pick = "\<lambda>ds. case List.find (\<lambda>c. dc_pk c = 1) ds of Some c \<Rightarrow> Some c
      | None \<Rightarrow> (case ds of [] \<Rightarrow> None | c # _ \<Rightarrow> Some c)"
  from assms(2) obtain ds s1 where "with_status 500 (table_columns cl t) s = (Inr ds, s1)"
    and pick: "(case ?pick ds of Some c \<Rightarrow> io_return (dc_name c)
      | None \<Rightarrow> io_lift (http_err 404 (''table `'' @ t @ ''` has no columns''))) s1 = (Inr c, s')"
    unfolding first_column_def io_bind_eq_Inr by blast
  then have ds: "table_columns cl t s = (Inr ds, s1)" by (simp add: with_status_Inr)
  have "\<exists>d \<in> set ds. c = dc_name d"
  proof (cases "List.find (\<lambda>c. dc_pk c = 1) ds")
    case None
    with pick show ?thesis by (cases ds) auto
  next
    case (Some d)
    with pick find_Some_set [OF Some] show ?thesis by auto
  qed
  then show ?thesis using known_columnsD [OF assms(1) ds] by blast
qed

lemma ordered_byI: "c \<in> known \<Longrightarrow> dir \<in> {[], '' ASC'', '' DESC''} \<Longrightarrow> ''ORDER BY '' @ c @ dir \<in> ordered_by known"
  unfolding ordered_by_def by blast

lemma order_tail:
  assumes "known_order known (order, dir)"
  shows "order @ dir \<in> order_tails known" "order \<noteq> [] \<Longrightarrow> trim_start order @ dir \<in> ordered_by known"
proof -
  consider "order = []" "dir = []" | c where "c \<in> known" "order = '' ORDER BY '' @ c" "dir \<in> {'' ASC'', '' DESC''}"
    using assms by (auto simp: known_order_def)
  then show "order @ dir \<in> order_tails known"
  proof cases
    case (2 c)
    have "order @ dir = CHR '' '' # (''ORDER BY '' @ c @ dir)" using 2(2) by simp
    with 2 ordered_byI [of c known dir] show ?thesis by (simp only: order_tails_def) auto
  qed (simp add: order_tails_def)
  assume "order \<noteq> []"
  with assms obtain c where c: "c \<in> known" "order = '' ORDER BY '' @ c" "dir \<in> {'' ASC'', '' DESC''}"
    by (auto simp: known_order_def)
  have "trim_start order = ''ORDER BY '' @ c" unfolding c(2)
    by (subst trim_start.simps, simp add: ws_front_def, subst trim_start.simps, simp add: ws_front_def)
  with ordered_byI [of c known dir] c show "trim_start order @ dir \<in> ordered_by known" by auto
qed

lemma rows_sql_page:
  assumes k: "known_columns cl known" and t: "ident_ok t" and c: "set cols \<subseteq> known"
    and od: "known_order known od" and run: "rows_sql cl t cols n m od s = (Inr sql, s')"
  shows "page_statement known sql"
proof -
  obtain order dir where od_eq: "od = (order, dir)" by (cases od)
  note tail = order_tail [OF od [unfolded od_eq]]
  note run = run [unfolded rows_sql_def od_eq prod.case]
  show ?thesis
  proof (cases "cl_flavor cl = MsSql \<and> m \<noteq> 0")
    case False
    then show ?thesis
      using run page_top [OF t tail(1), of n] page_limit [OF t tail(1), of n m]
      by (auto split: if_splits)
  next
    case True
    note numbered = page_numbered [OF t c, of _ m "(m + n) mod 2 ^ 64"]
    show ?thesis
    proof (cases "order = []")
      case empty: True
      with run True obtain c s1 where "first_column cl t s = (Inr c, s1)"
        and "sql = ''SELECT '' @ intercalate '', '' cols
          @ '' FROM (SELECT '' @ intercalate '', '' cols @ '', ROW_NUMBER() OVER ('' @ (''ORDER BY '' @ c @ []) @ '') AS __rn FROM ''
          @ t @ '') q WHERE __rn > '' @ nat_to_string m @ '' AND __rn <= '' @ nat_to_string ((m + n) mod 2 ^ 64)"
        by (auto simp: io_bind_eq_Inr Let_def)
      with numbered [OF ordered_byI] first_column_known [OF k] show ?thesis by blast
    next
      case False
      with run True numbered [OF tail(2)] show ?thesis by (auto simp: Let_def)
    qed
  qed
qed

section \<open>Handlers behind a filter\<close>

locale statement_filter =
  fixes pass_query :: "string \<Rightarrow> param_value list \<Rightarrow> bool"
    and pass_execute :: "string \<Rightarrow> param_value list \<Rightarrow> bool"
    and known :: "string set"
  assumes pass_list: "sql \<in> set list_queries \<Longrightarrow> pass_query sql []"
    and pass_table: "sql \<in> set table_queries \<Longrightarrow> pass_query sql [VText t]"
    and pass_pragma: "word_text t \<Longrightarrow> pragma \<in> {''PRAGMA table_info('', ''PRAGMA foreign_key_list(''}
      \<Longrightarrow> pass_query (pragma @ t @ '')'') []"
    and pass_page: "page_statement known sql \<Longrightarrow> pass_query sql []"
begin

lemma table_names_same: "table_names (filter_client pass_query pass_execute cl) = table_names cl"
  by (cases "cl_flavor cl") (simp_all add: table_names_def filter_client_calls pass_list list_queries_def)

lemma pragma_same:
  "word_text t \<Longrightarrow> engine_query (filter_client pass_query pass_execute cl) (''PRAGMA table_info('' @ t @ '')'')
     = engine_query cl (''PRAGMA table_info('' @ t @ '')'')"
  "word_text t \<Longrightarrow> engine_query (filter_client pass_query pass_execute cl) (''PRAGMA foreign_key_list('' @ t @ '')'')
     = engine_query cl (''PRAGMA foreign_key_list('' @ t @ '')'')"
  by (rule filter_client_calls(3), rule pass_pragma; simp)+

lemma table_query_same:
  "sql \<in> set table_queries \<Longrightarrow>
     query_params (filter_client pass_query pass_execute cl) sql [VText t] = query_params cl sql [VText t]"
  by (simp add: filter_client_calls pass_table)

lemma table_columns_same: "table_columns (filter_client pass_query pass_execute cl) t = table_columns cl t"
  by (cases "cl_flavor cl")
    (simp_all add: table_columns_def pragma_columns_def info_columns_def pragma_same [simplified]
      table_query_same table_queries_def)

lemma fk_query_same:
  "word_text t \<Longrightarrow> fk_query (filter_client pass_query pass_execute cl) t = fk_query cl t"
  by (cases "cl_flavor cl")
    (simp_all add: fk_query_def pragma_same [simplified] table_query_same table_queries_def)

lemma table_fks_same: "table_fks (filter_client pass_query pass_execute cl) t = table_fks cl t"
  by (simp add: table_fks_def fk_query_same)

lemmas catalogue_same = table_names_same table_columns_same table_fks_same

lemma schema_summary_same: "schema_summary (filter_client pass_query pass_execute cl) = schema_summary cl"
  unfolding schema_summary_def catalogue_same ..

lemma studio_meta_same: "studio_meta (filter_client pass_query pass_execute cl) = studio_meta cl"
  by (rule ext)+ (unfold studio_meta_def meta_table_def catalogue_same filter_client_flavor, rule refl)

lemma live_table_same: "live_table (filter_client pass_query pass_execute cl) t = live_table cl t"
  unfolding live_table_def catalogue_same ..

lemma order_clause_same: "order_clause (filter_client pass_query pass_execute cl) t q = order_clause cl t q"
  unfolding order_clause_def live_table_same ..

lemma rows_sql_same:
  "rows_sql (filter_client pass_query pass_execute cl) t cols n m od = rows_sql cl t cols n m od"
  unfolding rows_sql_def first_column_def catalogue_same filter_client_flavor ..

lemma page_same:
  "page_statement known sql \<Longrightarrow> engine_query (filter_client pass_query pass_execute cl) sql = engine_query cl sql"
  by (simp add: filter_client_calls pass_page)

lemma table_rows_same:
  assumes k: "known_columns cl known"
  shows "table_rows (filter_client pass_query pass_execute cl) q = table_rows cl q"
  unfolding table_rows_def Let_def live_table_same rows_sql_same order_clause_same
proof (intro io_bind_run_cong)
  fix s cols s' s1 od s1' s2 sql s2'
  let ?t = "option_or (q ''table'') []"
  assume "live_table cl ?t s = (Inr cols, s')" and od: "order_clause cl ?t q s1 = (Inr od, s1')"
    and run: "rows_sql cl ?t cols (page_limit q) (page_offset q) od s2 = (Inr sql, s2')"
  note t = live_table_known [OF k this(1)]
  have "page_statement known sql"
    by (rule rows_sql_page [OF k t order_clause_known [OF k od] run])
  note same = page_same [OF this] page_same [OF page_count [OF t(1)]]
  show "io_bind (bad_request (engine_query (filter_client pass_query pass_execute cl) sql)) (\<lambda>b.
      io_bind (bad_request (engine_query (filter_client pass_query pass_execute cl)
        (''SELECT COUNT(*) AS n FROM '' @ ?t))) (\<lambda>total_b.
      io_lift (bind_r (total_rows total_b) (\<lambda>n. bind_r (batch_json b) (\<lambda>(names, data).
        Inr (JObj [(''columns'', names), (''rows'', data), (''total'', json_int n)]))))))
    = io_bind (bad_request (engine_query cl sql)) (\<lambda>b.
      io_bind (bad_request (engine_query cl (''SELECT COUNT(*) AS n FROM '' @ ?t))) (\<lambda>total_b.
      io_lift (bind_r (total_rows total_b) (\<lambda>n. bind_r (batch_json b) (\<lambda>(names, data).
        Inr (JObj [(''columns'', names), (''rows'', data), (''total'', json_int n)]))))))"
    by (simp only: same)
qed

lemma ai_generate_same:
  "ai_generate lib http (filter_client pass_query pass_execute cl) st queued m body = ai_generate lib http cl st queued m body"
  unfolding ai_generate_def schema_summary_same filter_client_flavor ..

end

section \<open>A small database\<close>

text \<open>
  A client with one table \<open>users\<close> of two columns that logs its statements, and a server with an admin
  token and a read-only one.
\<close>

definition text_column :: "string \<Rightarrow> string list \<Rightarrow> column" where
  "text_column nm xs =
     (case build Utf8 (map PushText xs) of Inr b \<Rightarrow> finish nm b | Inl _ \<Rightarrow> finish nm (builder_new Utf8))"

definition demo_batch :: "string \<Rightarrow> record_batch" where
  "demo_batch sql =
     (let cols = (if sql = lite_tables_sql then [text_column ''name'' [''users'']]
        else [text_column ''name'' [''id'', ''name''], text_column ''type'' [''INTEGER'', ''TEXT'']])
      in \<lparr>batch_schema = schema_new (map col_field cols), num_rows = col_len (hd cols), columns = cols\<rparr>)"

definition demo_client :: "(string \<times> param_value list) list db_client" where
  "demo_client =
     \<lparr>cl_flavor = Sqlite,
      cl_execute = (\<lambda>sql ps log. (Ok 1, log @ [(sql, ps)])),
      cl_query = (\<lambda>sql ps log. (Ok (demo_batch sql), log))\<rparr>"

definition demo_su :: "json \<Rightarrow> surroundings" where
  "demo_su doc =
     \<lparr>su_lib = \<lparr>json_read = (\<lambda>_. Inr doc), json_text = (\<lambda>_. []), str_debug = id\<rparr>,
      su_random = replicate 16 1, su_model = (\<lambda>_ _ _. Inl []), su_waiting = 0\<rparr>"

definition demo_studio :: studio where
  "demo_studio =
     \<lparr>st_tokens = [(''adm'', Admin), (''guest'', ReadOnly)], st_readonly = False, st_label = [], st_ai = None\<rparr>"

lemma demo_execute: "cl_execute demo_client sql ps log = (Ok 1, log @ [(sql, ps)])"
  by (simp add: demo_client_def)

lemma demo_table_columns:
  "word_text t \<Longrightarrow> table_columns demo_client t s
     = (Inr [\<lparr>dc_name = ''id'', dc_sql_type = ''INTEGER'', dc_notnull = False, dc_pk = 0\<rparr>,
             \<lparr>dc_name = ''name'', dc_sql_type = ''TEXT'', dc_notnull = False, dc_pk = 0\<rparr>], s)"
proof -
  assume t: "word_text t"
  have batch: "demo_batch (''PRAGMA table_info('' @ t @ '')'') = demo_batch []"
    by (simp add: demo_batch_def lite_tables_sql_def)
  have "map_r (pragma_column (demo_batch [])) [0..<num_rows (demo_batch [])]
      = Inr [\<lparr>dc_name = ''id'', dc_sql_type = ''INTEGER'', dc_notnull = False, dc_pk = 0\<rparr>,
             \<lparr>dc_name = ''name'', dc_sql_type = ''TEXT'', dc_notnull = False, dc_pk = 0\<rparr>]"
    by code_simp
  with t show ?thesis
    by (simp add: table_columns_def demo_client_def pragma_columns_def engine_query_def query_params_def
        batch [simplified] client_call_def text_fault_def io_bind_def io_lift_def)
qed

lemma demo_columns: "known_columns demo_client (Collect is_ident)"
  unfolding known_columns_def
proof (intro allI impI)
  fix t s cols s'
  assume run: "table_columns demo_client t s = (Inr cols, s')"
  show "dc_name ` set cols \<subseteq> Collect is_ident"
  proof (cases "word_text t")
    case True
    with run show ?thesis
      by (auto simp: demo_table_columns is_ident_def is_ascii_alphanumeric_def is_ascii_alphabetic_def)
  next
    case False
    with run show ?thesis by (simp add: table_columns_def)
  qed
qed

lemma demo_table: "live_table demo_client ''users'' s = (Inr [''id'', ''name''], s)"
proof -
  have "map_r (cell_s (demo_batch lite_tables_sql) ''name'') [0..<num_rows (demo_batch lite_tables_sql)] = Inr [''users'']"
    by code_simp
  then have "table_names demo_client s = (Inr [''users''], s)"
    by (simp add: table_names_def demo_client_def engine_query_def query_params_def client_call_def text_fault_def
        io_bind_def io_lift_def)
  moreover have "ident_ok ''users''" "word_text ''users''" by code_simp+
  ultimately show ?thesis
    by (simp add: live_table_def demo_table_columns with_status_def status_of_def io_bind_def io_lift_def)
qed

section \<open>Viewers\<close>

text \<open>What a viewer's request may run: a catalogue query or the statement of a page, and nothing else.\<close>

definition viewer_query :: "string set \<Rightarrow> string \<Rightarrow> param_value list \<Rightarrow> bool" where
  "viewer_query known sql ps \<longleftrightarrow>
     sql \<in> set list_queries \<and> ps = [] \<or> sql \<in> set table_queries \<and> (\<exists>t. ps = [VText t])
     \<or> (\<exists>t. word_text t \<and> sql \<in> {''PRAGMA table_info('' @ t @ '')'', ''PRAGMA foreign_key_list('' @ t @ '')''} \<and> ps = [])
     \<or> page_statement known sql \<and> ps = []"

definition viewer_client :: "string set \<Rightarrow> 'c db_client \<Rightarrow> 'c db_client" where
  "viewer_client known cl = filter_client (viewer_query known) (\<lambda>_ _. False) cl"

interpretation viewer: statement_filter "viewer_query known" "\<lambda>_ _. False" known for known
proof
  fix t pragma :: string
  assume "word_text t" and pragma: "pragma \<in> {''PRAGMA table_info('', ''PRAGMA foreign_key_list(''}"
  then show "viewer_query known (pragma @ t @ '')'') []" unfolding viewer_query_def by blast
qed (simp_all add: viewer_query_def)

lemma refused_calls:
  assumes "\<not> can_write st m"
  shows "run_sql lib cl st m body b = run_sql lib cl' st m body b" "mutate lib cl st m body = mutate lib cl' st m body"
  using assms by (simp_all add: run_sql_def mutate_def refuse_def)

lemma studio_api_cong:
  assumes "\<And>m. Option.bind (q ''t'') (mode_of st) = Some m \<Longrightarrow> endpoint \<noteq> (''POST'', ''/api/invite'') \<Longrightarrow>
    dispatch su cl st m endpoint q body = dispatch su cl' st m endpoint q body"
  shows "studio_api su cl endpoint q body (st, c) = studio_api su cl' endpoint q body (st, c)"
  using assms by (cases "Option.bind (q ''t'') (mode_of st)") (simp_all add: studio_api_def)

text \<open>
  C21: A request without a valid token, with a read-only token, or to a server started read-only runs
  nothing but the catalogue queries and the SELECT of a page of an existing table, whatever the request
  says: with a client that fails on every other query and on every write it gets the same answer.
\<close>

theorem viewers_only_browse:
  assumes k: "known_columns cl known"
    and viewer: "\<And>m. Option.bind (q ''t'') (mode_of st) = Some m \<Longrightarrow> \<not> can_write st m"
  shows "studio_api su (viewer_client known cl) endpoint q body (st, c) = studio_api su cl endpoint q body (st, c)"
proof (rule studio_api_cong)
  fix m
  assume "Option.bind (q ''t'') (mode_of st) = Some m"
  note refused = refused_calls [OF viewer [OF this], where cl = "viewer_client known cl" and cl' = cl]
  show "dispatch su (viewer_client known cl) st m endpoint q body = dispatch su cl st m endpoint q body"
    unfolding dispatch_def refused
    unfolding viewer_client_def viewer.studio_meta_same viewer.table_rows_same [OF k] viewer.ai_generate_same ..
qed

lemma viewers_only_browse_witness:
  "studio_api (demo_su (JObj [(''sql'', JText ''DELETE FROM users'')])) (viewer_client (Collect is_ident) demo_client)
     (''POST'', ''/api/exec'') [''t'' \<mapsto> ''guest''] [] (demo_studio, [])
   = (http_err 403 ''read-only token: SQL runner is disabled'', demo_studio, [])"
proof -
  let ?su = "demo_su (JObj [(''sql'', JText ''DELETE FROM users'')])"
  let ?q = "[''t'' \<mapsto> ''guest'']"
  have mode: "mode_of demo_studio ''guest'' = Some ReadOnly" by (simp add: mode_of_def demo_studio_def)
  then have "\<And>m. Option.bind (?q ''t'') (mode_of demo_studio) = Some m \<Longrightarrow> \<not> can_write demo_studio m"
    by (simp add: can_write_def)
  from viewers_only_browse [OF demo_columns this] have "studio_api ?su (viewer_client (Collect is_ident) demo_client)
      (''POST'', ''/api/exec'') ?q [] (demo_studio, [])
    = studio_api ?su demo_client (''POST'', ''/api/exec'') ?q [] (demo_studio, [])" .
  then show ?thesis
    by (simp add: studio_api_def mode dispatch_def run_sql_def refuse_def can_write_def io_bind_def io_lift_def)
qed

end
