(* ===== verification/StudioEdits.thy ===== *)
theory StudioEdits
  imports StudioProofs
begin

text \<open>
  The statements of the studio and their values: the filter that lets only statements pass whose
  placeholders match their values and which the guard accepts stops no request but those of the SQL runner.
\<close>

section \<open>Statements match their values\<close>

lemma ident_ok_ident: "ident_ok s \<longleftrightarrow> is_ident s"
  by (simp add: ident_ok_def is_ident_def)

text \<open>
  A scan that decides most texts in one pass: the number of question marks outside single-quoted literals
  in a text without a semicolon and, outside literals, without any other special character.
\<close>

fun scan_marks :: "bool \<Rightarrow> string \<Rightarrow> nat option" where
  "scan_marks q [] = (if q then None else Some 0)"
| "scan_marks q (c # s) =
     (if c = CHR 0x27 then scan_marks (\<not> q) s
      else if q then (if c = CHR '';'' then None else scan_marks q s)
      else if c = CHR ''?'' then map_option Suc (scan_marks q s)
      else if c \<in> set special_chars then None else scan_marks q s)"

lemma scan_no_semicolon: "scan_marks q s = Some n \<Longrightarrow> CHR '';'' \<notin> set s"
  by (induction q s arbitrary: n rule: scan_marks.induct) (auto simp: special_chars_def split: if_splits)

lemma marks_step:
  "c \<notin> set special_chars \<Longrightarrow> placeholders (lexemes ph_closer (c # s))
     = (if c = CHR ''?'' then Suc (placeholders (lexemes ph_closer s)) else placeholders (lexemes ph_closer s))"
  "placeholders (lexemes ph_closer (CHR 0x27 # s)) = placeholders (lexemes ph_closer (snd (take_quoted (CHR 0x27) s)))"
proof -
  show "c \<notin> set special_chars \<Longrightarrow> placeholders (lexemes ph_closer (c # s))
     = (if c = CHR ''?'' then Suc (placeholders (lexemes ph_closer s)) else placeholders (lexemes ph_closer s))"
    by (subst lexemes.simps) (auto simp: special_chars_def at_line_comment_def at_block_comment_def ph_closer_def placeholders_def)
qed (subst lexemes.simps, simp add: at_line_comment_def at_block_comment_def ph_closer_def placeholders_def)

lemma quoted_rest:
  "snd (take_quoted q (c # d # s)) =
     (if c \<noteq> q then snd (take_quoted q (d # s)) else if d = q then snd (take_quoted q s) else d # s)"
  by (simp add: split_beta Let_def)

lemma scan_marks_sound:
  "scan_marks q s = Some n
     \<Longrightarrow> placeholders (lexemes ph_closer (if q then snd (take_quoted (CHR 0x27) s) else s)) = n"
proof (induction "length s" arbitrary: q s n rule: less_induct)
  case less
  show ?case
  proof (cases s)
    case Nil
    with less.prems show ?thesis by (simp add: placeholders_def split: if_splits)
  next
    case (Cons c t)
    show ?thesis
    proof (cases q)
      case False
      have IH: "scan_marks q' t = Some m \<Longrightarrow>
          placeholders (lexemes ph_closer (if q' then snd (take_quoted (CHR 0x27) t) else t)) = m" for q' m
        using less.hyps [of t q' m] Cons by simp
      have "CHR ''?'' \<notin> set special_chars" by (simp add: special_chars_def)
      with less.prems Cons False IH [of True] IH [of False] show ?thesis
        by (auto simp: marks_step split: if_splits)
    next
      case True
      show ?thesis
      proof (cases t)
        case Nil
        with less.prems Cons True show ?thesis by (auto simp: placeholders_def split: if_splits)
      next
        case t: (Cons d u)
        have IH: "length v < length s \<Longrightarrow> scan_marks q' v = Some m \<Longrightarrow>
            placeholders (lexemes ph_closer (if q' then snd (take_quoted (CHR 0x27) v) else v)) = m" for q' v m
          by (rule less.hyps)
        show ?thesis
          using less.prems Cons t True IH [of "d # u" True n] IH [of u True n] IH [of "d # u" False n]
          unfolding Cons t by (auto simp: quoted_rest simp del: take_quoted.simps(1) split: if_splits)
      qed
    qed
  qed
qed

lemma scan_well_bound: "scan_marks False sql = Some (length ps) \<Longrightarrow> well_bound sql ps"
  using scan_marks_sound [of False sql] no_semicolon_passes [OF scan_no_semicolon [of False sql]]
  by (simp add: well_bound_def)

lemma list_marks:
    "scan_marks False lite_tables_sql = Some 0"
    "scan_marks False pg_tables_sql = Some 0"
    "scan_marks False my_tables_sql = Some 0"
    "scan_marks False other_tables_sql = Some 0"
  by code_simp+

lemma table_marks:
    "scan_marks False pg_column_rows_sql = Some 1"
    "scan_marks False pg_key_rows_sql = Some 1"
    "scan_marks False my_column_rows_sql = Some 1"
    "scan_marks False my_key_rows_sql = Some 1"
    "scan_marks False other_column_rows_sql = Some 1"
    "scan_marks False other_key_rows_sql = Some 1"
    "scan_marks False pg_fk_rows_sql = Some 1"
    "scan_marks False my_fk_rows_sql = Some 1"
    "scan_marks False other_fk_rows_sql = Some 1"
  by code_simp+

lemma catalogue_bound:
  "sql \<in> set list_queries \<Longrightarrow> well_bound sql []" "sql \<in> set table_queries \<Longrightarrow> well_bound sql [VText t]"
  using list_marks table_marks by (auto simp: list_queries_def table_queries_def intro!: scan_well_bound)

lemma safe_well_bound: "bound_text (length ps) sql \<Longrightarrow> well_bound sql ps"
  using safe_statement_sound [of sql ps] by (simp add: safe_statement_def well_bound_def)

lemma word_bound: "word_text t \<Longrightarrow> bound_text 0 t"
  using ident_bound [of "CHR ''_'' # t"]
  by (simp add: word_text_def is_ident_def bound_literal)

lemma tails_bound:
  assumes "known \<subseteq> Collect is_ident"
  shows "ob \<in> ordered_by known \<Longrightarrow> bound_text 0 ob" "tail \<in> order_tails known \<Longrightarrow> bound_text 0 tail"
proof -
  show *: "bound_text 0 ob" if "ob \<in> ordered_by known" for ob
  proof -
    from that obtain c dir where ob: "ob = ''ORDER BY '' @ c @ dir" "c \<in> known" "dir \<in> {[], '' ASC'', '' DESC''}"
      unfolding ordered_by_def by blast
    then have c: "bound_text 0 c" using assms ident_bound by blast
    from ob(3) show ?thesis unfolding ob(1) by (auto simp: bound_literal c)
  qed
  show "bound_text 0 tail" if "tail \<in> order_tails known" for tail
    using that * by (auto simp: order_tails_def bound_literal)
qed

lemma number_bound: "bound_text 0 (nat_to_string n)"
  by (simp add: bound_text_def plain_simps plain_calm)

lemma page_bound:
  assumes "known \<subseteq> Collect is_ident" "page_statement known sql"
  shows "bound_text 0 sql"
  using assms(2)
proof cases
  case (page_count t)
  with ident_bound [of t] show ?thesis by (simp add: ident_ok_ident bound_literal)
next
  case (page_top t tail n)
  with ident_bound [of t] tails_bound(2) [OF assms(1)] number_bound show ?thesis
    by (simp add: ident_ok_ident bound_literal)
next
  case (page_limit t tail n k)
  with ident_bound [of t] tails_bound(2) [OF assms(1)] number_bound show ?thesis
    by (simp add: ident_ok_ident bound_literal)
next
  case (page_numbered t cols ob k n)
  then have "bound_text 0 (intercalate '', '' cols)"
    using assms(1) ident_bound by (intro bound_text_list0) (auto simp: bound_literal)
  with page_numbered ident_bound [of t] tails_bound(1) [OF assms(1)] number_bound show ?thesis
    by (simp add: ident_ok_ident bound_literal)
qed

interpretation bound: statement_filter well_bound well_bound "Collect is_ident"
proof
  fix t pragma :: string
  assume t: "word_text t" and "pragma \<in> {''PRAGMA table_info('', ''PRAGMA foreign_key_list(''}"
  then show "well_bound (pragma @ t @ '')'') []" using word_bound [OF t] by (auto intro!: safe_well_bound simp: bound_literal)
next
  fix sql
  assume "page_statement (Collect is_ident) sql"
  from page_bound [OF subset_refl this] show "well_bound sql []" by (simp add: safe_well_bound)
qed (rule catalogue_bound, assumption)+

section \<open>Row edits\<close>

text \<open>The fragments of an edit, each with one placeholder for each of its values.\<close>

lemma known_column_Inr: "known_column cols k = Inr x \<longleftrightarrow> k \<in> set cols"
  by (simp add: known_column_def)

lemma assigned_known:
  assumes "assigned lib cols vals = Inr kps" "set cols \<subseteq> Collect is_ident" "kp \<in> set kps"
  shows "bound_text 0 (fst kp)"
proof -
  from assms(1,3) obtain kv where "(\<lambda>(k, v). bind_r (known_column cols k) (\<lambda>_. bind_r (bind_value lib v) (\<lambda>p. Inr (k, p)))) kv = Inr kp"
    unfolding assigned_def by (blast dest: map_r_source)
  then have "fst kp \<in> set cols" by (auto simp: bind_r_eq_Inr known_column_Inr split: prod.splits)
  with assms(2) ident_bound show ?thesis by blast
qed

lemma condition_bound:
  assumes "condition lib cols kv = Inr (frag, ps)" "set cols \<subseteq> Collect is_ident"
  shows "bound_text (length ps) frag"
proof -
  have "bound_text 0 (fst kv)"
    using assms ident_bound by (cases kv) (auto simp: condition_def bind_r_eq_Inr known_column_Inr)
  with assms(1) show ?thesis
    by (cases kv) (auto simp: condition_def bind_r_eq_Inr bound_literal split: if_splits)
qed

lemma conditions_bound:
  assumes "map_r (condition lib cols) kvs = Inr conds" "set cols \<subseteq> Collect is_ident"
  shows "bound_text (length (concat (map snd conds))) (intercalate '' AND '' (map fst conds))"
proof -
  have "list_all2 bound_text (map (\<lambda>c. length (snd c)) conds) (map fst conds)"
  proof (simp add: list_all2_map1 list_all2_map2 list_all2_same, rule ballI)
    fix c
    assume "c \<in> set conds"
    with assms(1) obtain kv where "condition lib cols kv = Inr c" by (blast dest: map_r_source)
    then show "bound_text (length (snd c)) (fst c)" using condition_bound [OF _ assms(2)] by (cases c) auto
  qed
  from bound_text_intercalate [OF _ this] show ?thesis by (simp add: length_concat o_def bound_literal)
qed

lemma insert_row_sql_bound:
  assumes "insert_row_sql lib cols t doc = Inr (sql, ps)" "is_ident t" "set cols \<subseteq> Collect is_ident"
  shows "bound_text (length ps) sql"
proof -
  from assms(1) obtain vals kps where kps: "assigned lib cols vals = Inr kps" "ps = map snd kps"
    and sql: "sql = ''INSERT INTO '' @ t @ '' ('' @ intercalate '', '' (map fst kps) @ '') VALUES (''
      @ question_marks (length kps) @ '')''"
    by (auto simp: insert_row_sql_def bind_r_eq_Inr split: if_splits)
  have names: "bound_text 0 (intercalate '', '' (map fst kps))"
    using assigned_known [OF kps(1) assms(3)] bound_text_question(2) by (intro bound_text_list0) auto
  have "bound_text (length kps) (question_marks (length kps) @ '')'')"
    by (rule bound_text_after0 [OF bound_text_questions]) (simp add: bound_literal)
  with names ident_bound [OF assms(2)] show ?thesis unfolding sql kps(2) by (simp add: bound_literal)
qed

lemma set_clause_bound:
  assumes "set_clause lib cols doc = Inr (frag, ps)" "set cols \<subseteq> Collect is_ident"
  shows "bound_text (length ps) frag"
proof -
  from assms(1) obtain vals kps where kps: "assigned lib cols vals = Inr kps" "ps = map snd kps"
    and frag: "frag = '' SET '' @ intercalate '', '' (map (\<lambda>(k, _). k @ '' = ?'') kps)"
    by (auto simp: set_clause_def bind_r_eq_Inr split: if_splits)
  have one: "bound_text 1 (case kp of (k, _) \<Rightarrow> k @ '' = ?'')" if "kp \<in> set kps" for kp
    using assigned_known [OF kps(1) assms(2) that] by (cases kp) (simp add: bound_literal)
  have "list_all2 bound_text (map (\<lambda>_. 1) kps) (map (\<lambda>(k, _). k @ '' = ?'') kps)"
    unfolding list_all2_map1 list_all2_map2 list_all2_same by (rule ballI) (rule one)
  from bound_text_intercalate [OF bound_text_question(2) this] show ?thesis
    unfolding frag kps(2) by (simp add: sum_list_triv bound_literal)
qed

lemma where_clause_bound:
  assumes "where_clause lib cols doc = Inr (frag, ps)" "set cols \<subseteq> Collect is_ident"
  shows "bound_text (length ps) frag"
proof -
  from assms(1) obtain kvs conds where c: "map_r (condition lib cols) kvs = Inr conds"
    and eq: "frag = '' WHERE '' @ intercalate '' AND '' (map fst conds)" "ps = concat (map snd conds)"
    by (auto simp: where_clause_def bind_r_eq_Inr split: if_splits)
  show ?thesis unfolding eq using conditions_bound [OF c assms(2)] by (simp add: bound_literal)
qed

lemma edit_sql_bound:
  assumes "edit_sql lib cols t doc upd = Inr (sql, ps)" "is_ident t" "set cols \<subseteq> Collect is_ident"
  shows "bound_text (length ps) sql"
proof -
  from assms(1) obtain frag sps conds wps
    where f: "(if upd then set_clause lib cols doc else Inr ([], [])) = Inr (frag, sps)"
    and c: "where_clause lib cols doc = Inr (conds, wps)" and ps: "ps = sps @ wps"
    and sql: "sql = (if upd then ''UPDATE '' else ''DELETE FROM '') @ t @ frag @ conds"
    unfolding edit_sql_def bind_r_eq_Inr by (auto simp: bind_r_eq_Inr simp del: append.simps split: prod.splits)
  have frag: "bound_text (length sps) frag"
    using f set_clause_bound [OF _ assms(3)] by (cases upd) (auto simp: bound_literal)
  from bound_text_append [OF frag where_clause_bound [OF c assms(3)]] ident_bound [OF assms(2)] show ?thesis
    unfolding sql ps by (simp add: bound_literal)
qed

lemma mutate_sql_bound:
  assumes "mutate_sql lib cols t doc = Inr (sql, ps)" "is_ident t" "set cols \<subseteq> Collect is_ident"
  shows "well_bound sql ps"
  using assms insert_row_sql_bound edit_sql_bound
  by (auto simp: mutate_sql_def Let_def intro!: safe_well_bound split: if_splits)

lemma mutate_checked:
  assumes k: "known_columns cl (Collect is_ident)"
  shows "mutate lib (checked_client cl) st m body = mutate lib cl st m body"
  unfolding mutate_def checked_client_filter bound.live_table_same Let_def
proof (intro io_bind_run_cong)
  fix s1 u s1' s2 doc s2' s3 cols s3' s4 st4 s4'
  assume "live_table cl (text_at doc ''table'') s3 = (Inr cols, s3')"
    and run: "io_lift (mutate_sql lib cols (text_at doc ''table'') doc) s4 = (Inr st4, s4')"
  note t = live_table_known [OF k this(1)]
  obtain sql ps where st4: "st4 = (sql, ps)" by (cases st4)
  with run have "mutate_sql lib cols (text_at doc ''table'') doc = Inr (sql, ps)" by simp
  from mutate_sql_bound [OF this] t have "well_bound sql ps" by (simp add: ident_ok_ident)
  then show "(case st4 of (sql, ps) \<Rightarrow>
      io_bind (bad_request (execute_params (filter_client well_bound well_bound cl) sql ps))
        (\<lambda>n. io_return (JObj [(''affected'', json_nat n)])))
    = (case st4 of (sql, ps) \<Rightarrow>
      io_bind (bad_request (execute_params cl sql ps)) (\<lambda>n. io_return (JObj [(''affected'', json_nat n)])))"
    by (simp add: st4 filter_client_calls)
qed

text \<open>
  C22: Every statement the studio composes itself, for the metadata, a page of rows, the schema summary of
  a model call or a row edit, has as many placeholders as bound values and passes the guard, whatever the
  request says and whoever sends it, as long as the columns of the database are identifiers: with a client
  that fails on any other statement the request gets the same answer. Only the SQL runner forwards SQL.
\<close>

theorem studio_well_bound:
  assumes k: "known_columns cl (Collect is_ident)"
    and composed: "endpoint \<notin> {(''POST'', ''/api/query''), (''POST'', ''/api/exec'')}"
  shows "studio_api su (checked_client cl) endpoint q body sc = studio_api su cl endpoint q body sc"
proof -
  obtain st c where sc: "sc = (st, c)" by (cases sc)
  show ?thesis unfolding sc
  proof (rule studio_api_cong)
    fix m
    show "dispatch su (checked_client cl) st m endpoint q body = dispatch su cl st m endpoint q body"
      unfolding dispatch_def mutate_checked [OF k]
      unfolding checked_client_filter bound.studio_meta_same bound.table_rows_same [OF k] bound.ai_generate_same
      using composed by simp
  qed
qed

lemma studio_well_bound_witness:
  "studio_api (demo_su (JObj [(''op'', JText ''delete''), (''table'', JText ''users''),
       (''where'', JObj [(''id'', JNum (PosInt 7)), (''name'', JNull)])]))
     (checked_client demo_client) (''POST'', ''/api/mutate'') [''t'' \<mapsto> ''adm''] [] (demo_studio, [])
   = (Inr (JObj [(''affected'', JNum (PosInt 1))]), demo_studio,
      [(''DELETE FROM users WHERE id = ? AND name IS NULL'', [VInt 7])])"
proof -
  let ?su = "demo_su (JObj [(''op'', JText ''delete''), (''table'', JText ''users''),
       (''where'', JObj [(''id'', JNum (PosInt 7)), (''name'', JNull)])])"
  have "studio_api ?su (checked_client demo_client) (''POST'', ''/api/mutate'') [''t'' \<mapsto> ''adm''] [] (demo_studio, [])
      = studio_api ?su demo_client (''POST'', ''/api/mutate'') [''t'' \<mapsto> ''adm''] [] (demo_studio, [])"
    by (rule studio_well_bound [OF demo_columns]) simp
  also have "\<dots> = (Inr (JObj [(''affected'', JNum (PosInt 1))]), demo_studio,
      [(''DELETE FROM users WHERE id = ? AND name IS NULL'', [VInt 7])])"
    by (simp add: studio_api_def demo_studio_def mode_of_def dispatch_def mutate_def refuse_def can_write_def
        demo_su_def read_body_def text_at_def option_or_def jget_as_def jget_def obj_get_def demo_table mutate_sql_def
        edit_sql_def where_clause_def object_at_def condition_def known_column_def bind_value_def status_of_def
        demo_execute execute_params_def client_call_def text_fault_def with_status_def json_nat_def
        io_bind_def io_lift_def)
  finally show ?thesis .
qed

end
