(* ===== verification/StudioTokens.thy ===== *)
theory StudioTokens
  imports StudioProofs
begin

text \<open>The access tokens over any number of requests.\<close>

section \<open>Tokens\<close>

text \<open>The states of a server that has handled any number of requests.\<close>

inductive studio_run :: "'c db_client \<Rightarrow> studio \<times> 'c \<Rightarrow> studio \<times> 'c \<Rightarrow> bool" for cl init where
  run_start: "studio_run cl init init"
| run_request: "studio_run cl init sc \<Longrightarrow> studio_api su cl endpoint q body sc = (r, sc') \<Longrightarrow> studio_run cl init sc'"

definition tokens_inv :: "string \<Rightarrow> studio \<Rightarrow> bool" where
  "tokens_inv a st \<longleftrightarrow> (\<exists>rest. st_tokens st = (a, Admin) # rest \<and> Admin \<notin> snd ` set rest)"

lemma tokens_inv_admin: "tokens_inv a st \<Longrightarrow> mode_of st t = Some Admin \<longleftrightarrow> t = a"
proof -
  assume "tokens_inv a st"
  then obtain rest where r: "st_tokens st = (a, Admin) # rest" "Admin \<notin> snd ` set rest"
    by (auto simp: tokens_inv_def)
  have "List.find (\<lambda>(t', _). t' = t) rest \<noteq> Some (t', Admin)" for t'
  proof
    assume "List.find (\<lambda>(t', _). t' = t) rest = Some (t', Admin)"
    from find_Some_set [OF this] have "Admin \<in> snd ` set rest" by force
    with r(2) show False by contradiction
  qed
  with r(1) show "mode_of st t = Some Admin \<longleftrightarrow> t = a" by (auto simp: mode_of_def)
qed

lemma invite_tokens:
  "invite lib buf st m body = (r, st') \<Longrightarrow> m \<noteq> Admin \<and> st' = st \<or>
     m = Admin \<and> (\<exists>tok m'. m' \<noteq> Admin \<and> st' = st\<lparr>st_tokens := st_tokens st @ [(tok, m')]\<rparr>)"
  by (auto simp: invite_def Let_def split: if_splits)

lemma studio_api_tokens:
  assumes "studio_api su cl endpoint q body (st, c) = (r, st', c')"
  shows "st' = st \<or> endpoint = (''POST'', ''/api/invite'') \<and> (\<exists>t. q ''t'' = Some t \<and> mode_of st t = Some Admin)
    \<and> (\<exists>tok m'. m' \<noteq> Admin \<and> st' = st\<lparr>st_tokens := st_tokens st @ [(tok, m')]\<rparr>)"
proof (cases "Option.bind (q ''t'') (mode_of st)")
  case None
  with assms show ?thesis by (simp add: studio_api_def)
next
  case (Some m)
  then obtain t where t: "q ''t'' = Some t" "mode_of st t = Some m" by (cases "q ''t''") auto
  show ?thesis
  proof (cases "endpoint = (''POST'', ''/api/invite'')")
    case True
    with assms Some have "invite (su_lib su) (su_random su) st m body = (r, st')"
      by (simp add: studio_api_def split: prod.splits)
    from invite_tokens [OF this] t True show ?thesis by blast
  next
    case False
    with assms Some show ?thesis by (simp add: studio_api_def split: prod.splits)
  qed
qed

lemma studio_run_tokens: "studio_run cl init sc \<Longrightarrow> tokens_inv a (fst init) \<Longrightarrow> tokens_inv a (fst sc)"
proof (induction rule: studio_run.induct)
  case (run_request sc su endpoint q body r sc')
  obtain st c st' c' where "sc = (st, c)" "sc' = (st', c')" by (cases sc, cases sc')
  with run_request studio_api_tokens [of su cl endpoint q body st c r st' c'] show ?case
    by (auto simp: tokens_inv_def)
qed

text \<open>
  C23: Whatever requests a server has handled, the token it was started with is the only one with admin
  rights, and the next request changes the set of tokens only when it carries that token and asks for an
  invitation.
\<close>

theorem admin_token_unique:
  assumes "studio_run cl (studio_new buf url readonly tok ai, c0) (st, c)"
    and "studio_api su cl endpoint q body (st, c) = (r, st', c')"
  defines "a \<equiv> admin_token (studio_new buf url readonly tok ai)"
  shows "(\<forall>t. mode_of st t = Some Admin \<longleftrightarrow> t = a)
    \<and> (st' \<noteq> st \<longrightarrow> q ''t'' = Some a \<and> endpoint = (''POST'', ''/api/invite''))"
proof -
  have "tokens_inv a (studio_new buf url readonly tok ai)"
    by (simp add: a_def tokens_inv_def studio_new_def admin_token_def)
  with studio_run_tokens [OF assms(1)] have "tokens_inv a st" by simp
  then show ?thesis using studio_api_tokens [OF assms(2)] tokens_inv_admin by metis
qed

lemma admin_token_unique_witness:
  "\<exists>st' c. studio_api (demo_su (JObj [(''mode'', JText ''rw'')])) demo_client (''POST'', ''/api/invite'')
      [''t'' \<mapsto> ''adm''] [] (studio_new [] ''app.db'' False (Some ''adm'') None, []) = (Inr (JObj
        [(''token'', JText (concat (replicate 16 ''01''))), (''mode'', JText ''rw'')]), st', c)
    \<and> (\<forall>t. mode_of st' t = Some Admin \<longleftrightarrow> t = ''adm'')"
proof -
  let ?st = "studio_new [] ''app.db'' False (Some ''adm'') None"
  have token: "new_token (replicate 16 1) = concat (replicate 16 ''01'')" by code_simp
  obtain r st' c where req: "studio_api (demo_su (JObj [(''mode'', JText ''rw'')])) demo_client
      (''POST'', ''/api/invite'') [''t'' \<mapsto> ''adm''] [] (?st, []) = (r, st', c)"
    by (metis prod_cases3)
  have "studio_run demo_client (?st, []) (st', c)" by (rule run_request [OF run_start req])
  note run = this
  obtain r2 st2 c2 where "studio_api (demo_su JNull) demo_client (''GET'', ''/api/meta'') Map.empty [] (st', c) = (r2, st2, c2)"
    by (metis prod_cases3)
  from admin_token_unique [OF run this] have "\<forall>t. mode_of st' t = Some Admin \<longleftrightarrow> t = ''adm''"
    by (simp add: admin_token_def studio_new_def option_or_def)
  moreover have "r = Inr (JObj [(''token'', JText (concat (replicate 16 ''01''))), (''mode'', JText ''rw'')])"
    using arg_cong [where f = fst, OF req] token by (simp add: studio_api_def mode_of_def studio_new_def option_or_def
        invite_def demo_su_def Let_def jget_as_def jget_def obj_get_def)
  ultimately show ?thesis using req by blast
qed

end
