(* ===== verification/Requests.thy ===== *)
theory Requests
  imports Studio
begin

text \<open>
  Request URLs: what a browser writes into a query string is what the studio reads. The writer below
  escapes every byte of a value but letters, digits and underscores.
\<close>

section \<open>Writing a query string\<close>

definition word_char :: "char \<Rightarrow> bool" where
  "word_char c \<longleftrightarrow> is_ascii_alphanumeric c \<or> c = CHR ''_''"

definition percent_char :: "char \<Rightarrow> string" where
  "percent_char c =
     (if word_char c then [c] else [CHR ''%'', hex_digit (code c div 16), hex_digit (code c mod 16)])"

definition percent_encode :: "string \<Rightarrow> string" where
  "percent_encode s = concat (map percent_char s)"

definition query_text :: "(string \<times> string) list \<Rightarrow> string" where
  "query_text kvs = intercalate ''&'' (map (\<lambda>(k, v). k @ ''='' @ percent_encode v) kvs)"

section \<open>Values\<close>

lemma hex_value_digit: "n < 16 \<Longrightarrow> hex_value (hex_digit n) = Some n"
  by (cases "n < 10") (simp_all add: hex_value_def hex_digit_def is_ascii_digit_def)

lemma word_char_plain: "word_char c \<Longrightarrow> c \<notin> {CHR ''%'', CHR ''+'', CHR ''&'', CHR ''=''}"
  by (auto simp: word_char_def is_ascii_alphanumeric_def is_ascii_alphabetic_def is_ascii_digit_def)

lemma percent_bytes_char: "percent_bytes (percent_char c @ s) = c # percent_bytes s"
proof (cases "word_char c")
  case True
  with word_char_plain [OF True] show ?thesis by (simp add: percent_char_def)
next
  case False
  have "code c div 16 < 16" using code_less [of c] by (intro less_mult_imp_div_less) simp
  then have "hex_value (hex_digit (code c div 16)) = Some (code c div 16)"
    "hex_value (hex_digit (code c mod 16)) = Some (code c mod 16)" by (simp_all add: hex_value_digit)
  then have "percent_bytes (percent_char c @ s) = char_of (code c div 16 * 16 + code c mod 16) # percent_bytes s"
    by (simp add: percent_char_def False)
  then show ?thesis by (simp only: div_mult_mod_eq char_of_char)
qed

lemma percent_bytes_encode: "percent_bytes (percent_encode s) = s"
  by (induction s) (simp_all add: percent_encode_def percent_bytes_char)

lemma percent_decode_encode: "utf8_string s \<Longrightarrow> percent_decode (percent_encode s) = s"
  by (simp add: percent_decode_def percent_bytes_encode utf8_lossy_valid utf8_string_def)

lemma hex_digit_word: "n < 16 \<Longrightarrow> word_char (hex_digit n)"
  by (cases "n < 10")
    (simp_all add: word_char_def hex_digit_def is_ascii_alphanumeric_def is_ascii_alphabetic_def is_ascii_digit_def)

lemma percent_encode_chars: "c \<in> set (percent_encode s) \<Longrightarrow> word_char c \<or> c = CHR ''%''"
proof -
  assume "c \<in> set (percent_encode s)"
  then obtain d where d: "c \<in> set (percent_char d)" by (auto simp: percent_encode_def)
  have "code d div 16 < 16" using code_less [of d] by (intro less_mult_imp_div_less) simp
  with d hex_digit_word show ?thesis by (auto simp: percent_char_def split: if_splits)
qed

section \<open>Pairs\<close>

lemma upt_at: "i < n \<Longrightarrow> [0..<n] = [0..<i] @ i # [Suc i..<n]"
  using upt_add_eq_append [of 0 i "n - i"] by (simp add: upt_conv_Cons)

lemma find_at: "\<forall>j \<in> set xs. \<not> P j \<Longrightarrow> P i \<Longrightarrow> List.find P (xs @ i # ys) = Some i"
  by (induction xs) auto

lemma find_upt:
  assumes "i < n" "P i" "\<And>j. j < i \<Longrightarrow> \<not> P j"
  shows "List.find P [0..<n] = Some i"
  unfolding upt_at [OF assms(1)] using assms(2,3) by (intro find_at) auto

lemma split_once_char: "c \<notin> set k \<Longrightarrow> split_once [c] (k @ c # v) = Some (k, v)"
proof -
  assume c: "c \<notin> set k"
  have "str_find [c] (k @ c # v) = Some (length k)"
    unfolding str_find_def
  proof (rule find_upt)
    fix j
    assume j: "j < length k"
    then have "slice_at j (length [c]) (k @ c # v) = [k ! j]"
      by (simp add: slice_at_def take_Suc_conv_app_nth Cons_nth_drop_Suc [symmetric])
    moreover have "k ! j \<noteq> c" using c j by (metis nth_mem)
    ultimately show "slice_at j (length [c]) (k @ c # v) \<noteq> [c]" by simp
  qed (simp_all add: slice_at_def)
  then show ?thesis by (simp add: split_once_def)
qed

lemma split_char_Cons: "c \<notin> set p \<Longrightarrow> split_char c (p @ c # s) = p # split_char c s"
  by (induction p) auto

lemma split_char_intercalate:
  "ps \<noteq> [] \<Longrightarrow> (\<And>p. p \<in> set ps \<Longrightarrow> c \<notin> set p) \<Longrightarrow> split_char c (intercalate [c] ps) = ps"
proof (induction "[c]" ps rule: intercalate.induct)
  case (3 p q ps)
  then show ?case by (simp add: split_char_Cons)
qed (simp_all add: split_char_absent)

definition key_word :: "string \<Rightarrow> bool" where
  "key_word k \<longleftrightarrow> k \<noteq> [] \<and> list_all word_char k"

lemma key_word_plain: "key_word k \<Longrightarrow> CHR ''='' \<notin> set k \<and> CHR ''&'' \<notin> set k"
  using word_char_plain by (fastforce simp: key_word_def list_all_iff)

lemma encoded_plain: "CHR ''&'' \<notin> set (percent_encode v)"
  using percent_encode_chars [of "CHR ''&''" v] word_char_plain by auto

lemma parse_pair_text:
  "key_word k \<Longrightarrow> utf8_string v \<Longrightarrow> parse_pair (k @ ''='' @ percent_encode v) q = q(k \<mapsto> v)"
  using key_word_plain [of k] by (simp add: parse_pair_def split_once_char percent_decode_encode option_or_def)

lemma fold_pairs:
  assumes "\<And>k v. (k, v) \<in> set kvs \<Longrightarrow> key_word k \<and> utf8_string v" "distinct (map fst kvs)"
  shows "fold parse_pair (map (\<lambda>(k, v). k @ ''='' @ percent_encode v) kvs) q = q ++ map_of kvs"
  using assms
proof (induction kvs arbitrary: q)
  case (Cons kv kvs)
  obtain k v where kv: "kv = (k, v)" by (cases kv)
  with Cons.prems have "key_word k" "utf8_string v" "k \<notin> dom (map_of kvs)" by (auto simp: dom_map_of_conv_image_fst)
  have "fold parse_pair (map (\<lambda>(k, v). k @ ''='' @ percent_encode v) kvs) (q(k \<mapsto> v)) = q(k \<mapsto> v) ++ map_of kvs"
    by (rule Cons.IH) (use Cons.prems in auto)
  also have "\<dots> = q ++ (map_of kvs)(k \<mapsto> v)"
    using \<open>k \<notin> dom (map_of kvs)\<close> by (auto simp: map_add_def fun_eq_iff split: option.split)
  finally show ?case using \<open>key_word k\<close> \<open>utf8_string v\<close> kv
    by (simp add: parse_pair_text [simplified] del: fun_upd_apply)
qed simp

text \<open>
  C26: A query string is read back as it was written: the values of distinct keys, escaped byte by byte,
  arrive unchanged, whatever UTF-8 text they are, and no other key is present.
\<close>

theorem query_string_roundtrip:
  assumes "distinct (map fst kvs)" "\<And>k v. (k, v) \<in> set kvs \<Longrightarrow> key_word k \<and> utf8_string v"
  shows "parse_query (query_text kvs) = map_of kvs"
proof (cases "kvs = []")
  case True
  then show ?thesis by (simp add: parse_query_def query_text_def)
next
  case False
  let ?ps = "map (\<lambda>(k, v). k @ ''='' @ percent_encode v) kvs"
  have "CHR ''&'' \<notin> set p" if "p \<in> set ?ps" for p
    using that assms(2) key_word_plain encoded_plain by fastforce
  then have "split_char (CHR ''&'') (query_text kvs) = ?ps"
    unfolding query_text_def using False by (intro split_char_intercalate) auto
  moreover have "filter (\<lambda>s. s \<noteq> []) ?ps = ?ps" by (rule filter_True) auto
  ultimately show ?thesis
    unfolding parse_query_def using fold_pairs [OF assms(2,1), of "\<lambda>_. None"] by simp
qed

lemma query_string_roundtrip_witness:
  "parse_query ''table=users&q=a%20%26%3d%2b'' ''q'' = Some ''a &=+''"
proof -
  have "parse_query (query_text [(''table'', ''users''), (''q'', ''a &=+'')]) = map_of [(''table'', ''users''), (''q'', ''a &=+'')]"
  proof (rule query_string_roundtrip)
    fix k v
    assume "(k, v) \<in> set [(''table'', ''users''), (''q'', ''a &=+'')]"
    moreover have "key_word ''table''" "key_word ''q''" "utf8_string ''users''" "utf8_string ''a &=+''" by code_simp+
    ultimately show "key_word k \<and> utf8_string v" by auto
  qed simp
  moreover have "query_text [(''table'', ''users''), (''q'', ''a &=+'')] = ''table=users&q=a%20%26%3d%2b''" by code_simp
  ultimately show ?thesis by simp
qed

section \<open>The label of a connection\<close>

text \<open>User name and password of a server URL are hidden; a token in its query string is shown.\<close>

lemma rfind_last: "c \<notin> set b \<Longrightarrow> rfind_char c (a @ c # b) = Some (length a)"
proof -
  assume c: "c \<notin> set b"
  let ?n = "length (a @ c # b)"
  have up: "rev [0..<?n] = rev [Suc (length a)..<?n] @ length a # rev [0..<length a]"
    by (subst upt_at [of "length a"]) auto
  have "\<forall>j \<in> set (rev [Suc (length a)..<?n]). (a @ c # b) ! j \<noteq> c"
  proof
    fix j
    assume "j \<in> set (rev [Suc (length a)..<?n])"
    then have j: "Suc (length a) \<le> j" "j < ?n" by (simp_all only: set_rev set_upt atLeastLessThan_iff)
    then have "(a @ c # b) ! j = b ! (j - Suc (length a))" by (simp add: nth_append)
    moreover have "b ! (j - Suc (length a)) \<in> set b" using j by (intro nth_mem) simp
    ultimately show "(a @ c # b) ! j \<noteq> c" using c by auto
  qed
  then show ?thesis unfolding rfind_char_def up by (rule find_at) simp
qed

lemma redact_at:
  assumes "str_find ''://'' (a @ CHR ''@'' # b) = Some n" "n < length a" "CHR ''@'' \<notin> set b"
  shows "redact (a @ CHR ''@'' # b) = take n a @ ''://***@'' @ b"
  using assms(1,2) rfind_last [OF assms(3), of a] by (simp add: redact_def)

text \<open>
  The login of a server URL, up to the last at sign, is hidden.
\<close>

lemma redact_hides_login:
  assumes "str_find ''://'' (scheme @ ''://'' @ login @ ''@'' @ host) = Some (length scheme)" "CHR ''@'' \<notin> set host"
  shows "redact (scheme @ ''://'' @ login @ ''@'' @ host) = scheme @ ''://***@'' @ host"
  using redact_at [of "scheme @ ''://'' @ login" host "length scheme"] assms by simp

lemma redact_keeps_query: "CHR ''@'' \<notin> set url \<Longrightarrow> redact url = url"
proof -
  assume "CHR ''@'' \<notin> set url"
  then have "url ! i \<noteq> CHR ''@''" if "i < length url" for i using nth_mem that by metis
  then have "rfind_char (CHR ''@'') url = None" by (auto simp: rfind_char_def find_None_iff)
  then show ?thesis by (simp add: redact_def split: option.split)
qed

lemma redact_keeps_auth_token:
  "redact ''postgres://me:secret@db/app'' = ''postgres://***@db/app''"
  "redact ''libsql://db.turso.io?authToken=secret'' = ''libsql://db.turso.io?authToken=secret''"
proof -
  show "redact ''postgres://me:secret@db/app'' = ''postgres://***@db/app''"
    using redact_hides_login [of "''postgres''" "''me:secret''" "''db/app''"] by (simp add: str_find_def slice_at_def upt_rec)
qed (simp add: redact_keeps_query)

end
