(* ===== verification/Rows.thy ===== *)
theory Rows
  imports Batch
begin

text \<open>
  What the server backends share (\<open>my.rs\<close>, \<open>ls.rs\<close>, \<open>pg.rs\<close>, \<open>ms.rs\<close>): the loop of \<open>rows_to_batch\<close>, which fills one
  builder per column from the rows of the driver, left to right and top to bottom. A backend contributes
  the type of a column and the push a cell stands for; the locale \<open>row_decoder\<close> is what these must keep for
  the batch to read back the rows.
\<close>

section \<open>The loop\<close>

definition fill_column :: "data_type \<Rightarrow> ('r \<Rightarrow> push result) \<Rightarrow> 'r list \<Rightarrow> column_builder result" where
  "fill_column dt cell rs = fold_r (\<lambda>r b. bind_r (cell r) (\<lambda>p. apply_push p b)) rs (builder_new dt)"

definition row_column ::
  "('c \<Rightarrow> string) \<Rightarrow> (nat \<Rightarrow> 'c \<Rightarrow> data_type result) \<Rightarrow> (nat \<Rightarrow> 'c \<Rightarrow> data_type \<Rightarrow> 'r \<Rightarrow> push result) \<Rightarrow>
   'r list \<Rightarrow> nat \<times> 'c \<Rightarrow> column result" where
  "row_column nm ty cell rs =
     (\<lambda>(ci, c). bind_r (ty ci c) (\<lambda>dt. bind_r (fill_column dt (cell ci c dt) rs) (\<lambda>b. Ok (finish (nm c) b))))"

definition rows_batch ::
  "('c \<Rightarrow> string) \<Rightarrow> (nat \<Rightarrow> 'c \<Rightarrow> data_type result) \<Rightarrow> (nat \<Rightarrow> 'c \<Rightarrow> data_type \<Rightarrow> 'r \<Rightarrow> push result) \<Rightarrow>
   'c list \<Rightarrow> 'r list \<Rightarrow> record_batch result" where
  "rows_batch nm ty cell cs rs = bind_r (map_r (row_column nm ty cell rs) (List.enumerate 0 cs)) try_new"

text \<open>The text of \<open>{dt:?}\<close>.\<close>

fun dtype_debug :: "data_type \<Rightarrow> string" where
  "dtype_debug Int64 = ''Int64''"
| "dtype_debug Float64 = ''Float64''"
| "dtype_debug Boolean = ''Bool''"
| "dtype_debug Utf8 = ''Utf8''"

text \<open>\<open>push_opt_i64\<close>, \<open>push_opt_f64\<close> and the arms written like them.\<close>

definition opt_push :: "('a \<Rightarrow> push) \<Rightarrow> 'a option \<Rightarrow> push" where
  "opt_push mk v = (case v of Some x \<Rightarrow> mk x | None \<Rightarrow> PushNull)"

section \<open>Lemmas\<close>

lemma fill_column_build:
  "fill_column dt cell rs = Ok b \<longleftrightarrow> (\<exists>ps. map_r cell rs = Ok ps \<and> build dt ps = Ok b)"
proof -
  have "fold_r (\<lambda>r b. bind_r (cell r) (\<lambda>p. apply_push p b)) rs s = Ok b
    \<longleftrightarrow> (\<exists>ps. map_r cell rs = Ok ps \<and> fold_r apply_push ps s = Ok b)" for s
    by (induction rs arbitrary: s) (auto simp: bind_r_eq_Inr)
  then show ?thesis by (simp add: fill_column_def build_def)
qed

definition pushes_of :: "('r \<Rightarrow> push result) \<Rightarrow> 'r list \<Rightarrow> push list" where
  "pushes_of cell rs = map (\<lambda>r. case cell r of Inr p \<Rightarrow> p | Inl _ \<Rightarrow> PushNull) rs"

lemma map_r_pushes:
  "map_r cell rs = Ok ps \<longleftrightarrow> (\<forall>r \<in> set rs. is_ok (cell r)) \<and> ps = pushes_of cell rs"
proof (induction rs arbitrary: ps)
  case (Cons r rs)
  then show ?case by (cases "cell r") (auto simp: pushes_of_def bind_r_eq_Inr)
qed (auto simp: pushes_of_def)

lemma pushes_of_nth: "i < length rs \<Longrightarrow> cell (rs ! i) = Ok p \<Longrightarrow> pushes_of cell rs ! i = p"
  by (simp add: pushes_of_def)

lemma pushes_of_length [simp]: "length (pushes_of cell rs) = length rs"
  by (simp add: pushes_of_def)

text \<open>The columns of equal length that a fold over the same rows gives always make a batch.\<close>

lemma try_new_equal:
  assumes "\<And>c. c \<in> set cs \<Longrightarrow> col_len c = n" and "cs \<noteq> []"
  shows "try_new cs = Ok \<lparr>batch_schema = schema_new (map col_field cs), num_rows = n, columns = cs\<rparr>"
proof -
  have hd: "(case cs of [] \<Rightarrow> 0 | c # _ \<Rightarrow> col_len c) = n" using assms by (cases cs) auto
  have "List.find (\<lambda>c. col_len c \<noteq> n) cs = None" using assms(1) by (auto simp: find_None_iff)
  then show ?thesis by (simp add: try_new_def hd)
qed

lemma builder_column_wf:
  assumes "builder_inv ps b" and "utf8_string nm"
  shows "column_wf (finish nm b)"
  using assms by (cases b) (auto simp: column_wf_def data_matches_def field_new_def dest: repr_segs_length)

lemma builder_finish_field [simp]:
  "field_name (col_field (finish nm b)) = nm" "data_type (col_field (finish nm b)) = builder_type b"
  by (cases b; simp add: field_new_def)+

text \<open>What a column must be to hold the pushes \<open>ps\<close>.\<close>

definition column_holds :: "column \<Rightarrow> string \<Rightarrow> data_type \<Rightarrow> push list \<Rightarrow> bool" where
  "column_holds col nm dt ps \<longleftrightarrow>
     field_name (col_field col) = nm \<and> data_type (col_field col) = dt \<and> col_len col = length ps
     \<and> map (read_cell col) [0..<length ps] = map (\<lambda>p. Ok (pushed_cell dt p)) ps"

lemma finish_holds:
  assumes "build dt ps = Ok b" and "length (concat (map text_bytes ps)) < 2 ^ 32"
    and "\<And>s. PushText s \<in> set ps \<Longrightarrow> utf8_string s"
  shows "column_holds (finish nm b) nm dt ps"
proof -
  have inv: "builder_inv ps b" "builder_type b = dt" "\<forall>p \<in> set ps. push_fits dt p"
    using build_inv [OF assms(1)] by simp_all
  have "read_cell (finish nm b) i = Ok (pushed_cell dt (ps ! i))" if "i < length ps" for i
  proof (rule finish_read [OF inv(1,2) that _ assms(2)])
    have "ps ! i \<in> set ps" using that by simp
    then show "push_fits dt (ps ! i)" using inv(3) by blast
    show "utf8_string s" if "ps ! i = PushText s" for s
      by (rule assms(3)) (metis \<open>ps ! i \<in> set ps\<close> that)
  qed
  then show ?thesis
    using inv(2) finish_len [OF inv(1)] by (auto simp: column_holds_def intro!: nth_equalityI)
qed

section \<open>Decoders\<close>

locale row_decoder =
  fixes name_of :: "'c \<Rightarrow> string"
    and type_of :: "'r list \<Rightarrow> nat \<Rightarrow> 'c \<Rightarrow> data_type result"
    and cell_of :: "nat \<Rightarrow> 'c \<Rightarrow> data_type \<Rightarrow> 'r \<Rightarrow> push result"
    and row_ok :: "'r \<Rightarrow> bool"
  assumes cell_fits: "type_of rs ci c = Ok dt \<Longrightarrow> cell_of ci c dt r = Ok p \<Longrightarrow> push_fits dt p"
    and cell_text: "row_ok r \<Longrightarrow> cell_of ci c dt r = Ok (PushText s) \<Longrightarrow> utf8_string s"
begin

definition batch_of :: "'c list \<Rightarrow> 'r list \<Rightarrow> record_batch result" where
  "batch_of cs rs = rows_batch name_of (type_of rs) cell_of cs rs"

lemma column_ok:
  "row_column name_of (type_of rs) cell_of rs (ci, c) = Ok col \<longleftrightarrow>
   (\<exists>dt b. type_of rs ci c = Ok dt \<and> (\<forall>r \<in> set rs. is_ok (cell_of ci c dt r))
      \<and> build dt (pushes_of (cell_of ci c dt) rs) = Ok b \<and> col = finish (name_of c) b)"
  by (auto simp: row_column_def bind_r_eq_Inr fill_column_build map_r_pushes)

text \<open>A column is refused only for its type or a cell, never by the builder.\<close>

lemma column_total:
  assumes "type_of rs ci c = Ok dt" and "\<forall>r \<in> set rs. is_ok (cell_of ci c dt r)"
  shows "is_ok (row_column name_of (type_of rs) cell_of rs (ci, c))"
proof -
  have "\<forall>p \<in> set (pushes_of (cell_of ci c dt) rs). push_fits dt p"
    using assms(2) cell_fits [OF assms(1)] by (auto simp: pushes_of_def is_ok_iff split: sum.splits)
  then obtain b where "build dt (pushes_of (cell_of ci c dt) rs) = Ok b"
    using build_ok_iff by blast
  then show ?thesis using assms column_ok by (fastforce simp: is_ok_iff)
qed

lemma column_reads:
  assumes col: "row_column name_of (type_of rs) cell_of rs (ci, c) = Ok col" and ok: "\<forall>r \<in> set rs. row_ok r"
    and nm: "utf8_string (name_of c)"
    and short: "\<And>dt. length (concat (map text_bytes (pushes_of (cell_of ci c dt) rs))) < 2 ^ 32"
  shows "column_wf col \<and> (\<exists>dt. type_of rs ci c = Ok dt
    \<and> column_holds col (name_of c) dt (pushes_of (cell_of ci c dt) rs))"
proof -
  from col obtain dt b where dt: "type_of rs ci c = Ok dt" "\<forall>r \<in> set rs. is_ok (cell_of ci c dt r)"
    and b: "build dt (pushes_of (cell_of ci c dt) rs) = Ok b" "col = finish (name_of c) b"
    by (auto simp: column_ok)
  have "utf8_string s" if "PushText s \<in> set (pushes_of (cell_of ci c dt) rs)" for s
    using that dt(2) ok cell_text
    by (force simp: pushes_of_def is_ok_iff split: sum.splits)
  then have "column_holds col (name_of c) dt (pushes_of (cell_of ci c dt) rs)"
    unfolding b(2) by (rule finish_holds [OF b(1) short])
  with dt(1) b build_inv [OF b(1)] builder_column_wf nm show ?thesis by blast
qed

theorem batch_reads:
  assumes b: "batch_of cs rs = Ok b" and ok: "\<forall>r \<in> set rs. row_ok r" and nms: "\<forall>c \<in> set cs. utf8_string (name_of c)"
    and short: "\<And>ci dt. ci < length cs \<Longrightarrow>
      length (concat (map text_bytes (pushes_of (cell_of ci (cs ! ci) dt) rs))) < 2 ^ 32"
    and cs: "cs \<noteq> []"
  shows "batch_wf b \<and> num_rows b = length rs \<and> length (columns b) = length cs \<and>
    (\<forall>ci < length cs. \<exists>dt. type_of rs ci (cs ! ci) = Ok dt
       \<and> column_holds (columns b ! ci) (name_of (cs ! ci)) dt (pushes_of (cell_of ci (cs ! ci) dt) rs))"
proof -
  from b obtain ds where ds: "map_r (row_column name_of (type_of rs) cell_of rs) (List.enumerate 0 cs) = Ok ds"
    and new: "try_new ds = Ok b" by (auto simp: batch_of_def rows_batch_def bind_r_eq_Inr)
  have len: "length ds = length cs" using map_r_length [OF ds] by simp
  have each: "row_column name_of (type_of rs) cell_of rs (ci, cs ! ci) = Ok (ds ! ci)" if "ci < length cs" for ci
    using ds that len by (auto simp: map_r_eq_Inr list_all2_conv_all_nth nth_enumerate_eq)
  have col: "column_wf (ds ! ci) \<and> (\<exists>dt. type_of rs ci (cs ! ci) = Ok dt
      \<and> column_holds (ds ! ci) (name_of (cs ! ci)) dt (pushes_of (cell_of ci (cs ! ci) dt) rs))"
    if "ci < length cs" for ci
    by (rule column_reads [OF each [OF that] ok]) (use nms that short in auto)
  have lens: "col_len d = length rs" if "d \<in> set ds" for d
    using that col len by (auto simp: in_set_conv_nth column_holds_def)
  have b: "b = \<lparr>batch_schema = schema_new (map col_field ds), num_rows = length rs, columns = ds\<rparr>"
    using try_new_equal [OF lens] new cs len by force
  have "batch_wf b"
    using col len lens cs by (auto simp: b batch_wf_def in_set_conv_nth)
  then show ?thesis using col len by (auto simp: b)
qed

text \<open>A set of rows is refused exactly when a column has no type or a cell has no value of it.\<close>

theorem batch_total:
  assumes "cs \<noteq> []"
  shows "is_ok (batch_of cs rs) \<longleftrightarrow>
    (\<forall>ci < length cs. \<exists>dt. type_of rs ci (cs ! ci) = Ok dt \<and> (\<forall>r \<in> set rs. is_ok (cell_of ci (cs ! ci) dt r)))"
proof
  assume "is_ok (batch_of cs rs)"
  then obtain ds where ds: "map_r (row_column name_of (type_of rs) cell_of rs) (List.enumerate 0 cs) = Ok ds"
    by (auto simp: batch_of_def rows_batch_def is_ok_iff bind_r_eq_Inr)
  show "\<forall>ci < length cs. \<exists>dt. type_of rs ci (cs ! ci) = Ok dt \<and> (\<forall>r \<in> set rs. is_ok (cell_of ci (cs ! ci) dt r))"
  proof (intro allI impI)
    fix ci assume "ci < length cs"
    with ds have "row_column name_of (type_of rs) cell_of rs (ci, cs ! ci) = Ok (ds ! ci)"
      by (auto simp: map_r_eq_Inr list_all2_conv_all_nth nth_enumerate_eq)
    then show "\<exists>dt. type_of rs ci (cs ! ci) = Ok dt \<and> (\<forall>r \<in> set rs. is_ok (cell_of ci (cs ! ci) dt r))"
      by (auto simp: column_ok)
  qed
next
  assume all: "\<forall>ci < length cs. \<exists>dt. type_of rs ci (cs ! ci) = Ok dt \<and> (\<forall>r \<in> set rs. is_ok (cell_of ci (cs ! ci) dt r))"
  let ?f = "row_column name_of (type_of rs) cell_of rs"
  have "is_ok (?f x)" if "x \<in> set (List.enumerate 0 cs)" for x
    using that all column_total by (fastforce simp: in_set_enumerate_eq)
  then obtain g where "\<And>x. x \<in> set (List.enumerate 0 cs) \<Longrightarrow> ?f x = Ok (g x)"
    unfolding is_ok_iff by metis
  then have ds: "map_r ?f (List.enumerate 0 cs) = Ok (map g (List.enumerate 0 cs))"
    and g: "\<And>ci. ci < length cs \<Longrightarrow> ?f (ci, cs ! ci) = Ok (g (ci, cs ! ci))"
    by (auto intro!: map_r_all_ok simp: in_set_enumerate_eq)
  have "col_len (g (ci, cs ! ci)) = length rs" if "ci < length cs" for ci
    using g [OF that] by (auto simp: column_ok dest!: build_inv finish_len)
  then have "col_len d = length rs" if "d \<in> set (map g (List.enumerate 0 cs))" for d
    using that by (auto simp: in_set_enumerate_eq)
  then show "is_ok (batch_of cs rs)"
    using try_new_equal [of "map g (List.enumerate 0 cs)" "length rs"] assms
    unfolding batch_of_def rows_batch_def ds by (cases cs) (simp_all add: is_ok_iff)
qed

end

end
