(* ===== verification/NumConv.thy ===== *)
theory NumConv
  imports RustStd
begin

text \<open>
  Number conversions of the Rust standard library that the server backends use: rounding a quotient to a
  binary float, casts between the float widths, casts to narrow integers, and reading numbers from text.
\<close>

type_synonym f32 = "32 word"

section \<open>Rounding\<close>

text \<open>
  The bits of \<open>num / den\<close>, rounded to nearest with ties to even, in the format with \<open>p\<close> fraction bits whose
  smallest step is \<open>2 ^ (- low)\<close>; \<open>top_bits\<close> is the pattern of infinity. \<open>k\<close> is the exponent of the quotient
  and \<open>2 ^ q\<close> the step around it.
\<close>

definition round_bits :: "nat \<Rightarrow> nat \<Rightarrow> nat \<Rightarrow> nat \<Rightarrow> nat \<Rightarrow> nat" where
  "round_bits p low top_bits num den =
     (if num = 0 then 0
      else let k0 = int (bit_len num) - int (bit_len den);
               k = (if den * 2 ^ nat k0 \<le> num * 2 ^ nat (- k0) then k0 else k0 - 1);
               q = max (k - int p) (- int low);
               n = num * 2 ^ nat (- q); d = den * 2 ^ nat q;
               h = n div d; r = n mod d;
               m = (if d < 2 * r \<or> 2 * r = d \<and> odd h then h + 1 else h)
           in min top_bits (nat (q + int low) * 2 ^ p + m))"

definition round_f64 :: "bool \<Rightarrow> nat \<Rightarrow> nat \<Rightarrow> f64" where
  "round_f64 neg num den =
     word_of_nat ((if neg then 2 ^ 63 else 0) + round_bits 52 1074 (2047 * 2 ^ 52) num den)"

definition round_f32 :: "bool \<Rightarrow> nat \<Rightarrow> nat \<Rightarrow> f32" where
  "round_f32 neg num den = word_of_nat ((if neg then 2 ^ 31 else 0) + round_bits 23 149 (255 * 2 ^ 23) num den)"

section \<open>Casts\<close>

text \<open>\<open>f as f64\<close>, exact for numbers; a NaN keeps its sign and payload and is quiet.\<close>

definition f32_as_f64 :: "f32 \<Rightarrow> f64" where
  "f32_as_f64 w =
     (let u = unat w; neg = (2 ^ 31 \<le> u); e = u div 2 ^ 23 mod 256; m = u mod 2 ^ 23
      in if e = 255
         then word_of_nat ((if neg then 2 ^ 63 else 0) + 2047 * 2 ^ 52
                + (if m = 0 then 0 else (if m < 2 ^ 22 then m + 2 ^ 22 else m) * 2 ^ 29))
         else if e = 0 then round_f64 neg m (2 ^ 149)
         else round_f64 neg ((2 ^ 23 + m) * 2 ^ e) (2 ^ 150))"

definition f64_as_f32 :: "f64 \<Rightarrow> f32" where
  "f64_as_f32 w =
     (if f64_exp w = 2047
      then word_of_nat ((if f64_sign w then 2 ^ 31 else 0) + 255 * 2 ^ 23
             + (if f64_frac w = 0 then 0 else 2 ^ 22 + f64_frac w div 2 ^ 29 mod 2 ^ 22))
      else round_f32 (f64_sign w) (f64_mant w * 2 ^ nat (f64_scale w)) (2 ^ nat (- f64_scale w)))"

definition i64_as_f32 :: "i64 \<Rightarrow> f32" where
  "i64_as_f32 i = round_f32 (sint i < 0) (nat \<bar>sint i\<bar>) 1"

text \<open>\<open>f as iN\<close> truncates and saturates, NaN to 0.\<close>

definition f64_as_int :: "nat \<Rightarrow> f64 \<Rightarrow> int" where
  "f64_as_int n w =
     (let lo = - (2 ^ (n - 1)); hi = 2 ^ (n - 1) - 1
      in if f64_is_nan w then 0
         else if f64_is_inf w then (if f64_sign w then lo else hi)
         else max lo (min hi (if f64_sign w then - int (f64_trunc_abs w) else int (f64_trunc_abs w))))"

section \<open>Numbers in text\<close>

definition digits_nat :: "string \<Rightarrow> nat" where
  "digits_nat s = foldl (\<lambda>n c. n * 10 + (code c - 48)) 0 s"

definition split_sign :: "string \<Rightarrow> bool \<times> string" where
  "split_sign s =
     (case s of c # t \<Rightarrow> if c = CHR ''-'' then (True, t) else if c = CHR ''+'' then (False, t) else (False, s)
      | [] \<Rightarrow> (False, []))"

text \<open>\<open>s.parse::<i64>()\<close> and \<open>s.parse::<u16>()\<close>.\<close>

definition parse_i64 :: "string \<Rightarrow> i64 option" where
  "parse_i64 s =
     (case split_sign s of (neg, ds) \<Rightarrow>
        let n = (if neg then - int (digits_nat ds) else int (digits_nat ds))
        in if ds \<noteq> [] \<and> list_all is_ascii_digit ds \<and> - (2 ^ 63) \<le> n \<and> n < 2 ^ 63 then Some (word_of_int n)
           else None)"

definition parse_u16 :: "string \<Rightarrow> nat option" where
  "parse_u16 s =
     (let ds = (case s of c # t \<Rightarrow> if c = CHR ''+'' then t else s | [] \<Rightarrow> s)
      in if ds \<noteq> [] \<and> list_all is_ascii_digit ds \<and> digits_nat ds < 2 ^ 16 then Some (digits_nat ds) else None)"

text \<open>
  \<open>s.parse::<f64>()\<close>: an optional sign, then \<open>inf\<close>, \<open>infinity\<close> or \<open>nan\<close> in any case, or digits with at most one
  point and an optional exponent, correctly rounded.
\<close>

definition take_digits :: "string \<Rightarrow> string \<times> string" where
  "take_digits s = (takeWhile is_ascii_digit s, dropWhile is_ascii_digit s)"

definition parse_exponent :: "string \<Rightarrow> int option" where
  "parse_exponent s =
     (case s of
        [] \<Rightarrow> Some 0
      | c # t \<Rightarrow>
          if c \<noteq> CHR ''e'' \<and> c \<noteq> CHR ''E'' then None
          else (case split_sign t of (neg, ds) \<Rightarrow>
            if ds \<noteq> [] \<and> list_all is_ascii_digit ds
            then Some (if neg then - int (digits_nat ds) else int (digits_nat ds)) else None))"

definition parse_decimal :: "bool \<Rightarrow> string \<Rightarrow> f64 option" where
  "parse_decimal neg s =
     (case take_digits s of (whole, rest) \<Rightarrow>
      case (case rest of c # t \<Rightarrow> if c = CHR ''.'' then take_digits t else ([], rest) | [] \<Rightarrow> ([], [])) of (frac, rest) \<Rightarrow>
        if whole = [] \<and> frac = [] then None
        else (case parse_exponent rest of
           None \<Rightarrow> None
         | Some e \<Rightarrow>
             let x = e - int (length frac); n = digits_nat (whole @ frac)
             in Some (round_f64 neg (n * 10 ^ nat x) (10 ^ nat (- x)))))"

definition parse_f64 :: "string \<Rightarrow> f64 option" where
  "parse_f64 s =
     (case split_sign s of (neg, t) \<Rightarrow>
        let sign = (if neg then 2 ^ 63 else 0); low = map to_ascii_lower t
        in if low = ''inf'' \<or> low = ''infinity'' then Some (word_of_nat (sign + 2047 * 2 ^ 52))
           else if low = ''nan'' then Some (word_of_nat (sign + 2047 * 2 ^ 52 + 2 ^ 51))
           else parse_decimal neg t)"

section \<open>Lemmas\<close>

lemma foldl_digits: "foldl (\<lambda>n c. n * 10 + (code c - 48)) a s = a * 10 ^ length s + digits_nat s"
proof (induction s arbitrary: a)
  case (Cons c s)
  show ?case
    using Cons [of "a * 10 + (code c - 48)"] Cons [of "code c - 48"]
    by (simp add: digits_nat_def algebra_simps)
qed (simp add: digits_nat_def)

lemma digits_nat_snoc: "digits_nat (s @ [c]) = digits_nat s * 10 + (code c - 48)"
  by (simp add: digits_nat_def)

lemma digits_nat_to_string: "digits_nat (nat_to_string n) = n"
proof (induction n rule: nat_to_string.induct)
  case (1 n)
  show ?case
  proof (cases "n < 10")
    case True
    then show ?thesis by (subst nat_to_string.simps) (simp add: digits_nat_def)
  next
    case False
    have "n mod 10 < 10" by simp
    then have "code (char_of (48 + n mod 10)) = 48 + n mod 10" by simp
    with 1 False show ?thesis by (subst nat_to_string.simps) (simp add: digits_nat_snoc)
  qed
qed

end
