(* ===== verification/MySql.thy ===== *)
theory MySql
  imports Rows NumConv Client StrOps
begin

text \<open>
  The MySQL backend (\<open>my.rs\<close>): the statements it rewrites, the values it binds, and the rows it turns into a
  batch. The driver crate is the record \<open>my_driver\<close> of its calls on the connection, whose errors are their
  texts; a parameterless query goes over the text protocol, where every value is its decimal text. The
  mutex around the connection is never poisoned: nothing panics while it is held.
\<close>

unbundle bit_operations_syntax

section \<open>What the driver speaks\<close>

text \<open>The column types the code names; any other with the name its \<open>Debug\<close> prints.\<close>

datatype my_type =
    MYSQL_TYPE_TINY | MYSQL_TYPE_SHORT | MYSQL_TYPE_LONG | MYSQL_TYPE_INT24 | MYSQL_TYPE_LONGLONG
  | MYSQL_TYPE_YEAR | MYSQL_TYPE_BIT | MYSQL_TYPE_FLOAT | MYSQL_TYPE_DOUBLE | MYSQL_TYPE_VARCHAR
  | MYSQL_TYPE_VAR_STRING | MYSQL_TYPE_STRING | MYSQL_TYPE_BLOB | MYSQL_TYPE_TINY_BLOB
  | MYSQL_TYPE_MEDIUM_BLOB | MYSQL_TYPE_LONG_BLOB | MYSQL_TYPE_JSON | MYSQL_TYPE_ENUM | MYSQL_TYPE_SET
  | MYSQL_TYPE_other string

datatype my_value =
    MyNULL | MyInt i64 | MyUInt u64 | MyFloat f32 | MyDouble f64 | MyBytes bytes | MyTemporal string

record my_column =
  mc_name :: string
  mc_type :: my_type

record my_row =
  mr_columns :: "my_column list"
  mr_cells :: "my_value list"

record 's my_driver =
  md_query_drop :: "'s \<Rightarrow> string \<Rightarrow> string option \<times> 's"
  md_exec_drop :: "'s \<Rightarrow> string \<Rightarrow> my_value list \<Rightarrow> string option \<times> 's"
  md_affected_rows :: "'s \<Rightarrow> nat"
  md_query :: "'s \<Rightarrow> string \<Rightarrow> (string + my_row list) \<times> 's"
  md_exec :: "'s \<Rightarrow> string \<Rightarrow> my_value list \<Rightarrow> (string + my_row list) \<times> 's"
  md_debug :: "my_value \<Rightarrow> string"

section \<open>Connecting\<close>

text \<open>\<open>multi\<close> adds the capability for several statements in one text.\<close>

definition my_connect :: "(string \<Rightarrow> string + 'o) \<Rightarrow> ('o \<Rightarrow> 'o) \<Rightarrow> ('o \<Rightarrow> string + 's) \<Rightarrow> string \<Rightarrow> 's result" where
  "my_connect from_url multi conn_new url =
     (case from_url url of
        Inl e \<Rightarrow> Err (InvalidUrl (''mysql url: '' @ e))
      | Inr opts \<Rightarrow>
          (case conn_new (multi opts) of Inl e \<Rightarrow> Err (Database (''mysql connect: '' @ e)) | Inr c \<Rightarrow> Ok c))"

section \<open>Statements\<close>

text \<open>The slice \<open>trimmed[..8]\<close> panics when it ends inside a character.\<close>

definition my_rewrite :: "string \<Rightarrow> string option result" where
  "my_rewrite sql =
     (let t = trim sql in
      if eq_ignore_ascii_case t ''BEGIN IMMEDIATE'' then Ok (Some ''BEGIN'')
      else if 8 < length t then
        (if \<not> is_char_boundary t 8 then Panicked
         else if eq_ignore_ascii_case (take 8 t) ''RELEASE ''
           \<and> \<not> (case get_prefix 9 (trim_start (drop 8 t)) of
                 Some w \<Rightarrow> eq_ignore_ascii_case w ''SAVEPOINT'' | None \<Rightarrow> False)
         then Ok (Some (''RELEASE SAVEPOINT '' @ trim_start (drop 8 t)))
         else Ok None)
      else Ok None)"

fun my_bind_value :: "param_value \<Rightarrow> my_value" where
  "my_bind_value VNull = MyNULL"
| "my_bind_value (VInt i) = MyInt i"
| "my_bind_value (VFloat f) = MyDouble f"
| "my_bind_value (VText s) = MyBytes (as_bytes s)"
| "my_bind_value (VBool b) = MyInt (if b then 1 else 0)"

definition my_bind :: "param_value list \<Rightarrow> my_value list" where
  "my_bind params = map my_bind_value params"

definition my_execute :: "'s my_driver \<Rightarrow> 's \<Rightarrow> string \<Rightarrow> param_value list \<Rightarrow> nat result \<times> 's" where
  "my_execute drv s sql params =
     (case my_rewrite sql of
        Inl e \<Rightarrow> (Inl e, s)
      | Inr rewritten \<Rightarrow>
          (let sql = option_or rewritten sql in
           case (if params = [] then md_query_drop drv s sql else md_exec_drop drv s sql (my_bind params)) of
             (Some e, s) \<Rightarrow> (Err (Database e), s)
           | (None, s) \<Rightarrow> (Ok (md_affected_rows drv s), s)))"

section \<open>Rows\<close>

definition my_pcb_type :: "my_type \<Rightarrow> string \<Rightarrow> data_type result" where
  "my_pcb_type ty nm =
     (case ty of
        MYSQL_TYPE_TINY \<Rightarrow> Ok Int64 | MYSQL_TYPE_SHORT \<Rightarrow> Ok Int64 | MYSQL_TYPE_LONG \<Rightarrow> Ok Int64
      | MYSQL_TYPE_INT24 \<Rightarrow> Ok Int64 | MYSQL_TYPE_LONGLONG \<Rightarrow> Ok Int64 | MYSQL_TYPE_YEAR \<Rightarrow> Ok Int64
      | MYSQL_TYPE_BIT \<Rightarrow> Ok Int64
      | MYSQL_TYPE_FLOAT \<Rightarrow> Ok Float64 | MYSQL_TYPE_DOUBLE \<Rightarrow> Ok Float64
      | MYSQL_TYPE_other d \<Rightarrow>
          Err (Unsupported (''mysql column `'' @ nm @ ''` has type '' @ d
                 @ ''; cast it in SQL (e.g. CAST(col AS CHAR))''))
      | _ \<Rightarrow> Ok Utf8)"

definition in_column :: "string \<Rightarrow> string \<Rightarrow> string" where
  "in_column nm msg = ''column `'' @ nm @ ''`: '' @ msg"

text \<open>A \<open>BIT\<close> value arrives as big-endian bytes.\<close>

definition bit_field :: "bytes \<Rightarrow> i64" where
  "bit_field bs = foldl (\<lambda>acc b. push_bit 8 acc OR ucast b) 0 bs"

definition my_int_text :: "string \<Rightarrow> bytes \<Rightarrow> i64 result" where
  "my_int_text nm bs =
     bind_r (ok_or (from_utf8 bs) (Database (in_column nm ''non-UTF-8 integer payload''))) (\<lambda>s.
       ok_or (parse_i64 (trim s)) (Database (in_column nm (''cannot parse `'' @ s @ ''` as integer''))))"

definition my_float_text :: "string \<Rightarrow> bytes \<Rightarrow> f64 result" where
  "my_float_text nm bs =
     bind_r (ok_or (from_utf8 bs) (Database (in_column nm ''non-UTF-8 float payload''))) (\<lambda>s.
       ok_or (parse_f64 (trim s)) (Database (in_column nm (''cannot parse `'' @ s @ ''` as float''))))"

definition my_value_push ::
  "(my_value \<Rightarrow> string) \<Rightarrow> string \<Rightarrow> bool \<Rightarrow> data_type \<Rightarrow> my_value \<Rightarrow> push result" where
  "my_value_push debug nm is_bit dt val =
     (case (dt, val) of
        (_, MyNULL) \<Rightarrow> Ok PushNull
      | (Int64, MyInt i) \<Rightarrow> Ok (PushInt i)
      | (Int64, MyUInt u) \<Rightarrow> Ok (PushInt u)
      | (Int64, MyBytes bs) \<Rightarrow>
          if is_bit then Ok (PushInt (bit_field bs)) else bind_r (my_int_text nm bs) (\<lambda>v. Ok (PushInt v))
      | (Float64, MyFloat f) \<Rightarrow> Ok (PushFloat (f32_as_f64 f))
      | (Float64, MyDouble f) \<Rightarrow> Ok (PushFloat f)
      | (Float64, MyInt i) \<Rightarrow> Ok (PushFloat (i64_as_f64 i))
      | (Float64, MyBytes bs) \<Rightarrow> bind_r (my_float_text nm bs) (\<lambda>v. Ok (PushFloat v))
      | (Utf8, MyBytes bs) \<Rightarrow>
          bind_r (ok_or (from_utf8 bs)
            (Unsupported (in_column nm ''non-UTF-8 binary payload (BLOB) has no PCB mapping'')))
            (\<lambda>s. Ok (PushText s))
      | (_, other) \<Rightarrow>
          Err (Database (in_column nm (''unexpected value '' @ debug other @ '' for '' @ dtype_debug dt))))"

definition my_cell ::
  "(my_value \<Rightarrow> string) \<Rightarrow> nat \<Rightarrow> my_column \<Rightarrow> data_type \<Rightarrow> my_row \<Rightarrow> push result" where
  "my_cell debug ci c dt r =
     bind_r (ok_or (list_get (mr_cells r) ci) (Database (in_column (mc_name c) ''missing cell'')))
       (my_value_push debug (mc_name c) (mc_type c = MYSQL_TYPE_BIT) dt)"

definition my_rows_to_batch :: "(my_value \<Rightarrow> string) \<Rightarrow> my_row list \<Rightarrow> record_batch result" where
  "my_rows_to_batch debug rs =
     (case rs of
        [] \<Rightarrow> try_new []
      | r # _ \<Rightarrow>
          rows_batch mc_name (\<lambda>_ c. my_pcb_type (mc_type c) (mc_name c)) (my_cell debug) (mr_columns r) rs)"

definition my_query :: "'s my_driver \<Rightarrow> 's \<Rightarrow> string \<Rightarrow> param_value list \<Rightarrow> record_batch result \<times> 's" where
  "my_query drv s sql params =
     (case (if params = [] then md_query drv s sql else md_exec drv s sql (my_bind params)) of
        (Inl e, s) \<Rightarrow> (Err (Database e), s)
      | (Inr rs, s) \<Rightarrow> (my_rows_to_batch (md_debug drv) rs, s))"

definition my_server :: "'s my_driver \<Rightarrow> 's server" where
  "my_server drv = \<lparr>srv_flavor = MySql, srv_execute = my_execute drv, srv_query = my_query drv\<rparr>"

section \<open>The rows read back\<close>

lemma my_value_push_fits:
  "my_value_push debug nm is_bit dt v = Ok p \<Longrightarrow> push_fits dt p"
  by (cases dt; cases v) (auto simp: my_value_push_def bind_r_eq_Inr split: if_splits)

lemma my_value_push_text:
  "my_value_push debug nm is_bit dt v = Ok (PushText s) \<Longrightarrow> utf8_string s"
  by (cases dt; cases v)
    (auto simp: my_value_push_def bind_r_eq_Inr ok_or_eq_Ok split: if_splits intro: from_utf8_utf8)

interpretation my: row_decoder mc_name "\<lambda>rs ci c. my_pcb_type (mc_type c) (mc_name c)" "my_cell debug" "\<lambda>_. True"
  by unfold_locales (auto simp: my_cell_def bind_r_eq_Inr intro: my_value_push_fits my_value_push_text)

end
