(* ===== verification/MyProofs.thy ===== *)
theory MyProofs
  imports MySql ClientProofs
begin

text \<open>
  The MySQL backend: a value reads the same over the text protocol (a query without parameters) and the
  binary one (with parameters), for the kinds of values where that holds. What the values of the two
  protocols stand for is stated from the protocol, apart from the code, and a client that decodes its
  answer reads exactly those values.
\<close>

section \<open>Decimal texts\<close>

definition graphic :: "char \<Rightarrow> bool" where
  "graphic c \<longleftrightarrow> 32 < code c \<and> code c < 127"

lemma ws_front_ascii:
  assumes "list_all (\<lambda>n. 32 < n \<and> n < 127) ns"
  shows "ws_front ns = 0"
proof (cases ns)
  case (Cons a s1)
  with assms have a: "\<not> (9 \<le> a \<and> a \<le> 13 \<or> a = 32)" "a \<noteq> 194" "a \<noteq> 225" "a \<noteq> 226" "a \<noteq> 227" by simp_all
  show ?thesis unfolding Cons ws_front_def list.case if_not_P [OF a(1)]
    using a(2-) by (simp split: list.split)
qed (simp add: ws_front_def)

lemma trim_graphic: "list_all graphic s \<Longrightarrow> trim s = s"
proof (rule trim_id)
  assume g: "list_all graphic s"
  have zero: "ws_front (map code (drop k s)) = 0" for k
    using g by (intro ws_front_ascii) (auto simp: list_all_iff graphic_def dest: in_set_dropD)
  from zero [of 0] show "ws_front (map code s) = 0" by simp
  show "ws_back s = 0" by (simp add: ws_back_def zero)
qed

lemma digit_graphic: "is_ascii_digit c \<Longrightarrow> graphic c"
  by (simp add: is_ascii_digit_def graphic_def)

lemma decimal_text:
  "list_all is_ascii_digit (nat_to_string n)" "nat_to_string n \<noteq> []"
  using decimal_digits by (auto simp: list_all_iff) (subst (asm) nat_to_string.simps, simp split: if_splits)

lemma split_sign_decimal: "split_sign (nat_to_string n) = (False, nat_to_string n)"
  using decimal_text [of n]
  by (cases "nat_to_string n") (auto simp: split_sign_def is_ascii_digit_def)

lemma parse_i64_nat: "n < 2 ^ 63 \<Longrightarrow> parse_i64 (nat_to_string n) = Some (word_of_nat n)"
  using decimal_text by (simp add: parse_i64_def split_sign_decimal digits_nat_to_string Let_def)

lemma parse_i64_string: "parse_i64 (i64_to_string i) = Some i"
proof (cases "sint i < 0")
  case True
  have "- (2 ^ 63) \<le> sint i" using sint_ge [of i] by simp
  with True decimal_text show ?thesis
    by (simp add: i64_to_string_def int_to_string_def parse_i64_def split_sign_def digits_nat_to_string Let_def)
next
  case False
  have "sint i < 2 ^ 63" using sint_lt [of i] by simp
  with False parse_i64_nat [of "nat (sint i)"] show ?thesis
    by (simp add: i64_to_string_def int_to_string_def nat_less_iff)
qed

lemma i64_string_graphic: "list_all graphic (i64_to_string i)"
  using decimal_text digit_graphic
  by (auto simp: i64_to_string_def int_to_string_def list_all_iff graphic_def)

lemma my_int_text_signed: "my_int_text nm (as_bytes (i64_to_string i)) = Ok i"
  using ascii_utf8 [OF i64_string_ascii]
  by (simp add: my_int_text_def from_utf8_as_bytes trim_graphic i64_string_graphic parse_i64_string)

lemma my_int_text_unsigned:
  "my_int_text nm (as_bytes (nat_to_string n)) =
   (if n < 2 ^ 63 then Ok (word_of_nat n)
    else Err (Database (in_column nm (''cannot parse `'' @ nat_to_string n @ ''` as integer''))))"
proof -
  have "list_all graphic (nat_to_string n)"
    using decimal_text digit_graphic by (auto simp: list_all_iff)
  moreover have "parse_i64 (nat_to_string n) = None" if "\<not> n < 2 ^ 63"
    using that by (simp add: parse_i64_def split_sign_decimal digits_nat_to_string Let_def)
  ultimately show ?thesis
    by (auto simp: my_int_text_def from_utf8_as_bytes trim_graphic parse_i64_nat)
qed

section \<open>The two protocols\<close>

text \<open>The text protocol sends an integer as its decimal text and everything else here as it is.\<close>

fun text_form :: "my_value \<Rightarrow> my_value" where
  "text_form (MyInt i) = MyBytes (as_bytes (i64_to_string i))"
| "text_form (MyUInt u) = MyBytes (as_bytes (nat_to_string (unat u)))"
| "text_form v = v"

definition text_row :: "my_row \<Rightarrow> my_row" where
  "text_row r = r\<lparr>mr_cells := map text_form (mr_cells r)\<rparr>"

text \<open>What the binary protocol sends for a column: integers, bit fields and texts. Floats are left out.\<close>

fun plain_value :: "my_column \<Rightarrow> my_value \<Rightarrow> bool" where
  "plain_value c MyNULL \<longleftrightarrow> True"
| "plain_value c (MyInt _) \<longleftrightarrow> my_pcb_type (mc_type c) (mc_name c) = Ok Int64 \<and> mc_type c \<noteq> MYSQL_TYPE_BIT"
| "plain_value c (MyUInt u) \<longleftrightarrow>
     my_pcb_type (mc_type c) (mc_name c) = Ok Int64 \<and> mc_type c \<noteq> MYSQL_TYPE_BIT \<and> unat u < 2 ^ 63"
| "plain_value c (MyBytes _) \<longleftrightarrow> True"
| "plain_value c _ \<longleftrightarrow> False"

lemma text_form_push:
  assumes "my_pcb_type (mc_type c) (mc_name c) = Ok dt" and "plain_value c v"
  shows "my_value_push debug (mc_name c) (mc_type c = MYSQL_TYPE_BIT) dt (text_form v)
    = my_value_push debug (mc_name c) (mc_type c = MYSQL_TYPE_BIT) dt v"
  using assms by (cases v) (auto simp: my_value_push_def my_int_text_signed my_int_text_unsigned)

lemma text_row_cell:
  assumes "my_pcb_type (mc_type c) (mc_name c) = Ok dt"
    and "ci < length (mr_cells r) \<Longrightarrow> plain_value c (mr_cells r ! ci)"
  shows "my_cell debug ci c dt (text_row r) = my_cell debug ci c dt r"
  using assms text_form_push [OF assms(1)]
  by (simp add: my_cell_def text_row_def list_get_def)

lemma rows_batch_map:
  assumes "\<And>ci dt r. ci < length cs \<Longrightarrow> ty ci (cs ! ci) = Ok dt \<Longrightarrow> r \<in> set rs \<Longrightarrow>
    cell ci (cs ! ci) dt (f r) = cell ci (cs ! ci) dt r"
  shows "rows_batch nm ty cell cs (map f rs) = rows_batch nm ty cell cs rs"
proof -
  have fill: "fill_column dt g (map f rs') = fill_column dt g rs'" if "\<And>r. r \<in> set rs' \<Longrightarrow> g (f r) = g r" for dt g rs'
  proof -
    have "fold_r (\<lambda>r b. bind_r (g r) (\<lambda>p. apply_push p b)) (map f rs') s
        = fold_r (\<lambda>r b. bind_r (g r) (\<lambda>p. apply_push p b)) rs' s" for s
      using that by (induction rs' arbitrary: s) (auto intro: bind_r_cong)
    then show ?thesis by (simp add: fill_column_def)
  qed
  have "map_r (row_column nm ty cell (map f rs)) (List.enumerate 0 cs)
      = map_r (row_column nm ty cell rs) (List.enumerate 0 cs)"
  proof (rule map_r_cong [OF refl])
    fix x assume "x \<in> set (List.enumerate 0 cs)"
    then have x: "x = (fst x, cs ! fst x)" "fst x < length cs" by (auto simp: in_set_enumerate_eq)
    show "row_column nm ty cell (map f rs) x = row_column nm ty cell rs x"
      by (subst (1 2) x(1), unfold row_column_def prod.case, rule bind_r_cong [OF refl])
        (use fill assms [OF x(2)] in simp)
  qed
  then show ?thesis by (simp add: rows_batch_def)
qed

text \<open>
  C10: A query without parameters is answered over the text protocol and one with parameters over the
  binary one; for rows of integers, bit fields, texts and nulls the batch is the same, except for unsigned
  integers of \<open>2 ^ 63\<close> and more.
\<close>

theorem my_protocols_agree:
  assumes "\<And>r ci. r \<in> set rs \<Longrightarrow> ci < length (mr_columns (hd rs)) \<Longrightarrow> ci < length (mr_cells r) \<Longrightarrow>
    plain_value (mr_columns (hd rs) ! ci) (mr_cells r ! ci)"
  shows "my_rows_to_batch debug (map text_row rs) = my_rows_to_batch debug rs"
proof (cases rs)
  case (Cons r rs')
  have "mr_columns (text_row r) = mr_columns r" by (simp add: text_row_def)
  moreover have "rows_batch mc_name (\<lambda>_ c. my_pcb_type (mc_type c) (mc_name c)) (my_cell debug) (mr_columns r)
      (map text_row rs)
    = rows_batch mc_name (\<lambda>_ c. my_pcb_type (mc_type c) (mc_name c)) (my_cell debug) (mr_columns r) rs"
    by (rule rows_batch_map, rule text_row_cell) (use assms Cons in auto)
  ultimately show ?thesis using Cons by (simp add: my_rows_to_batch_def)
qed (simp add: my_rows_to_batch_def)

definition demo_columns :: "my_column list" where
  "demo_columns = [\<lparr>mc_name = ''id'', mc_type = MYSQL_TYPE_LONGLONG\<rparr>, \<lparr>mc_name = ''t'', mc_type = MYSQL_TYPE_BLOB\<rparr>]"

definition demo_rows :: "my_row list" where
  "demo_rows =
     [\<lparr>mr_columns = demo_columns, mr_cells = [MyInt 7, MyBytes [104, 105]]\<rparr>,
      \<lparr>mr_columns = demo_columns, mr_cells = [MyUInt 5, MyNULL]\<rparr>]"

lemma my_protocols_agree_witness:
  "my_rows_to_batch (\<lambda>_. []) (map text_row demo_rows) = my_rows_to_batch (\<lambda>_. []) demo_rows
   \<and> text_row (hd demo_rows) \<noteq> hd demo_rows"
proof
  show "my_rows_to_batch (\<lambda>_. []) (map text_row demo_rows) = my_rows_to_batch (\<lambda>_. []) demo_rows"
    by (rule my_protocols_agree)
      (auto simp: demo_rows_def demo_columns_def my_pcb_type_def less_Suc_eq)
  show "text_row (hd demo_rows) \<noteq> hd demo_rows" by (simp add: text_row_def demo_rows_def)
qed

text \<open>Outside it: a \<open>BIGINT UNSIGNED\<close> past the signed range.\<close>

lemma unsigned_wraps_or_fails:
  assumes "2 ^ 63 \<le> unat u"
  shows "my_value_push debug nm False Int64 (MyUInt u) = Ok (PushInt u) \<and> sint u < 0
    \<and> \<not> is_ok (my_value_push debug nm False Int64 (text_form (MyUInt u)))"
proof -
  have u: "2 ^ 63 \<le> uint u" "uint u < 2 ^ 64"
    using assms [folded of_nat_le_iff [where 'a = int]] uint_lt2p [of u] by simp_all
  have "u = word_of_int (uint u - 2 ^ 64)" by simp
  then have "sint u = sint (word_of_int (uint u - 2 ^ 64) :: u64)" by (rule arg_cong)
  also have "\<dots> = uint u - 2 ^ 64"
    using u by (subst sint_sbintrunc') (simp add: signed_take_bit_int_eq_self)
  finally have "sint u < 0" using u by simp
  with assms show ?thesis by (simp add: my_value_push_def my_int_text_unsigned)
qed


section \<open>What a client answers\<close>

text \<open>The bytes the server sent for a column.\<close>

fun payload :: "my_value option \<Rightarrow> bytes" where
  "payload (Some (MyBytes bs)) = bs"
| "payload _ = []"

definition column_bytes :: "nat \<Rightarrow> my_row list \<Rightarrow> nat" where
  "column_bytes ci rs = (\<Sum>r \<leftarrow> rs. length (payload (list_get (mr_cells r) ci)))"

lemma my_push_payload:
  "my_value_push debug nm is_bit dt v = Ok p \<Longrightarrow> length (text_bytes p) \<le> length (payload (Some v))"
  by (cases dt; cases v) (auto simp: my_value_push_def bind_r_eq_Inr ok_or_eq_Ok from_utf8_def split: if_splits)

lemma pushes_payload:
  "length (concat (map text_bytes (pushes_of (my_cell debug ci c dt) rs))) \<le> column_bytes ci rs"
proof (induction rs)
  case (Cons r rs)
  have "length (text_bytes (case my_cell debug ci c dt r of Inr p \<Rightarrow> p | Inl _ \<Rightarrow> PushNull))
      \<le> length (payload (list_get (mr_cells r) ci))"
    by (auto simp: my_cell_def bind_r_eq_Inr ok_or_eq_Ok split: sum.split dest: my_push_payload)
  with Cons show ?case by (simp add: pushes_of_def column_bytes_def)
qed (simp add: pushes_of_def)

section \<open>What the values of the protocol stand for\<close>

text \<open>
  An integer is a number, in binary or as its decimal text; a BIT field is the number its bytes write
  in base 256, the most significant first; a float is itself; a text is its UTF-8 bytes. Floats in
  the decimal text of the text protocol are left out.
\<close>

datatype meaning = MeansNull | MeansInt int | MeansFloat f64 | MeansText string

fun decimal_number :: "string \<Rightarrow> int" where
  "decimal_number [] = 0"
| "decimal_number (d # ds) = (int (code d) - 48) * 10 ^ length ds + decimal_number ds"

fun base_256 :: "bytes \<Rightarrow> int" where
  "base_256 [] = 0"
| "base_256 (b # bs) = uint b * 256 ^ length bs + base_256 bs"

definition my_integer :: "my_type \<Rightarrow> bool" where
  "my_integer ty \<longleftrightarrow> ty \<in> {MYSQL_TYPE_TINY, MYSQL_TYPE_SHORT, MYSQL_TYPE_INT24, MYSQL_TYPE_LONG,
     MYSQL_TYPE_LONGLONG, MYSQL_TYPE_YEAR}"

definition my_text :: "my_type \<Rightarrow> bool" where
  "my_text ty \<longleftrightarrow> ty \<in> {MYSQL_TYPE_VARCHAR, MYSQL_TYPE_VAR_STRING, MYSQL_TYPE_STRING, MYSQL_TYPE_BLOB,
     MYSQL_TYPE_TINY_BLOB, MYSQL_TYPE_MEDIUM_BLOB, MYSQL_TYPE_LONG_BLOB, MYSQL_TYPE_JSON, MYSQL_TYPE_ENUM,
     MYSQL_TYPE_SET}"

inductive sent_value :: "my_type \<Rightarrow> my_value \<Rightarrow> meaning \<Rightarrow> bool" where
  absent: "sent_value ty MyNULL MeansNull"
| signed: "my_integer ty \<Longrightarrow> sent_value ty (MyInt i) (MeansInt (sint i))"
| unsigned: "my_integer ty \<Longrightarrow> sent_value ty (MyUInt u) (MeansInt (uint u))"
| decimal: "my_integer ty \<Longrightarrow> ds \<noteq> [] \<Longrightarrow> list_all is_ascii_digit ds \<Longrightarrow>
    sent_value ty (MyBytes (as_bytes ds)) (MeansInt (decimal_number ds))"
| negative: "my_integer ty \<Longrightarrow> ds \<noteq> [] \<Longrightarrow> list_all is_ascii_digit ds \<Longrightarrow>
    sent_value ty (MyBytes (as_bytes (CHR ''-'' # ds))) (MeansInt (- decimal_number ds))"
| bits: "sent_value MYSQL_TYPE_BIT (MyBytes bs) (MeansInt (base_256 bs))"
| single: "sent_value MYSQL_TYPE_FLOAT (MyFloat f) (MeansFloat (f32_as_f64 f))"
| double: "sent_value MYSQL_TYPE_DOUBLE (MyDouble f) (MeansFloat f)"
| utf8: "my_text ty \<Longrightarrow> utf8_string t \<Longrightarrow> sent_value ty (MyBytes (as_bytes t)) (MeansText t)"

text \<open>What fits a 64-bit column, and what a decoded cell says.\<close>

fun in_column_range :: "meaning \<Rightarrow> bool" where
  "in_column_range (MeansInt z) \<longleftrightarrow> - (2 ^ 63) \<le> z \<and> z < 2 ^ 63"
| "in_column_range _ \<longleftrightarrow> True"

fun cell_says :: "cell option \<Rightarrow> meaning \<Rightarrow> bool" where
  "cell_says None m \<longleftrightarrow> m = MeansNull"
| "cell_says (Some (CInt i)) m \<longleftrightarrow> m = MeansInt (sint i)"
| "cell_says (Some (CFloat f)) m \<longleftrightarrow> m = MeansFloat f"
| "cell_says (Some (CText t)) m \<longleftrightarrow> m = MeansText t"
| "cell_says (Some (CBool _)) m \<longleftrightarrow> False"

lemma sint_in_range: "- (2 ^ 63) \<le> z \<Longrightarrow> z < 2 ^ 63 \<Longrightarrow> sint (word_of_int z :: i64) = z"
  by (subst sint_sbintrunc') (simp add: signed_take_bit_int_eq_self)

lemma digits_value: "list_all is_ascii_digit ds \<Longrightarrow> int (digits_nat ds) = decimal_number ds"
proof (induction ds)
  case (Cons d ds)
  have "digits_nat (d # ds) = (code d - 48) * 10 ^ length ds + digits_nat ds"
    using foldl_digits [of "code d - 48" ds] by (simp add: digits_nat_def)
  moreover have "int (code d - 48) = int (code d) - 48" using Cons.prems by (simp add: is_ascii_digit_def)
  ultimately show ?case using Cons by simp
qed (simp add: digits_nat_def)

lemma bit_field_value: "bit_field bs = word_of_int (base_256 bs)"
proof -
  have step: "push_bit 8 a OR ucast b = a * 256 + (ucast b :: i64)" for a :: i64 and b :: "8 word"
  proof -
    have "push_bit 8 a AND ucast b = 0"
      by (rule bit_word_eqI) (auto simp: bit_simps dest: bit_imp_le_length)
    then have "push_bit 8 a OR ucast b = push_bit 8 a + ucast b" by (simp add: disjunctive_add_eq_or)
    then show ?thesis by (simp add: push_bit_eq_mult)
  qed
  have "foldl (\<lambda>acc b. push_bit 8 acc OR ucast b) a bs = a * 256 ^ length bs + word_of_int (base_256 bs)" for a :: i64
  proof (induction bs arbitrary: a)
    case (Cons b bs)
    have "(word_of_int (base_256 (b # bs)) :: i64) = ucast b * 256 ^ length bs + word_of_int (base_256 bs)"
      by simp
    then have "a * 256 ^ length (b # bs) + word_of_int (base_256 (b # bs))
        = (a * 256 + ucast b) * 256 ^ length bs + word_of_int (base_256 bs)"
      by (simp only: list.size power_Suc add_0_right add_Suc_right distrib_right mult.assoc add.assoc)
    then show ?case by (simp only: foldl.simps Cons) (simp only: step)
  qed simp
  from this [of 0] show ?thesis by (simp add: bit_field_def)
qed

lemma sint_unsigned:
  assumes "uint u < 2 ^ 63"
  shows "sint (u :: u64) = uint u"
proof -
  have "sint (word_of_int (uint u) :: u64) = uint u" using assms uint_ge_0 [of u] by (intro sint_in_range) linarith+
  then show ?thesis by simp
qed

lemma decimal_graphic: "list_all is_ascii_digit ds \<Longrightarrow> list_all graphic ds"
  using digit_graphic by (auto simp: list_all_iff)

lemma digits_ascii: "list_all graphic ds \<Longrightarrow> utf8_string ds"
  by (rule utf8_string_all_ascii) (auto simp: list_all_iff graphic_def)

lemma decimal_number_nonneg: "list_all is_ascii_digit ds \<Longrightarrow> 0 \<le> decimal_number ds"
  by (induction ds) (simp_all add: is_ascii_digit_def)

lemma my_int_text_decimal:
  assumes "ds \<noteq> []" "list_all is_ascii_digit ds" "decimal_number ds < 2 ^ 63"
  shows "my_int_text nm (as_bytes ds) = Ok (word_of_int (decimal_number ds))"
proof -
  have "split_sign ds = (False, ds)" using assms(1,2) by (cases ds) (auto simp: split_sign_def is_ascii_digit_def)
  with assms decimal_graphic [OF assms(2)] decimal_number_nonneg [OF assms(2)] show ?thesis
    by (simp add: my_int_text_def from_utf8_as_bytes digits_ascii trim_graphic parse_i64_def digits_value [OF assms(2), symmetric])
qed

lemma my_int_text_negative:
  assumes "ds \<noteq> []" "list_all is_ascii_digit ds" "- (2 ^ 63) \<le> - decimal_number ds"
  shows "my_int_text nm (as_bytes (CHR ''-'' # ds)) = Ok (word_of_int (- decimal_number ds))"
proof -
  have g: "list_all graphic (CHR ''-'' # ds)" using decimal_graphic [OF assms(2)] by (simp add: graphic_def)
  have "- decimal_number ds < 2 ^ 63" using decimal_number_nonneg [OF assms(2)] by simp
  moreover have "split_sign (CHR ''-'' # ds) = (True, ds)" by (simp add: split_sign_def)
  ultimately have "parse_i64 (CHR ''-'' # ds) = Some (word_of_int (- decimal_number ds))"
    using assms by (simp add: parse_i64_def digits_value [OF assms(2), symmetric])
  then show ?thesis
    unfolding my_int_text_def from_utf8_as_bytes [OF digits_ascii [OF g]] ok_or_simps bind_r_simps trim_graphic [OF g]
    by simp
qed

lemma my_column_types:
  "my_integer ty \<Longrightarrow> my_pcb_type ty nm = Ok Int64 \<and> ty \<noteq> MYSQL_TYPE_BIT"
  "my_text ty \<Longrightarrow> my_pcb_type ty nm = Ok Utf8"
  by (auto simp: my_integer_def my_text_def my_pcb_type_def)

lemma sent_push:
  assumes "sent_value ty v m" "in_column_range m" "my_pcb_type ty nm = Ok dt"
  shows "\<exists>p. my_value_push debug nm (ty = MYSQL_TYPE_BIT) dt v = Ok p \<and> cell_says (pushed_cell dt p) m"
  using assms
proof (cases rule: sent_value.cases)
  case absent
  then show ?thesis by (cases dt) (simp_all add: my_value_push_def)
next
  case (signed i)
  with assms(3) my_column_types(1) [OF signed(3), of nm] show ?thesis by (simp add: my_value_push_def)
next
  case (unsigned u)
  with assms my_column_types(1) [OF unsigned(3), of nm] show ?thesis by (simp add: my_value_push_def sint_unsigned)
next
  case (decimal ds)
  with assms my_column_types(1) [OF decimal(3), of nm] show ?thesis
    by (simp add: my_value_push_def my_int_text_decimal sint_in_range)
next
  case (negative ds)
  with assms my_column_types(1) [OF negative(3), of nm] sint_in_range [of "- decimal_number ds"] show ?thesis
    by (simp add: my_value_push_def my_int_text_negative)
next
  case (bits bs)
  with assms show ?thesis by (simp add: my_value_push_def my_pcb_type_def bit_field_value sint_in_range)
next
  case (utf8 t)
  with assms my_column_types(2) [OF utf8(3), of nm] show ?thesis
    by (simp add: my_value_push_def from_utf8_as_bytes utf8_string_def)
qed (simp_all add: my_value_push_def my_pcb_type_def)

lemma column_says:
  assumes holds: "column_holds col nm dt (pushes_of (my_cell debug ci c dt) rs)"
    and r: "ri < length rs" "list_get (mr_cells (rs ! ri)) ci = Some v"
    and m: "sent_value (mc_type c) v m" "in_column_range m" "my_pcb_type (mc_type c) (mc_name c) = Ok dt"
  shows "\<exists>x. read_cell col ri = Ok x \<and> cell_says x m"
proof -
  from sent_push [OF m, of debug] obtain p where
    p: "my_value_push debug (mc_name c) (mc_type c = MYSQL_TYPE_BIT) dt v = Ok p" "cell_says (pushed_cell dt p) m" by blast
  have "pushes_of (my_cell debug ci c dt) rs ! ri = p"
    using r p(1) by (intro pushes_of_nth) (simp_all add: my_cell_def)
  moreover have "map (read_cell col) [0..<length rs]
      = map (\<lambda>p. Ok (pushed_cell dt p)) (pushes_of (my_cell debug ci c dt) rs)"
    using holds by (simp add: column_holds_def)
  then have "map (read_cell col) [0..<length rs] ! ri
      = map (\<lambda>p. Ok (pushed_cell dt p)) (pushes_of (my_cell debug ci c dt) rs) ! ri" by (rule arg_cong)
  ultimately show ?thesis using r(1) p(2) by simp
qed

lemma my_answer_columns:
  assumes q: "client_query_bytes eng t sql params (BServer (my_server drv) s) = (Ok bs, c)"
    and rows: "fst (if params = [] then md_query drv s sql else md_exec drv s sql (my_bind params)) = Inr rs"
    and some: "rs \<noteq> []" "mr_columns (hd rs) \<noteq> []"
    and nms: "\<forall>col \<in> set (mr_columns (hd rs)). utf8_string (mc_name col)"
    and short: "\<forall>ci < length (mr_columns (hd rs)). column_bytes ci rs < 2 ^ 32"
    and size: "length bs < 2 ^ 32" "length rs < 2 ^ 32"
  obtains b where "decode bs = Ok b" "num_rows b = length rs" "length (columns b) = length (mr_columns (hd rs))"
    "\<forall>ci < length (mr_columns (hd rs)). let col = mr_columns (hd rs) ! ci in
       \<exists>dt. my_pcb_type (mc_type col) (mc_name col) = Ok dt
         \<and> column_holds (columns b ! ci) (mc_name col) dt (pushes_of (my_cell (md_debug drv) ci col dt) rs)"
proof -
  obtain s' where run: "(if params = [] then md_query drv s sql else md_exec drv s sql (my_bind params)) = (Inr rs, s')"
    using rows by (cases "if params = [] then md_query drv s sql else md_exec drv s sql (my_bind params)") simp
  have "my_query drv s sql params = (my_rows_to_batch (md_debug drv) rs, s')"
    unfolding my_query_def run by simp
  then obtain b where b: "my_rows_to_batch (md_debug drv) rs = Ok b" and bs: "bs = encode b"
    using q by (auto simp: client_query_bytes_def client_query_def my_server_def bind_r_eq_Inr split: sum.splits)
  have batch: "my.batch_of (md_debug drv) (mr_columns (hd rs)) rs = Ok b"
    using b some(1) by (cases rs) (simp_all add: my_rows_to_batch_def my.batch_of_def)
  have "length (concat (map text_bytes (pushes_of (my_cell (md_debug drv) ci (mr_columns (hd rs) ! ci) dt) rs))) < 2 ^ 32"
    if "ci < length (mr_columns (hd rs))" for ci dt
    using short that pushes_payload order.strict_trans1 by blast
  from my.batch_reads [OF batch _ nms this some(2)]
  have "batch_wf b" and n: "num_rows b = length rs" and cols: "length (columns b) = length (mr_columns (hd rs))"
    "\<forall>ci < length (mr_columns (hd rs)). \<exists>dt. my_pcb_type (mc_type (mr_columns (hd rs) ! ci)) (mc_name (mr_columns (hd rs) ! ci)) = Ok dt
       \<and> column_holds (columns b ! ci) (mc_name (mr_columns (hd rs) ! ci)) dt
           (pushes_of (my_cell (md_debug drv) ci (mr_columns (hd rs) ! ci) dt) rs)" by auto
  with decode_of_encode [of b] bs size have "decode bs = Ok b" by simp
  with n cols that show thesis unfolding Let_def by blast
qed


definition demo_driver :: "unit my_driver" where
  "demo_driver =
     \<lparr>md_query_drop = (\<lambda>s _. (None, s)), md_exec_drop = (\<lambda>s _ _. (None, s)), md_affected_rows = (\<lambda>_. 0),
      md_query = (\<lambda>s _. (Inr demo_rows, s)), md_exec = (\<lambda>s _ _. (Inr demo_rows, s)), md_debug = (\<lambda>_. [])\<rparr>"

definition demo_answer :: "bytes result \<times> (nat, unit) backend" where
  "demo_answer = client_query_bytes counter_engine 0 ''select id, t from notes'' [] (BServer (my_server demo_driver) ())"

definition demo_batch :: record_batch where
  "demo_batch =
     \<lparr>batch_schema = schema_new [field_new ''id'' Int64 False, field_new ''t'' Utf8 True], num_rows = 2,
      columns =
        [\<lparr>col_field = field_new ''id'' Int64 False, col_len = 2, validity = None, col_data = DInt64 [7, 5]\<rparr>,
         \<lparr>col_field = field_new ''t'' Utf8 True, col_len = 2, validity = Some [1],
            col_data = DUtf8 [0, 2, 2] [104, 105]\<rparr>]\<rparr>"

lemma demo_rows_batch: "my_rows_to_batch (\<lambda>_. []) demo_rows = Ok demo_batch"
  by (simp add: my_rows_to_batch_def demo_rows_def demo_columns_def rows_batch_def row_column_def my_pcb_type_def
      fill_column_def my_cell_def list_get_def my_value_push_def from_utf8_def valid_utf8_ascii of_bytes_def
      bitmap_new_def bitmap_push_def or_bit_def as_bytes_def assemble_def try_new_def demo_batch_def)

lemma demo_answer_ok: "demo_answer = (Ok (encode demo_batch), BServer (my_server demo_driver) ())"
proof -
  have "\<not> has_stacked_statements ''select id, t from notes''" by code_simp
  then show ?thesis
    by (simp add: demo_answer_def client_query_bytes_def client_query_def reject_stacked_def my_server_def my_query_def
        demo_driver_def demo_rows_batch)
qed


end
