(* ===== verification/LibSql.thy ===== *)
theory LibSql
  imports Rows Client StrOps
begin

text \<open>
  The libSQL backend (\<open>ls.rs\<close>): its URLs, the values it binds and the rows it turns into a batch. The driver
  crate is the record \<open>ls_driver\<close> of its calls on the connection; an error is its text. Values are typed one
  by one, as in SQLite, and the type of a column is that of its first value that is not null.
\<close>

section \<open>What the driver speaks\<close>

datatype ls_value = LsNull | LsInteger i64 | LsReal f64 | LsText string | LsBlob bytes

text \<open>
  A statement that returns rows: the number of its columns, their names where they have one, the rows with the
  reading of each of their cells, and the error at the end, if fetching stopped with one.
\<close>

record ls_rows =
  lr_count :: nat
  lr_name :: "nat \<Rightarrow> string option"
  lr_rows :: "(nat \<Rightarrow> string + ls_value) list"
  lr_error :: "string option"

record 's ls_driver =
  ld_runtime :: "string option"
  ld_open :: "string \<Rightarrow> string \<Rightarrow> string + 's"
  ld_execute_batch :: "'s \<Rightarrow> string \<Rightarrow> string option \<times> 's"
  ld_execute :: "'s \<Rightarrow> string \<Rightarrow> ls_value list \<Rightarrow> (string + nat) \<times> 's"
  ld_query :: "'s \<Rightarrow> string \<Rightarrow> ls_value list \<Rightarrow> (string + ls_rows) \<times> 's"
  ld_debug :: "ls_value \<Rightarrow> string"

definition ls_err :: "string \<Rightarrow> error" where
  "ls_err e = Database (''libsql: '' @ e)"

section \<open>Connecting\<close>

text \<open>One \<open>key=value\<close> of the URL: the token and whether the connection is encrypted.\<close>

definition ls_option :: "string \<Rightarrow> string \<times> bool \<Rightarrow> string \<times> bool" where
  "ls_option kv st =
     (case st of (token, tls) \<Rightarrow>
        (case split_once ''='' kv of
           Some (k, v) \<Rightarrow>
             if k = ''authToken'' then (v, tls)
             else if k = ''tls'' \<and> (v = ''false'' \<or> v = ''0'') then (token, False)
             else (token, tls)
         | None \<Rightarrow> (token, tls)))"

text \<open>The remote address and the token a URL stands for.\<close>

definition ls_target :: "string \<Rightarrow> (string \<times> string) result" where
  "ls_target url =
     bind_r (ok_or (strip_prefix url ''libsql://'') (InvalidUrl (''not a libsql url: '' @ url))) (\<lambda>rest.
       let (base, query) = (case split_once ''?'' rest of Some (b, q) \<Rightarrow> (b, q) | None \<Rightarrow> (rest, []));
           (token, tls) = fold ls_option (filter (\<lambda>s. s \<noteq> []) (split_char (CHR ''&'') query)) ([], True)
       in Ok ((if tls then ''https'' else ''http'') @ ''://'' @ base, token))"

definition ls_connect :: "'s ls_driver \<Rightarrow> string \<Rightarrow> 's result" where
  "ls_connect drv url =
     bind_r (ls_target url) (\<lambda>(remote, token).
       case ld_runtime drv of
         Some e \<Rightarrow> Err (Database (''libsql runtime: '' @ e))
       | None \<Rightarrow>
           (case ld_open drv remote token of
              Inl e \<Rightarrow> Err (Database (''libsql connect: '' @ e))
            | Inr s \<Rightarrow>
                (case ld_execute drv s ''PRAGMA foreign_keys = ON'' [] of
                   (Inl e, _) \<Rightarrow> Err (Database (''libsql connect: '' @ e))
                 | (Inr _, s) \<Rightarrow> Ok s)))"

section \<open>Statements\<close>

fun ls_bind_value :: "param_value \<Rightarrow> ls_value" where
  "ls_bind_value VNull = LsNull"
| "ls_bind_value (VInt i) = LsInteger i"
| "ls_bind_value (VFloat f) = LsReal f"
| "ls_bind_value (VText s) = LsText s"
| "ls_bind_value (VBool b) = LsInteger (if b then 1 else 0)"

definition ls_bind :: "param_value list \<Rightarrow> ls_value list" where
  "ls_bind params = map ls_bind_value params"

definition ls_execute :: "'s ls_driver \<Rightarrow> 's \<Rightarrow> string \<Rightarrow> param_value list \<Rightarrow> nat result \<times> 's" where
  "ls_execute drv s sql params =
     (if params = [] \<and> str_contains '';'' sql then
        (case ld_execute_batch drv s sql of (Some e, s) \<Rightarrow> (Err (ls_err e), s) | (None, s) \<Rightarrow> (Ok 0, s))
      else
        (case ld_execute drv s sql (ls_bind params) of
           (Inl e, s) \<Rightarrow> (Err (ls_err e), s) | (Inr n, s) \<Rightarrow> (Ok n, s)))"

section \<open>Rows\<close>

text \<open>The index \<open>r[ci]\<close> panics past the end of the row.\<close>

definition ls_at :: "ls_value list \<Rightarrow> nat \<Rightarrow> ls_value result" where
  "ls_at r ci = (case list_get r ci of Some v \<Rightarrow> Ok v | None \<Rightarrow> Panicked)"

fun ls_infer :: "string \<Rightarrow> ls_value list list \<Rightarrow> nat \<Rightarrow> data_type result" where
  "ls_infer nm [] ci = Ok Int64"
| "ls_infer nm (r # rs) ci =
     bind_r (ls_at r ci) (\<lambda>v. case v of
        LsNull \<Rightarrow> ls_infer nm rs ci
      | LsInteger _ \<Rightarrow> Ok Int64
      | LsReal _ \<Rightarrow> Ok Float64
      | LsText _ \<Rightarrow> Ok Utf8
      | LsBlob _ \<Rightarrow> Err (Unsupported (''column `'' @ nm @ ''`: BLOB has no PCB mapping'')))"

definition ls_value_push :: "(ls_value \<Rightarrow> string) \<Rightarrow> string \<Rightarrow> data_type \<Rightarrow> ls_value \<Rightarrow> push result" where
  "ls_value_push debug nm dt v =
     (case (v, dt) of
        (LsNull, _) \<Rightarrow> Ok PushNull
      | (LsInteger i, Int64) \<Rightarrow> Ok (PushInt i)
      | (LsInteger i, Float64) \<Rightarrow> Ok (PushFloat (i64_as_f64 i))
      | (LsReal f, Float64) \<Rightarrow> Ok (PushFloat f)
      | (LsText s, Utf8) \<Rightarrow> Ok (PushText s)
      | (other, _) \<Rightarrow>
          Err (Database (''column `'' @ nm @ ''`: mixed value '' @ debug other @ '' in a '' @ dtype_debug dt @ '' column'')))"

definition ls_cell ::
  "(ls_value \<Rightarrow> string) \<Rightarrow> nat \<Rightarrow> string \<Rightarrow> data_type \<Rightarrow> ls_value list \<Rightarrow> push result" where
  "ls_cell debug ci nm dt r = bind_r (ls_at r ci) (ls_value_push debug nm dt)"

definition ls_rows_to_batch :: "(ls_value \<Rightarrow> string) \<Rightarrow> string list \<Rightarrow> ls_value list list \<Rightarrow> record_batch result" where
  "ls_rows_to_batch debug names rs =
     (if rs = [] then try_new []
      else rows_batch (\<lambda>nm. nm) (\<lambda>ci nm. ls_infer nm rs ci) (ls_cell debug) names rs)"

text \<open>The loop that fetches every row and every cell.\<close>

definition ls_collect :: "ls_rows \<Rightarrow> (string list \<times> ls_value list list) result" where
  "ls_collect q =
     bind_r (map_r (\<lambda>row. map_r (\<lambda>i. case row i of Inl e \<Rightarrow> Err (ls_err e) | Inr v \<Rightarrow> Ok v) [0..<lr_count q]) (lr_rows q))
       (\<lambda>rs. case lr_error q of
           Some e \<Rightarrow> Err (ls_err e)
         | None \<Rightarrow> Ok (map (\<lambda>i. option_or (lr_name q i) []) [0..<lr_count q], rs))"

definition ls_query :: "'s ls_driver \<Rightarrow> 's \<Rightarrow> string \<Rightarrow> param_value list \<Rightarrow> record_batch result \<times> 's" where
  "ls_query drv s sql params =
     (case ld_query drv s sql (ls_bind params) of
        (Inl e, s) \<Rightarrow> (Err (ls_err e), s)
      | (Inr q, s) \<Rightarrow>
          (bind_r (ls_collect q) (\<lambda>(names, rs). ls_rows_to_batch (ld_debug drv) names rs), s))"

definition ls_server :: "'s ls_driver \<Rightarrow> 's server" where
  "ls_server drv = \<lparr>srv_flavor = LibSql, srv_execute = ls_execute drv, srv_query = ls_query drv\<rparr>"

section \<open>The rows read back\<close>

fun ls_valid :: "ls_value \<Rightarrow> bool" where
  "ls_valid (LsText s) \<longleftrightarrow> utf8_string s"
| "ls_valid _ \<longleftrightarrow> True"

lemma ls_value_push_fits: "ls_value_push debug nm dt v = Ok p \<Longrightarrow> push_fits dt p"
  by (cases dt; cases v) (auto simp: ls_value_push_def)

lemma ls_value_push_text: "ls_value_push debug nm dt v = Ok (PushText s) \<Longrightarrow> v = LsText s"
  by (cases dt; cases v) (auto simp: ls_value_push_def)

lemma ls_at_set: "ls_at r ci = Ok v \<Longrightarrow> v \<in> set r"
  by (auto simp: ls_at_def list_get_def split: if_splits)

interpretation ls: row_decoder "\<lambda>nm. nm" "\<lambda>rs ci nm. ls_infer nm rs ci" "ls_cell debug" "list_all ls_valid"
  by unfold_locales
    (auto simp: ls_cell_def bind_r_eq_Inr list_all_iff intro: ls_value_push_fits dest!: ls_value_push_text ls_at_set)

end
