(* ===== verification/PgServer.thy ===== *)
theory PgServer
  imports Rows NumConv Client StrOps
begin

text \<open>
  The Postgres backend (\<open>pg.rs\<close>): how it routes a statement, the conversion of a bound value to the type of its
  slot, and the rows it turns into a batch. The driver crate is the record \<open>pg_driver\<close> of its calls on the
  connection; a row is the record of its typed getters. \<open>Debug\<close> and \<open>Display\<close> texts that appear in messages are
  arguments.
\<close>

section \<open>What the driver speaks\<close>

text \<open>The types the code names; any other with the name its \<open>Display\<close> prints.\<close>

datatype pg_type =
    INT2 | INT4 | INT8 | OID | FLOAT4 | FLOAT8 | BOOL | TEXT | VARCHAR | BPCHAR | NAME | UNKNOWN
  | OtherType string

text \<open>An error of the driver: the message and code of the server, if it came from there, and its text.\<close>

record pg_error =
  pe_db :: "(string \<times> string) option"
  pe_text :: string

record pg_column =
  pc_name :: string
  pc_type :: pg_type

text \<open>\<open>row.try_get::<_, Option<T>>(ci)\<close> for the types \<open>T\<close> the code asks for.\<close>

record pg_row =
  pr_columns :: "pg_column list"
  try_i16 :: "nat \<Rightarrow> pg_error + 16 word option"
  try_i32 :: "nat \<Rightarrow> pg_error + 32 word option"
  try_i64 :: "nat \<Rightarrow> pg_error + i64 option"
  try_u32 :: "nat \<Rightarrow> pg_error + 32 word option"
  try_f32 :: "nat \<Rightarrow> pg_error + f32 option"
  try_f64 :: "nat \<Rightarrow> pg_error + f64 option"
  try_bool :: "nat \<Rightarrow> pg_error + bool option"
  try_string :: "nat \<Rightarrow> pg_error + string option"

text \<open>What is written for a slot: the value passed to the \<open>to_sql\<close> of its Rust type.\<close>

datatype pg_wire =
    WNull | WI16 "16 word" | WI32 "32 word" | WI64 i64 | WF32 f32 | WF64 f64 | WBool bool | WText string

type_synonym pg_param = "pg_type \<Rightarrow> string + pg_wire"

record 's pg_driver =
  pd_batch_execute :: "'s \<Rightarrow> string \<Rightarrow> pg_error option \<times> 's"
  pd_execute :: "'s \<Rightarrow> string \<Rightarrow> pg_param list \<Rightarrow> (pg_error + nat) \<times> 's"
  pd_query :: "'s \<Rightarrow> string \<Rightarrow> pg_param list \<Rightarrow> (pg_error + pg_row list) \<times> 's"
  pd_type_name :: "pg_type \<Rightarrow> string"
  pd_debug :: "param_value \<Rightarrow> string"

definition pg_msg :: "pg_error \<Rightarrow> string" where
  "pg_msg e = (case pe_db e of Some (m, c) \<Rightarrow> m @ '' ('' @ c @ '')'' | None \<Rightarrow> pe_text e)"

definition pg_err :: "pg_error \<Rightarrow> error" where
  "pg_err e = Database (pg_msg e)"

definition pg_connect :: "(string \<Rightarrow> string + 's) \<Rightarrow> string \<Rightarrow> 's result" where
  "pg_connect connect_to url =
     (case connect_to url of Inl e \<Rightarrow> Err (Database (''postgres connect: '' @ e)) | Inr s \<Rightarrow> Ok s)"

section \<open>Bound values\<close>

definition pg_mismatch :: "(pg_type \<Rightarrow> string) \<Rightarrow> (param_value \<Rightarrow> string) \<Rightarrow> param_value \<Rightarrow> pg_type \<Rightarrow> string + pg_wire" where
  "pg_mismatch tname debug v ty = Inl (''cannot bind '' @ debug v @ '' to a `'' @ tname ty @ ''` parameter'')"

definition pg_to_sql :: "(pg_type \<Rightarrow> string) \<Rightarrow> (param_value \<Rightarrow> string) \<Rightarrow> param_value \<Rightarrow> pg_param" where
  "pg_to_sql tname debug v ty =
     (case v of
        VNull \<Rightarrow> Inr WNull
      | VInt i \<Rightarrow>
          (case ty of
             INT2 \<Rightarrow> Inr (WI16 (ucast i)) | INT4 \<Rightarrow> Inr (WI32 (ucast i)) | INT8 \<Rightarrow> Inr (WI64 i)
           | FLOAT4 \<Rightarrow> Inr (WF32 (i64_as_f32 i)) | FLOAT8 \<Rightarrow> Inr (WF64 (i64_as_f64 i))
           | BOOL \<Rightarrow> Inr (WBool (i \<noteq> 0))
           | _ \<Rightarrow> pg_mismatch tname debug v ty)
      | VFloat f \<Rightarrow>
          (case ty of
             FLOAT4 \<Rightarrow> Inr (WF32 (f64_as_f32 f)) | FLOAT8 \<Rightarrow> Inr (WF64 f)
           | INT2 \<Rightarrow> if f64_integral f then Inr (WI16 (word_of_int (f64_as_int 16 f))) else pg_mismatch tname debug v ty
           | INT4 \<Rightarrow> if f64_integral f then Inr (WI32 (word_of_int (f64_as_int 32 f))) else pg_mismatch tname debug v ty
           | INT8 \<Rightarrow> if f64_integral f then Inr (WI64 (f64_as_i64 f)) else pg_mismatch tname debug v ty
           | _ \<Rightarrow> pg_mismatch tname debug v ty)
      | VBool b \<Rightarrow>
          (case ty of
             BOOL \<Rightarrow> Inr (WBool b)
           | INT2 \<Rightarrow> Inr (WI16 (if b then 1 else 0)) | INT4 \<Rightarrow> Inr (WI32 (if b then 1 else 0))
           | INT8 \<Rightarrow> Inr (WI64 (if b then 1 else 0))
           | _ \<Rightarrow> pg_mismatch tname debug v ty)
      | VText s \<Rightarrow>
          if ty \<in> {TEXT, VARCHAR, BPCHAR, NAME, UNKNOWN} then Inr (WText s) else pg_mismatch tname debug v ty)"

definition pg_bind :: "'s pg_driver \<Rightarrow> param_value list \<Rightarrow> pg_param list" where
  "pg_bind drv params = map (pg_to_sql (pd_type_name drv) (pd_debug drv)) params"

section \<open>Statements\<close>

definition pg_execute :: "'s pg_driver \<Rightarrow> 's \<Rightarrow> string \<Rightarrow> param_value list \<Rightarrow> nat result \<times> 's" where
  "pg_execute drv s sql params =
     (let sql = (if eq_ignore_ascii_case (trim sql) ''BEGIN IMMEDIATE'' then ''BEGIN'' else sql) in
      case pg_translate_placeholders sql of
        Inl e \<Rightarrow> (Inl e, s)
      | Inr sql \<Rightarrow>
          if params = [] \<and> str_contains '';'' sql then
            (case pd_batch_execute drv s sql of (Some e, s) \<Rightarrow> (Err (pg_err e), s) | (None, s) \<Rightarrow> (Ok 0, s))
          else
            (case pd_execute drv s sql (pg_bind drv params) of
               (Inl e, s) \<Rightarrow> (Err (pg_err e), s) | (Inr n, s) \<Rightarrow> (Ok n, s)))"

section \<open>Rows\<close>

definition pg_pcb_type :: "(pg_type \<Rightarrow> string) \<Rightarrow> pg_type \<Rightarrow> data_type result" where
  "pg_pcb_type tname ty =
     (case ty of
        INT2 \<Rightarrow> Ok Int64 | INT4 \<Rightarrow> Ok Int64 | INT8 \<Rightarrow> Ok Int64 | OID \<Rightarrow> Ok Int64
      | FLOAT4 \<Rightarrow> Ok Float64 | FLOAT8 \<Rightarrow> Ok Float64
      | BOOL \<Rightarrow> Ok Boolean
      | OtherType _ \<Rightarrow>
          Err (Unsupported (''postgres type `'' @ tname ty
                 @ ''` has no PCB mapping; cast it in SQL (e.g. `col::text`)''))
      | _ \<Rightarrow> Ok Utf8)"

text \<open>The type of a column, an unsupported one reported with its name.\<close>

definition pg_column_type :: "(pg_type \<Rightarrow> string) \<Rightarrow> pg_column \<Rightarrow> data_type result" where
  "pg_column_type tname c =
     (case pg_pcb_type tname (pc_type c) of
        Inl (Failure (Unsupported m)) \<Rightarrow> Err (Unsupported (''column `'' @ pc_name c @ ''`: '' @ m))
      | r \<Rightarrow> r)"

definition pg_got :: "('a \<Rightarrow> push) \<Rightarrow> pg_error + 'a option \<Rightarrow> push result" where
  "pg_got mk r = (case r of Inl e \<Rightarrow> Err (pg_err e) | Inr v \<Rightarrow> Ok (opt_push mk v))"

definition pg_cell :: "nat \<Rightarrow> pg_column \<Rightarrow> data_type \<Rightarrow> pg_row \<Rightarrow> push result" where
  "pg_cell ci c dt r =
     (case pc_type c of
        INT2 \<Rightarrow> pg_got (\<lambda>v. PushInt (scast v)) (try_i16 r ci)
      | INT4 \<Rightarrow> pg_got (\<lambda>v. PushInt (scast v)) (try_i32 r ci)
      | INT8 \<Rightarrow> pg_got PushInt (try_i64 r ci)
      | OID \<Rightarrow> pg_got (\<lambda>v. PushInt (ucast v)) (try_u32 r ci)
      | FLOAT4 \<Rightarrow> pg_got (\<lambda>v. PushFloat (f32_as_f64 v)) (try_f32 r ci)
      | FLOAT8 \<Rightarrow> pg_got PushFloat (try_f64 r ci)
      | BOOL \<Rightarrow> pg_got PushBool (try_bool r ci)
      | _ \<Rightarrow> pg_got PushText (try_string r ci))"

definition pg_rows_to_batch :: "(pg_type \<Rightarrow> string) \<Rightarrow> pg_row list \<Rightarrow> record_batch result" where
  "pg_rows_to_batch tname rs =
     (case rs of
        [] \<Rightarrow> try_new []
      | r # _ \<Rightarrow> rows_batch pc_name (\<lambda>_. pg_column_type tname) pg_cell (pr_columns r) rs)"

definition pg_query :: "'s pg_driver \<Rightarrow> 's \<Rightarrow> string \<Rightarrow> param_value list \<Rightarrow> record_batch result \<times> 's" where
  "pg_query drv s sql params =
     (case pg_translate_placeholders sql of
        Inl e \<Rightarrow> (Inl e, s)
      | Inr sql \<Rightarrow>
          (case pd_query drv s sql (pg_bind drv params) of
             (Inl e, s) \<Rightarrow> (Err (pg_err e), s)
           | (Inr rs, s) \<Rightarrow> (pg_rows_to_batch (pd_type_name drv) rs, s)))"

definition pg_server :: "'s pg_driver \<Rightarrow> 's server" where
  "pg_server drv = \<lparr>srv_flavor = Postgres, srv_execute = pg_execute drv, srv_query = pg_query drv\<rparr>"

section \<open>The rows read back\<close>

text \<open>The texts a row hands out are strings of Rust.\<close>

definition pg_row_ok :: "pg_row \<Rightarrow> bool" where
  "pg_row_ok r \<longleftrightarrow> (\<forall>ci s. try_string r ci = Inr (Some s) \<longrightarrow> utf8_string s)"

lemma pg_got_ok: "pg_got mk r = Ok p \<longleftrightarrow> (\<exists>v. r = Inr v \<and> p = opt_push mk v)"
  by (auto simp: pg_got_def split: sum.splits)

lemma opt_push_fits: "(\<And>x. push_fits dt (mk x)) \<Longrightarrow> push_fits dt (opt_push mk v)"
  by (cases v) (simp_all add: opt_push_def)

lemma opt_push_text:
  "opt_push mk v = PushText s \<longleftrightarrow> (\<exists>x. v = Some x \<and> mk x = PushText s)"
  by (cases v) (simp_all add: opt_push_def)

interpretation pg: row_decoder pc_name "\<lambda>rs ci. pg_column_type tname" pg_cell pg_row_ok
proof unfold_locales
  show "push_fits dt p" if "pg_column_type tname c = Ok dt" "pg_cell ci c dt r = Ok p" for rs c dt ci r p
    using that
    by (cases "pc_type c")
      (auto simp: pg_column_type_def pg_pcb_type_def pg_cell_def pg_got_ok intro!: opt_push_fits)
  show "utf8_string s" if "pg_row_ok r" "pg_cell ci c dt r = Ok (PushText s)" for r ci c dt s
    using that(2) that(1)
    by (cases "pc_type c") (auto simp: pg_cell_def pg_got_ok opt_push_text eq_commute [of "PushText s"] pg_row_ok_def)
qed

end
