(* ===== verification/MsServer.thy ===== *)
theory MsServer
  imports Rows NumConv Client StrOps
begin

text \<open>
  The SQL Server backend (\<open>ms.rs\<close>): its URLs, how it routes a statement after \<open>normalize_tx\<close> and the placeholder
  rewriting of \<open>SqlText\<close>, the values it binds and the rows it turns into a batch. The driver crate is the record
  \<open>ms_driver\<close> of its calls on the connection; an error is its text. \<open>windows\<close> says what it is compiled for.
\<close>

section \<open>Connecting\<close>

datatype ms_auth = AuthNone | SqlServer string string | Integrated

datatype ms_encryption = EncryptionRequired | EncryptionNotSupported

text \<open>The configuration of the driver, with the settings the code makes.\<close>

record ms_config =
  cfg_host :: string
  cfg_port :: nat
  cfg_database :: "string option"
  cfg_auth :: ms_auth
  cfg_encryption :: ms_encryption
  cfg_trust_cert :: bool

text \<open>\<open>s.rsplit_once(c)\<close>: around the last occurrence.\<close>

definition rsplit_once :: "char \<Rightarrow> string \<Rightarrow> (string \<times> string) option" where
  "rsplit_once c s =
     (if c \<in> set s
      then Some (rev (tl (dropWhile (\<lambda>x. x \<noteq> c) (rev s))), rev (takeWhile (\<lambda>x. x \<noteq> c) (rev s)))
      else None)"

definition ms_port :: "string \<Rightarrow> (string \<times> nat) result" where
  "ms_port hostport =
     (case rsplit_once (CHR '':'') hostport of
        Some (h, p) \<Rightarrow>
          (case parse_u16 p of Some n \<Rightarrow> Ok (h, n) | None \<Rightarrow> Err (InvalidUrl (''mssql port `'' @ p @ ''`'')))
      | None \<Rightarrow> Ok (hostport, 1433))"

definition ms_auth_of :: "bool \<Rightarrow> string option \<Rightarrow> ms_auth result" where
  "ms_auth_of windows creds =
     (if creds \<noteq> None \<and> creds \<noteq> Some [] then
        (let c = the creds; (user, pass) = option_or (split_once '':'' c) (c, []) in Ok (SqlServer user pass))
      else if windows then Ok Integrated
      else Err (InvalidUrl ''mssql integrated auth is Windows-only; provide user:pass in the URL''))"

definition ms_parse_url :: "bool \<Rightarrow> string \<Rightarrow> ms_config result" where
  "ms_parse_url windows url =
     bind_r (ok_or (case strip_prefix url ''mssql://'' of Some r \<Rightarrow> Some r | None \<Rightarrow> strip_prefix url ''sqlserver://'')
       (InvalidUrl (''not an mssql url: '' @ url))) (\<lambda>rest.
     let (rest, query) = (case split_once ''?'' rest of Some (r, q) \<Rightarrow> (r, Some q) | None \<Rightarrow> (rest, None));
         (creds, hostpart) = (case rsplit_once (CHR ''@'') rest of Some (c, h) \<Rightarrow> (Some c, h) | None \<Rightarrow> (None, rest));
         (hostport, database) =
           (case split_once ''/'' hostpart of
              Some (h, d) \<Rightarrow> if d \<noteq> [] then (h, Some d) else (h, None)
            | None \<Rightarrow> (hostpart, None))
     in bind_r (ms_port hostport) (\<lambda>(host, port).
        bind_r (ms_auth_of windows creds) (\<lambda>auth.
        let encrypt = (case query of Some q \<Rightarrow> ''encrypt=true'' \<in> set (split_char (CHR ''&'') q) | None \<Rightarrow> False)
        in Ok \<lparr>cfg_host = host, cfg_port = port, cfg_database = database, cfg_auth = auth,
               cfg_encryption = (if encrypt then EncryptionRequired else EncryptionNotSupported),
               cfg_trust_cert = encrypt\<rparr>)))"

section \<open>What the driver speaks\<close>

text \<open>The column types the code names; any other with the name its \<open>Debug\<close> prints.\<close>

datatype ms_type =
    Int1 | Int2 | Int4 | Int8 | Intn | Float4 | Float8 | Floatn | Bit | Bitn
  | BigVarChar | BigChar | NVarchar | NChar | Text | NText | OtherMsType string

datatype ms_value =
    MsU8 "u8 option" | MsI16 "16 word option" | MsI32 "32 word option" | MsI64 "i64 option"
  | MsF32 "f32 option" | MsF64 "f64 option" | MsBit "bool option" | MsString "string option" | MsOther string

record ms_column =
  sc_name :: string
  sc_type :: ms_type

record ms_row =
  sr_columns :: "ms_column list"
  sr_cells :: "ms_value list"

record 's ms_driver =
  sd_runtime :: "string option"
  sd_connect :: "ms_config \<Rightarrow> string + 's"
  sd_simple_query :: "'s \<Rightarrow> string \<Rightarrow> string option \<times> 's"
  sd_execute :: "'s \<Rightarrow> string \<Rightarrow> ms_value list \<Rightarrow> (string + nat) \<times> 's"
  sd_query :: "'s \<Rightarrow> string \<Rightarrow> ms_value list \<Rightarrow> (string + ms_row list list) \<times> 's"
  sd_debug :: "ms_value \<Rightarrow> string"

definition ms_err :: "string \<Rightarrow> error" where
  "ms_err e = Database (''mssql: '' @ e)"

definition ms_connect :: "'s ms_driver \<Rightarrow> bool \<Rightarrow> string \<Rightarrow> 's result" where
  "ms_connect drv windows url =
     bind_r (ms_parse_url windows url) (\<lambda>cfg.
       case sd_runtime drv of
         Some e \<Rightarrow> Err (Database (''mssql runtime: '' @ e))
       | None \<Rightarrow>
           (case sd_connect drv cfg of Inl e \<Rightarrow> Err (Database (''mssql connect: '' @ e)) | Inr s \<Rightarrow> Ok s))"

section \<open>Statements\<close>

text \<open>The value of the driver a boxed parameter turns into; null is a text without a value.\<close>

fun ms_bind_value :: "param_value \<Rightarrow> ms_value" where
  "ms_bind_value VNull = MsString None"
| "ms_bind_value (VInt i) = MsI64 (Some i)"
| "ms_bind_value (VFloat f) = MsF64 (Some f)"
| "ms_bind_value (VText s) = MsString (Some s)"
| "ms_bind_value (VBool b) = MsBit (Some b)"

definition ms_bind :: "param_value list \<Rightarrow> ms_value list" where
  "ms_bind params = map ms_bind_value params"

definition is_tx_control :: "string \<Rightarrow> bool" where
  "is_tx_control sql =
     (let upper = map to_ascii_upper (trim sql)
      in list_ex (starts_with upper) [''BEGIN'', ''COMMIT'', ''ROLLBACK'', ''SAVE ''])"

definition ms_execute :: "'s ms_driver \<Rightarrow> 's \<Rightarrow> string \<Rightarrow> param_value list \<Rightarrow> nat result \<times> 's" where
  "ms_execute drv s sql params =
     (case normalize_tx sql of
        Inl e \<Rightarrow> (Inl e, s)
      | Inr None \<Rightarrow> (Ok 0, s)
      | Inr (Some sql) \<Rightarrow>
          (case ms_translate_placeholders sql of
             Inl e \<Rightarrow> (Inl e, s)
           | Inr sql \<Rightarrow>
               if params = [] \<and> (is_tx_control sql \<or> str_contains '';'' sql) then
                 (case sd_simple_query drv s sql of (Some e, s) \<Rightarrow> (Err (ms_err e), s) | (None, s) \<Rightarrow> (Ok 0, s))
               else
                 (case sd_execute drv s sql (ms_bind params) of
                    (Inl e, s) \<Rightarrow> (Err (ms_err e), s) | (Inr n, s) \<Rightarrow> (Ok n, s))))"

section \<open>Rows\<close>

definition ms_pcb_type :: "ms_type \<Rightarrow> string \<Rightarrow> data_type result" where
  "ms_pcb_type ty nm =
     (case ty of
        Int1 \<Rightarrow> Ok Int64 | Int2 \<Rightarrow> Ok Int64 | Int4 \<Rightarrow> Ok Int64 | Int8 \<Rightarrow> Ok Int64 | Intn \<Rightarrow> Ok Int64
      | Float4 \<Rightarrow> Ok Float64 | Float8 \<Rightarrow> Ok Float64 | Floatn \<Rightarrow> Ok Float64
      | Bit \<Rightarrow> Ok Boolean | Bitn \<Rightarrow> Ok Boolean
      | OtherMsType d \<Rightarrow>
          Err (Unsupported (''mssql column `'' @ nm @ ''` has type '' @ d
                 @ ''; cast it in SQL (e.g. CAST(col AS NVARCHAR(...)))''))
      | _ \<Rightarrow> Ok Utf8)"

definition ms_value_push :: "(ms_value \<Rightarrow> string) \<Rightarrow> string \<Rightarrow> data_type \<Rightarrow> ms_value \<Rightarrow> push result" where
  "ms_value_push debug nm dt v =
     (case (dt, v) of
        (Int64, MsU8 v) \<Rightarrow> Ok (opt_push (\<lambda>x. PushInt (ucast x)) v)
      | (Int64, MsI16 v) \<Rightarrow> Ok (opt_push (\<lambda>x. PushInt (scast x)) v)
      | (Int64, MsI32 v) \<Rightarrow> Ok (opt_push (\<lambda>x. PushInt (scast x)) v)
      | (Int64, MsI64 v) \<Rightarrow> Ok (opt_push PushInt v)
      | (Float64, MsF32 v) \<Rightarrow> Ok (opt_push (\<lambda>x. PushFloat (f32_as_f64 x)) v)
      | (Float64, MsF64 v) \<Rightarrow> Ok (opt_push PushFloat v)
      | (Boolean, MsBit v) \<Rightarrow> Ok (opt_push PushBool v)
      | (Utf8, MsString v) \<Rightarrow> Ok (opt_push PushText v)
      | (_, other) \<Rightarrow>
          Err (Database (''column `'' @ nm @ ''`: unexpected value '' @ debug other @ '' for '' @ dtype_debug dt)))"

definition ms_cell ::
  "(ms_value \<Rightarrow> string) \<Rightarrow> nat \<Rightarrow> ms_column \<Rightarrow> data_type \<Rightarrow> ms_row \<Rightarrow> push result" where
  "ms_cell debug ci c dt r =
     bind_r (ok_or (list_get (sr_cells r) ci) (Database (''column `'' @ sc_name c @ ''`: missing cell'')))
       (ms_value_push debug (sc_name c) dt)"

definition ms_rows_to_batch :: "(ms_value \<Rightarrow> string) \<Rightarrow> ms_row list \<Rightarrow> record_batch result" where
  "ms_rows_to_batch debug rs =
     (case rs of
        [] \<Rightarrow> try_new []
      | r # _ \<Rightarrow>
          rows_batch sc_name (\<lambda>_ c. ms_pcb_type (sc_type c) (sc_name c)) (ms_cell debug) (sr_columns r) rs)"

definition ms_query :: "'s ms_driver \<Rightarrow> 's \<Rightarrow> string \<Rightarrow> param_value list \<Rightarrow> record_batch result \<times> 's" where
  "ms_query drv s sql params =
     (case ms_translate_placeholders sql of
        Inl e \<Rightarrow> (Inl e, s)
      | Inr sql \<Rightarrow>
          (case sd_query drv s sql (ms_bind params) of
             (Inl e, s) \<Rightarrow> (Err (ms_err e), s)
           | (Inr results, s) \<Rightarrow>
               (ms_rows_to_batch (sd_debug drv) (case results of rs # _ \<Rightarrow> rs | [] \<Rightarrow> []), s)))"

definition ms_server :: "'s ms_driver \<Rightarrow> 's server" where
  "ms_server drv = \<lparr>srv_flavor = MsSql, srv_execute = ms_execute drv, srv_query = ms_query drv\<rparr>"

section \<open>The rows read back\<close>

fun ms_valid :: "ms_value \<Rightarrow> bool" where
  "ms_valid (MsString (Some s)) \<longleftrightarrow> utf8_string s"
| "ms_valid _ \<longleftrightarrow> True"

lemma ms_value_push_fits: "ms_value_push debug nm dt v = Ok p \<Longrightarrow> push_fits dt p"
  by (cases dt; cases v) (auto simp: ms_value_push_def opt_push_def split: option.splits)

lemma ms_value_push_text: "ms_value_push debug nm dt v = Ok (PushText s) \<Longrightarrow> v = MsString (Some s)"
  by (cases dt; cases v) (auto simp: ms_value_push_def opt_push_def split: option.splits)

interpretation ms: row_decoder sc_name "\<lambda>rs ci c. ms_pcb_type (sc_type c) (sc_name c)" "ms_cell debug"
  "\<lambda>r. list_all ms_valid (sr_cells r)"
  by unfold_locales
    (auto simp: ms_cell_def bind_r_eq_Inr ok_or_eq_Ok list_get_def list_all_iff
      intro: ms_value_push_fits dest!: ms_value_push_text split: if_splits, metis ms_valid.simps(1) nth_mem)

end
