(* ===== verification/ServerProofs.thy ===== *)
theory ServerProofs
  imports MyProofs LibSql PgServer MsServer Requests ScanProofs
begin

text \<open>
  The server backends: the transaction statements every binding sends in the words of SQLite reach each server
  in its own, the integers Postgres is sent for a narrower slot, and the URLs of SQL Server and libSQL.
\<close>

section \<open>Transaction statements\<close>

text \<open>A statement sent as a text without parameters.\<close>

definition my_send :: "'s my_driver \<Rightarrow> 's \<Rightarrow> string \<Rightarrow> nat result \<times> 's" where
  "my_send drv s sql =
     (case md_query_drop drv s sql of
        (Some e, s) \<Rightarrow> (Err (Database e), s) | (None, s) \<Rightarrow> (Ok (md_affected_rows drv s), s))"

definition ms_send :: "'s ms_driver \<Rightarrow> 's \<Rightarrow> string \<Rightarrow> nat result \<times> 's" where
  "ms_send drv s sql =
     (case sd_simple_query drv s sql of (Some e, s) \<Rightarrow> (Err (ms_err e), s) | (None, s) \<Rightarrow> (Ok 0, s))"

definition name_char :: "char \<Rightarrow> bool" where
  "name_char c \<longleftrightarrow> is_ascii_alphanumeric c \<or> c = CHR ''_''"

lemma name_char_code: "name_char c \<Longrightarrow> 47 < code c \<and> code c < 123 \<and> c \<noteq> CHR ''?''"
  by (auto simp: name_char_def is_ascii_alphanumeric_def is_ascii_alphabetic_def is_ascii_digit_def)

lemma simple_ident_chars: "is_simple_ident s \<Longrightarrow> s \<noteq> [] \<and> list_all name_char s"
  by (cases s) (auto simp: is_simple_ident_def name_char_def is_ascii_alphanumeric_def list_all_iff)

text \<open>Text between two characters that are not white space, all of it ASCII, is not trimmed.\<close>

lemma ws_front_small: "list_all (\<lambda>n. n < 128) ns \<Longrightarrow> ws_front ns \<le> 1"
  by (cases ns) (auto simp: ws_front_def split: list.split)

lemma ws_front_head: "33 \<le> n \<Longrightarrow> n < 128 \<Longrightarrow> ws_front (n # ns) = 0"
  by (auto simp: ws_front_def split: list.split)

lemma trim_ascii:
  assumes "list_all (\<lambda>c. code c < 128) s" "s \<noteq> []" "32 < code (hd s)" "32 < code (last s)"
  shows "trim s = s"
proof (rule trim_id)
  have small: "ws_front (map code (drop k s)) \<le> 1" for k
    using assms(1) by (intro ws_front_small) (auto simp: list_all_iff dest: in_set_dropD)
  have heads: "code (hd s) < 128" "code (last s) < 128" using assms(1,2) by (auto simp: list_all_iff)
  with assms show "ws_front (map code s) = 0" by (cases s) (simp_all add: ws_front_head)
  have "drop (length s - 1) s = [last s]" using assms(2) by (cases s rule: rev_cases) simp_all
  then have "ws_front (map code (drop (length s - 1) s)) = 0" using assms(4) heads by (simp add: ws_front_head)
  with small [of "length s - 2"] small [of "length s - 3"] show "ws_back s = 0"
    by (intro ws_back_0) simp_all
qed

lemma trim_word:
  assumes "list_all name_char name" "name \<noteq> []" "list_all (\<lambda>c. code c < 128) kw" "kw \<noteq> []" "32 < code (hd kw)"
  shows "trim (kw @ name) = kw @ name"
proof (rule trim_ascii)
  show "32 < code (last (kw @ name))" using assms(1,2) name_char_code [of "last name"] by (simp add: list_all_iff)
qed (use assms name_char_code in \<open>force simp: list_all_iff\<close>)+

lemma trim_start_word: "list_all name_char name \<Longrightarrow> trim_start name = name"
  by (subst trim_start.simps) (cases name; auto simp: ws_front_head dest: name_char_code)

lemma boundary_ascii: "k < length s \<Longrightarrow> code (s ! k) < 128 \<Longrightarrow> is_char_boundary s k"
  by (auto simp: is_char_boundary_def cont_byte_def)

text \<open>Text without quotes, comments and question marks is sent as it is.\<close>

lemma ph_scan_plain:
  "list_all (\<lambda>c. c \<notin> {CHR 0x27, CHR 0x22, CHR ''-'', CHR ''/'', CHR ''?''}) s \<Longrightarrow> ph_scan mk n out s = out @ s"
proof (induction s arbitrary: out)
  case (Cons c s)
  then show ?case
    by (subst ph_scan.simps) (auto simp: ph_closer_def at_line_comment_def at_block_comment_def)
qed (subst ph_scan.simps, simp)

lemma ms_translate_plain:
  assumes "list_all (\<lambda>c. c \<notin> {CHR 0x27, CHR 0x22, CHR ''-'', CHR ''/'', CHR ''?''}) s" "utf8_string s"
  shows "ms_translate_placeholders s = Ok s"
  using assms by (simp add: ms_translate_placeholders_def ph_scan_plain utf8_expect_ok)

lemma name_ascii: "list_all name_char name \<Longrightarrow> list_all (\<lambda>c. code c < 128) name"
  using name_char_code by (force simp: list_all_iff)

lemma ascii_boundary: "list_all (\<lambda>c. code c < 128) s \<Longrightarrow> k < length s \<Longrightarrow> is_char_boundary s k"
  by (rule boundary_ascii) (simp_all add: list_all_length)

lemma strip_keyword_ascii:
  assumes "list_all (\<lambda>c. code c < 128) s"
  shows "strip_keyword s kw =
    Ok (if length kw < length s \<and> eq_ignore_ascii_case (take (length kw) s) kw
        then Some (trim_start (drop (length kw) s)) else None)"
  using ascii_boundary [OF assms] by (simp add: strip_keyword_def)

lemma name_no_keyword:
  assumes "list_all name_char name"
  shows "\<not> eq_ignore_ascii_case (take 10 name) ''SAVEPOINT ''"
proof
  assume e: "eq_ignore_ascii_case (take 10 name) ''SAVEPOINT ''"
  moreover have "map to_ascii_lower ''SAVEPOINT '' = ''savepoint ''" by code_simp
  ultimately have "map to_ascii_lower (take 10 name) = ''savepoint ''" by (simp only: eq_ignore_ascii_case_def)
  then have "CHR '' '' \<in> to_ascii_lower ` set (take 10 name)" by (metis list.set_map list.set_intros(1,2))
  then obtain c where c: "c \<in> set name" "to_ascii_lower c = CHR '' ''" by (auto dest: in_set_takeD)
  then have "47 < code c" "code c < 123" using assms name_char_code [of c] by (auto simp: list_all_iff)
  moreover have "code (to_ascii_lower c) = 32" using c(2) by simp
  ultimately show False by (simp add: to_ascii_lower_def split: if_splits)
qed

lemma normalize_savepoint:
  assumes "list_all name_char name" "name \<noteq> []"
  shows "normalize_tx (''SAVEPOINT '' @ name) = Ok (Some (''SAVE TRANSACTION '' @ name))"
    and "normalize_tx (''ROLLBACK TO '' @ name) = Ok (Some (''ROLLBACK TRANSACTION '' @ name))"
    and "normalize_tx (''RELEASE '' @ name) = Ok None"
proof -
  have t: "trim (''SAVEPOINT '' @ name) = ''SAVEPOINT '' @ name" "trim (''ROLLBACK TO '' @ name) = ''ROLLBACK TO '' @ name"
    "trim (''RELEASE '' @ name) = ''RELEASE '' @ name"
    by (rule trim_word [OF assms]; simp)+
  note simps = normalize_tx_def Let_def strip_keyword_ascii name_ascii [OF assms(1)]
    trim_start_word [OF assms(1)] eq_ignore_ascii_case_def to_ascii_lower_def to_ascii_upper_def option_or_def
  have none: "strip_keyword name ''SAVEPOINT '' = Ok None"
  proof -
    have "length ''SAVEPOINT '' = 10" by simp
    with name_no_keyword [OF assms(1)] show ?thesis
      by (simp only: strip_keyword_ascii [OF name_ascii [OF assms(1)]] simp_thms if_False)
  qed
  show "normalize_tx (''SAVEPOINT '' @ name) = Ok (Some (''SAVE TRANSACTION '' @ name))"
    using assms t by (simp add: simps)
  show "normalize_tx (''ROLLBACK TO '' @ name) = Ok (Some (''ROLLBACK TRANSACTION '' @ name))"
    using assms t none by (simp add: simps)
  show "normalize_tx (''RELEASE '' @ name) = Ok None"
    using assms t none by (simp add: simps)
qed

lemma normalize_fixed:
  "normalize_tx ''BEGIN IMMEDIATE'' = Ok (Some ''BEGIN TRANSACTION'')"
  "normalize_tx ''COMMIT'' = Ok (Some ''COMMIT'')" "normalize_tx ''ROLLBACK'' = Ok (Some ''ROLLBACK'')"
  by code_simp+

lemma ms_execute_plain:
  assumes "normalize_tx sql = Ok (Some sent)" "is_tx_control sent"
    and "list_all (\<lambda>c. c \<notin> {CHR 0x27, CHR 0x22, CHR ''-'', CHR ''/'', CHR ''?''} \<and> code c < 128) sent"
  shows "ms_execute drv s sql [] = ms_send drv s sent"
proof -
  have "ms_translate_placeholders sent = Ok sent"
    using assms(3) by (intro ms_translate_plain utf8_string_all_ascii) (auto simp: list_all_iff)
  with assms(1,2) show ?thesis by (simp add: ms_execute_def ms_send_def)
qed

lemma name_sendable:
  "list_all name_char name \<Longrightarrow>
   list_all (\<lambda>c. c \<notin> {CHR 0x27, CHR 0x22, CHR ''-'', CHR ''/'', CHR ''?''} \<and> code c < 128) name"
proof (induction name)
  case (Cons c name)
  then have "47 < code c" "code c < 123" "c \<noteq> CHR ''?''" using name_char_code by simp_all
  then have "c \<notin> {CHR 0x27, CHR 0x22, CHR ''-'', CHR ''/'', CHR ''?''}" by auto
  with Cons \<open>code c < 123\<close> show ?case by simp
qed simp

text \<open>
  C11: The transaction statements the bindings send in the words of SQLite reach SQL Server as its own: a
  transaction begins with \<open>BEGIN TRANSACTION\<close>, a savepoint is set and rolled back to by name, releasing one
  sends nothing, and each is sent as a batch, since it would break the transaction count inside a procedure.
\<close>

theorem ms_transactions:
  assumes "is_simple_ident name"
  shows "ms_execute drv s ''BEGIN IMMEDIATE'' [] = ms_send drv s ''BEGIN TRANSACTION''
    \<and> ms_execute drv s (''SAVEPOINT '' @ name) [] = ms_send drv s (''SAVE TRANSACTION '' @ name)
    \<and> ms_execute drv s (''ROLLBACK TO '' @ name) [] = ms_send drv s (''ROLLBACK TRANSACTION '' @ name)
    \<and> ms_execute drv s (''RELEASE '' @ name) [] = (Ok 0, s)
    \<and> ms_execute drv s ''COMMIT'' [] = ms_send drv s ''COMMIT''
    \<and> ms_execute drv s ''ROLLBACK'' [] = ms_send drv s ''ROLLBACK''"
proof -
  note name = simple_ident_chars [OF assms]
  note sp = normalize_savepoint [OF conjunct2 [OF name] conjunct1 [OF name]]
  have "is_tx_control (''SAVE TRANSACTION '' @ name)" "is_tx_control (''ROLLBACK TRANSACTION '' @ name)"
    unfolding is_tx_control_def Let_def
    by (subst trim_word; use name in \<open>simp add: starts_with_def to_ascii_upper_def\<close>)+
  moreover have "is_tx_control ''BEGIN TRANSACTION''" "is_tx_control ''COMMIT''" "is_tx_control ''ROLLBACK''"
    by code_simp+
  ultimately have
    "ms_execute drv s ''BEGIN IMMEDIATE'' [] = ms_send drv s ''BEGIN TRANSACTION''"
    "ms_execute drv s (''SAVEPOINT '' @ name) [] = ms_send drv s (''SAVE TRANSACTION '' @ name)"
    "ms_execute drv s (''ROLLBACK TO '' @ name) [] = ms_send drv s (''ROLLBACK TRANSACTION '' @ name)"
    "ms_execute drv s ''COMMIT'' [] = ms_send drv s ''COMMIT''"
    "ms_execute drv s ''ROLLBACK'' [] = ms_send drv s ''ROLLBACK''"
    using normalize_fixed sp name_sendable name by (auto intro!: ms_execute_plain)
  moreover have "ms_execute drv s (''RELEASE '' @ name) [] = (Ok 0, s)" using sp by (simp add: ms_execute_def)
  ultimately show ?thesis by blast
qed

definition demo_ms :: "string list ms_driver" where
  "demo_ms =
     \<lparr>sd_runtime = None, sd_connect = (\<lambda>_. Inr []), sd_simple_query = (\<lambda>log sql. (None, log @ [sql])),
      sd_execute = (\<lambda>log sql _. (Inr 0, log @ [sql])), sd_query = (\<lambda>log sql _. (Inr [], log @ [sql])), sd_debug = (\<lambda>_. [])\<rparr>"

lemma ms_transactions_witness:
  "ms_execute demo_ms [] ''SAVEPOINT powder_sp_1'' [] = (Ok 0, [''SAVE TRANSACTION powder_sp_1''])"
proof -
  have "is_simple_ident ''powder_sp_1''" by code_simp
  from ms_transactions [OF this, of demo_ms "[]"] show ?thesis by (simp add: ms_send_def demo_ms_def)
qed

text \<open>MySQL names the savepoint it releases, and begins without a mode.\<close>

lemma my_transactions:
  assumes "is_simple_ident name" and "\<not> eq_ignore_ascii_case (take 9 name) ''SAVEPOINT''"
  shows "my_execute drv s ''BEGIN IMMEDIATE'' [] = my_send drv s ''BEGIN''"
    and "my_execute drv s (''RELEASE '' @ name) [] = my_send drv s (''RELEASE SAVEPOINT '' @ name)"
proof -
  have "my_rewrite ''BEGIN IMMEDIATE'' = Ok (Some ''BEGIN'')" by code_simp
  then show "my_execute drv s ''BEGIN IMMEDIATE'' [] = my_send drv s ''BEGIN''"
    by (simp add: my_execute_def my_send_def option_or_def)
  note name = simple_ident_chars [OF assms(1)]
  have t: "trim (''RELEASE '' @ name) = ''RELEASE '' @ name" by (rule trim_word) (use name in simp_all)
  have b: "is_char_boundary (''RELEASE '' @ name) 8"
    by (rule ascii_boundary) (use name name_ascii [of name] in simp_all)
  have "\<not> (case get_prefix 9 name of Some w \<Rightarrow> eq_ignore_ascii_case w ''SAVEPOINT'' | None \<Rightarrow> False)"
    using assms(2) by (simp add: get_prefix_def)
  with t b have "my_rewrite (''RELEASE '' @ name) = Ok (Some (''RELEASE SAVEPOINT '' @ name))"
    using name trim_start_word [of name]
    by (simp add: my_rewrite_def eq_ignore_ascii_case_def to_ascii_lower_def)
  then show "my_execute drv s (''RELEASE '' @ name) [] = my_send drv s (''RELEASE SAVEPOINT '' @ name)"
    by (simp add: my_execute_def my_send_def option_or_def)
qed

text \<open>A savepoint whose name begins with the keyword is taken for one already named, and sent as it is.\<close>

lemma my_release_of_savepoint_name: "my_rewrite ''RELEASE savepoint_1'' = Ok None"
  by code_simp

section \<open>Integers for a narrower slot\<close>

lemma narrowed:
  "sint (ucast (i :: i64) :: 16 word) = signed_take_bit 15 (sint i)"
  "sint (ucast (i :: i64) :: 32 word) = signed_take_bit 31 (sint i)"
  unfolding ucast_eq sint_sbintrunc' sint_uint [of i]
  by (simp_all add: signed_take_bit_signed_take_bit)

lemma widened:
  "scast (w :: 16 word) = (i :: i64) \<longleftrightarrow> sint w = sint i" "scast (v :: 32 word) = (i :: i64) \<longleftrightarrow> sint v = sint i"
proof -
  have "sint (word_of_int (sint w) :: i64) = sint w" "sint (word_of_int (sint v) :: i64) = sint v"
    by (rule sint_word_of_int; use sint_ge [of w] sint_lt [of w] sint_ge [of v] sint_lt [of v] in simp)+
  then show "scast w = i \<longleftrightarrow> sint w = sint i" "scast v = i \<longleftrightarrow> sint v = sint i"
    unfolding scast_eq using i64_of_int [of i] by metis+
qed

lemma signed_take_bit_mod: "signed_take_bit n (k :: int) mod 2 ^ Suc n = k mod 2 ^ Suc n"
  by (simp only: flip: take_bit_eq_mod) (simp add: take_bit_signed_take_bit)

text \<open>
  C12: An integer bound for a Postgres parameter of a narrower type is sent modulo its width and never
  refused; what is stored reads back as the integer bound exactly when it is in the range of the type.
\<close>

theorem pg_int_slots:
  "\<exists>w16 w32.
     pg_to_sql tname debug (VInt i) INT2 = Inr (WI16 w16) \<and> sint w16 mod 2 ^ 16 = sint i mod 2 ^ 16
     \<and> (scast w16 = i \<longleftrightarrow> - (2 ^ 15) \<le> sint i \<and> sint i < 2 ^ 15)
     \<and> pg_to_sql tname debug (VInt i) INT4 = Inr (WI32 w32) \<and> sint w32 mod 2 ^ 32 = sint i mod 2 ^ 32
     \<and> (scast w32 = i \<longleftrightarrow> - (2 ^ 31) \<le> sint i \<and> sint i < 2 ^ 31)
     \<and> pg_to_sql tname debug (VInt i) INT8 = Inr (WI64 i)"
  using signed_take_bit_mod [of 15 "sint i"] signed_take_bit_mod [of 31 "sint i"]
    signed_take_bit_int_eq_self_iff [of 15 "sint i"] signed_take_bit_int_eq_self_iff [of 31 "sint i"]
  by (intro exI [of _ "ucast i"] conjI) (simp_all add: pg_to_sql_def widened narrowed)

section \<open>URLs\<close>

lemma rsplit_once_last: "c \<notin> set b \<Longrightarrow> rsplit_once c (a @ c # b) = Some (a, b)"
proof -
  assume c: "c \<notin> set b"
  then have w: "x \<noteq> c" if "x \<in> set (rev b)" for x using that by auto
  have "takeWhile (\<lambda>x. x \<noteq> c) (rev b @ c # rev a) = rev b" "dropWhile (\<lambda>x. x \<noteq> c) (rev b @ c # rev a) = c # rev a"
    using takeWhile_append2 [OF w, of "rev b"] dropWhile_append2 [OF w, of "rev b"] by simp_all
  then show ?thesis by (simp add: rsplit_once_def)
qed

lemma split_once_none: "c \<notin> set s \<Longrightarrow> split_once [c] s = None"
proof -
  assume c: "c \<notin> set s"
  have "set (slice_at i (length [c]) s) \<subseteq> set s" for i
    by (auto simp: slice_at_def dest: in_set_takeD in_set_dropD)
  then have "slice_at i (length [c]) s \<noteq> [c]" for i using c by (metis list.set_intros(1) subsetD)
  then show ?thesis by (simp add: split_once_def str_find_def find_None_iff)
qed

lemma parse_u16_nat: "n < 2 ^ 16 \<Longrightarrow> parse_u16 (nat_to_string n) = Some n"
  using decimal_text [of n] digits_nat_to_string [of n]
  by (cases "nat_to_string n") (auto simp: parse_u16_def digits_nat_to_string is_ascii_digit_def Let_def)

definition ms_url :: "string \<Rightarrow> string \<Rightarrow> string \<Rightarrow> nat \<Rightarrow> string \<Rightarrow> bool \<Rightarrow> string" where
  "ms_url user pass host port db encrypt =
     ''mssql://'' @ user @ '':'' @ pass @ ''@'' @ host @ '':'' @ nat_to_string port @ ''/'' @ db
     @ (if encrypt then ''?encrypt=true'' else [])"

text \<open>
  C13: A SQL Server URL written from its parts is read back as them, whatever the password, which may hold a
  colon, a slash or an at sign, as long as no part holds a question mark.
\<close>

theorem ms_url_roundtrip:
  assumes parts: "CHR '':'' \<notin> set user" "CHR ''@'' \<notin> set host" "CHR ''/'' \<notin> set host" "CHR ''@'' \<notin> set db"
    and query: "CHR ''?'' \<notin> set (user @ pass @ host @ db)" and port: "port < 2 ^ 16"
  shows "ms_parse_url windows (ms_url user pass host port db encrypt) =
    Ok \<lparr>cfg_host = host, cfg_port = port, cfg_database = (if db = [] then None else Some db),
        cfg_auth = SqlServer user pass,
        cfg_encryption = (if encrypt then EncryptionRequired else EncryptionNotSupported), cfg_trust_cert = encrypt\<rparr>"
proof -
  let ?hp = "host @ CHR '':'' # nat_to_string port"
  let ?rest = "(user @ CHR '':'' # pass) @ CHR ''@'' # ?hp @ CHR ''/'' # db"
  have digits: "c \<notin> set (nat_to_string port)" if "\<not> is_ascii_digit c" for c using that decimal_digits by blast
  have q: "CHR ''?'' \<notin> set ?rest" using query digits [of "CHR ''?''"] by (simp add: is_ascii_digit_def)
  have split: "(case split_once ''?'' (?rest @ (if encrypt then ''?encrypt=true'' else [])) of
      Some (r, q) \<Rightarrow> (r, Some q) | None \<Rightarrow> (?rest @ (if encrypt then ''?encrypt=true'' else []), None))
    = (?rest, if encrypt then Some ''encrypt=true'' else None)"
    using split_once_char [OF q, of "''encrypt=true''"] split_once_none [OF q] by (cases encrypt) simp_all
  have at: "rsplit_once (CHR ''@'') ?rest = Some (user @ CHR '':'' # pass, ?hp @ CHR ''/'' # db)"
    by (rule rsplit_once_last) (use parts digits [of "CHR ''@''"] in \<open>simp add: is_ascii_digit_def\<close>)
  have slash: "split_once ''/'' (?hp @ CHR ''/'' # db) = Some (?hp, db)"
    by (rule split_once_char) (use parts digits [of "CHR ''/''"] in \<open>simp add: is_ascii_digit_def\<close>)
  have "rsplit_once (CHR '':'') ?hp = Some (host, nat_to_string port)"
    by (rule rsplit_once_last) (use digits [of "CHR '':''"] in \<open>simp add: is_ascii_digit_def\<close>)
  then have hostport: "ms_port ?hp = Ok (host, port)" using parse_u16_nat [OF port] by (simp add: ms_port_def)
  have auth: "ms_auth_of windows (Some (user @ CHR '':'' # pass)) = Ok (SqlServer user pass)"
    using split_once_char [OF parts(1), of pass] by (simp add: ms_auth_of_def option_or_def)
  have url: "strip_prefix (ms_url user pass host port db encrypt) ''mssql://''
      = Some (?rest @ (if encrypt then ''?encrypt=true'' else []))"
    by (simp add: ms_url_def strip_prefix_def starts_with_def)
  have opt: "''encrypt=true'' \<in> set (split_char (CHR ''&'') ''encrypt=true'')" by code_simp
  show ?thesis
    unfolding ms_parse_url_def url option.case ok_or_simps bind_r_simps split Let_def prod.case at slash
    using hostport auth opt by (cases encrypt; cases "db = []"; simp)
qed

lemma ms_url_roundtrip_witness:
  "ms_parse_url False ''mssql://sa:p@ss:1/@db.host:1444/app?encrypt=true'' =
    Ok \<lparr>cfg_host = ''db.host'', cfg_port = 1444, cfg_database = Some ''app'', cfg_auth = SqlServer ''sa'' ''p@ss:1/'',
        cfg_encryption = EncryptionRequired, cfg_trust_cert = True\<rparr>"
proof -
  have "nat_to_string 1444 = ''1444''" by code_simp
  then have "ms_url ''sa'' ''p@ss:1/'' ''db.host'' 1444 ''app'' True = ''mssql://sa:p@ss:1/@db.host:1444/app?encrypt=true''"
    by (simp add: ms_url_def)
  then show ?thesis
    using ms_url_roundtrip [of "''sa''" "''db.host''" "''app''" "''p@ss:1/''" 1444 False True] by simp
qed

end
