(* ===== verification/Spec2Isabelle.thy ===== *)
theory Spec2Isabelle
  imports DirectEncode ClientProofs OrmMeaning OrmCreate OrmRelations Codegen Validate Rebuild Gate InspectProofs StudioEdits StudioTokens Requests ServerProofs
begin

text \<open>
  Powder is a database client whose core, written in Rust, runs SELECT statements and hands the rows to
  the bindings of other languages as one columnar buffer. This development models the core crate
  (\<open>src/crates/powder-core\<close>), the schema and migration tool (\<open>src/crates/powder-cli\<close>) and the browser-based
  studio (\<open>src/crates/powder-studio\<close>) as functions of higher-order logic and proves what makes each part correct.

  How the parts interact. A caller builds a statement (\<open>query.rs\<close>) or hands a JSON operation to the
  object-relational layer (\<open>orm.rs\<close>). The client (\<open>client.rs\<close>) passes the text through the injection
  guard (\<open>guard.rs\<close>) and routes it to a backend. The SQLite backend looks the call up in its result
  cache, runs the statement, serially or over row-id ranges on several connections, streams the rows
  into adaptive columns, merges and orders them, and encodes the columns into the wire format
  (\<open>codec.rs\<close>). The other backends (\<open>pg.rs\<close>, \<open>my.rs\<close>, \<open>ms.rs\<close>, \<open>ls.rs\<close>) put the statement into the words of their
  server, bind the values and turn the rows of the driver into the same columns. The command line reads the
  same schema file as the object-relational layer, creates and changes the tables, compares them with
  the schema, and derives the relations the generated models have. The studio inspects a database
  (\<open>inspect.rs\<close>), pages through its tables, edits rows and asks a model for SQL, for the holders of its tokens.

  How values are represented. A Rust \<open>String\<close> is an Isabelle string of its UTF-8 bytes, a byte vector an
  \<open>8 word list\<close>, an \<open>i64\<close> and the bit pattern of an \<open>f64\<close> a \<open>64 word\<close>, a \<open>usize\<close> a natural number; structs
  are records and enums datatypes. A function that can fail returns \<open>fault + 'a\<close>, whose fault is an
  error value or a panic; the command line, whose errors are plain strings, returns \<open>cli_fault + 'a\<close>.
  What changes a client, a connection or a cache takes and returns its state; what runs statements one
  after the other is written with \<open>io_bind\<close>, which keeps the state reached before an error.

  Shared theories.
    \<^item> \<open>Prelude\<close>: machine types, results and their combinators, slices and in-place writes, joined lists.
    \<^item> \<open>RustStd\<close>, \<open>Utf8\<close>, \<open>StrOps\<close>: the part of Rust's standard library the code uses: ASCII and white
      space, trimming, decimal printing, UTF-8 validation, float conversions and order, string search.
    \<^item> \<open>NumConv\<close>: conversions between floats of two widths and narrow integers, numbers read from text.
    \<^item> \<open>Io\<close>: computations on a state that stop at the first error.
    \<^item> \<open>Offsets\<close>, \<open>Bits\<close>, \<open>Writes\<close>: what an offset buffer and a bitmap stand for, and when in-place
      writes may be reordered.

  Columns and the wire format.
    \<^item> \<open>Schema\<close> (\<open>error.rs\<close>, \<open>schema.rs\<close>), \<open>Columns\<close> (\<open>array.rs\<close>), \<open>Batch\<close> (\<open>batch.rs\<close>): types, columns,
      builders. Lemmas relate a builder to the cells pushed into it; a builder accepts exactly the cells
      of its type and a finished column reads them back.
    \<^item> \<open>Codec\<close>, \<open>CodecProofs\<close> (\<open>codec.rs\<close>, \<open>encode\<close> and \<open>decode\<close>): the encoder appends to one buffer and
      patches header and directory at the end. Decoding gives the batch back, and whatever the decoder
      accepts is consistent. The hypothesis \<open>wf_batch\<close> bounds names, rows and buffers by what the fields
      of the format hold (\<open>u16\<close>, \<open>u32\<close>).
    \<^item> \<open>EncodeParts\<close> (\<open>encode_parts\<close>): the two-pass parallel encoder; the order in which the writes of its
      tasks reach the buffer is an argument, and the result is the serial encoding for every order.

  Running a statement on SQLite (\<open>client.rs\<close>).
    \<^item> \<open>Adaptive\<close>, \<open>AdaptiveProofs\<close>, \<open>AdaptiveRead\<close>: columns that begin as integers and promote to floats and
      text. A column stands for a class and a list of slots; every operation is one on slots.
    \<^item> \<open>Merge\<close>, \<open>Sorting\<close>: merging the columns of several ranges gives the column of one scan; ordering
      permutes all columns alike.
    \<^item> \<open>Scan\<close>, \<open>ScanProofs\<close>, \<open>ScanSerial\<close>, \<open>DirectEncode\<close>: statement shapes, streaming, the parallel scan and
      the direct encoding of its chunks. The ranges partition the table; what a query returns through the
      parallel scan and the direct encoding is what a serial run returns for some order of the rows, which
      SQL leaves open. SQLite is an argument: a connection maps a text to a prepared statement, which maps
      parameters to rows; \<open>serves\<close> and \<open>snapshot\<close> say what is relied on: that the workers see the rows the
      connection sees, in no particular order, and that row ids span less than 63 bits.
    \<^item> \<open>SqlText\<close>, \<open>SqlLex\<close>: the scanners over SQL text (\<open>guard.rs\<close>, the placeholder rewriting of \<open>pg.rs\<close> and
      \<open>ms.rs\<close>). The guard is compared with \<open>mark_text\<close>, an automaton that says of every character whether it
      belongs to the code, a quoted text or a comment; the placeholder scanners with a reading as lexemes.
    \<^item> \<open>Query\<close> (\<open>query.rs\<close>), \<open>Cache\<close>, \<open>Client\<close>, \<open>ClientProofs\<close>: the builder, the bounded cache, URL routing and
      the client. \<open>history\<close> follows a client through every call, failed ones included, and records whether
      a write has escaped the cache; while none has, the coherence of the cache is an invariant, proved
      for the interface \<open>result_cache\<close> and interpreted on the cache of the code.

  The server backends.
    \<^item> \<open>Rows\<close>: the loop all four share, and the interface \<open>row_decoder\<close>: cells that fit the type of their column
      and texts that are UTF-8. Under it a batch is refused only for a column type or a cell, and reads back the
      rows. Each backend interprets it.
    \<^item> \<open>MySql\<close> (\<open>my.rs\<close>), \<open>LibSql\<close> (\<open>ls.rs\<close>), \<open>PgServer\<close> (\<open>pg.rs\<close>), \<open>MsServer\<close> (\<open>ms.rs\<close>): connecting, statements,
      bound values and rows; each gives a \<open>server\<close> record for the client. A driver crate is a record of its calls.
    \<^item> \<open>MyProofs\<close>: both protocols of MySQL give the same batch, and what a client answers decodes to the values
      the server sent; \<open>sent_value\<close> says what a cell means without the code's decoder.
      \<open>ServerProofs\<close>: transaction statements, integers for narrow slots of Postgres, and URLs.

  The object-relational layer (\<open>orm.rs\<close>).
    \<^item> \<open>Json\<close>: JSON values; reading and printing text is an argument (\<open>json_lib\<close>).
    \<^item> \<open>OrmSchema\<close>, \<open>OrmWhere\<close>, \<open>OrmExec\<close>, \<open>OrmFind\<close>: the schema with derived relations, the where compiler,
      every mutation and every reading operation, run against a client given as a record of functions.
    \<^item> \<open>OrmSafety\<close>, \<open>OrmCalls\<close>: every statement has as many placeholders as values and passes the guard; the
      argument compares the client with one that fails on any other statement.
    \<^item> \<open>OrmCond\<close>: the text of a where clause, read with the precedences of SQL. \<open>OrmMeaning\<close>: it is the condition
      the documentation gives the JSON object (\<open>where_meaning\<close>); objects outside the documented language
      have none. \<open>OrmCreate\<close>: createMany inserts the rows in groups; \<open>bind_limit\<close> is what each database
      documents. \<open>OrmRelations\<close>: what reading a schema guarantees.

  The command line (\<open>powder-cli\<close>).
    \<^item> \<open>CliSchema\<close>, \<open>CliSchemaProofs\<close>, \<open>CliSchemaWf\<close> (\<open>schema.rs\<close>): reading and checking the schema, named
      queries, dependency order; \<open>serde\<close> is an argument.
    \<^item> \<open>Dialect\<close> (\<open>dialect.rs\<close>): CREATE TABLE and ADD COLUMN for four dialects.
    \<^item> \<open>CliDb\<close>, \<open>Migrate\<close> (\<open>db.rs\<close>): introspection, migration, dry run, rebuild, validation, seeding; the
      drivers are a record of functions on the state of the connection.
    \<^item> \<open>MigrateProofs\<close>: a dry run lists what the tables lack, and the migration runs that list, on any
      database that reports the tables of the schema and keeps them apart (\<open>reports\<close>, \<open>isolated\<close>).
      \<open>Rebuild\<close>: the log of a rebuild, for any database, and what its statements do to the rows.
      \<open>Validate\<close>: validation is exact; \<open>in_sync\<close> states agreement without the checks of the code.
    \<^item> \<open>Codegen\<close> (\<open>codegen.rs\<close>): the relations of the generated models are those of the run-time layer.

  Inspection and the studio.
    \<^item> \<open>Inspect\<close>, \<open>InspectProofs\<close> (\<open>inspect.rs\<close>): the engine handle, the catalogue queries, values and JSON rows: the
      rows hold the cells the readers return, foreign keys are grouped by name.
    \<^item> \<open>Studio\<close> (\<open>studio.rs\<close>): tokens, modes and every request handler, over a client and a random source.
      \<open>StudioProofs\<close>: a viewer runs nothing but catalogue queries and pages; the argument, in the locale
      \<open>statement_filter\<close>, compares the client with one that refuses other statements. \<open>StudioEdits\<close>: every statement
      composed has as many placeholders as values. \<open>StudioTokens\<close>: one token is the administrator's, over any
      sequence of requests. \<open>Requests\<close>: query strings and percent escapes, and the URL shown.
    \<^item> \<open>Ai\<close> (\<open>ai.rs\<close>): the configuration, the prompt and the SQL taken from an answer. \<open>Gate\<close>: the admission gate as
      a step relation on its queue: first in, first out, never above its bound, and everyone is served.

  Bounds and fuel. No definition uses fuel: every loop is a recursion with a termination proof, on the
  text or list that is left, on the names still taken (\<open>claim\<close>), or on the tables not yet placed
  (\<open>place_all\<close>). Word arithmetic wraps as in the release build of the code.

  Not modelled. The driver crates of the databases and SQLite itself, which are arguments; threads beyond the
  orders in which their results, writes and steps can arrive, and the poisoning of a mutex; memory exhaustion.
  On the command line, opening a connection from a URL, the templates of the code generator and the console
  commands (\<open>cli.rs\<close>, \<open>tools.rs\<close>, \<open>bundle.rs\<close>), which are console output and file access around the operations
  above; in the studio, the loop that reads HTTP from a socket and the embedded page; and the language bindings,
  which marshal pointers over the same client calls.
\<close>

end
